(* ===== verification/Prelude.thy ===== *)
theory Prelude
  imports Main "HOL-Library.Word" "HOL-Library.Monad_Syntax"
begin

text \<open>
  Shared vocabulary of the development: the machine types of the Go sources, Go slices, the
  big-endian reading of byte strings, and the lemma collections the component theories extend.

  Conventions used everywhere:
  \<^item> a Go run-time panic (index or slice out of range, explicit \<open>panic\<close>, nil dereference) is the
    value \<open>None\<close> of an \<open>option\<close>; functions with a fuel argument also return \<open>None\<close> when the
    fuel runs out;
  \<^item> a Go \<open>error\<close> result is an \<open>option\<close> over an error datatype, \<open>None\<close> standing for \<open>nil\<close>;
  \<^item> \<open>uint64\<close> is \<open>64 word\<close>, with Go's wrap-around; \<open>*big.Int\<close> is \<open>int\<close>;
  \<^item> a nil slice and an empty slice are both \<open>[]\<close>.
\<close>

named_theorems slice_simps \<open>evaluation and bounds of Go slices\<close>
named_theorems gas_simps \<open>64-bit gas arithmetic, read as natural numbers\<close>

type_synonym byte = "8 word"
type_synonym bytes = "8 word list"
type_synonym u64 = "64 word"
type_synonym hash = "256 word"
type_synonym address = "160 word"

section \<open>Go slices\<close>

text \<open>\<open>s[i:j]\<close>. Slicing between the length and the capacity of the backing array, which Go
  permits, counts as out of range here.\<close>

definition slice :: "'a list \<Rightarrow> nat \<Rightarrow> nat \<Rightarrow> 'a list option" where
  "slice xs i j = (if i \<le> j \<and> j \<le> length xs then Some (take (j - i) (drop i xs)) else None)"

text \<open>\<open>copy(dst[off:], src)\<close>: overwrites as much as fits.\<close>

definition copy_at :: "'a list \<Rightarrow> nat \<Rightarrow> 'a list \<Rightarrow> 'a list" where
  "copy_at dst off src =
     take off dst @ take (length dst - off) src @ drop (off + length src) dst"

text \<open>Indexing \<open>s[i]\<close>.\<close>

definition index :: "'a list \<Rightarrow> nat \<Rightarrow> 'a option" where
  "index xs i = (if i < length xs then Some (xs ! i) else None)"

lemma slice_Some [slice_simps]:
  "i \<le> j \<Longrightarrow> j \<le> length xs \<Longrightarrow> slice xs i j = Some (take (j - i) (drop i xs))"
  by (simp add: slice_def)

lemma slice_length [slice_simps]: "slice xs i j = Some ys \<Longrightarrow> length ys = j - i"
  by (auto simp: slice_def split: if_splits)

lemma slice_all [slice_simps]: "slice xs 0 (length xs) = Some xs"
  by (simp add: slice_def)

lemma length_copy_at [simp]: "off \<le> length dst \<Longrightarrow> length (copy_at dst off src) = length dst"
  by (auto simp: copy_at_def)

lemma copy_at_Nil [simp]: "copy_at dst off [] = dst"
  by (simp add: copy_at_def)

lemma nth_copy_at:
  assumes "i < length dst" and "off \<le> length dst"
  shows "copy_at dst off src ! i =
    (if off \<le> i \<and> i < off + length src then src ! (i - off) else dst ! i)"
proof -
  have "length (take (length dst - off) src) = min (length dst - off) (length src)" by simp
  then show ?thesis
    using assms by (auto simp: copy_at_def nth_append min_def)
qed

lemma index_Some [slice_simps]: "i < length xs \<Longrightarrow> index xs i = Some (xs ! i)"
  by (simp add: index_def)

text \<open>A slice the Go runtime can hold: its length is a non-negative \<open>int\<close>.\<close>

definition slice_ok :: "'a list \<Rightarrow> bool" where
  "slice_ok xs \<longleftrightarrow> length xs < 2 ^ 63"

lemma slice_ok_Nil [simp, intro]: "slice_ok []"
  by (simp add: slice_ok_def)

lemma slice_okD: "slice_ok xs \<Longrightarrow> length xs < 2 ^ 63"
  by (simp add: slice_ok_def)

section \<open>Big-endian bytes\<close>

text \<open>\<open>SetBytes\<close>: the number a byte string stands for, most significant byte first.\<close>

definition be_nat :: "bytes \<Rightarrow> nat" where
  "be_nat bs = foldl (\<lambda>n b. n * 256 + unat b) 0 bs"

text \<open>\<open>Bytes\<close>: the shortest big-endian representation, empty for zero.\<close>

fun nat_be :: "nat \<Rightarrow> bytes" where
  "nat_be n = (if n = 0 then [] else nat_be (n div 256) @ [of_nat (n mod 256)])"

declare nat_be.simps [simp del]

lemma unat_of_nat_byte [simp]: "unat (of_nat (n mod 256) :: byte) = n mod 256"
  by (simp add: unat_of_nat)

lemma be_nat_Nil [simp]: "be_nat [] = 0"
  by (simp add: be_nat_def)

lemma be_nat_snoc [simp]: "be_nat (bs @ [b]) = be_nat bs * 256 + unat b"
  by (simp add: be_nat_def)

lemma unat_byte_less [simp]: "unat (b :: byte) < 256"
  using unsigned_less [of b] by simp

lemma unat_byte_le [simp]: "unat (b :: byte) \<le> 255"
  using unat_byte_less [of b] by linarith

lemma be_nat_append: "be_nat (xs @ ys) = be_nat xs * 256 ^ length ys + be_nat ys"
proof (induction ys rule: rev_induct)
  case (snoc y ys)
  have "be_nat (xs @ ys @ [y]) = be_nat (xs @ ys) * 256 + unat y"
    using be_nat_snoc [of "xs @ ys" y] by simp
  then show ?case using snoc by (simp add: algebra_simps)
qed simp

lemma be_nat_Cons: "be_nat (b # bs) = unat b * 256 ^ length bs + be_nat bs"
proof -
  have "be_nat [b] = unat b" by (simp add: be_nat_def)
  then show ?thesis using be_nat_append [of "[b]" bs] by simp
qed

lemma be_nat_bound: "be_nat bs < 256 ^ length bs"
proof (induction bs)
  case (Cons b bs)
  have "unat b * 256 ^ length bs + be_nat bs < unat b * 256 ^ length bs + 256 ^ length bs"
    using Cons by simp
  also have "\<dots> = (unat b + 1) * 256 ^ length bs" by simp
  also have "\<dots> \<le> 256 * 256 ^ length bs"
    using unat_byte_le [of b] by (intro mult_right_mono) linarith+
  finally show ?case by (simp add: be_nat_Cons)
qed simp

lemma be_nat_replicate_zero [simp]: "be_nat (replicate n 0 @ bs) = be_nat bs"
  by (induction n) (simp_all add: be_nat_Cons)

lemma be_nat_nat_be [simp]: "be_nat (nat_be n) = n"
proof (induction n rule: nat_be.induct)
  case (1 n)
  then show ?case by (subst nat_be.simps) simp
qed

lemma nat_be_0 [simp]: "nat_be 0 = []"
  by (simp add: nat_be.simps)

lemma nat_be_eq_Nil [simp]: "nat_be n = [] \<longleftrightarrow> n = 0"
  by (subst nat_be.simps) simp

lemma nat_be_length_le: "n < 256 ^ k \<Longrightarrow> length (nat_be n) \<le> k"
proof (induction n arbitrary: k rule: nat_be.induct)
  case (1 n)
  show ?case
  proof (cases "n = 0")
    case False
    with "1.prems" obtain j where k: "k = Suc j" by (cases k) auto
    with "1.prems" have "n div 256 < 256 ^ j" by (simp add: less_mult_imp_div_less mult.commute)
    then have "length (nat_be (n div 256)) \<le> j" by (rule "1.IH" [OF False])
    then show ?thesis using False k by (subst nat_be.simps) simp
  qed simp
qed

lemma nat_be_hd_nonzero: "n \<noteq> 0 \<Longrightarrow> hd (nat_be n) \<noteq> 0"
proof (induction n rule: nat_be.induct)
  case (1 n)
  show ?case
  proof (cases "n div 256 = 0")
    case True
    then have n: "n < 256" by simp
    then have "unat (of_nat n :: byte) = n" using unat_of_nat_byte [of n] by simp
    moreover have "nat_be n = [of_nat n]" using True n "1.prems" by (subst nat_be.simps) simp
    ultimately show ?thesis using "1.prems" by (auto simp: unat_eq_zero)
  next
    case False
    then have "nat_be (n div 256) \<noteq> []" by simp
    then show ?thesis using "1.IH" "1.prems" False by (subst nat_be.simps) simp
  qed
qed

text \<open>A byte string without a leading zero is the shortest representation of its value.\<close>

lemma nat_be_be_nat: "bs = [] \<or> hd bs \<noteq> 0 \<Longrightarrow> nat_be (be_nat bs) = bs"
proof (induction bs rule: rev_induct)
  case (snoc b bs)
  have "be_nat (bs @ [b]) \<noteq> 0"
  proof (cases bs)
    case Nil
    with snoc.prems show ?thesis by (simp add: be_nat_Cons unat_gt_0)
  next
    case (Cons c cs)
    with snoc.prems have "0 < unat c" by (simp add: unat_gt_0)
    with Cons show ?thesis by (simp add: be_nat_Cons be_nat_append)
  qed
  moreover have "nat_be (be_nat bs) = bs" using snoc by (cases bs) auto
  moreover have "(be_nat bs * 256 + unat b) div 256 = be_nat bs"
    using unat_byte_less [of b] by simp
  moreover have "(be_nat bs * 256 + unat b) mod 256 = unat b"
    using unat_byte_less [of b] by (simp add: mod_simps)
  ultimately show ?case by (subst nat_be.simps) simp
qed simp

lemma be_nat_Cons_div: "be_nat (b # bs) div 256 ^ length bs = unat b"
  using be_nat_bound [of bs] by (simp add: be_nat_Cons)

lemma be_nat_inj: "length xs = length ys \<Longrightarrow> be_nat xs = be_nat ys \<Longrightarrow> xs = ys"
proof (induction xs ys rule: list_induct2)
  case (Cons x xs y ys)
  have "unat x = unat y"
    using Cons.prems Cons.hyps be_nat_Cons_div [of x xs] be_nat_Cons_div [of y ys] by simp
  then show ?case using Cons by (simp add: be_nat_Cons word_unat_eq_iff)
qed simp

section \<open>64-bit words read as numbers\<close>

lemma unat_u64_less [simp]: "unat (x :: u64) < 18446744073709551616"
  using unsigned_less [of x] by simp

lemma u64_le_unat [gas_simps]: "(a :: u64) \<le> b \<longleftrightarrow> unat a \<le> unat b"
  by (simp add: word_le_nat_alt)

lemma u64_less_unat [gas_simps]: "(a :: u64) < b \<longleftrightarrow> unat a < unat b"
  by (simp add: word_less_nat_alt)

lemma u64_sub_unat [gas_simps]: "unat b \<le> unat a \<Longrightarrow> unat (a - b :: u64) = unat a - unat b"
  by (simp add: unat_sub word_le_nat_alt)

lemma u64_add_unat [gas_simps]:
  "unat a + unat b < 18446744073709551616 \<Longrightarrow> unat (a + b :: u64) = unat a + unat b"
  using unat_add_lem [of a b] by simp

lemma u64_mult_unat [gas_simps]:
  "unat a * unat b < 18446744073709551616 \<Longrightarrow> unat (a * b :: u64) = unat a * unat b"
  using unat_mult_lem [of a b] by simp

lemma u64_of_nat_unat [gas_simps]:
  "n < 18446744073709551616 \<Longrightarrow> unat (of_nat n :: u64) = n"
  by (simp add: unat_of_nat)

lemma u64_div_unat [gas_simps]: "unat (a div b :: u64) = unat a div unat b"
  by (rule unat_div)

end
