(* ===== verification/BigInt.thy ===== *)
theory BigInt
  imports Prelude
begin

text \<open>
  Integers: the part of \<open>math/big\<close> the sources use, \<open>common/math\<close> (\<open>big.go\<close>, \<open>integer.go\<close>)
  and the byte, hash and address conversions of \<open>common\<close> (\<open>bytes.go\<close>, \<open>types.go\<close>).
  \<open>common.Hash\<close> and \<open>common.Address\<close>, 32 and 20 byte arrays, are the words of 256 and 160 bits
  with the same big-endian bytes. A \<open>big.Word\<close> has 64 bits.
\<close>

section \<open>math/big\<close>

fun bitlen :: "nat \<Rightarrow> nat" where
  "bitlen n = (if n = 0 then 0 else Suc (bitlen (n div 2)))"

declare bitlen.simps [simp del]

definition BitLen :: "int \<Rightarrow> nat" where
  "BitLen x = bitlen (nat \<bar>x\<bar>)"

definition Uint64 :: "int \<Rightarrow> u64" where
  "Uint64 x = of_int \<bar>x\<bar>"

definition Int64 :: "int \<Rightarrow> int" where
  "Int64 x = (let v = of_int \<bar>x\<bar> :: u64 in sint (if x < 0 then - v else v))"

definition SetBytes :: "bytes \<Rightarrow> int" where
  "SetBytes bs = int (be_nat bs)"

definition Bytes :: "int \<Rightarrow> bytes" where
  "Bytes x = nat_be (nat \<bar>x\<bar>)"

text \<open>\<open>x.Bits()\<close>: the little-endian machine words of the absolute value.\<close>

fun words64 :: "nat \<Rightarrow> u64 list" where
  "words64 n = (if n = 0 then [] else of_nat (n mod 2 ^ 64) # words64 (n div 2 ^ 64))"

declare words64.simps [simp del]

definition Bits :: "int \<Rightarrow> u64 list" where
  "Bits x = words64 (nat \<bar>x\<bar>)"

lemma bitlen_le_iff: "bitlen n \<le> k \<longleftrightarrow> n < 2 ^ k"
proof (induction n arbitrary: k rule: bitlen.induct)
  case (1 n)
  show ?case
  proof (cases "n = 0")
    case True
    then show ?thesis by (simp add: bitlen.simps)
  next
    case False
    show ?thesis
    proof (cases k)
      case 0
      with False show ?thesis by (subst bitlen.simps) simp
    next
      case (Suc j)
      have "bitlen (n div 2) \<le> j \<longleftrightarrow> n div 2 < 2 ^ j" by (rule "1.IH" [OF False])
      moreover have "n div 2 < 2 ^ j \<longleftrightarrow> n < 2 ^ Suc j" by auto
      ultimately show ?thesis using False Suc by (subst bitlen.simps) simp
    qed
  qed
qed

lemma BitLen_le_iff: "0 \<le> x \<Longrightarrow> BitLen x \<le> k \<longleftrightarrow> x < 2 ^ k"
  by (simp add: BitLen_def bitlen_le_iff nat_less_iff)

lemma BitLen_gt_64: "0 \<le> x \<Longrightarrow> 64 < BitLen x \<longleftrightarrow> 18446744073709551616 \<le> x"
  using BitLen_le_iff [of x 64] by auto

lemma BitLen_pos: "0 < BitLen x \<longleftrightarrow> x \<noteq> 0"
  by (subst BitLen_def, subst bitlen.simps) simp

lemma unat_Uint64: "0 \<le> x \<Longrightarrow> x < 18446744073709551616 \<Longrightarrow> unat (Uint64 x) = nat x"
  by (simp add: Uint64_def unat_eq_nat_uint uint_word_of_int)

lemma Int64_small: "0 \<le> x \<Longrightarrow> x < 9223372036854775808 \<Longrightarrow> Int64 x = x"
  by (simp add: Int64_def Let_def signed_of_int signed_take_bit_int_eq_self)

lemma SetBytes_nonneg [simp]: "0 \<le> SetBytes bs"
  by (simp add: SetBytes_def)

lemma SetBytes_less: "SetBytes bs < 256 ^ length bs"
  using be_nat_bound [of bs] by (simp add: SetBytes_def flip: of_nat_power_less_of_nat_cancel_iff)

lemma SetBytes_Bytes: "0 \<le> x \<Longrightarrow> SetBytes (Bytes x) = x"
  by (simp add: SetBytes_def Bytes_def)

section \<open>common/math\<close>

definition tt255 :: int where "tt255 = 2 ^ 255"
definition tt256 :: int where "tt256 = 2 ^ 256"
definition tt256m1 :: int where "tt256m1 = tt256 - 1"

definition BigPow :: "int \<Rightarrow> nat \<Rightarrow> int" where
  "BigPow a b = a ^ b"

definition BigMax :: "int \<Rightarrow> int \<Rightarrow> int" where
  "BigMax x y = (if x < y then y else x)"

definition BigMin :: "int \<Rightarrow> int \<Rightarrow> int" where
  "BigMin x y = (if y < x then y else x)"

fun firstBitFrom :: "int \<Rightarrow> nat \<Rightarrow> nat \<Rightarrow> nat" where
  "firstBitFrom v i 0 = BitLen v"
| "firstBitFrom v i (Suc k) = (if bit v i then i else firstBitFrom v (Suc i) k)"

definition FirstBitSet :: "int \<Rightarrow> nat" where
  "FirstBitSet v = firstBitFrom v 0 (BitLen v)"

definition U256 :: "int \<Rightarrow> int" where
  "U256 x = and x tt256m1"

definition S256 :: "int \<Rightarrow> int" where
  "S256 x = (if x < tt255 then x else x - tt256)"

text \<open>
  \<open>Exp\<close>: square and multiply over the bits of the exponent's machine words. The source squares
  \<open>base\<close> in place, so the model returns the final value of \<open>base\<close> beside the result.
\<close>

fun expBits :: "nat \<Rightarrow> u64 \<Rightarrow> int \<Rightarrow> int \<Rightarrow> int \<times> int" where
  "expBits 0 word result base = (result, base)"
| "expBits (Suc i) word result base =
     expBits i (drop_bit 1 word)
       (if and word 1 = 1 then U256 (result * base) else result) (U256 (base * base))"

fun expWords :: "u64 list \<Rightarrow> int \<Rightarrow> int \<Rightarrow> int \<times> int" where
  "expWords [] result base = (result, base)"
| "expWords (w # ws) result base =
     (case expBits 64 w result base of (r, b) \<Rightarrow> expWords ws r b)"

definition Exp :: "int \<Rightarrow> int \<Rightarrow> int \<times> int" where
  "Exp base exponent = expWords (Bits exponent) 1 base"

text \<open>\<open>ReadBits\<close> fills the buffer from its end, low byte of the low word first. The buffer is
  given and returned as the part already written and the number of free cells before it.\<close>

fun readWord :: "nat \<Rightarrow> u64 \<Rightarrow> nat \<Rightarrow> bytes \<Rightarrow> nat \<times> bytes" where
  "readWord 0 d i out = (i, out)"
| "readWord (Suc j) d i out =
     (if 0 < i then readWord j (drop_bit 8 d) (i - 1) (ucast d # out) else (i, out))"

fun readWords :: "u64 list \<Rightarrow> nat \<Rightarrow> bytes \<Rightarrow> nat \<times> bytes" where
  "readWords [] i out = (i, out)"
| "readWords (d # ds) i out = (case readWord 8 d i out of (i', out') \<Rightarrow> readWords ds i' out')"

definition ReadBits :: "int \<Rightarrow> bytes \<Rightarrow> bytes" where
  "ReadBits bigint buf =
     (case readWords (Bits bigint) (length buf) [] of (i, out) \<Rightarrow> take i buf @ out)"

definition PaddedBigBytes :: "int \<Rightarrow> nat \<Rightarrow> bytes" where
  "PaddedBigBytes bigint n =
     (if n \<le> BitLen bigint div 8 then Bytes bigint else ReadBits bigint (replicate n 0))"

definition bigEndianByteAt :: "int \<Rightarrow> nat \<Rightarrow> byte" where
  "bigEndianByteAt bigint n =
     (let words = Bits bigint; i = n div 8 in
      if length words \<le> i then 0 else ucast (drop_bit (8 * (n mod 8)) (words ! i)))"

definition Byte :: "int \<Rightarrow> nat \<Rightarrow> nat \<Rightarrow> byte" where
  "Byte bigint padlength n =
     (if padlength \<le> n then 0 else bigEndianByteAt bigint (padlength - 1 - n))"

definition MaxUint64 :: u64 where "MaxUint64 = 0xffffffffffffffff"

definition SafeSub :: "u64 \<Rightarrow> u64 \<Rightarrow> u64 \<times> bool" where
  "SafeSub x y = (x - y, x < y)"

definition SafeAdd :: "u64 \<Rightarrow> u64 \<Rightarrow> u64 \<times> bool" where
  "SafeAdd x y = (x + y, MaxUint64 - x < y)"

definition SafeMul :: "u64 \<Rightarrow> u64 \<Rightarrow> u64 \<times> bool" where
  "SafeMul x y = (if x = 0 \<or> y = 0 then (0, False) else (x * y, MaxUint64 div x < y))"

section \<open>common: byte strings, hashes, addresses\<close>

definition RightPadBytes :: "bytes \<Rightarrow> int \<Rightarrow> bytes" where
  "RightPadBytes s l =
     (if l \<le> int (length s) then s else copy_at (replicate (nat l) 0) 0 s)"

definition LeftPadBytes :: "bytes \<Rightarrow> int \<Rightarrow> bytes" where
  "LeftPadBytes s l =
     (if l \<le> int (length s) then s else copy_at (replicate (nat l) 0) (nat l - length s) s)"

definition BytesToHash :: "bytes \<Rightarrow> hash" where
  "BytesToHash b =
     of_nat (be_nat (if 32 < length b then drop (length b - 32) b else b))"

definition BigToHash :: "int \<Rightarrow> hash" where
  "BigToHash b = BytesToHash (Bytes b)"

definition HashBig :: "hash \<Rightarrow> int" where
  "HashBig h = uint h"

definition HashBytes :: "hash \<Rightarrow> bytes" where
  "HashBytes h = LeftPadBytes (nat_be (unat h)) 32"

definition EmptyHash :: "hash \<Rightarrow> bool" where
  "EmptyHash h \<longleftrightarrow> h = 0"

definition BytesToAddress :: "bytes \<Rightarrow> address" where
  "BytesToAddress b =
     of_nat (be_nat (if 20 < length b then drop (length b - 20) b else b))"

definition BigToAddress :: "int \<Rightarrow> address" where
  "BigToAddress b = BytesToAddress (Bytes b)"

definition AddressBig :: "address \<Rightarrow> int" where
  "AddressBig a = uint a"

definition AddressBytes :: "address \<Rightarrow> bytes" where
  "AddressBytes a = LeftPadBytes (nat_be (unat a)) 20"

section \<open>Truncation to 256 bits\<close>

lemma tt256_mask: "tt256m1 = mask 256"
  by (simp add: tt256m1_def tt256_def mask_eq_exp_minus_1)

lemma U256_mod: "U256 x = x mod tt256"
  by (simp add: U256_def tt256_mask flip: take_bit_eq_mask) (simp add: take_bit_eq_mod tt256_def)

lemma tt256_pos [simp]: "0 < tt256"
  by (simp add: tt256_def)

definition in256 :: "int \<Rightarrow> bool" where
  "in256 x \<longleftrightarrow> 0 \<le> x \<and> x < tt256"

lemma in256_U256 [simp, intro]: "in256 (U256 x)"
  by (simp add: in256_def U256_mod)

lemma U256_id: "in256 x \<Longrightarrow> U256 x = x"
  by (simp add: in256_def U256_mod)

lemma in256_nonneg: "in256 x \<Longrightarrow> 0 \<le> x"
  by (simp add: in256_def)

lemma in256_less: "in256 x \<Longrightarrow> x < 2 ^ 256"
  by (simp add: in256_def tt256_def)

lemma in256_small: "0 \<le> x \<Longrightarrow> x \<le> 18446744073709551616 \<Longrightarrow> in256 x"
  by (simp add: in256_def tt256_def)

lemma in256_uint: "in256 (uint (w :: hash))"
  using unsigned_less [of w, where 'a = int] by (simp add: in256_def tt256_def)

lemma uint_word_U256: "uint (of_int x :: hash) = U256 x"
  by (simp add: U256_mod uint_word_of_int tt256_def)

lemma of_int_U256 [simp]: "(of_int (U256 x) :: hash) = of_int x"
  by (simp flip: uint_word_U256)

lemma mod_shift_half:
  fixes c x :: int
  assumes "0 < c" and "c \<le> x" and "x < 2 * c"
  shows "(x + c) mod (2 * c) = x - c"
proof -
  have "(x + c) mod (2 * c) = (x + c - 2 * c) mod (2 * c)" by (simp only: minus_mod_self2)
  then show ?thesis using assms by simp
qed

lemma S256_sint: "in256 x \<Longrightarrow> S256 x = sint (of_int x :: hash)"
  using mod_shift_half [of tt255 x]
  by (auto simp: S256_def in256_def tt255_def tt256_def int_word_sint)

section \<open>Exponentiation by squaring\<close>

fun wordsVal :: "u64 list \<Rightarrow> nat" where
  "wordsVal [] = 0"
| "wordsVal (w # ws) = unat w + 2 ^ 64 * wordsVal ws"

lemma wordsVal_words64: "wordsVal (words64 n) = n"
proof (induction n rule: words64.induct)
  case (1 n)
  then show ?case
    by (subst words64.simps) (simp add: unat_of_nat)
qed

lemma unat_drop_bit_1: "unat (drop_bit 1 (w :: u64)) = unat w div 2"
  by (simp add: drop_bit_eq_div unat_div)

lemma odd_unat: "odd (unat w) \<longleftrightarrow> odd (w :: u64)"
  by (metis bit_0 bit_unsigned_iff possible_bit_0)

lemma and_one_odd: "and (w :: u64) 1 = 1 \<longleftrightarrow> odd (unat w)"
  by (simp only: and_one_eq odd_iff_mod_2_eq_one [symmetric] odd_unat)

lemma low_bits_Suc: "(n :: nat) mod 2 ^ Suc k = 2 * (n div 2 mod 2 ^ k) + n mod 2"
  by (metis add.commute mod_mult2_eq mult.commute power_Suc)

lemma expBits_cong:
  "expBits k w r b = (r', b') \<Longrightarrow>
     r' mod tt256 = r * b ^ (unat w mod 2 ^ k) mod tt256 \<and> b' mod tt256 = b ^ 2 ^ k mod tt256"
proof (induction k arbitrary: w r b)
  case 0
  then show ?case by simp
next
  case (Suc k)
  let ?r1 = "if odd (unat w) then U256 (r * b) else r"
  let ?e = "unat w div 2 mod 2 ^ k"
  have IH: "r' mod tt256 = ?r1 * U256 (b * b) ^ ?e mod tt256"
      "b' mod tt256 = U256 (b * b) ^ 2 ^ k mod tt256"
    using Suc.IH [of "drop_bit 1 w" ?r1 "U256 (b * b)"] Suc.prems
    unfolding expBits.simps and_one_odd unat_drop_bit_1 by simp_all
  have sq: "U256 (b * b) ^ n mod tt256 = b ^ (2 * n) mod tt256" for n
    by (simp add: U256_mod power_mod power_mult power2_eq_square)
  have "r' mod tt256 = (?r1 mod tt256) * (b ^ (2 * ?e) mod tt256) mod tt256"
    using IH(1) sq [of ?e] by (metis mod_mult_eq)
  also have "\<dots> = r * b ^ (unat w mod 2) * b ^ (2 * ?e) mod tt256"
    by (cases "odd (unat w)") (auto simp: U256_mod mod_mult_eq mod_2_eq_odd)
  also have "\<dots> = r * b ^ (unat w mod 2 ^ Suc k) mod tt256"
    by (simp only: low_bits_Suc power_add mult.assoc mult.left_commute mult.commute)
  finally show ?case using IH(2) sq [of "2 ^ k"] by simp
qed

lemma expWords_cong:
  "expWords ws r b = (r', b') \<Longrightarrow> r' mod tt256 = r * b ^ wordsVal ws mod tt256"
proof (induction ws arbitrary: r b)
  case (Cons w ws)
  obtain r1 b1 where e: "expBits 64 w r b = (r1, b1)" by (cases "expBits 64 w r b")
  have m: "unat w mod 2 ^ 64 = unat w" using unsigned_less [of w, where 'a = nat] by simp
  have r1: "r1 mod tt256 = r * b ^ unat w mod tt256" and b1: "b1 mod tt256 = b ^ 2 ^ 64 mod tt256"
    using expBits_cong [OF e] unfolding m by simp_all
  have "r' mod tt256 = r1 * b1 ^ wordsVal ws mod tt256"
    using Cons e by simp
  also have "\<dots> = (r1 mod tt256) * ((b1 mod tt256) ^ wordsVal ws mod tt256) mod tt256"
    by (simp add: mod_mult_eq power_mod)
  also have "\<dots> = (r * b ^ unat w) * (b ^ 2 ^ 64) ^ wordsVal ws mod tt256"
    unfolding r1 b1 power_mod mod_mult_eq ..
  also have "\<dots> = r * b ^ (unat w + 2 ^ 64 * wordsVal ws) mod tt256"
    by (simp only: power_add power_mult mult.assoc)
  finally show ?case by simp
qed simp

lemma expBits_range: "expBits k w r b = (r', b') \<Longrightarrow> in256 r \<Longrightarrow> in256 r'"
  by (induction k arbitrary: w r b) (auto split: if_splits)

lemma expWords_range: "expWords ws r b = (r', b') \<Longrightarrow> in256 r \<Longrightarrow> in256 r'"
proof (induction ws arbitrary: r b)
  case (Cons w ws)
  obtain r1 b1 where e: "expBits 64 w r b = (r1, b1)" by (cases "expBits 64 w r b")
  with Cons show ?case by (auto dest: expBits_range)
qed simp

lemma Exp_result: "0 \<le> exponent \<Longrightarrow> fst (Exp base exponent) = U256 (base ^ nat exponent)"
proof -
  assume "0 \<le> exponent"
  obtain r b where e: "expWords (Bits exponent) 1 base = (r, b)" by (cases "expWords (Bits exponent) 1 base")
  have "in256 1" by (simp add: in256_def tt256_def)
  with e have "r mod tt256 = r" using expWords_range in256_def by auto
  moreover have "r mod tt256 = base ^ nat exponent mod tt256"
    using expWords_cong [OF e] \<open>0 \<le> exponent\<close> by (simp add: Bits_def wordsVal_words64)
  ultimately show ?thesis by (simp add: Exp_def e U256_mod)
qed

section \<open>Padding and fixed-width bytes\<close>

lemma length_RightPadBytes: "length (RightPadBytes s l) = max (length s) (nat l)"
  by (auto simp: RightPadBytes_def)

lemma length_LeftPadBytes: "length (LeftPadBytes s l) = max (length s) (nat l)"
  by (auto simp: LeftPadBytes_def)

lemma LeftPadBytes_eq:
  "int (length s) \<le> l \<Longrightarrow> LeftPadBytes s l = replicate (nat l - length s) 0 @ s"
  by (auto simp: LeftPadBytes_def copy_at_def)

lemma RightPadBytes_eq:
  "int (length s) \<le> l \<Longrightarrow> RightPadBytes s l = s @ replicate (nat l - length s) 0"
  by (auto simp: RightPadBytes_def copy_at_def)

lemma be_nat_LeftPadBytes [simp]: "be_nat (LeftPadBytes s l) = be_nat s"
proof (cases "int (length s) \<le> l")
  case True
  then show ?thesis by (simp only: LeftPadBytes_eq be_nat_replicate_zero)
qed (simp add: LeftPadBytes_def)

definition leBytes :: "nat \<Rightarrow> u64 \<Rightarrow> bytes" where
  "leBytes j d = map (\<lambda>k. ucast (drop_bit (8 * k) d)) [0..<j]"

lemma leBytes_Suc: "leBytes (Suc j) d = ucast d # leBytes j (drop_bit 8 d)"
proof -
  have "[0..<Suc j] = 0 # map Suc [0..<j]" by (metis map_Suc_upt upt_conv_Cons zero_less_Suc)
  then show ?thesis by (simp add: leBytes_def comp_def add.commute)
qed

lemma length_leBytes [simp]: "length (leBytes j d) = j"
  by (simp add: leBytes_def)

lemma readWord_eq:
  "readWord j d i out = (i - min i j, rev (take i (leBytes j d)) @ out)"
proof (induction j arbitrary: d i out)
  case (Suc j)
  then show ?case by (cases i) (simp_all add: leBytes_Suc)
qed (simp add: leBytes_def)

lemma readWords_eq:
  "readWords ws i out =
     (i - min i (8 * length ws), rev (take i (concat (map (leBytes 8) ws))) @ out)"
proof (induction ws arbitrary: i out)
  case (Cons w ws)
  then show ?case by (simp add: readWord_eq min_def)
qed simp

lemma unat_drop_bit_8: "unat (drop_bit 8 (d :: u64)) = unat d div 256"
  by (simp add: drop_bit_eq_div unat_div)

lemma unat_ucast_byte: "unat (ucast (d :: u64) :: byte) = unat d mod 256"
  by (simp add: unsigned_ucast_eq take_bit_eq_mod)

lemma leBytes_val: "be_nat (rev (leBytes j d)) = unat d mod 256 ^ j"
proof (induction j arbitrary: d)
  case (Suc j)
  then show ?case
    by (simp add: leBytes_Suc unat_drop_bit_8 unat_ucast_byte mod_mult2_eq)
qed (simp add: leBytes_def)

lemma be_nat_rev_append:
  "be_nat (rev (xs @ ys)) = be_nat (rev xs) + 256 ^ length xs * be_nat (rev ys)"
  by (simp add: be_nat_append)

lemma wordsVal_le: "be_nat (rev (concat (map (leBytes 8) ws))) = wordsVal ws"
proof (induction ws)
  case (Cons w ws)
  have "unat w mod 256 ^ 8 = unat w" using unsigned_less [of w, where 'a = nat] by simp
  then show ?case using Cons by (simp add: be_nat_rev_append leBytes_val del: rev_append)
qed simp

lemma be_nat_rev_take: "be_nat (rev (take i xs)) = be_nat (rev xs) mod 256 ^ i"
proof (cases "i \<le> length xs")
  case True
  have "be_nat (rev xs) = be_nat (rev (take i xs)) + 256 ^ i * be_nat (rev (drop i xs))"
    using be_nat_rev_append [of "take i xs" "drop i xs"] True by simp
  moreover have "be_nat (rev (take i xs)) < 256 ^ i"
    using be_nat_bound [of "rev (take i xs)"] True by simp
  ultimately show ?thesis by simp
next
  case False
  have "be_nat (rev xs) < 256 ^ length xs" using be_nat_bound [of "rev xs"] by simp
  also have "\<dots> \<le> 256 ^ i" using False by (intro power_increasing) auto
  finally show ?thesis using False by simp
qed

lemma length_leWords: "length (concat (map (leBytes 8) ws)) = 8 * length ws"
  by (induction ws) simp_all

lemma length_readWords_out:
  "readWords ws i [] = (j, out) \<Longrightarrow> j + length out = i"
  by (auto simp: readWords_eq length_leWords)

lemma ReadBits_zero:
  assumes "0 \<le> x"
  shows "length (ReadBits x (replicate n 0)) = n"
    and "be_nat (ReadBits x (replicate n 0)) = nat x mod 256 ^ n"
proof -
  obtain j out where r: "readWords (Bits x) n [] = (j, out)" by (cases "readWords (Bits x) n []")
  then have e: "ReadBits x (replicate n 0) = replicate j 0 @ out" and "j + length out = n"
    using length_readWords_out [OF r] by (auto simp: ReadBits_def)
  then show "length (ReadBits x (replicate n 0)) = n" by simp
  have "out = rev (take n (concat (map (leBytes 8) (Bits x))))" using r by (simp add: readWords_eq)
  then show "be_nat (ReadBits x (replicate n 0)) = nat x mod 256 ^ n"
    using assms by (simp add: e be_nat_rev_take wordsVal_le Bits_def wordsVal_words64)
qed

lemma length_nat_be: "length (nat_be n) = (bitlen n + 7) div 8"
proof (cases "n = 0")
  case False
  show ?thesis
  proof (rule antisym)
    have "n < 2 ^ bitlen n" using bitlen_le_iff [of n "bitlen n"] by simp
    also have "\<dots> \<le> 2 ^ (8 * ((bitlen n + 7) div 8))" by (intro power_increasing) auto
    also have "\<dots> = 256 ^ ((bitlen n + 7) div 8)" by (simp add: power_mult)
    finally show "length (nat_be n) \<le> (bitlen n + 7) div 8" by (rule nat_be_length_le)
    have "n < 256 ^ length (nat_be n)" using be_nat_bound [of "nat_be n"] by simp
    then have "bitlen n \<le> 8 * length (nat_be n)" by (simp add: bitlen_le_iff power_mult)
    then show "(bitlen n + 7) div 8 \<le> length (nat_be n)" by simp
  qed
qed (simp add: bitlen.simps)

lemma PaddedBigBytes_eq:
  assumes "0 \<le> x" and "x < 256 ^ n"
  shows "PaddedBigBytes x n = LeftPadBytes (Bytes x) (int n)"
proof -
  have nx: "nat x < 256 ^ n" using assms by (simp add: nat_less_iff)
  have len: "length (Bytes x) \<le> n" using nx assms by (simp add: Bytes_def nat_be_length_le)
  show ?thesis
  proof (cases "n \<le> BitLen x div 8")
    case True
    then have "n \<le> length (Bytes x)" by (simp add: Bytes_def length_nat_be BitLen_def)
    with len show ?thesis using True by (simp add: PaddedBigBytes_def LeftPadBytes_def)
  next
    case False
    have "length (LeftPadBytes (Bytes x) (int n)) = n" using len by (simp add: length_LeftPadBytes)
    moreover have "be_nat (LeftPadBytes (Bytes x) (int n)) = nat x" using assms by (simp add: Bytes_def)
    ultimately have "ReadBits x (replicate n 0) = LeftPadBytes (Bytes x) (int n)"
      using ReadBits_zero [OF assms(1)] nx by (intro be_nat_inj) simp_all
    then show ?thesis using False by (simp add: PaddedBigBytes_def)
  qed
qed

lemma words64_nth:
  "i < length (words64 n) \<Longrightarrow> unat (words64 n ! i) = n div (2 ^ 64) ^ i mod 2 ^ 64"
proof (induction n arbitrary: i rule: words64.induct)
  case (1 n)
  show ?case
  proof (cases "n = 0")
    case True
    with "1.prems" show ?thesis by (simp add: words64.simps)
  next
    case False
    show ?thesis
    proof (cases i)
      case 0
      then show ?thesis using False by (subst words64.simps) (simp add: unat_of_nat)
    next
      case (Suc k)
      have "k < length (words64 (n div 2 ^ 64))"
        using "1.prems" False Suc by (subst (asm) words64.simps) simp
      from "1.IH" [OF False this] show ?thesis
        using False Suc by (subst words64.simps) (simp add: div_mult2_eq)
    qed
  qed
qed

lemma words64_beyond: "length (words64 n) \<le> i \<Longrightarrow> n < (2 ^ 64) ^ i"
proof (induction n arbitrary: i rule: words64.induct)
  case (1 n)
  show ?case
  proof (cases "n = 0")
    case False
    then obtain k where k: "i = Suc k" "length (words64 (n div 2 ^ 64)) \<le> k"
      using "1.prems" by (subst (asm) words64.simps) (cases i; simp)
    from "1.IH" [OF False k(2)] have "n div 2 ^ 64 < (2 ^ 64) ^ k" .
    then have "n < (2 ^ 64) ^ k * 2 ^ 64" by (simp add: div_less_iff_less_mult)
    then show ?thesis using k by (simp add: mult.commute)
  qed simp
qed

lemma unat_drop_bit_bytes: "unat (drop_bit (8 * k) (w :: u64)) = unat w div 256 ^ k"
  by (simp only: unat_drop_bit_eq) (simp add: drop_bit_eq_div power_mult)

lemma div_mod_pow:
  fixes n :: nat
  assumes "k < 8"
  shows "n mod 2 ^ 64 div 256 ^ k mod 256 = n div 256 ^ k mod 256"
proof -
  have "(2::nat) ^ 64 = 256 ^ k * 256 ^ (8 - k)" using assms by (simp flip: power_add)
  then have "n mod 2 ^ 64 div 256 ^ k = n div 256 ^ k mod 256 ^ (8 - k)"
    by (simp only: mod_mult2_eq) simp
  moreover have "256 dvd (256 :: nat) ^ (8 - k)" using assms by (simp add: dvd_power)
  ultimately show ?thesis by (simp only: mod_mod_cancel)
qed

lemma bigEndianByteAt_eq: "unat (bigEndianByteAt x n) = nat \<bar>x\<bar> div 256 ^ n mod 256"
proof -
  let ?v = "nat \<bar>x\<bar>"
  have split: "(256 :: nat) ^ n = (2 ^ 64) ^ (n div 8) * 256 ^ (n mod 8)"
  proof -
    have "(256 :: nat) ^ n = 256 ^ (8 * (n div 8) + n mod 8)" by simp
    then show ?thesis by (simp only: power_add power_mult) simp
  qed
  show ?thesis
  proof (cases "length (words64 ?v) \<le> n div 8")
    case True
    then have "?v < (2 ^ 64) ^ (n div 8)" by (rule words64_beyond)
    then have "?v div 256 ^ n = 0" unfolding split by (simp add: div_mult2_eq)
    then show ?thesis using True by (simp add: bigEndianByteAt_def Bits_def Let_def)
  next
    case False
    then have "unat (words64 ?v ! (n div 8)) = ?v div (2 ^ 64) ^ (n div 8) mod 2 ^ 64"
      by (intro words64_nth) simp
    then have "unat (bigEndianByteAt x n) =
        (?v div (2 ^ 64) ^ (n div 8) mod 2 ^ 64) div 256 ^ (n mod 8) mod 256"
      using False by (simp add: bigEndianByteAt_def Bits_def Let_def unat_ucast_byte unat_drop_bit_bytes)
    also have "\<dots> = ?v div (2 ^ 64) ^ (n div 8) div 256 ^ (n mod 8) mod 256"
      by (rule div_mod_pow) simp
    finally show ?thesis by (simp only: split div_mult2_eq)
  qed
qed

text \<open>Hashes and addresses read back what was written into them.\<close>

lemma be_nat_drop: "k \<le> length b \<Longrightarrow> be_nat (drop (length b - k) b) = be_nat b mod 256 ^ k"
  using be_nat_rev_take [of k "rev b"] by (simp add: take_rev)

lemma BigToHash_eq: "0 \<le> x \<Longrightarrow> BigToHash x = of_int x"
proof -
  assume x: "0 \<le> x"
  let ?b = "Bytes x"
  have v: "be_nat ?b = nat x" using x by (simp add: Bytes_def)
  have "of_nat (nat x mod 256 ^ 32) = (of_nat (nat x) :: hash)"
    by (simp add: word_of_nat_eq_iff take_bit_eq_mod)
  then show ?thesis using x v be_nat_drop [of 32 ?b] by (simp add: BigToHash_def BytesToHash_def)
qed

lemma length_HashBytes: "length (HashBytes h) = 32"
proof -
  have "unat h < 256 ^ 32" using unsigned_less [of h, where 'a = nat] by simp
  then show ?thesis by (simp add: HashBytes_def length_LeftPadBytes nat_be_length_le max_absorb2)
qed

lemma BytesToHash_HashBytes [simp]: "BytesToHash (HashBytes h) = h"
proof -
  have "unat h < 256 ^ 32" using unsigned_less [of h, where 'a = nat] by simp
  then have "HashBytes h = replicate (32 - length (nat_be (unat h))) 0 @ nat_be (unat h)"
    by (simp add: HashBytes_def LeftPadBytes_eq nat_be_length_le)
  then have "be_nat (HashBytes h) = unat h" by simp
  then show ?thesis by (simp add: BytesToHash_def length_HashBytes)
qed

lemma HashBytes_inj [simp]: "HashBytes h = HashBytes h' \<longleftrightarrow> h = h'"
  by (metis BytesToHash_HashBytes)

lemma BigToAddress_eq: "0 \<le> x \<Longrightarrow> BigToAddress x = of_int x"
proof -
  assume x: "0 \<le> x"
  let ?b = "Bytes x"
  have v: "be_nat ?b = nat x" using x by (simp add: Bytes_def)
  have "of_nat (nat x mod 256 ^ 20) = (of_nat (nat x) :: address)"
    by (simp add: word_of_nat_eq_iff take_bit_eq_mod)
  then show ?thesis using x v be_nat_drop [of 20 ?b] by (simp add: BigToAddress_def BytesToAddress_def)
qed

lemma in256_HashBig [simp, intro]: "in256 (HashBig h)"
  by (simp add: HashBig_def in256_uint)

lemma in256_AddressBig [simp, intro]: "in256 (AddressBig a)"
  using unsigned_less [of a, where 'a = int] by (simp add: AddressBig_def in256_def tt256_def)

section \<open>Checked 64-bit arithmetic\<close>

lemma SafeAdd_eq: "SafeAdd x y = (z, False) \<longleftrightarrow> z = x + y \<and> unat x + unat y < 18446744073709551616"
proof -
  have "unat (MaxUint64 - x) = 18446744073709551615 - unat x"
    by (simp add: u64_sub_unat MaxUint64_def less_Suc_eq_le [symmetric])
  moreover have "unat x \<le> 18446744073709551615" using unat_u64_less [of x] by linarith
  ultimately have "\<not> MaxUint64 - x < y \<longleftrightarrow> unat x + unat y < 18446744073709551616"
    unfolding u64_less_unat by linarith
  then show ?thesis by (auto simp: SafeAdd_def)
qed

lemma SafeMul_eq: "SafeMul x y = (z, False) \<longleftrightarrow> z = x * y \<and> unat x * unat y < 18446744073709551616"
proof (cases "x = 0 \<or> y = 0")
  case True
  then show ?thesis by (auto simp: SafeMul_def)
next
  case False
  then have "0 < unat x" by (simp add: unat_gt_0)
  have "\<not> MaxUint64 div x < y \<longleftrightarrow> unat y \<le> 18446744073709551615 div unat x"
    by (simp add: u64_less_unat u64_div_unat MaxUint64_def not_less)
  also have "\<dots> \<longleftrightarrow> unat y * unat x \<le> 18446744073709551615"
    using \<open>0 < unat x\<close> by (rule less_eq_div_iff_mult_less_eq)
  finally show ?thesis using False by (auto simp: SafeMul_def mult.commute)
qed

lemma SafeSub_eq: "SafeSub x y = (z, False) \<longleftrightarrow> z = x - y \<and> unat y \<le> unat x"
  by (auto simp: SafeSub_def u64_less_unat)

end
