(* ===== verification/Params.thy ===== *)
theory Params
  imports BigInt
begin

text \<open>
  \<open>params\<close>: the protocol constants (\<open>protocol_params.go\<close>), the gas tables (\<open>gas_table.go\<close>) and
  the chain configuration with its fork rules (\<open>config.go\<close>). A block number that Go keeps as a
  possibly nil \<open>*big.Int\<close> is an \<open>int option\<close>.
\<close>

named_theorems params \<open>values of the protocol constants\<close>

section \<open>Protocol constants\<close>

definition CallValueTransferGas :: u64 where [params]: "CallValueTransferGas = 9000"
definition CallNewAccountGas :: u64 where [params]: "CallNewAccountGas = 25000"
definition TxGas :: u64 where [params]: "TxGas = 21000"
definition TxGasContractCreation :: u64 where [params]: "TxGasContractCreation = 53000"
definition TxDataZeroGas :: u64 where [params]: "TxDataZeroGas = 4"
definition TxDataNonZeroGas :: u64 where [params]: "TxDataNonZeroGas = 68"
definition QuadCoeffDiv :: u64 where [params]: "QuadCoeffDiv = 512"
definition MemoryGas :: u64 where [params]: "MemoryGas = 3"
definition SstoreSetGas :: u64 where [params]: "SstoreSetGas = 20000"
definition SstoreResetGas :: u64 where [params]: "SstoreResetGas = 5000"
definition SstoreClearGas :: u64 where [params]: "SstoreClearGas = 5000"
definition SstoreRefundGas :: u64 where [params]: "SstoreRefundGas = 15000"
definition SuicideRefundGas :: u64 where [params]: "SuicideRefundGas = 24000"
definition LogGas :: u64 where [params]: "LogGas = 375"
definition LogTopicGas :: u64 where [params]: "LogTopicGas = 375"
definition LogDataGas :: u64 where [params]: "LogDataGas = 8"
definition CallStipend :: u64 where [params]: "CallStipend = 2300"
definition Sha3Gas :: u64 where [params]: "Sha3Gas = 30"
definition Sha3WordGas :: u64 where [params]: "Sha3WordGas = 6"
definition JumpdestGas :: u64 where [params]: "JumpdestGas = 1"
definition CreateDataGas :: u64 where [params]: "CreateDataGas = 200"
definition CreateGas :: u64 where [params]: "CreateGas = 32000"
definition CopyGas :: u64 where [params]: "CopyGas = 3"
definition CallCreateDepth :: nat where [params]: "CallCreateDepth = 1024"
definition StackLimit :: nat where [params]: "StackLimit = 1024"
definition MaxCodeSize :: nat where [params]: "MaxCodeSize = 24576"

definition EcrecoverGas :: u64 where [params]: "EcrecoverGas = 3000"
definition Sha256BaseGas :: u64 where [params]: "Sha256BaseGas = 60"
definition Sha256PerWordGas :: u64 where [params]: "Sha256PerWordGas = 12"
definition Ripemd160BaseGas :: u64 where [params]: "Ripemd160BaseGas = 600"
definition Ripemd160PerWordGas :: u64 where [params]: "Ripemd160PerWordGas = 120"
definition IdentityBaseGas :: u64 where [params]: "IdentityBaseGas = 15"
definition IdentityPerWordGas :: u64 where [params]: "IdentityPerWordGas = 3"
definition ModExpQuadCoeffDiv :: u64 where [params]: "ModExpQuadCoeffDiv = 20"
definition Bn256AddGas :: u64 where [params]: "Bn256AddGas = 500"
definition Bn256ScalarMulGas :: u64 where [params]: "Bn256ScalarMulGas = 40000"
definition Bn256PairingBaseGas :: u64 where [params]: "Bn256PairingBaseGas = 100000"
definition Bn256PairingPerPointGas :: u64 where [params]: "Bn256PairingPerPointGas = 80000"


section \<open>Gas tables\<close>

record GasTable =
  ExtcodeSize :: u64
  ExtcodeCopy :: u64
  BalanceGas :: u64
  SLoad :: u64
  Calls :: u64
  SuicideGas :: u64
  ExpByte :: u64
  CreateBySuicide :: u64

definition GasTableHomestead :: GasTable where
  "GasTableHomestead = \<lparr>ExtcodeSize = 20, ExtcodeCopy = 20, BalanceGas = 20, SLoad = 50,
     Calls = 40, SuicideGas = 0, ExpByte = 10, CreateBySuicide = 0\<rparr>"

definition GasTableEIP150 :: GasTable where
  "GasTableEIP150 = \<lparr>ExtcodeSize = 700, ExtcodeCopy = 700, BalanceGas = 400, SLoad = 200,
     Calls = 700, SuicideGas = 5000, ExpByte = 10, CreateBySuicide = 25000\<rparr>"

definition GasTableEIP158 :: GasTable where
  "GasTableEIP158 = \<lparr>ExtcodeSize = 700, ExtcodeCopy = 700, BalanceGas = 400, SLoad = 200,
     Calls = 700, SuicideGas = 5000, ExpByte = 50, CreateBySuicide = 25000\<rparr>"

section \<open>Chain configuration\<close>

record ChainConfig =
  ChainId :: "int option"
  HomesteadBlock :: "int option"
  DAOForkBlock :: "int option"
  DAOForkSupport :: bool
  EIP150Block :: "int option"
  EIP155Block :: "int option"
  EIP158Block :: "int option"
  ByzantiumBlock :: "int option"
  ConstantinopleBlock :: "int option"

definition isForked :: "int option \<Rightarrow> int option \<Rightarrow> bool" where
  "isForked s head =
     (case s of None \<Rightarrow> False | Some s' \<Rightarrow> (case head of None \<Rightarrow> False | Some h \<Rightarrow> s' \<le> h))"

definition IsHomestead :: "ChainConfig \<Rightarrow> int \<Rightarrow> bool" where
  "IsHomestead c num = isForked (HomesteadBlock c) (Some num)"

definition IsDAOFork :: "ChainConfig \<Rightarrow> int \<Rightarrow> bool" where
  "IsDAOFork c num = isForked (DAOForkBlock c) (Some num)"

definition IsEIP150 :: "ChainConfig \<Rightarrow> int \<Rightarrow> bool" where
  "IsEIP150 c num = isForked (EIP150Block c) (Some num)"

definition IsEIP155 :: "ChainConfig \<Rightarrow> int \<Rightarrow> bool" where
  "IsEIP155 c num = isForked (EIP155Block c) (Some num)"

definition IsEIP158 :: "ChainConfig \<Rightarrow> int \<Rightarrow> bool" where
  "IsEIP158 c num = isForked (EIP158Block c) (Some num)"

definition IsByzantium :: "ChainConfig \<Rightarrow> int \<Rightarrow> bool" where
  "IsByzantium c num = isForked (ByzantiumBlock c) (Some num)"

definition IsConstantinople :: "ChainConfig \<Rightarrow> int \<Rightarrow> bool" where
  "IsConstantinople c num = isForked (ConstantinopleBlock c) (Some num)"

definition GasTableAt :: "ChainConfig \<Rightarrow> int option \<Rightarrow> GasTable" where
  "GasTableAt c num =
     (case num of None \<Rightarrow> GasTableHomestead
      | Some n \<Rightarrow> if IsEIP158 c n then GasTableEIP158
                  else if IsEIP150 c n then GasTableEIP150
                  else GasTableHomestead)"

section \<open>Configuration compatibility\<close>

record ConfigCompatError =
  What :: string
  StoredConfig :: "int option"
  NewConfig :: "int option"
  RewindTo :: u64

definition configNumEqual :: "int option \<Rightarrow> int option \<Rightarrow> bool" where
  "configNumEqual x y =
     (case x of None \<Rightarrow> y = None
      | Some a \<Rightarrow> (case y of None \<Rightarrow> False | Some b \<Rightarrow> a = b))"

definition isForkIncompatible :: "int option \<Rightarrow> int option \<Rightarrow> int \<Rightarrow> bool" where
  "isForkIncompatible s1 s2 head \<longleftrightarrow>
     (isForked s1 (Some head) \<or> isForked s2 (Some head)) \<and> \<not> configNumEqual s1 s2"

definition newCompatError :: "string \<Rightarrow> int option \<Rightarrow> int option \<Rightarrow> ConfigCompatError" where
  "newCompatError what storedblock newblock =
     (let rew = (case storedblock of None \<Rightarrow> newblock
                 | Some s \<Rightarrow> (case newblock of None \<Rightarrow> storedblock
                             | Some n \<Rightarrow> if s < n then storedblock else newblock))
      in \<lparr>What = what, StoredConfig = storedblock, NewConfig = newblock,
          RewindTo = (case rew of None \<Rightarrow> 0 | Some r \<Rightarrow> if 0 < r then Uint64 r - 1 else 0)\<rparr>)"

definition checkCompatible :: "ChainConfig \<Rightarrow> ChainConfig \<Rightarrow> int \<Rightarrow> ConfigCompatError option" where
  "checkCompatible c newcfg head =
     (if isForkIncompatible (HomesteadBlock c) (HomesteadBlock newcfg) head then
        Some (newCompatError ''Homestead fork block'' (HomesteadBlock c) (HomesteadBlock newcfg))
      else if isForkIncompatible (DAOForkBlock c) (DAOForkBlock newcfg) head then
        Some (newCompatError ''DAO fork block'' (DAOForkBlock c) (DAOForkBlock newcfg))
      else if IsDAOFork c head \<and> DAOForkSupport c \<noteq> DAOForkSupport newcfg then
        Some (newCompatError ''DAO fork support flag'' (DAOForkBlock c) (DAOForkBlock newcfg))
      else if isForkIncompatible (EIP150Block c) (EIP150Block newcfg) head then
        Some (newCompatError ''EIP150 fork block'' (EIP150Block c) (EIP150Block newcfg))
      else if isForkIncompatible (EIP155Block c) (EIP155Block newcfg) head then
        Some (newCompatError ''EIP155 fork block'' (EIP155Block c) (EIP155Block newcfg))
      else if isForkIncompatible (EIP158Block c) (EIP158Block newcfg) head then
        Some (newCompatError ''EIP158 fork block'' (EIP158Block c) (EIP158Block newcfg))
      else if IsEIP158 c head \<and> \<not> configNumEqual (ChainId c) (ChainId newcfg) then
        Some (newCompatError ''EIP158 chain ID'' (EIP158Block c) (EIP158Block newcfg))
      else if isForkIncompatible (ByzantiumBlock c) (ByzantiumBlock newcfg) head then
        Some (newCompatError ''Byzantium fork block'' (ByzantiumBlock c) (ByzantiumBlock newcfg))
      else if isForkIncompatible (ConstantinopleBlock c) (ConstantinopleBlock newcfg) head then
        Some (newCompatError ''Constantinople fork block'' (ConstantinopleBlock c) (ConstantinopleBlock newcfg))
      else None)"

record Rules =
  RulesChainId :: int
  RulesHomestead :: bool
  RulesEIP150 :: bool
  RulesEIP155 :: bool
  RulesEIP158 :: bool
  RulesByzantium :: bool

definition RulesAt :: "ChainConfig \<Rightarrow> int \<Rightarrow> Rules" where
  "RulesAt c num =
     \<lparr>RulesChainId = (case ChainId c of None \<Rightarrow> 0 | Some i \<Rightarrow> i), RulesHomestead = IsHomestead c num,
      RulesEIP150 = IsEIP150 c num, RulesEIP155 = IsEIP155 c num, RulesEIP158 = IsEIP158 c num,
      RulesByzantium = IsByzantium c num\<rparr>"

section \<open>Facts about the tables\<close>

lemma GasTableAt_cases:
  "GasTableAt c num = GasTableEIP158 \<or> GasTableAt c num = GasTableEIP150 \<or>
   GasTableAt c num = GasTableHomestead"
  by (simp add: GasTableAt_def split: option.split)

text \<open>What the interpreter relies on: every priced operation that can be repeated costs gas, and
  no table entry is large enough to make a sum of a few of them wrap around.\<close>

definition gasTable_ok :: "GasTable \<Rightarrow> bool" where
  "gasTable_ok gt \<longleftrightarrow>
     (\<forall>f \<in> {ExtcodeSize, ExtcodeCopy, BalanceGas, SLoad, Calls}. 0 < unat (f gt)) \<and>
     (\<forall>f \<in> {ExtcodeSize, ExtcodeCopy, BalanceGas, SLoad, Calls, SuicideGas, ExpByte, CreateBySuicide}.
        unat (f gt) \<le> 25000)"

lemma gasTable_ok_GasTableAt [simp, intro]: "gasTable_ok (GasTableAt c num)"
  using GasTableAt_cases [of c num]
  by (auto simp: gasTable_ok_def GasTableHomestead_def GasTableEIP150_def GasTableEIP158_def)

lemma gasTable_okD:
  assumes "gasTable_ok gt"
  shows "0 < unat (ExtcodeSize gt)" "0 < unat (ExtcodeCopy gt)" "0 < unat (BalanceGas gt)"
    "0 < unat (SLoad gt)" "0 < unat (Calls gt)" "unat (ExpByte gt) \<le> 25000" "unat (Calls gt) \<le> 25000"
    "unat (SuicideGas gt) \<le> 25000" "unat (CreateBySuicide gt) \<le> 25000"
    "unat (ExtcodeCopy gt) \<le> 25000"
  using assms by (auto simp: gasTable_ok_def)

end
