(* ===== verification/StateDB.thy ===== *)
theory StateDB
  imports Params
begin

text \<open>
  \<open>core/state\<close>: the journalled state database the virtual machine runs on
  (\<open>statedb.go\<close>, \<open>state_object.go\<close>, \<open>journal.go\<close>).

  Correspondence with the code:
  \<^item> a \<open>*stateObject\<close> is a value of the record \<open>stateObject\<close> held in the live map
    \<open>stateObjects\<close>; a method that mutates the object writes it back under its address;
  \<^item> the account trie and the storage tries are the finite maps they store, with the accounts and
    slot values already decoded; their root hash is the parameter \<open>trieRoot\<close>;
  \<^item> reads fill the caches as the code does, so a query returns the new database beside its value;
  \<^item> database reads do not fail: the memoized \<open>dbErr\<close> fields are left out;
  \<^item> the journal is kept newest entry first.
\<close>

section \<open>Data\<close>

text \<open>Functions outside the model: the Keccak hash, the Merkle root of a storage trie, and the
  address derived from a creator and its nonce (\<open>crypto.CreateAddress\<close>).\<close>

record externs =
  keccak256 :: "bytes \<Rightarrow> hash"
  trieRoot :: "(hash \<rightharpoonup> hash) \<Rightarrow> hash"
  createAddress :: "address \<Rightarrow> u64 \<Rightarrow> address"

record Account =
  Nonce :: u64
  Balance :: int
  Root :: hash
  CodeHash :: hash

type_synonym Storage = "hash \<rightharpoonup> hash"

record stateObject =
  objAddress :: address
  objData :: Account
  objTrie :: "Storage option"
  objCode :: bytes
  cachedStorage :: Storage
  dirtyStorage :: Storage
  dirtyCode :: bool
  suicided :: bool
  deleted :: bool

record Log =
  LogAddress :: address
  Topics :: "hash list"
  LogData :: bytes
  LogBlockNumber :: u64
  TxHash :: hash
  TxIndex :: nat
  BlockHash :: hash
  LogIndex :: nat

datatype journalEntry =
    createObjectChange address
  | resetObjectChange stateObject
  | suicideChange address bool int
  | balanceChange address int
  | nonceChange address u64
  | storageChange address hash hash
  | codeChange address bytes hash
  | refundChange u64
  | addLogChange hash
  | addPreimageChange hash
  | touchChange address

record journal =
  entries :: "journalEntry list"
  dirties :: "address \<rightharpoonup> int"

record Database =
  storageTries :: "hash \<Rightarrow> Storage"
  contractCodes :: "hash \<Rightarrow> bytes"

record statedb =
  ext :: externs
  database :: Database
  stateTrie :: "address \<rightharpoonup> Account"
  stateObjects :: "address \<rightharpoonup> stateObject"
  stateObjectsDirty :: "address set"
  refundCounter :: u64
  thash :: hash
  bhash :: hash
  txIdx :: nat
  logMap :: "hash \<rightharpoonup> Log list"
  logSize :: nat
  preimages :: "hash \<rightharpoonup> bytes"
  jrnl :: journal
  validRevisions :: "(nat \<times> nat) list"
  nextRevisionId :: nat

section \<open>The journal\<close>

definition newJournal :: journal where
  "newJournal = \<lparr>entries = [], dirties = Map.empty\<rparr>"

fun dirtied :: "journalEntry \<Rightarrow> address option" where
  "dirtied (createObjectChange a) = Some a"
| "dirtied (resetObjectChange p) = None"
| "dirtied (suicideChange a b n) = Some a"
| "dirtied (balanceChange a n) = Some a"
| "dirtied (nonceChange a n) = Some a"
| "dirtied (storageChange a k v) = Some a"
| "dirtied (codeChange a c h) = Some a"
| "dirtied (refundChange n) = None"
| "dirtied (addLogChange h) = None"
| "dirtied (addPreimageChange h) = None"
| "dirtied (touchChange a) = Some a"

definition jdirty :: "journal \<Rightarrow> address \<Rightarrow> journal" where
  "jdirty j a = j\<lparr>dirties := (dirties j)(a \<mapsto> (case dirties j a of None \<Rightarrow> 1 | Some n \<Rightarrow> n + 1))\<rparr>"

definition jappend :: "journal \<Rightarrow> journalEntry \<Rightarrow> journal" where
  "jappend j e =
     (let j' = j\<lparr>entries := e # entries j\<rparr>
      in case dirtied e of None \<Rightarrow> j' | Some a \<Rightarrow> jdirty j' a)"

definition jlength :: "journal \<Rightarrow> nat" where
  "jlength j = length (entries j)"

definition jundirty :: "journal \<Rightarrow> journalEntry \<Rightarrow> journal" where
  "jundirty j e =
     (case dirtied e of None \<Rightarrow> j
      | Some a \<Rightarrow>
          (let n = (case dirties j a of None \<Rightarrow> 0 | Some n \<Rightarrow> n) - 1
           in j\<lparr>dirties := (dirties j)(a := (if n = 0 then None else Some n))\<rparr>))"

definition addEntry :: "statedb \<Rightarrow> journalEntry \<Rightarrow> statedb" where
  "addEntry s e = s\<lparr>jrnl := jappend (jrnl s) e\<rparr>"

section \<open>State objects\<close>

definition emptyCodeHash :: "statedb \<Rightarrow> hash" where
  "emptyCodeHash s = keccak256 (ext s) []"

text \<open>\<open>Account{}\<close> with the defaults \<open>newObject\<close> fills in for nil fields.\<close>

definition zeroAccount :: "statedb \<Rightarrow> Account" where
  "zeroAccount s = \<lparr>Nonce = 0, Balance = 0, Root = 0, CodeHash = emptyCodeHash s\<rparr>"

definition newObject :: "address \<Rightarrow> Account \<Rightarrow> stateObject" where
  "newObject addr acc = \<lparr>objAddress = addr, objData = acc, objTrie = None, objCode = [],
     cachedStorage = Map.empty, dirtyStorage = Map.empty, dirtyCode = False,
     suicided = False, deleted = False\<rparr>"

definition soEmpty :: "statedb \<Rightarrow> stateObject \<Rightarrow> bool" where
  "soEmpty s obj \<longleftrightarrow> Nonce (objData obj) = 0 \<and> Balance (objData obj) = 0 \<and>
     CodeHash (objData obj) = emptyCodeHash s"

definition setStateObject :: "statedb \<Rightarrow> stateObject \<Rightarrow> statedb" where
  "setStateObject s obj = s\<lparr>stateObjects := (stateObjects s)(objAddress obj \<mapsto> obj)\<rparr>"

definition setBalanceObj :: "stateObject \<Rightarrow> int \<Rightarrow> stateObject" where
  "setBalanceObj obj amount = obj\<lparr>objData := (objData obj)\<lparr>Balance := amount\<rparr>\<rparr>"

definition setNonceObj :: "stateObject \<Rightarrow> u64 \<Rightarrow> stateObject" where
  "setNonceObj obj n = obj\<lparr>objData := (objData obj)\<lparr>Nonce := n\<rparr>\<rparr>"

definition setCodeObj :: "stateObject \<Rightarrow> hash \<Rightarrow> bytes \<Rightarrow> stateObject" where
  "setCodeObj obj codeHash c =
     obj\<lparr>objCode := c, objData := (objData obj)\<lparr>CodeHash := codeHash\<rparr>, dirtyCode := True\<rparr>"

definition setStateObj :: "stateObject \<Rightarrow> hash \<Rightarrow> hash \<Rightarrow> stateObject" where
  "setStateObj obj key v =
     obj\<lparr>cachedStorage := (cachedStorage obj)(key \<mapsto> v), dirtyStorage := (dirtyStorage obj)(key \<mapsto> v)\<rparr>"

definition OpenStorageTrie :: "statedb \<Rightarrow> hash \<Rightarrow> Storage" where
  "OpenStorageTrie s root =
     (if root = 0 \<or> root = trieRoot (ext s) Map.empty then Map.empty
      else storageTries (database s) root)"

definition getTrie :: "statedb \<Rightarrow> stateObject \<Rightarrow> Storage" where
  "getTrie s obj = (case objTrie obj of Some t \<Rightarrow> t | None \<Rightarrow> OpenStorageTrie s (Root (objData obj)))"

definition soGetState :: "statedb \<Rightarrow> stateObject \<Rightarrow> hash \<Rightarrow> hash \<times> stateObject" where
  "soGetState s obj key =
     (case cachedStorage obj key of Some v \<Rightarrow> (v, obj)
      | None \<Rightarrow>
          (let t = getTrie s obj;
               v = (case t key of None \<Rightarrow> 0 | Some v \<Rightarrow> v)
           in (v, obj\<lparr>objTrie := Some t, cachedStorage := (cachedStorage obj)(key \<mapsto> v)\<rparr>)))"

definition soCode :: "statedb \<Rightarrow> stateObject \<Rightarrow> bytes \<times> stateObject" where
  "soCode s obj =
     (if objCode obj \<noteq> [] then (objCode obj, obj)
      else if CodeHash (objData obj) = emptyCodeHash s then ([], obj)
      else let c = contractCodes (database s) (CodeHash (objData obj))
           in (c, obj\<lparr>objCode := c\<rparr>))"

text \<open>\<open>ripemd\<close>: the precompile whose touch survives a revert.\<close>

definition ripemd :: address where "ripemd = 3"

definition touch :: "statedb \<Rightarrow> stateObject \<Rightarrow> statedb" where
  "touch s obj =
     (let s' = addEntry s (touchChange (objAddress obj))
      in if objAddress obj = ripemd then s'\<lparr>jrnl := jdirty (jrnl s') (objAddress obj)\<rparr> else s')"

definition soSetBalance :: "statedb \<Rightarrow> stateObject \<Rightarrow> int \<Rightarrow> statedb" where
  "soSetBalance s obj amount =
     setStateObject (addEntry s (balanceChange (objAddress obj) (Balance (objData obj))))
       (setBalanceObj obj amount)"

definition soAddBalance :: "statedb \<Rightarrow> stateObject \<Rightarrow> int \<Rightarrow> statedb" where
  "soAddBalance s obj amount =
     (if amount = 0 then (if soEmpty s obj then touch s obj else s)
      else soSetBalance s obj (Balance (objData obj) + amount))"

definition soSubBalance :: "statedb \<Rightarrow> stateObject \<Rightarrow> int \<Rightarrow> statedb" where
  "soSubBalance s obj amount =
     (if amount = 0 then s else soSetBalance s obj (Balance (objData obj) - amount))"

definition soSetNonce :: "statedb \<Rightarrow> stateObject \<Rightarrow> u64 \<Rightarrow> statedb" where
  "soSetNonce s obj n =
     setStateObject (addEntry s (nonceChange (objAddress obj) (Nonce (objData obj)))) (setNonceObj obj n)"

definition soSetCode :: "statedb \<Rightarrow> stateObject \<Rightarrow> hash \<Rightarrow> bytes \<Rightarrow> statedb" where
  "soSetCode s obj codeHash c =
     (case soCode s obj of (prevcode, obj') \<Rightarrow>
        setStateObject (addEntry s (codeChange (objAddress obj') prevcode (CodeHash (objData obj'))))
          (setCodeObj obj' codeHash c))"

definition soSetState :: "statedb \<Rightarrow> stateObject \<Rightarrow> hash \<Rightarrow> hash \<Rightarrow> statedb" where
  "soSetState s obj key v =
     (case soGetState s obj key of (prev, obj') \<Rightarrow>
        setStateObject (addEntry s (storageChange (objAddress obj') key prev)) (setStateObj obj' key v))"

section \<open>Live objects\<close>

definition getStateObject :: "statedb \<Rightarrow> address \<Rightarrow> stateObject option \<times> statedb" where
  "getStateObject s addr =
     (case stateObjects s addr of
        Some obj \<Rightarrow> if deleted obj then (None, s) else (Some obj, s)
      | None \<Rightarrow>
          (case stateTrie s addr of
             None \<Rightarrow> (None, s)
           | Some acc \<Rightarrow> let obj = newObject addr acc in (Some obj, setStateObject s obj)))"

definition createObject :: "statedb \<Rightarrow> address \<Rightarrow> stateObject \<times> stateObject option \<times> statedb" where
  "createObject s addr =
     (case getStateObject s addr of (prev, s1) \<Rightarrow>
        let newobj = setNonceObj (newObject addr (zeroAccount s1)) 0;
            s2 = addEntry s1 (case prev of None \<Rightarrow> createObjectChange addr
                                         | Some p \<Rightarrow> resetObjectChange p)
        in (newobj, prev, setStateObject s2 newobj))"

definition GetOrNewStateObject :: "statedb \<Rightarrow> address \<Rightarrow> stateObject \<times> statedb" where
  "GetOrNewStateObject s addr =
     (case getStateObject s addr of
        (Some obj, s1) \<Rightarrow> if deleted obj then (case createObject s1 addr of (n, _, s2) \<Rightarrow> (n, s2)) else (obj, s1)
      | (None, s1) \<Rightarrow> (case createObject s1 addr of (n, _, s2) \<Rightarrow> (n, s2)))"

section \<open>Queries\<close>

definition Exist :: "statedb \<Rightarrow> address \<Rightarrow> bool \<times> statedb" where
  "Exist s addr = (case getStateObject s addr of (o1, s1) \<Rightarrow> (o1 \<noteq> None, s1))"

definition Empty :: "statedb \<Rightarrow> address \<Rightarrow> bool \<times> statedb" where
  "Empty s addr =
     (case getStateObject s addr of (None, s1) \<Rightarrow> (True, s1) | (Some obj, s1) \<Rightarrow> (soEmpty s1 obj, s1))"

definition GetBalance :: "statedb \<Rightarrow> address \<Rightarrow> int \<times> statedb" where
  "GetBalance s addr =
     (case getStateObject s addr of (Some obj, s1) \<Rightarrow> (Balance (objData obj), s1) | (None, s1) \<Rightarrow> (0, s1))"

definition GetNonce :: "statedb \<Rightarrow> address \<Rightarrow> u64 \<times> statedb" where
  "GetNonce s addr =
     (case getStateObject s addr of (Some obj, s1) \<Rightarrow> (Nonce (objData obj), s1) | (None, s1) \<Rightarrow> (0, s1))"

definition GetCode :: "statedb \<Rightarrow> address \<Rightarrow> bytes \<times> statedb" where
  "GetCode s addr =
     (case getStateObject s addr of
        (Some obj, s1) \<Rightarrow> (case soCode s1 obj of (c, obj') \<Rightarrow> (c, setStateObject s1 obj'))
      | (None, s1) \<Rightarrow> ([], s1))"

definition GetCodeSize :: "statedb \<Rightarrow> address \<Rightarrow> nat \<times> statedb" where
  "GetCodeSize s addr =
     (case getStateObject s addr of
        (None, s1) \<Rightarrow> (0, s1)
      | (Some obj, s1) \<Rightarrow>
          if objCode obj \<noteq> [] then (length (objCode obj), s1)
          else (length (contractCodes (database s1) (CodeHash (objData obj))), s1))"

definition GetCodeHash :: "statedb \<Rightarrow> address \<Rightarrow> hash \<times> statedb" where
  "GetCodeHash s addr =
     (case getStateObject s addr of (None, s1) \<Rightarrow> (0, s1) | (Some obj, s1) \<Rightarrow> (CodeHash (objData obj), s1))"

definition GetState :: "statedb \<Rightarrow> address \<Rightarrow> hash \<Rightarrow> hash \<times> statedb" where
  "GetState s addr key =
     (case getStateObject s addr of
        (Some obj, s1) \<Rightarrow> (case soGetState s1 obj key of (v, obj') \<Rightarrow> (v, setStateObject s1 obj'))
      | (None, s1) \<Rightarrow> (0, s1))"

definition HasSuicided :: "statedb \<Rightarrow> address \<Rightarrow> bool \<times> statedb" where
  "HasSuicided s addr =
     (case getStateObject s addr of (Some obj, s1) \<Rightarrow> (suicided obj, s1) | (None, s1) \<Rightarrow> (False, s1))"

definition GetRefund :: "statedb \<Rightarrow> u64" where
  "GetRefund s = refundCounter s"

definition GetLogs :: "statedb \<Rightarrow> hash \<Rightarrow> Log list" where
  "GetLogs s h = (case logMap s h of None \<Rightarrow> [] | Some ls \<Rightarrow> ls)"

section \<open>Updates\<close>

definition AddLog :: "statedb \<Rightarrow> Log \<Rightarrow> statedb" where
  "AddLog s l =
     (let s1 = addEntry s (addLogChange (thash s));
          l' = l\<lparr>TxHash := thash s1, BlockHash := bhash s1, TxIndex := txIdx s1, LogIndex := logSize s1\<rparr>
      in s1\<lparr>logMap := (logMap s1)(thash s1 \<mapsto> GetLogs s1 (thash s1) @ [l']), logSize := logSize s1 + 1\<rparr>)"

definition AddPreimage :: "statedb \<Rightarrow> hash \<Rightarrow> bytes \<Rightarrow> statedb" where
  "AddPreimage s h preimage =
     (case preimages s h of Some _ \<Rightarrow> s
      | None \<Rightarrow> let s1 = addEntry s (addPreimageChange h)
                in s1\<lparr>preimages := (preimages s1)(h \<mapsto> preimage)\<rparr>)"

definition AddRefund :: "statedb \<Rightarrow> u64 \<Rightarrow> statedb" where
  "AddRefund s gas =
     (let s1 = addEntry s (refundChange (refundCounter s)) in s1\<lparr>refundCounter := refundCounter s1 + gas\<rparr>)"

definition AddBalance :: "statedb \<Rightarrow> address \<Rightarrow> int \<Rightarrow> statedb" where
  "AddBalance s addr amount =
     (case GetOrNewStateObject s addr of (obj, s1) \<Rightarrow> soAddBalance s1 obj amount)"

definition SubBalance :: "statedb \<Rightarrow> address \<Rightarrow> int \<Rightarrow> statedb" where
  "SubBalance s addr amount =
     (case GetOrNewStateObject s addr of (obj, s1) \<Rightarrow> soSubBalance s1 obj amount)"

definition SetBalance :: "statedb \<Rightarrow> address \<Rightarrow> int \<Rightarrow> statedb" where
  "SetBalance s addr amount =
     (case GetOrNewStateObject s addr of (obj, s1) \<Rightarrow> soSetBalance s1 obj amount)"

definition SetNonce :: "statedb \<Rightarrow> address \<Rightarrow> u64 \<Rightarrow> statedb" where
  "SetNonce s addr n =
     (case GetOrNewStateObject s addr of (obj, s1) \<Rightarrow> soSetNonce s1 obj n)"

definition SetCode :: "statedb \<Rightarrow> address \<Rightarrow> bytes \<Rightarrow> statedb" where
  "SetCode s addr c =
     (case GetOrNewStateObject s addr of (obj, s1) \<Rightarrow> soSetCode s1 obj (keccak256 (ext s1) c) c)"

definition SetState :: "statedb \<Rightarrow> address \<Rightarrow> hash \<Rightarrow> hash \<Rightarrow> statedb" where
  "SetState s addr key v =
     (case GetOrNewStateObject s addr of (obj, s1) \<Rightarrow> soSetState s1 obj key v)"

definition Suicide :: "statedb \<Rightarrow> address \<Rightarrow> bool \<times> statedb" where
  "Suicide s addr =
     (case getStateObject s addr of
        (None, s1) \<Rightarrow> (False, s1)
      | (Some obj, s1) \<Rightarrow>
          (True, setStateObject (addEntry s1 (suicideChange addr (suicided obj) (Balance (objData obj))))
                   (setBalanceObj (obj\<lparr>suicided := True\<rparr>) 0)))"

definition CreateAccount :: "statedb \<Rightarrow> address \<Rightarrow> statedb" where
  "CreateAccount s addr =
     (case createObject s addr of
        (newobj, None, s1) \<Rightarrow> s1
      | (newobj, Some prev, s1) \<Rightarrow> setStateObject s1 (setBalanceObj newobj (Balance (objData prev))))"

section \<open>Snapshots\<close>

fun revertEntry :: "journalEntry \<Rightarrow> statedb \<Rightarrow> statedb option" where
  "revertEntry (createObjectChange a) s =
     Some (s\<lparr>stateObjects := (stateObjects s)(a := None), stateObjectsDirty := stateObjectsDirty s - {a}\<rparr>)"
| "revertEntry (resetObjectChange prev) s = Some (setStateObject s prev)"
| "revertEntry (suicideChange a prev prevbalance) s =
     (case getStateObject s a of
        (None, s1) \<Rightarrow> Some s1
      | (Some obj, s1) \<Rightarrow> Some (setStateObject s1 (setBalanceObj (obj\<lparr>suicided := prev\<rparr>) prevbalance)))"
| "revertEntry (touchChange a) s = Some s"
| "revertEntry (balanceChange a prev) s =
     (case getStateObject s a of (None, s1) \<Rightarrow> None
      | (Some obj, s1) \<Rightarrow> Some (setStateObject s1 (setBalanceObj obj prev)))"
| "revertEntry (nonceChange a prev) s =
     (case getStateObject s a of (None, s1) \<Rightarrow> None
      | (Some obj, s1) \<Rightarrow> Some (setStateObject s1 (setNonceObj obj prev)))"
| "revertEntry (codeChange a prevcode prevhash) s =
     (case getStateObject s a of (None, s1) \<Rightarrow> None
      | (Some obj, s1) \<Rightarrow> Some (setStateObject s1 (setCodeObj obj prevhash prevcode)))"
| "revertEntry (storageChange a key prevalue) s =
     (case getStateObject s a of (None, s1) \<Rightarrow> None
      | (Some obj, s1) \<Rightarrow> Some (setStateObject s1 (setStateObj obj key prevalue)))"
| "revertEntry (refundChange prev) s = Some (s\<lparr>refundCounter := prev\<rparr>)"
| "revertEntry (addLogChange h) s =
     (let ls = GetLogs s h in
      if ls = [] then None
      else Some (s\<lparr>logMap := (logMap s)(h := (if length ls = 1 then None else Some (butlast ls))),
                  logSize := logSize s - 1\<rparr>))"
| "revertEntry (addPreimageChange h) s = Some (s\<lparr>preimages := (preimages s)(h := None)\<rparr>)"

text \<open>\<open>journal.revert\<close>: undo the newest \<open>n\<close> entries. The code drops the entries at the end of the
  loop; no \<open>revert\<close> method reads the list.\<close>

fun revertEntries :: "nat \<Rightarrow> statedb \<Rightarrow> statedb option" where
  "revertEntries 0 s = Some s"
| "revertEntries (Suc n) s =
     (case entries (jrnl s) of
        [] \<Rightarrow> None
      | e # es \<Rightarrow>
          (case revertEntry e s of
             None \<Rightarrow> None
           | Some s1 \<Rightarrow> revertEntries n (s1\<lparr>jrnl := (jundirty (jrnl s1) e)\<lparr>entries := es\<rparr>\<rparr>)))"

definition Snapshot :: "statedb \<Rightarrow> nat \<times> statedb" where
  "Snapshot s =
     (let rid = nextRevisionId s
      in (rid, s\<lparr>nextRevisionId := rid + 1,
                 validRevisions := validRevisions s @ [(rid, jlength (jrnl s))]\<rparr>))"

text \<open>\<open>sort.Search\<close>: the smallest index at which a monotone predicate holds.\<close>

function searchFrom :: "(nat \<Rightarrow> bool) \<Rightarrow> nat \<Rightarrow> nat \<Rightarrow> nat" where
  "searchFrom f i j =
     (if i < j then let h = (i + j) div 2 in if f h then searchFrom f i h else searchFrom f (h + 1) j
      else i)"
  by pat_completeness auto
termination
  by (relation "measure (\<lambda>(f, i, j). j - i)") auto

declare searchFrom.simps [simp del]

definition sortSearch :: "nat \<Rightarrow> (nat \<Rightarrow> bool) \<Rightarrow> nat" where
  "sortSearch n f = searchFrom f 0 n"

definition RevertToSnapshot :: "statedb \<Rightarrow> nat \<Rightarrow> statedb option" where
  "RevertToSnapshot s revid =
     (let revs = validRevisions s;
          idx = sortSearch (length revs) (\<lambda>i. revid \<le> fst (revs ! i))
      in if idx = length revs \<or> fst (revs ! idx) \<noteq> revid then None
         else case revertEntries (jlength (jrnl s) - snd (revs ! idx)) s of
                None \<Rightarrow> None
              | Some s' \<Rightarrow> Some (s'\<lparr>validRevisions := take idx revs\<rparr>))"

section \<open>End of transaction\<close>

definition Prepare :: "statedb \<Rightarrow> hash \<Rightarrow> hash \<Rightarrow> nat \<Rightarrow> statedb" where
  "Prepare s th bh ti = s\<lparr>thash := th, bhash := bh, txIdx := ti\<rparr>"

definition clearJournalAndRefund :: "statedb \<Rightarrow> statedb" where
  "clearJournalAndRefund s = s\<lparr>jrnl := newJournal, validRevisions := [], refundCounter := 0\<rparr>"

text \<open>\<open>updateTrie\<close>: the dirty slots move into the storage trie, a zero value deleting its slot.\<close>

definition updateTrie :: "statedb \<Rightarrow> stateObject \<Rightarrow> stateObject" where
  "updateTrie s obj =
     (let t = getTrie s obj
      in obj\<lparr>objTrie := Some (\<lambda>k. case dirtyStorage obj k of None \<Rightarrow> t k
                                 | Some v \<Rightarrow> if v = 0 then None else Some v),
             dirtyStorage := Map.empty\<rparr>)"

definition updateRoot :: "statedb \<Rightarrow> stateObject \<Rightarrow> stateObject" where
  "updateRoot s obj =
     (let obj' = updateTrie s obj
      in obj'\<lparr>objData := (objData obj')\<lparr>Root := trieRoot (ext s) (getTrie s obj')\<rparr>\<rparr>)"

definition deleteStateObject :: "statedb \<Rightarrow> stateObject \<Rightarrow> statedb" where
  "deleteStateObject s obj =
     (setStateObject s (obj\<lparr>deleted := True\<rparr>))\<lparr>stateTrie := (stateTrie s)(objAddress obj := None)\<rparr>"

text \<open>An account with a negative balance cannot be encoded, and \<open>updateStateObject\<close> panics.\<close>

definition updateStateObject :: "statedb \<Rightarrow> stateObject \<Rightarrow> statedb option" where
  "updateStateObject s obj =
     (if Balance (objData obj) < 0 then None
      else Some (s\<lparr>stateTrie := (stateTrie s)(objAddress obj \<mapsto> objData obj)\<rparr>))"

definition finaliseAddr :: "bool \<Rightarrow> address \<Rightarrow> statedb \<Rightarrow> statedb option" where
  "finaliseAddr deleteEmptyObjects addr s =
     (case stateObjects s addr of
        None \<Rightarrow> Some s
      | Some obj \<Rightarrow> do {
          s1 \<leftarrow> (if suicided obj \<or> (deleteEmptyObjects \<and> soEmpty s obj) then Some (deleteStateObject s obj)
                else let obj' = updateRoot s obj in updateStateObject (setStateObject s obj') obj');
          Some (s1\<lparr>stateObjectsDirty := insert addr (stateObjectsDirty s1)\<rparr>) })"

text \<open>\<open>Finalise\<close> ranges over the map \<open>dirties\<close>; \<open>order\<close> is the order in which Go happens to visit
  its keys.\<close>

definition Finalise :: "address list \<Rightarrow> bool \<Rightarrow> statedb \<Rightarrow> statedb option" where
  "Finalise order deleteEmptyObjects s = do {
     s \<leftarrow> fold (\<lambda>addr r. do { s \<leftarrow> r; finaliseAddr deleteEmptyObjects addr s }) order (Some s);
     Some (clearJournalAndRefund s) }"

section \<open>Creation and copies\<close>

definition NewStateDB :: "externs \<Rightarrow> Database \<Rightarrow> (address \<rightharpoonup> Account) \<Rightarrow> statedb" where
  "NewStateDB ex db tr = \<lparr>ext = ex, database = db, stateTrie = tr, stateObjects = Map.empty,
     stateObjectsDirty = {}, refundCounter = 0, thash = 0, bhash = 0, txIdx = 0,
     logMap = Map.empty, logSize = 0, preimages = Map.empty, jrnl = newJournal,
     validRevisions = [], nextRevisionId = 0\<rparr>"

definition deepCopy :: "stateObject \<Rightarrow> stateObject" where
  "deepCopy obj = (newObject (objAddress obj) (objData obj))\<lparr>objTrie := objTrie obj,
     objCode := objCode obj, dirtyStorage := dirtyStorage obj, cachedStorage := dirtyStorage obj,
     suicided := suicided obj, dirtyCode := dirtyCode obj, deleted := deleted obj\<rparr>"

text \<open>An address in \<open>stateObjectsDirty\<close> without a live object makes \<open>deepCopy\<close> dereference nil.\<close>

definition CopyStateDB :: "statedb \<Rightarrow> statedb option" where
  "CopyStateDB s =
     (let copied = (\<lambda>a. (dirties (jrnl s) a \<noteq> None \<and> stateObjects s a \<noteq> None) \<or> a \<in> stateObjectsDirty s)
      in if \<exists>a \<in> stateObjectsDirty s. stateObjects s a = None then None
         else Some \<lparr>ext = ext s, database = database s, stateTrie = stateTrie s,
          stateObjects = (\<lambda>a. if copied a then map_option deepCopy (stateObjects s a) else None),
          stateObjectsDirty = {a. copied a}, refundCounter = refundCounter s,
          thash = 0, bhash = 0, txIdx = 0,
          logMap = logMap s, logSize = logSize s, preimages = preimages s,
          jrnl = newJournal, validRevisions = [], nextRevisionId = 0\<rparr>)"

end
