(* ===== verification/World.thy ===== *)
theory World
  imports StateDB
begin

text \<open>
  What a client of the state database can observe, as an abstract specification: a \<open>world\<close> of
  accounts, the refund counter, the logs and the preimages, with one specification operation per
  database operation. The abstraction \<open>view\<close> forgets the live-object map, the storage and code
  caches and the dirty sets. Each database operation refines its specification
  (\<open>view (op s) = spec_op (view s)\<close>), and undoing a journal entry refines \<open>wundo\<close>.
\<close>

section \<open>Worlds\<close>

record acct =
  aNonce :: u64
  aBalance :: int
  aCodeHash :: hash
  aCode :: bytes
  aStorage :: "hash \<Rightarrow> hash"
  aSuicided :: bool

record world =
  accts :: "address \<rightharpoonup> acct"
  wRefund :: u64
  wLogs :: "hash \<Rightarrow> Log list"
  wLogSize :: nat
  wPreimages :: "hash \<rightharpoonup> bytes"

definition newAcct :: "hash \<Rightarrow> acct" where
  "newAcct eh = \<lparr>aNonce = 0, aBalance = 0, aCodeHash = eh, aCode = [], aStorage = (\<lambda>_. 0), aSuicided = False\<rparr>"

definition orNew :: "hash \<Rightarrow> world \<Rightarrow> address \<Rightarrow> acct" where
  "orNew eh w a = (case accts w a of Some x \<Rightarrow> x | None \<Rightarrow> newAcct eh)"

definition putAcct :: "world \<Rightarrow> address \<Rightarrow> acct \<Rightarrow> world" where
  "putAcct w a x = w\<lparr>accts := (accts w)(a \<mapsto> x)\<rparr>"

definition wBalance :: "world \<Rightarrow> address \<Rightarrow> int" where
  "wBalance w a = (case accts w a of Some x \<Rightarrow> aBalance x | None \<Rightarrow> 0)"

definition wNonce :: "world \<Rightarrow> address \<Rightarrow> u64" where
  "wNonce w a = (case accts w a of Some x \<Rightarrow> aNonce x | None \<Rightarrow> 0)"

definition wCode :: "world \<Rightarrow> address \<Rightarrow> bytes" where
  "wCode w a = (case accts w a of Some x \<Rightarrow> aCode x | None \<Rightarrow> [])"

definition wCodeHash :: "world \<Rightarrow> address \<Rightarrow> hash" where
  "wCodeHash w a = (case accts w a of Some x \<Rightarrow> aCodeHash x | None \<Rightarrow> 0)"

definition wState :: "world \<Rightarrow> address \<Rightarrow> hash \<Rightarrow> hash" where
  "wState w a k = (case accts w a of Some x \<Rightarrow> aStorage x k | None \<Rightarrow> 0)"

definition wSuicided :: "world \<Rightarrow> address \<Rightarrow> bool" where
  "wSuicided w a = (case accts w a of Some x \<Rightarrow> aSuicided x | None \<Rightarrow> False)"

definition wEmpty :: "hash \<Rightarrow> world \<Rightarrow> address \<Rightarrow> bool" where
  "wEmpty eh w a =
     (case accts w a of None \<Rightarrow> True
      | Some x \<Rightarrow> aNonce x = 0 \<and> aBalance x = 0 \<and> aCodeHash x = eh)"

section \<open>Specification operations\<close>

definition sAddBalance :: "hash \<Rightarrow> world \<Rightarrow> address \<Rightarrow> int \<Rightarrow> world" where
  "sAddBalance eh w a n = putAcct w a ((orNew eh w a)\<lparr>aBalance := aBalance (orNew eh w a) + n\<rparr>)"

definition sSetBalance :: "hash \<Rightarrow> world \<Rightarrow> address \<Rightarrow> int \<Rightarrow> world" where
  "sSetBalance eh w a n = putAcct w a ((orNew eh w a)\<lparr>aBalance := n\<rparr>)"

definition sSetNonce :: "hash \<Rightarrow> world \<Rightarrow> address \<Rightarrow> u64 \<Rightarrow> world" where
  "sSetNonce eh w a n = putAcct w a ((orNew eh w a)\<lparr>aNonce := n\<rparr>)"

definition sSetCode :: "hash \<Rightarrow> world \<Rightarrow> address \<Rightarrow> hash \<Rightarrow> bytes \<Rightarrow> world" where
  "sSetCode eh w a h c = putAcct w a ((orNew eh w a)\<lparr>aCodeHash := h, aCode := c\<rparr>)"

definition sSetState :: "hash \<Rightarrow> world \<Rightarrow> address \<Rightarrow> hash \<Rightarrow> hash \<Rightarrow> world" where
  "sSetState eh w a k v =
     putAcct w a ((orNew eh w a)\<lparr>aStorage := (aStorage (orNew eh w a))(k := v)\<rparr>)"

definition sSuicide :: "world \<Rightarrow> address \<Rightarrow> world" where
  "sSuicide w a =
     (case accts w a of None \<Rightarrow> w | Some x \<Rightarrow> putAcct w a (x\<lparr>aSuicided := True, aBalance := 0\<rparr>))"

definition sCreateAccount :: "hash \<Rightarrow> world \<Rightarrow> address \<Rightarrow> world" where
  "sCreateAccount eh w a = putAcct w a ((newAcct eh)\<lparr>aBalance := wBalance w a\<rparr>)"

definition sAddRefund :: "world \<Rightarrow> u64 \<Rightarrow> world" where
  "sAddRefund w g = w\<lparr>wRefund := wRefund w + g\<rparr>"

definition sAddLog :: "world \<Rightarrow> hash \<Rightarrow> hash \<Rightarrow> nat \<Rightarrow> Log \<Rightarrow> world" where
  "sAddLog w th bh ti l =
     w\<lparr>wLogs := (wLogs w)(th := wLogs w th @
         [l\<lparr>TxHash := th, BlockHash := bh, TxIndex := ti, LogIndex := wLogSize w\<rparr>]),
       wLogSize := wLogSize w + 1\<rparr>"

definition sAddPreimage :: "world \<Rightarrow> hash \<Rightarrow> bytes \<Rightarrow> world" where
  "sAddPreimage w h p =
     (case wPreimages w h of Some _ \<Rightarrow> w | None \<Rightarrow> w\<lparr>wPreimages := (wPreimages w)(h \<mapsto> p)\<rparr>)"

section \<open>Abstraction\<close>

definition codeView :: "statedb \<Rightarrow> bytes \<Rightarrow> hash \<Rightarrow> bytes" where
  "codeView s c h =
     (if c \<noteq> [] then c else if h = emptyCodeHash s then [] else contractCodes (database s) h)"

definition acctOf :: "statedb \<Rightarrow> stateObject \<Rightarrow> acct" where
  "acctOf s obj = \<lparr>aNonce = Nonce (objData obj), aBalance = Balance (objData obj),
     aCodeHash = CodeHash (objData obj), aCode = fst (soCode s obj),
     aStorage = (\<lambda>k. fst (soGetState s obj k)), aSuicided = suicided obj\<rparr>"

definition liveObj :: "statedb \<Rightarrow> address \<Rightarrow> stateObject option" where
  "liveObj s a = fst (getStateObject s a)"

definition view :: "statedb \<Rightarrow> world" where
  "view s = \<lparr>accts = (\<lambda>a. map_option (acctOf s) (liveObj s a)), wRefund = refundCounter s,
     wLogs = GetLogs s, wLogSize = logSize s, wPreimages = preimages s\<rparr>"

text \<open>The parts of the database that stay fixed within a transaction.\<close>

definition sameEnv :: "statedb \<Rightarrow> statedb \<Rightarrow> bool" where
  "sameEnv s t \<longleftrightarrow> ext t = ext s \<and> database t = database s \<and> stateTrie t = stateTrie s \<and>
     thash t = thash s \<and> bhash t = bhash s \<and> txIdx t = txIdx s"

section \<open>Invariant\<close>

fun entryOk :: "statedb \<Rightarrow> journalEntry \<Rightarrow> bool" where
  "entryOk s (createObjectChange a) \<longleftrightarrow> stateTrie s a = None"
| "entryOk s (resetObjectChange p) \<longleftrightarrow> \<not> deleted p"
| "entryOk s _ \<longleftrightarrow> True"

definition objsOk :: "statedb \<Rightarrow> bool" where
  "objsOk s \<longleftrightarrow> (\<forall>a obj. stateObjects s a = Some obj \<longrightarrow>
      objAddress obj = a \<and> (deleted obj \<longrightarrow> stateTrie s a = None))"

definition revsOk :: "statedb \<Rightarrow> bool" where
  "revsOk s \<longleftrightarrow>
     sorted_wrt (\<lambda>x y. fst x < fst y \<and> snd x \<le> snd y) (validRevisions s) \<and>
     (\<forall>(rid, j) \<in> set (validRevisions s). rid < nextRevisionId s \<and> j \<le> jlength (jrnl s))"

definition dbInv :: "statedb \<Rightarrow> bool" where
  "dbInv s \<longleftrightarrow> objsOk s \<and> (\<forall>e \<in> set (entries (jrnl s)). entryOk s e) \<and> revsOk s"

section \<open>Undoing, on worlds\<close>

definition modAcct :: "world \<Rightarrow> address \<Rightarrow> (acct \<Rightarrow> acct) \<Rightarrow> world option" where
  "modAcct w a f = (case accts w a of None \<Rightarrow> None | Some x \<Rightarrow> Some (putAcct w a (f x)))"

fun wundo :: "statedb \<Rightarrow> journalEntry \<Rightarrow> world \<Rightarrow> world option" where
  "wundo s (createObjectChange a) w = Some (w\<lparr>accts := (accts w)(a := None)\<rparr>)"
| "wundo s (resetObjectChange p) w = Some (putAcct w (objAddress p) (acctOf s p))"
| "wundo s (suicideChange a b n) w =
     (case accts w a of None \<Rightarrow> Some w
      | Some x \<Rightarrow> Some (putAcct w a (x\<lparr>aSuicided := b, aBalance := n\<rparr>)))"
| "wundo s (touchChange a) w = Some w"
| "wundo s (balanceChange a n) w = modAcct w a (\<lambda>x. x\<lparr>aBalance := n\<rparr>)"
| "wundo s (nonceChange a n) w = modAcct w a (\<lambda>x. x\<lparr>aNonce := n\<rparr>)"
| "wundo s (codeChange a c h) w = modAcct w a (\<lambda>x. x\<lparr>aCode := codeView s c h, aCodeHash := h\<rparr>)"
| "wundo s (storageChange a k v) w = modAcct w a (\<lambda>x. x\<lparr>aStorage := (aStorage x)(k := v)\<rparr>)"
| "wundo s (refundChange g) w = Some (w\<lparr>wRefund := g\<rparr>)"
| "wundo s (addLogChange h) w =
     (if wLogs w h = [] then None
      else Some (w\<lparr>wLogs := (wLogs w)(h := butlast (wLogs w h)), wLogSize := wLogSize w - 1\<rparr>))"
| "wundo s (addPreimageChange h) w = Some (w\<lparr>wPreimages := (wPreimages w)(h := None)\<rparr>)"

end
