(* ===== verification/Journal.thy ===== *)
theory Journal
  imports World
begin

text \<open>
  The correctness of the journal of \<open>core/state\<close>. \<open>evolves s t\<close> says that \<open>t\<close> was reached from \<open>s\<close>
  inside one transaction: the invariant holds in \<open>t\<close>, the journal of \<open>t\<close> extends the one of \<open>s\<close> by
  entries whose undoing turns what \<open>t\<close> shows into what \<open>s\<close> shows, and the snapshots of \<open>s\<close> are still
  valid. Every operation of the database evolves it and refines its specification of World
  (the \<open>_spec\<close> lemmas), and \<open>RevertToSnapshot\<close> restores what was observable at the snapshot.
\<close>


section \<open>Live objects and the abstraction\<close>

lemma liveObj_alt:
  "liveObj s a = (case stateObjects s a of
      Some obj \<Rightarrow> if deleted obj then None else Some obj
    | None \<Rightarrow> map_option (newObject a) (stateTrie s a))"
  by (simp add: liveObj_def getStateObject_def Let_def split: option.split)

lemma liveObj_cong: "stateObjects s = stateObjects t \<Longrightarrow> stateTrie s = stateTrie t \<Longrightarrow> liveObj s = liveObj t"
  by (rule ext) (simp add: liveObj_alt split: option.split)

lemma newObject_simps [simp]:
  "objAddress (newObject a d) = a" "objData (newObject a d) = d" "\<not> deleted (newObject a d)"
  "suicided (newObject a d) = False"
  by (simp_all add: newObject_def)

lemma acctOf_cong: "ext s = ext t \<Longrightarrow> database s = database t \<Longrightarrow> acctOf s = acctOf t"
  by (rule ext)
    (simp add: acctOf_def soCode_def soGetState_def getTrie_def OpenStorageTrie_def emptyCodeHash_def
      Let_def cong: option.case_cong)

lemma codeView_cong: "ext s = ext t \<Longrightarrow> database s = database t \<Longrightarrow> codeView s = codeView t"
  by (intro ext) (simp add: codeView_def emptyCodeHash_def)

lemma setStateObject_simps [simp]:
  "ext (setStateObject s obj) = ext s" "database (setStateObject s obj) = database s"
  "stateTrie (setStateObject s obj) = stateTrie s" "thash (setStateObject s obj) = thash s"
  "bhash (setStateObject s obj) = bhash s" "txIdx (setStateObject s obj) = txIdx s"
  "jrnl (setStateObject s obj) = jrnl s" "validRevisions (setStateObject s obj) = validRevisions s"
  "nextRevisionId (setStateObject s obj) = nextRevisionId s" "refundCounter (setStateObject s obj) = refundCounter s"
  "logMap (setStateObject s obj) = logMap s" "logSize (setStateObject s obj) = logSize s"
  "preimages (setStateObject s obj) = preimages s"
  "stateObjects (setStateObject s obj) = (stateObjects s)(objAddress obj \<mapsto> obj)"
  by (simp_all add: setStateObject_def)

lemma jdirty_entries [simp]: "entries (jdirty j a) = entries j"
  by (simp add: jdirty_def)

lemma jappend_entries [simp]: "entries (jappend j e) = e # entries j"
  by (simp add: jappend_def Let_def split: option.split)

lemma jundirty_entries [simp]: "entries (jundirty j e) = entries j"
  by (simp add: jundirty_def Let_def split: option.split)

lemma addEntry_simps [simp]:
  "ext (addEntry s e) = ext s" "database (addEntry s e) = database s"
  "stateTrie (addEntry s e) = stateTrie s" "thash (addEntry s e) = thash s"
  "bhash (addEntry s e) = bhash s" "txIdx (addEntry s e) = txIdx s"
  "entries (jrnl (addEntry s e)) = e # entries (jrnl s)" "validRevisions (addEntry s e) = validRevisions s"
  "nextRevisionId (addEntry s e) = nextRevisionId s" "refundCounter (addEntry s e) = refundCounter s"
  "logMap (addEntry s e) = logMap s" "logSize (addEntry s e) = logSize s"
  "preimages (addEntry s e) = preimages s" "stateObjects (addEntry s e) = stateObjects s"
  by (simp_all add: addEntry_def)

lemma liveObj_addEntry [simp]: "liveObj (addEntry s e) = liveObj s"
  by (rule liveObj_cong) simp_all

lemma liveObj_setStateObject:
  "liveObj (setStateObject s obj) =
     (liveObj s)(objAddress obj := (if deleted obj then None else Some obj))"
  by (rule ext) (simp add: liveObj_alt split: option.split)

lemma GetLogs_alt: "GetLogs s = (\<lambda>h. case logMap s h of None \<Rightarrow> [] | Some l \<Rightarrow> l)"
  by (simp add: GetLogs_def fun_eq_iff)

lemma GetLogs_cong [simp]:
  "GetLogs (setStateObject s obj) = GetLogs s" "GetLogs (addEntry s e) = GetLogs s"
  by (simp_all add: GetLogs_def fun_eq_iff)

lemma accts_view: "accts (view s) a = map_option (acctOf s) (liveObj s a)"
  by (simp add: view_def)

lemma view_fields [simp]:
  "wRefund (view s) = refundCounter s" "wLogs (view s) = GetLogs s" "wLogSize (view s) = logSize s"
  "wPreimages (view s) = preimages s"
  by (simp_all add: view_def)

lemma view_other_same [simp]:
  "(view s)\<lparr>wRefund := refundCounter s\<rparr> = view s" "(view s)\<lparr>wLogs := GetLogs s\<rparr> = view s"
  "(view s)\<lparr>wLogSize := logSize s\<rparr> = view s" "(view s)\<lparr>wPreimages := preimages s\<rparr> = view s"
  by (simp_all add: view_def)

lemma view_setStateObject:
  "view (setStateObject s obj) =
     (view s)\<lparr>accts := (accts (view s))(objAddress obj := (if deleted obj then None else Some (acctOf s obj)))\<rparr>"
proof -
  have "acctOf (setStateObject s obj) = acctOf s" by (rule acctOf_cong) simp_all
  then show ?thesis by (auto simp: view_def liveObj_setStateObject)
qed

lemma view_addEntry [simp]: "view (addEntry s e) = view s"
proof -
  have "acctOf (addEntry s e) = acctOf s" by (rule acctOf_cong) simp_all
  then show ?thesis by (simp add: view_def)
qed

lemma putAcct_same: "accts w a = Some x \<Longrightarrow> putAcct w a x = w"
  by (simp add: putAcct_def map_upd_triv)

lemma accts_drop_same: "accts w a = None \<Longrightarrow> w\<lparr>accts := (accts w)(a := None)\<rparr> = w"
  by (cases w) (simp add: fun_upd_idem)

lemma putAcct_drop: "(putAcct w a x)\<lparr>accts := (accts (putAcct w a x))(a := None)\<rparr> = w\<lparr>accts := (accts w)(a := None)\<rparr>"
  by (simp add: putAcct_def)

lemma putAcct_twice [simp]: "putAcct (putAcct w a x) a y = putAcct w a y"
  by (simp add: putAcct_def)

lemma accts_putAcct [simp]: "accts (putAcct w a x) = (accts w)(a \<mapsto> x)"
  by (simp add: putAcct_def)

section \<open>Evolution of the database within a transaction\<close>

fun wundos :: "statedb \<Rightarrow> journalEntry list \<Rightarrow> world \<Rightarrow> world option" where
  "wundos s [] w = Some w"
| "wundos s (e # es) w = Option.bind (wundo s e w) (wundos s es)"

definition extends :: "statedb \<Rightarrow> statedb \<Rightarrow> bool" where
  "extends s t \<longleftrightarrow> (\<exists>es. entries (jrnl t) = es @ entries (jrnl s) \<and> wundos s es (view t) = Some (view s))"

definition revsGrow :: "statedb \<Rightarrow> statedb \<Rightarrow> bool" where
  "revsGrow s t \<longleftrightarrow> nextRevisionId s \<le> nextRevisionId t \<and>
     (\<exists>rs. validRevisions t = validRevisions s @ rs \<and>
       (\<forall>(i, j) \<in> set rs. nextRevisionId s \<le> i \<and> jlength (jrnl s) \<le> j))"

definition evolves :: "statedb \<Rightarrow> statedb \<Rightarrow> bool" where
  "evolves s t \<longleftrightarrow> dbInv t \<and> sameEnv s t \<and> extends s t \<and> revsGrow s t"

lemma wundo_cong: "sameEnv s t \<Longrightarrow> wundo t e w = wundo s e w"
  by (cases e) (simp_all add: sameEnv_def acctOf_cong [of s t] codeView_cong [of s t])

lemma wundos_cong: "sameEnv s t \<Longrightarrow> wundos t es = wundos s es"
proof (induction es)
  case (Cons e es)
  then show ?case by (intro ext) (simp add: wundo_cong)
qed (simp add: fun_eq_iff)

lemma wundos_append: "wundos s (xs @ ys) w = Option.bind (wundos s xs w) (wundos s ys)"
  by (induction xs arbitrary: w) (auto split: bind_splits)

lemma sameEnv_refl [simp]: "sameEnv s s"
  by (simp add: sameEnv_def)

lemma sameEnv_trans: "sameEnv s t \<Longrightarrow> sameEnv t u \<Longrightarrow> sameEnv s u"
  by (simp add: sameEnv_def)

lemma evolves_refl: "dbInv s \<Longrightarrow> evolves s s"
  by (simp add: evolves_def extends_def revsGrow_def)

lemma extends_trans: "sameEnv s t \<Longrightarrow> extends s t \<Longrightarrow> extends t u \<Longrightarrow> extends s u"
  by (auto simp: extends_def wundos_append wundos_cong)

lemma extends_length: "extends s t \<Longrightarrow> jlength (jrnl s) \<le> jlength (jrnl t)"
  by (auto simp: extends_def jlength_def)

lemma revsGrow_trans: "extends s t \<Longrightarrow> revsGrow s t \<Longrightarrow> revsGrow t u \<Longrightarrow> revsGrow s u"
  using extends_length [of s t] by (fastforce simp: revsGrow_def)

lemma evolves_trans: "evolves s t \<Longrightarrow> evolves t u \<Longrightarrow> evolves s u"
  unfolding evolves_def by (blast intro: sameEnv_trans extends_trans revsGrow_trans)

lemma evolves_dbInv: "evolves s t \<Longrightarrow> dbInv t"
  by (simp add: evolves_def)

lemma evolves_env:
  assumes "evolves s t"
  shows "ext t = ext s" "database t = database s" "emptyCodeHash t = emptyCodeHash s"
    "thash t = thash s" "bhash t = bhash s" "txIdx t = txIdx s"
  using assms by (auto simp: evolves_def sameEnv_def emptyCodeHash_def)

lemma revsOk_mono:
  "revsOk s \<Longrightarrow> validRevisions t = validRevisions s \<Longrightarrow> nextRevisionId s \<le> nextRevisionId t \<Longrightarrow>
   jlength (jrnl s) \<le> jlength (jrnl t) \<Longrightarrow> revsOk t"
  by (fastforce simp: revsOk_def)

lemma entryOk_cong: "stateTrie s = stateTrie t \<Longrightarrow> entryOk s e = entryOk t e"
  by (cases e) simp_all

text \<open>Reading an account only fills the live map.\<close>

lemma createObject_alt:
  "createObject s a =
     (let s1 = snd (getStateObject s a); newobj = setNonceObj (newObject a (zeroAccount s1)) 0
      in (newobj, liveObj s a, setStateObject (addEntry s1
           (case liveObj s a of None \<Rightarrow> createObjectChange a | Some p \<Rightarrow> resetObjectChange p)) newobj))"
  by (cases "getStateObject s a") (simp add: createObject_def liveObj_def Let_def)

lemma GetOrNewStateObject_alt:
  "GetOrNewStateObject s a =
     (let s1 = snd (getStateObject s a); c = createObject s1 a
      in case liveObj s a of
           Some obj \<Rightarrow> if deleted obj then (fst c, snd (snd c)) else (obj, s1)
         | None \<Rightarrow> (fst c, snd (snd c)))"
  by (cases "getStateObject s a")
    (simp add: GetOrNewStateObject_def liveObj_def Let_def split_beta split: option.split)

lemma load_cases:
  "snd (getStateObject s a) = s \<or>
   (\<exists>d. stateObjects s a = None \<and> stateTrie s a = Some d \<and>
      snd (getStateObject s a) = setStateObject s (newObject a d))"
  by (simp add: getStateObject_def Let_def split: option.split)

lemma view_load [simp]: "view (snd (getStateObject s a)) = view s"
  using load_cases [of s a]
proof
  assume "\<exists>d. stateObjects s a = None \<and> stateTrie s a = Some d \<and>
      snd (getStateObject s a) = setStateObject s (newObject a d)"
  then obtain d where d: "stateObjects s a = None" "stateTrie s a = Some d"
    "snd (getStateObject s a) = setStateObject s (newObject a d)" by blast
  then have "accts (view s) a = Some (acctOf s (newObject a d))" by (simp add: accts_view liveObj_alt)
  with d show ?thesis by (simp add: view_setStateObject map_upd_triv)
qed simp

lemma liveObj_load [simp]: "liveObj (snd (getStateObject s a)) = liveObj s"
  using load_cases [of s a] by (auto simp: liveObj_setStateObject liveObj_alt)

lemma load_simps [simp]:
  "ext (snd (getStateObject s a)) = ext s" "database (snd (getStateObject s a)) = database s"
  "stateTrie (snd (getStateObject s a)) = stateTrie s" "thash (snd (getStateObject s a)) = thash s"
  "bhash (snd (getStateObject s a)) = bhash s" "txIdx (snd (getStateObject s a)) = txIdx s"
  "jrnl (snd (getStateObject s a)) = jrnl s" "validRevisions (snd (getStateObject s a)) = validRevisions s"
  "nextRevisionId (snd (getStateObject s a)) = nextRevisionId s"
  using load_cases [of s a] by auto

lemma emptyCodeHash_load [simp]: "emptyCodeHash (snd (getStateObject s a)) = emptyCodeHash s"
  by (simp add: emptyCodeHash_def)

lemma acctOf_load [simp]: "acctOf (snd (getStateObject s a)) = acctOf s"
  by (rule acctOf_cong) simp_all

lemma objsOk_setStateObject:
  "objsOk s \<Longrightarrow> \<not> deleted obj \<Longrightarrow> objsOk (setStateObject s obj)"
  by (simp add: objsOk_def)

text \<open>The two kinds of elementary step: one that changes caches only, and one that appends a single
  journal entry whose undoing gives the old world.\<close>

lemma evolves_silent:
  assumes "dbInv s" "sameEnv s t" "objsOk t" "view t = view s" "entries (jrnl t) = entries (jrnl s)"
    "validRevisions t = validRevisions s" "nextRevisionId t = nextRevisionId s"
  shows "evolves s t"
proof -
  have "revsOk t" using assms by (auto simp: dbInv_def jlength_def intro: revsOk_mono)
  moreover have "\<forall>e \<in> set (entries (jrnl t)). entryOk t e"
    using assms by (simp add: dbInv_def sameEnv_def entryOk_cong [of t s])
  ultimately show ?thesis using assms by (simp add: evolves_def dbInv_def extends_def revsGrow_def)
qed

lemma evolves_step:
  assumes "dbInv s" "sameEnv s t" "objsOk t" "entryOk s e" "wundo s e (view t) = Some (view s)"
    "entries (jrnl t) = e # entries (jrnl s)"
    "validRevisions t = validRevisions s" "nextRevisionId t = nextRevisionId s"
  shows "evolves s t"
proof -
  have "revsOk t" using assms by (auto simp: dbInv_def jlength_def intro: revsOk_mono)
  moreover have "\<forall>e \<in> set (entries (jrnl t)). entryOk t e"
    using assms by (simp add: dbInv_def sameEnv_def entryOk_cong [of t s])
  moreover have "extends s t"
    unfolding extends_def by (rule exI [of _ "[e]"]) (simp add: assms)
  ultimately show ?thesis using assms by (simp add: evolves_def dbInv_def revsGrow_def)
qed

lemma evolves_load: "dbInv s \<Longrightarrow> evolves s (snd (getStateObject s a))"
  using load_cases [of s a]
  by (intro evolves_silent) (auto simp: dbInv_def objsOk_setStateObject sameEnv_def)

text \<open>The general journalled write: an entry and the object it describes, put back under its
  address, such that undoing the entry gives the old world.\<close>

lemma evolves_write:
  assumes inv: "dbInv s" and del: "\<not> deleted obj" and ok: "entryOk s e"
    and undo: "wundo s e (putAcct (view s) (objAddress obj) (acctOf s obj)) = Some (view s)"
  shows "evolves s (setStateObject (addEntry s e) obj)"
    and "view (setStateObject (addEntry s e) obj) = putAcct (view s) (objAddress obj) (acctOf s obj)"
proof -
  let ?t = "setStateObject (addEntry s e) obj"
  have ac: "acctOf (addEntry s e) = acctOf s" by (rule acctOf_cong) simp_all
  show view: "view ?t = putAcct (view s) (objAddress obj) (acctOf s obj)"
    using del by (simp add: view_setStateObject ac putAcct_def)
  have "objsOk ?t" using inv del by (simp add: dbInv_def objsOk_def)
  then show "evolves s ?t" using inv ok undo
    by (intro evolves_step [of s ?t e]) (simp_all add: sameEnv_def view)
qed

section \<open>Objects and their views\<close>

lemma soCode_fst: "fst (soCode s obj) = codeView s (objCode obj) (CodeHash (objData obj))"
  by (simp add: soCode_def codeView_def Let_def)

lemma soCode_snd [simp]:
  "acctOf t (snd (soCode t obj)) = acctOf t obj" "objAddress (snd (soCode s obj)) = objAddress obj"
  "deleted (snd (soCode s obj)) = deleted obj" "objData (snd (soCode s obj)) = objData obj"
  by (auto simp: soCode_def acctOf_def soGetState_def getTrie_def Let_def fun_eq_iff split: option.split)

lemma soGetState_snd [simp]:
  "acctOf t (snd (soGetState t obj k)) = acctOf t obj"
  "objAddress (snd (soGetState s obj k)) = objAddress obj"
  "deleted (snd (soGetState s obj k)) = deleted obj" "objData (snd (soGetState s obj k)) = objData obj"
  by (auto simp: acctOf_def soGetState_def soCode_def getTrie_def Let_def fun_eq_iff split: option.split)

lemma acctOf_setBalanceObj [simp]: "acctOf s (setBalanceObj obj n) = (acctOf s obj)\<lparr>aBalance := n\<rparr>"
  by (auto simp: acctOf_def setBalanceObj_def soGetState_def soCode_def getTrie_def Let_def fun_eq_iff
      split: option.split)

lemma acctOf_setNonceObj [simp]: "acctOf s (setNonceObj obj n) = (acctOf s obj)\<lparr>aNonce := n\<rparr>"
  by (auto simp: acctOf_def setNonceObj_def soGetState_def soCode_def getTrie_def Let_def fun_eq_iff
      split: option.split)

lemma acctOf_setCodeObj [simp]:
  "acctOf s (setCodeObj obj h c) = (acctOf s obj)\<lparr>aCodeHash := h, aCode := codeView s c h\<rparr>"
  by (auto simp: acctOf_def setCodeObj_def soGetState_def soCode_def codeView_def getTrie_def Let_def
      emptyCodeHash_def fun_eq_iff split: option.split)

lemma acctOf_setStateObj [simp]:
  "acctOf s (setStateObj obj k v) = (acctOf s obj)\<lparr>aStorage := (aStorage (acctOf s obj))(k := v)\<rparr>"
  by (auto simp: acctOf_def setStateObj_def soGetState_def soCode_def getTrie_def Let_def fun_eq_iff
      split: option.split)

lemma acctOf_suicided [simp]:
  "acctOf s (obj\<lparr>suicided := b\<rparr>) = (acctOf s obj)\<lparr>aSuicided := b\<rparr>"
  by (auto simp: acctOf_def soGetState_def soCode_def getTrie_def Let_def fun_eq_iff
      split: option.split)

lemma obj_updates_simps [simp]:
  "objAddress (setBalanceObj obj n) = objAddress obj" "deleted (setBalanceObj obj n) = deleted obj"
  "objAddress (setNonceObj obj m) = objAddress obj" "deleted (setNonceObj obj m) = deleted obj"
  "objAddress (setCodeObj obj h c) = objAddress obj" "deleted (setCodeObj obj h c) = deleted obj"
  "objAddress (setStateObj obj k v) = objAddress obj" "deleted (setStateObj obj k v) = deleted obj"
  by (simp_all add: setBalanceObj_def setNonceObj_def setCodeObj_def setStateObj_def)

lemma acctOf_fields:
  "aNonce (acctOf s obj) = Nonce (objData obj)" "aBalance (acctOf s obj) = Balance (objData obj)"
  "aCodeHash (acctOf s obj) = CodeHash (objData obj)" "aCode (acctOf s obj) = fst (soCode s obj)"
  "aStorage (acctOf s obj) = (\<lambda>k. fst (soGetState s obj k))" "aSuicided (acctOf s obj) = suicided obj"
  by (simp_all add: acctOf_def)

lemma acctOf_same [simp]:
  "(acctOf s obj)\<lparr>aBalance := Balance (objData obj)\<rparr> = acctOf s obj"
  "(acctOf s obj)\<lparr>aNonce := Nonce (objData obj)\<rparr> = acctOf s obj"
  "(acctOf s obj)\<lparr>aCode := fst (soCode s obj), aCodeHash := CodeHash (objData obj)\<rparr> = acctOf s obj"
  "(acctOf s obj)\<lparr>aStorage := (aStorage (acctOf s obj))(k := fst (soGetState s obj k))\<rparr> = acctOf s obj"
  "(acctOf s obj)\<lparr>aSuicided := suicided obj\<rparr> = acctOf s obj"
  by (simp_all add: acctOf_def fun_eq_iff)

lemma acctOf_new: "acctOf s (newObject a (zeroAccount s)) = newAcct (emptyCodeHash s)"
  by (auto simp: acctOf_def newAcct_def newObject_def zeroAccount_def soGetState_def soCode_def
      getTrie_def OpenStorageTrie_def Let_def fun_eq_iff emptyCodeHash_def)

lemma liveObj_ok: "objsOk s \<Longrightarrow> liveObj s a = Some obj \<Longrightarrow> objAddress obj = a \<and> \<not> deleted obj"
  by (auto simp: liveObj_alt objsOk_def split: option.splits if_splits)

lemma liveObj_None: "objsOk s \<Longrightarrow> liveObj s a = None \<Longrightarrow> stateTrie s a = None"
  by (auto simp: liveObj_alt objsOk_def split: option.splits if_splits)

section \<open>Every operation evolves the database and refines its specification\<close>

definition createEntry :: "statedb \<Rightarrow> address \<Rightarrow> journalEntry" where
  "createEntry s a = (case liveObj s a of None \<Rightarrow> createObjectChange a | Some p \<Rightarrow> resetObjectChange p)"

lemma create_write:
  assumes inv: "dbInv s" and o: "objAddress obj = a" "\<not> deleted obj"
  defines "t \<equiv> setStateObject (addEntry (snd (getStateObject s a)) (createEntry s a)) obj"
  shows "evolves s t" "view t = putAcct (view s) a (acctOf s obj)"
proof -
  let ?s1 = "snd (getStateObject s a)"
  have inv1: "dbInv ?s1" using evolves_load [OF inv] by (rule evolves_dbInv)
  have ok: "entryOk ?s1 (createEntry s a)"
    using inv by (auto simp: createEntry_def dbInv_def dest: liveObj_None liveObj_ok split: option.split)
  have "wundo ?s1 (createEntry s a) (putAcct (view ?s1) a (acctOf ?s1 obj)) = Some (view ?s1)"
  proof (cases "liveObj s a")
    case None
    then show ?thesis using putAcct_drop [of "view s" a] accts_drop_same [of "view s" a]
      by (simp add: createEntry_def accts_view)
  next
    case (Some p)
    then have "objAddress p = a" using inv liveObj_ok [of s a p] by (simp add: dbInv_def)
    with Some show ?thesis by (simp add: createEntry_def accts_view putAcct_same)
  qed
  then have *: "wundo ?s1 (createEntry s a) (putAcct (view ?s1) (objAddress obj) (acctOf ?s1 obj)) = Some (view ?s1)"
    using o by simp
  show "evolves s t"
    unfolding t_def by (rule evolves_trans [OF evolves_load [OF inv] evolves_write(1) [OF inv1 o(2) ok *]])
  show "view t = putAcct (view s) a (acctOf s obj)"
    unfolding t_def using evolves_write(2) [OF inv1 o(2) ok *] o(1) by simp
qed

lemma acctOf_createObject [simp]:
  "acctOf s (newObject a (zeroAccount (snd (getStateObject s b)))) = newAcct (emptyCodeHash s)"
  "(newAcct eh)\<lparr>aNonce := 0\<rparr> = newAcct eh"
  using acctOf_new [of "snd (getStateObject s b)" a] by (simp_all add: newAcct_def)

lemma createObject_spec:
  assumes inv: "dbInv s" and eq: "createObject s a = (obj, prev, t)"
  shows "evolves s t" "view t = putAcct (view s) a (newAcct (emptyCodeHash s))" "prev = liveObj s a"
    "objAddress obj = a" "\<not> deleted obj" "acctOf t obj = newAcct (emptyCodeHash s)"
proof -
  let ?o = "setNonceObj (newObject a (zeroAccount (snd (getStateObject s a)))) 0"
  have t: "t = setStateObject (addEntry (snd (getStateObject s a)) (createEntry s a)) ?o"
    and p: "prev = liveObj s a" and o: "obj = ?o"
    using eq by (auto simp: createObject_alt createEntry_def Let_def)
  from p show "prev = liveObj s a" .
  show "objAddress obj = a" "\<not> deleted obj" by (simp_all add: o)
  show "evolves s t" "view t = putAcct (view s) a (newAcct (emptyCodeHash s))"
    using create_write [OF inv, of ?o a] t by simp_all
  have "acctOf t = acctOf s" unfolding t by (rule acctOf_cong) simp_all
  then show "acctOf t obj = newAcct (emptyCodeHash s)" by (simp add: o)
qed

lemma GetOrNewStateObject_spec:
  assumes inv: "dbInv s" and eq: "GetOrNewStateObject s a = (obj, t)"
  shows "evolves s t" "objAddress obj = a" "\<not> deleted obj"
    "acctOf t obj = orNew (emptyCodeHash s) (view s) a"
    "view t = putAcct (view s) a (orNew (emptyCodeHash s) (view s) a)"
proof -
  let ?s1 = "snd (getStateObject s a)"
  have inv1: "dbInv ?s1" using evolves_load [OF inv] by (rule evolves_dbInv)
  have "evolves s t \<and> objAddress obj = a \<and> \<not> deleted obj \<and>
      acctOf t obj = orNew (emptyCodeHash s) (view s) a \<and>
      view t = putAcct (view s) a (orNew (emptyCodeHash s) (view s) a)"
  proof (cases "liveObj s a")
    case None
    obtain n p u where c: "createObject ?s1 a = (n, p, u)" by (cases "createObject ?s1 a") auto
    with eq None have tu: "t = u" "obj = n" by (auto simp: GetOrNewStateObject_alt)
    have "orNew (emptyCodeHash s) (view s) a = newAcct (emptyCodeHash s)"
      using None by (simp add: orNew_def accts_view)
    with createObject_spec [OF inv1 c] evolves_load [OF inv, of a] tu show ?thesis
      by (auto intro: evolves_trans)
  next
    case (Some x)
    with liveObj_ok [of s a x] inv have x: "objAddress x = a" "\<not> deleted x" by (simp_all add: dbInv_def)
    with eq Some have tu: "t = ?s1" "obj = x" by (auto simp: GetOrNewStateObject_alt)
    have "accts (view s) a = Some (acctOf s x)" using Some by (simp add: accts_view)
    with tu x evolves_load [OF inv, of a] show ?thesis by (simp add: orNew_def putAcct_same)
  qed
  then show "evolves s t" "objAddress obj = a" "\<not> deleted obj"
    "acctOf t obj = orNew (emptyCodeHash s) (view s) a"
    "view t = putAcct (view s) a (orNew (emptyCodeHash s) (view s) a)" by blast+
qed

text \<open>A journalled write to the object of an account, after the account was fetched or created.\<close>

lemma write_spec:
  assumes inv: "dbInv s" and eq: "GetOrNewStateObject s a = (obj, t)"
    and o: "objAddress obj' = a" "\<not> deleted obj'" and ok: "entryOk t e"
    and undo: "modAcct (putAcct (view t) a (acctOf t obj')) a f = Some (putAcct (view t) a (acctOf t obj))"
    and e: "wundo t e = (\<lambda>w. modAcct w a f)"
  shows "evolves s (setStateObject (addEntry t e) obj')"
    and "view (setStateObject (addEntry t e) obj') = putAcct (view s) a (acctOf t obj')"
proof -
  note g = GetOrNewStateObject_spec [OF inv eq]
  have "putAcct (view t) a (acctOf t obj) = view t" using g(4,5) by (simp add: putAcct_same)
  with undo e o have u: "wundo t e (putAcct (view t) (objAddress obj') (acctOf t obj')) = Some (view t)"
    by simp
  note w = evolves_write [OF evolves_dbInv [OF g(1)] o(2) ok u]
  show "evolves s (setStateObject (addEntry t e) obj')" by (rule evolves_trans [OF g(1) w(1)])
  show "view (setStateObject (addEntry t e) obj') = putAcct (view s) a (acctOf t obj')"
    using w(2) g(5) o by simp
qed

lemma soSetBalance_spec:
  assumes inv: "dbInv s" and eq: "GetOrNewStateObject s a = (obj, t)"
  shows "evolves s (soSetBalance t obj n)"
    "view (soSetBalance t obj n) = sSetBalance (emptyCodeHash s) (view s) a n"
proof -
  note g = GetOrNewStateObject_spec [OF inv eq]
  have "modAcct (putAcct (view t) a (acctOf t (setBalanceObj obj n))) a (\<lambda>x. x\<lparr>aBalance := Balance (objData obj)\<rparr>)
      = Some (putAcct (view t) a (acctOf t obj))"
    by (simp add: modAcct_def)
  from write_spec [OF inv eq _ _ _ this, of "balanceChange a (Balance (objData obj))"] g
  show "evolves s (soSetBalance t obj n)"
    "view (soSetBalance t obj n) = sSetBalance (emptyCodeHash s) (view s) a n"
    by (simp_all add: soSetBalance_def sSetBalance_def fun_eq_iff)
qed

lemma soSetNonce_spec:
  assumes inv: "dbInv s" and eq: "GetOrNewStateObject s a = (obj, t)"
  shows "evolves s (soSetNonce t obj n)"
    "view (soSetNonce t obj n) = sSetNonce (emptyCodeHash s) (view s) a n"
proof -
  note g = GetOrNewStateObject_spec [OF inv eq]
  have "modAcct (putAcct (view t) a (acctOf t (setNonceObj obj n))) a (\<lambda>x. x\<lparr>aNonce := Nonce (objData obj)\<rparr>)
      = Some (putAcct (view t) a (acctOf t obj))"
    by (simp add: modAcct_def)
  from write_spec [OF inv eq _ _ _ this, of "nonceChange a (Nonce (objData obj))"] g
  show "evolves s (soSetNonce t obj n)"
    "view (soSetNonce t obj n) = sSetNonce (emptyCodeHash s) (view s) a n"
    by (simp_all add: soSetNonce_def sSetNonce_def fun_eq_iff)
qed

lemma codeView_fst [simp]: "codeView s (fst (soCode s obj)) (CodeHash (objData obj)) = fst (soCode s obj)"
  by (simp add: soCode_def codeView_def Let_def)

lemma codeView_keccak [simp]: "codeView s c (keccak256 (ext s) c) = c"
  by (simp add: codeView_def emptyCodeHash_def)

lemma soSetCode_spec:
  assumes inv: "dbInv s" and eq: "GetOrNewStateObject s a = (obj, t)" and h: "h = keccak256 (ext t) c"
  shows "evolves s (soSetCode t obj h c)"
    "view (soSetCode t obj h c) = sSetCode (emptyCodeHash s) (view s) a h c"
proof -
  note g = GetOrNewStateObject_spec [OF inv eq]
  let ?o = "setCodeObj (snd (soCode t obj)) h c"
  have "modAcct (putAcct (view t) a (acctOf t ?o)) a
       (\<lambda>x. x\<lparr>aCode := codeView t (fst (soCode t obj)) (CodeHash (objData obj)), aCodeHash := CodeHash (objData obj)\<rparr>)
      = Some (putAcct (view t) a (acctOf t obj))"
    by (simp add: modAcct_def)
  from write_spec [OF inv eq _ _ _ this, of "codeChange a (fst (soCode t obj)) (CodeHash (objData obj))"] g h
  show "evolves s (soSetCode t obj h c)"
    "view (soSetCode t obj h c) = sSetCode (emptyCodeHash s) (view s) a h c"
    by (simp_all add: soSetCode_def sSetCode_def split_beta fun_eq_iff)
qed

lemma soSetState_spec:
  assumes inv: "dbInv s" and eq: "GetOrNewStateObject s a = (obj, t)"
  shows "evolves s (soSetState t obj k v)"
    "view (soSetState t obj k v) = sSetState (emptyCodeHash s) (view s) a k v"
proof -
  note g = GetOrNewStateObject_spec [OF inv eq]
  let ?o = "setStateObj (snd (soGetState t obj k)) k v"
  have "modAcct (putAcct (view t) a (acctOf t ?o)) a
       (\<lambda>x. x\<lparr>aStorage := (aStorage x)(k := fst (soGetState t obj k))\<rparr>)
      = Some (putAcct (view t) a (acctOf t obj))"
    by (simp add: modAcct_def)
  from write_spec [OF inv eq _ _ _ this, of "storageChange a k (fst (soGetState t obj k))"] g
  show "evolves s (soSetState t obj k v)"
    "view (soSetState t obj k v) = sSetState (emptyCodeHash s) (view s) a k v"
    by (simp_all add: soSetState_def sSetState_def split_beta fun_eq_iff)
qed

lemma touch_simps [simp]:
  "ext (touch s obj) = ext s" "database (touch s obj) = database s"
  "stateTrie (touch s obj) = stateTrie s" "thash (touch s obj) = thash s"
  "bhash (touch s obj) = bhash s" "txIdx (touch s obj) = txIdx s"
  "entries (jrnl (touch s obj)) = touchChange (objAddress obj) # entries (jrnl s)"
  "validRevisions (touch s obj) = validRevisions s" "nextRevisionId (touch s obj) = nextRevisionId s"
  "stateObjects (touch s obj) = stateObjects s"
  by (simp_all add: touch_def Let_def)

lemma view_jrnl [simp]: "view (s\<lparr>jrnl := j\<rparr>) = view s"
proof -
  have "acctOf (s\<lparr>jrnl := j\<rparr>) = acctOf s" by (rule acctOf_cong) simp_all
  moreover have "liveObj (s\<lparr>jrnl := j\<rparr>) = liveObj s" by (rule liveObj_cong) simp_all
  moreover have "GetLogs (s\<lparr>jrnl := j\<rparr>) = GetLogs s" by (rule ext) (simp add: GetLogs_def)
  ultimately show ?thesis by (simp add: view_def)
qed

lemma view_touch [simp]: "view (touch s obj) = view s"
  by (simp add: touch_def Let_def)

lemma evolves_touch: "dbInv s \<Longrightarrow> evolves s (touch s obj)"
  by (rule evolves_step [of s _ "touchChange (objAddress obj)"])
    (simp_all add: sameEnv_def dbInv_def objsOk_def)

lemma soAddBalance_spec:
  assumes inv: "dbInv s" and eq: "GetOrNewStateObject s a = (obj, t)"
  shows "evolves s (soAddBalance t obj n)"
    "view (soAddBalance t obj n) = sAddBalance (emptyCodeHash s) (view s) a n"
proof -
  note g = GetOrNewStateObject_spec [OF inv eq]
  note w = soSetBalance_spec [OF inv eq, of "Balance (objData obj) + n"]
  have b: "Balance (objData obj) = aBalance (orNew (emptyCodeHash s) (view s) a)"
    using g(4) by (simp flip: acctOf_fields(2) [of t])
  show "evolves s (soAddBalance t obj n)"
    using w(1) g(1) evolves_trans [OF g(1) evolves_touch [OF evolves_dbInv [OF g(1)]]]
    by (simp add: soAddBalance_def)
  show "view (soAddBalance t obj n) = sAddBalance (emptyCodeHash s) (view s) a n"
    using w(2) g(5) by (simp add: soAddBalance_def sAddBalance_def sSetBalance_def b)
qed

lemma soSubBalance_spec:
  assumes inv: "dbInv s" and eq: "GetOrNewStateObject s a = (obj, t)"
  shows "evolves s (soSubBalance t obj n)"
    "view (soSubBalance t obj n) = sAddBalance (emptyCodeHash s) (view s) a (- n)"
proof -
  note g = GetOrNewStateObject_spec [OF inv eq]
  note w = soSetBalance_spec [OF inv eq, of "Balance (objData obj) - n"]
  have b: "Balance (objData obj) = aBalance (orNew (emptyCodeHash s) (view s) a)"
    using g(4) by (simp flip: acctOf_fields(2) [of t])
  show "evolves s (soSubBalance t obj n)"
    using w(1) g(1) by (simp add: soSubBalance_def)
  show "view (soSubBalance t obj n) = sAddBalance (emptyCodeHash s) (view s) a (- n)"
    using w(2) g(5) by (simp add: soSubBalance_def sAddBalance_def sSetBalance_def b)
qed

lemma AddBalance_spec:
  assumes "dbInv s"
  shows "evolves s (AddBalance s a n)" "view (AddBalance s a n) = sAddBalance (emptyCodeHash s) (view s) a n"
  using soAddBalance_spec [OF assms, of a] by (simp_all add: AddBalance_def split: prod.split)

lemma SubBalance_spec:
  assumes "dbInv s"
  shows "evolves s (SubBalance s a n)" "view (SubBalance s a n) = sAddBalance (emptyCodeHash s) (view s) a (- n)"
  using soSubBalance_spec [OF assms, of a] by (simp_all add: SubBalance_def split: prod.split)

lemma SetBalance_spec:
  assumes "dbInv s"
  shows "evolves s (SetBalance s a n)" "view (SetBalance s a n) = sSetBalance (emptyCodeHash s) (view s) a n"
  using soSetBalance_spec [OF assms, of a] by (simp_all add: SetBalance_def split: prod.split)

lemma SetNonce_spec:
  assumes "dbInv s"
  shows "evolves s (SetNonce s a n)" "view (SetNonce s a n) = sSetNonce (emptyCodeHash s) (view s) a n"
  using soSetNonce_spec [OF assms, of a] by (simp_all add: SetNonce_def split: prod.split)

lemma SetCode_spec:
  assumes "dbInv s"
  shows "evolves s (SetCode s a c)"
    "view (SetCode s a c) = sSetCode (emptyCodeHash s) (view s) a (keccak256 (ext s) c) c"
proof -
  obtain obj t where g: "GetOrNewStateObject s a = (obj, t)" by fastforce
  note w = soSetCode_spec [OF assms g refl, of c]
  have "ext t = ext s" using GetOrNewStateObject_spec(1) [OF assms g] by (rule evolves_env)
  with w g show "evolves s (SetCode s a c)"
    "view (SetCode s a c) = sSetCode (emptyCodeHash s) (view s) a (keccak256 (ext s) c) c"
    by (simp_all add: SetCode_def)
qed

lemma SetState_spec:
  assumes "dbInv s"
  shows "evolves s (SetState s a k v)" "view (SetState s a k v) = sSetState (emptyCodeHash s) (view s) a k v"
  using soSetState_spec [OF assms, of a] by (simp_all add: SetState_def split: prod.split)

text \<open>The queries only fill caches.\<close>

lemma evolves_cache:
  assumes inv: "dbInv s" and o: "liveObj s a = Some obj" "objAddress obj' = a" "\<not> deleted obj'"
    "acctOf s obj' = acctOf s obj"
  shows "evolves s (setStateObject (snd (getStateObject s a)) obj')"
    "view (setStateObject (snd (getStateObject s a)) obj') = view s"
proof -
  let ?t = "setStateObject (snd (getStateObject s a)) obj'"
  have "accts (view s) a = Some (acctOf s obj)" using o by (simp add: accts_view)
  with o show v: "view ?t = view s" by (simp add: view_setStateObject map_upd_triv)
  have "objsOk ?t" using evolves_dbInv [OF evolves_load [OF inv, of a]] o
    by (simp add: dbInv_def objsOk_setStateObject)
  then show "evolves s ?t" using inv v by (intro evolves_silent) (simp_all add: sameEnv_def)
qed

lemma GetCode_alt:
  "GetCode s a = (let s1 = snd (getStateObject s a) in
     case liveObj s a of None \<Rightarrow> ([], s1)
     | Some obj \<Rightarrow> (fst (soCode s1 obj), setStateObject s1 (snd (soCode s1 obj))))"
  by (cases "getStateObject s a") (simp add: GetCode_def liveObj_def Let_def split_beta split: option.split)

lemma GetState_alt:
  "GetState s a k = (let s1 = snd (getStateObject s a) in
     case liveObj s a of None \<Rightarrow> (0, s1)
     | Some obj \<Rightarrow> (fst (soGetState s1 obj k), setStateObject s1 (snd (soGetState s1 obj k))))"
  by (cases "getStateObject s a") (simp add: GetState_def liveObj_def Let_def split_beta split: option.split)

lemma soCode_load [simp]: "soCode (snd (getStateObject s a)) = soCode s"
  by (rule ext) (simp add: soCode_def)

lemma soGetState_load [simp]: "soGetState (snd (getStateObject s a)) = soGetState s"
  by (intro ext) (simp add: soGetState_def getTrie_def OpenStorageTrie_def Let_def split: option.split)

lemma GetCode_spec:
  assumes inv: "dbInv s"
  shows "evolves s (snd (GetCode s a))" "view (snd (GetCode s a)) = view s" "fst (GetCode s a) = wCode (view s) a"
  using evolves_load [OF inv, of a] evolves_cache [OF inv, of a] liveObj_ok [of s a] inv
  by (auto simp: GetCode_alt Let_def wCode_def accts_view acctOf_fields dbInv_def split: option.split)

lemma GetState_spec:
  assumes inv: "dbInv s"
  shows "evolves s (snd (GetState s a k))" "view (snd (GetState s a k)) = view s"
    "fst (GetState s a k) = wState (view s) a k"
  using evolves_load [OF inv, of a] evolves_cache [OF inv, of a] liveObj_ok [of s a] inv
  by (auto simp: GetState_alt Let_def wState_def accts_view acctOf_fields dbInv_def split: option.split)

lemma query_alts:
  "GetBalance s a = (case liveObj s a of Some obj \<Rightarrow> Balance (objData obj) | None \<Rightarrow> 0, snd (getStateObject s a))"
  "GetNonce s a = (case liveObj s a of Some obj \<Rightarrow> Nonce (objData obj) | None \<Rightarrow> 0, snd (getStateObject s a))"
  "GetCodeHash s a = (case liveObj s a of Some obj \<Rightarrow> CodeHash (objData obj) | None \<Rightarrow> 0, snd (getStateObject s a))"
  "HasSuicided s a = (case liveObj s a of Some obj \<Rightarrow> suicided obj | None \<Rightarrow> False, snd (getStateObject s a))"
  "Exist s a = (liveObj s a \<noteq> None, snd (getStateObject s a))"
  "Empty s a = (case liveObj s a of Some obj \<Rightarrow> soEmpty (snd (getStateObject s a)) obj | None \<Rightarrow> True, snd (getStateObject s a))"
  "GetCodeSize s a = (case liveObj s a of Some obj \<Rightarrow>
      if objCode obj \<noteq> [] then length (objCode obj) else length (contractCodes (database s) (CodeHash (objData obj)))
      | None \<Rightarrow> 0, snd (getStateObject s a))"
  using load_simps(2) [of s a]
  by (cases "getStateObject s a"; simp add: GetBalance_def GetNonce_def GetCodeHash_def HasSuicided_def
      Exist_def Empty_def GetCodeSize_def liveObj_def split: option.split)+

lemma query_values:
  "fst (GetBalance s a) = wBalance (view s) a" "fst (GetNonce s a) = wNonce (view s) a"
  "fst (GetCodeHash s a) = wCodeHash (view s) a" "fst (HasSuicided s a) = wSuicided (view s) a"
  "fst (Exist s a) \<longleftrightarrow> accts (view s) a \<noteq> None" "fst (Empty s a) = wEmpty (emptyCodeHash s) (view s) a"
  by (auto simp: query_alts wBalance_def wNonce_def wCodeHash_def wSuicided_def wEmpty_def soEmpty_def
      accts_view acctOf_fields split: option.split)

lemma GetCodeSize_value:
  "contractCodes (database s) (emptyCodeHash s) = [] \<Longrightarrow> fst (GetCodeSize s a) = length (wCode (view s) a)"
  by (auto simp: query_alts wCode_def accts_view acctOf_fields soCode_def Let_def split: option.split)

lemma query_states:
  "snd (GetBalance s a) = snd (getStateObject s a)" "snd (GetNonce s a) = snd (getStateObject s a)"
  "snd (GetCodeHash s a) = snd (getStateObject s a)" "snd (HasSuicided s a) = snd (getStateObject s a)"
  "snd (Exist s a) = snd (getStateObject s a)" "snd (Empty s a) = snd (getStateObject s a)"
  "snd (GetCodeSize s a) = snd (getStateObject s a)"
  by (simp_all add: query_alts)

lemma AddLog_spec:
  assumes inv: "dbInv s"
  shows "evolves s (AddLog s l)" "view (AddLog s l) = sAddLog (view s) (thash s) (bhash s) (txIdx s) l"
proof -
  let ?t = "AddLog s l"
  have e: "sameEnv s ?t" "stateObjects ?t = stateObjects s" "refundCounter ?t = refundCounter s"
    "preimages ?t = preimages s" "logSize ?t = logSize s + 1"
    "entries (jrnl ?t) = addLogChange (thash s) # entries (jrnl s)"
    "validRevisions ?t = validRevisions s" "nextRevisionId ?t = nextRevisionId s"
    by (simp_all add: AddLog_def Let_def sameEnv_def)
  have g: "GetLogs ?t = (GetLogs s)(thash s := GetLogs s (thash s) @
      [l\<lparr>TxHash := thash s, BlockHash := bhash s, TxIndex := txIdx s, LogIndex := logSize s\<rparr>])"
    by (simp add: AddLog_def Let_def GetLogs_def fun_eq_iff)
  have "liveObj ?t = liveObj s" using e by (intro liveObj_cong) (simp_all add: sameEnv_def)
  moreover have "acctOf ?t = acctOf s" using e by (intro acctOf_cong) (simp_all add: sameEnv_def)
  ultimately show v: "view ?t = sAddLog (view s) (thash s) (bhash s) (txIdx s) l"
    using e g by (simp add: view_def sAddLog_def)
  show "evolves s ?t"
    using e inv by (intro evolves_step [of s ?t "addLogChange (thash s)"])
      (simp_all add: v sAddLog_def dbInv_def objsOk_def sameEnv_def)
qed

lemma AddPreimage_spec:
  assumes inv: "dbInv s"
  shows "evolves s (AddPreimage s h p)" "view (AddPreimage s h p) = sAddPreimage (view s) h p"
proof -
  let ?t = "(addEntry s (addPreimageChange h))\<lparr>preimages := (preimages s)(h \<mapsto> p)\<rparr>"
  have al: "AddPreimage s h p = (if preimages s h = None then ?t else s)"
    by (simp add: AddPreimage_def Let_def split: option.split)
  have "liveObj ?t = liveObj s" by (rule liveObj_cong) simp_all
  moreover have "acctOf ?t = acctOf s" by (rule acctOf_cong) simp_all
  moreover have "GetLogs ?t = GetLogs s" by (simp add: GetLogs_def fun_eq_iff)
  ultimately have v: "view ?t = (view s)\<lparr>wPreimages := (preimages s)(h \<mapsto> p)\<rparr>" by (simp add: view_def)
  then show "view (AddPreimage s h p) = sAddPreimage (view s) h p"
    by (auto simp: al sAddPreimage_def view_def split: option.split)
  have "evolves s ?t" if "preimages s h = None"
    using inv that by (intro evolves_step [of s ?t "addPreimageChange h"])
      (simp_all add: v dbInv_def objsOk_def sameEnv_def, simp add: view_def fun_upd_idem)
  then show "evolves s (AddPreimage s h p)" using inv by (simp add: al evolves_refl)
qed

lemma AddRefund_spec:
  assumes inv: "dbInv s"
  shows "evolves s (AddRefund s g)" "view (AddRefund s g) = sAddRefund (view s) g"
proof -
  let ?t = "AddRefund s g"
  have e: "sameEnv s ?t" "stateObjects ?t = stateObjects s" "refundCounter ?t = refundCounter s + g"
    "preimages ?t = preimages s" "logSize ?t = logSize s" "logMap ?t = logMap s"
    "entries (jrnl ?t) = refundChange (refundCounter s) # entries (jrnl s)"
    "validRevisions ?t = validRevisions s" "nextRevisionId ?t = nextRevisionId s"
    by (simp_all add: AddRefund_def Let_def sameEnv_def)
  have "liveObj ?t = liveObj s" using e by (intro liveObj_cong) (simp_all add: sameEnv_def)
  moreover have "acctOf ?t = acctOf s" using e by (intro acctOf_cong) (simp_all add: sameEnv_def)
  moreover have "GetLogs ?t = GetLogs s" using e by (simp add: GetLogs_def fun_eq_iff)
  ultimately show v: "view ?t = sAddRefund (view s) g" using e by (simp add: view_def sAddRefund_def)
  show "evolves s ?t"
    using e inv by (intro evolves_step [of s ?t "refundChange (refundCounter s)"])
      (simp_all add: v sAddRefund_def dbInv_def objsOk_def sameEnv_def)
qed

lemma Suicide_alt:
  "Suicide s a = (let s1 = snd (getStateObject s a) in
     case liveObj s a of None \<Rightarrow> (False, s1)
     | Some obj \<Rightarrow> (True, setStateObject (addEntry s1 (suicideChange a (suicided obj) (Balance (objData obj))))
                      (setBalanceObj (obj\<lparr>suicided := True\<rparr>) 0)))"
  by (cases "getStateObject s a") (simp add: Suicide_def liveObj_def Let_def split: option.split)

lemma Suicide_spec:
  assumes inv: "dbInv s"
  shows "evolves s (snd (Suicide s a))" "view (snd (Suicide s a)) = sSuicide (view s) a"
    "fst (Suicide s a) \<longleftrightarrow> accts (view s) a \<noteq> None"
proof -
  let ?s1 = "snd (getStateObject s a)"
  have e1: "evolves s ?s1" by (rule evolves_load [OF inv])
  show "fst (Suicide s a) \<longleftrightarrow> accts (view s) a \<noteq> None"
    by (simp add: Suicide_alt Let_def accts_view split: option.split)
  have "evolves s (snd (Suicide s a)) \<and> view (snd (Suicide s a)) = sSuicide (view s) a"
  proof (cases "liveObj s a")
    case None
    then show ?thesis using e1 by (simp add: Suicide_alt Let_def sSuicide_def accts_view)
  next
    case (Some obj)
    let ?e = "suicideChange a (suicided obj) (Balance (objData obj))"
    let ?o = "setBalanceObj (obj\<lparr>suicided := True\<rparr>) 0"
    have o: "objAddress obj = a" "\<not> deleted obj" using liveObj_ok [OF _ Some] inv by (simp_all add: dbInv_def)
    have a: "accts (view s) a = Some (acctOf s obj)" using Some by (simp add: accts_view)
    have "(acctOf s obj)\<lparr>aBalance := Balance (objData obj), aSuicided := suicided obj\<rparr> = acctOf s obj" by simp
    then have "wundo ?s1 ?e (putAcct (view ?s1) (objAddress ?o) (acctOf ?s1 ?o)) = Some (view ?s1)"
      using o a by (simp add: putAcct_same)
    note w = evolves_write [OF evolves_dbInv [OF e1] _ _ this]
    have "evolves ?s1 (snd (Suicide s a))" "view (snd (Suicide s a)) = sSuicide (view s) a"
      using w o a Some by (simp_all add: Suicide_alt Let_def sSuicide_def)
    then show ?thesis using evolves_trans [OF e1] by blast
  qed
  then show "evolves s (snd (Suicide s a))" "view (snd (Suicide s a)) = sSuicide (view s) a" by blast+
qed

lemma setStateObject_twice [simp]:
  "objAddress x = objAddress y \<Longrightarrow> setStateObject (setStateObject s x) y = setStateObject s y"
  by (simp add: setStateObject_def)

lemma CreateAccount_spec:
  assumes inv: "dbInv s"
  shows "evolves s (CreateAccount s a)" "view (CreateAccount s a) = sCreateAccount (emptyCodeHash s) (view s) a"
proof -
  let ?n = "setNonceObj (newObject a (zeroAccount (snd (getStateObject s a)))) 0"
  let ?o = "case liveObj s a of None \<Rightarrow> ?n | Some p \<Rightarrow> setBalanceObj ?n (Balance (objData p))"
  have o: "objAddress ?o = a" "\<not> deleted ?o" by (simp_all split: option.split)
  have c: "CreateAccount s a = setStateObject (addEntry (snd (getStateObject s a)) (createEntry s a)) ?o"
    by (simp add: CreateAccount_def createObject_alt createEntry_def Let_def split: option.split)
  show "evolves s (CreateAccount s a)" unfolding c by (rule create_write [OF inv o])
  have "acctOf s ?o = (newAcct (emptyCodeHash s))\<lparr>aBalance := wBalance (view s) a\<rparr>"
    by (simp add: wBalance_def accts_view acctOf_fields newAcct_def split: option.split)
  then show "view (CreateAccount s a) = sCreateAccount (emptyCodeHash s) (view s) a"
    unfolding c create_write(2) [OF inv o] sCreateAccount_def by simp
qed

section \<open>Snapshots and reverting\<close>

lemma Snapshot_simps [simp]:
  "ext (snd (Snapshot s)) = ext s" "database (snd (Snapshot s)) = database s"
  "stateTrie (snd (Snapshot s)) = stateTrie s" "jrnl (snd (Snapshot s)) = jrnl s"
  "fst (Snapshot s) = nextRevisionId s" "thash (snd (Snapshot s)) = thash s"
  "bhash (snd (Snapshot s)) = bhash s" "txIdx (snd (Snapshot s)) = txIdx s"
  "nextRevisionId (snd (Snapshot s)) = nextRevisionId s + 1"
  "validRevisions (snd (Snapshot s)) = validRevisions s @ [(nextRevisionId s, jlength (jrnl s))]"
  by (simp_all add: Snapshot_def Let_def)

lemma view_Snapshot [simp]: "view (snd (Snapshot s)) = view s"
proof -
  have "acctOf (snd (Snapshot s)) = acctOf s" by (rule acctOf_cong) simp_all
  moreover have "liveObj (snd (Snapshot s)) = liveObj s" by (rule liveObj_cong) (simp_all add: Snapshot_def Let_def)
  moreover have "GetLogs (snd (Snapshot s)) = GetLogs s" by (rule ext) (simp add: GetLogs_def Snapshot_def Let_def)
  ultimately show ?thesis by (simp add: view_def Snapshot_def Let_def)
qed

lemma evolves_Snapshot:
  assumes "dbInv s"
  shows "evolves s (snd (Snapshot s))"
proof -
  have "\<forall>e \<in> set (entries (jrnl s)). entryOk (snd (Snapshot s)) e"
    using assms by (simp add: dbInv_def entryOk_cong [of "snd (Snapshot s)" s])
  moreover have "objsOk (snd (Snapshot s))" using assms by (simp add: dbInv_def objsOk_def Snapshot_def Let_def)
  moreover have "revsOk (snd (Snapshot s))" using assms
    by (fastforce simp: dbInv_def revsOk_def sorted_wrt_append)
  ultimately show ?thesis
    by (simp add: evolves_def dbInv_def sameEnv_def extends_def revsGrow_def)
qed

definition reverted :: "statedb \<Rightarrow> world \<Rightarrow> statedb \<Rightarrow> bool" where
  "reverted s w t \<longleftrightarrow> view t = w \<and> sameEnv s t \<and> objsOk t \<and> jrnl t = jrnl s \<and>
     validRevisions t = validRevisions s \<and> nextRevisionId t = nextRevisionId s"

lemma objsOk_load: "objsOk s \<Longrightarrow> objsOk (snd (getStateObject s a))"
  using load_cases [of s a] by (auto simp: objsOk_setStateObject)

lemma reverted_put:
  assumes "objsOk s" "objAddress obj = a" "\<not> deleted obj"
  shows "reverted s (putAcct (view s) a (acctOf s obj)) (setStateObject (snd (getStateObject s a)) obj)"
  using assms objsOk_load [of s a]
  by (simp add: reverted_def view_setStateObject putAcct_def sameEnv_def objsOk_setStateObject)

lemma revert_modAcct:
  assumes ok: "objsOk s" and w: "modAcct (view s) a f = Some w"
    and g: "\<And>obj. objAddress (g obj) = objAddress obj" "\<And>obj. deleted (g obj) = deleted obj"
      "\<And>obj. acctOf s (g obj) = f (acctOf s obj)"
  shows "\<exists>t. (case getStateObject s a of (None, s1) \<Rightarrow> None
      | (Some obj, s1) \<Rightarrow> Some (setStateObject s1 (g obj))) = Some t \<and> reverted s w t"
proof -
  obtain obj where o: "liveObj s a = Some obj"
    using w by (auto simp: modAcct_def accts_view split: option.splits)
  then have "w = putAcct (view s) a (acctOf s (g obj))" using w g by (simp add: modAcct_def accts_view)
  with liveObj_ok [OF ok o] reverted_put [OF ok, of "g obj" a] g o show ?thesis
    by (cases "getStateObject s a") (simp add: liveObj_def)
qed

lemma reverted_other:
  assumes "objsOk s" "t = s\<lparr>refundCounter := r, logMap := lm, logSize := ls, preimages := pm\<rparr>"
  shows "reverted s ((view s)\<lparr>wRefund := r, wLogs := (\<lambda>h. case lm h of None \<Rightarrow> [] | Some l \<Rightarrow> l),
      wLogSize := ls, wPreimages := pm\<rparr>) t"
proof -
  have "acctOf t = acctOf s" using assms by (intro acctOf_cong) simp_all
  moreover have "liveObj t = liveObj s" using assms by (intro liveObj_cong) simp_all
  moreover have "GetLogs t = (\<lambda>h. case lm h of None \<Rightarrow> [] | Some l \<Rightarrow> l)"
    using assms by (simp add: GetLogs_def fun_eq_iff)
  ultimately have "view t = (view s)\<lparr>wRefund := r, wLogs := (\<lambda>h. case lm h of None \<Rightarrow> [] | Some l \<Rightarrow> l),
      wLogSize := ls, wPreimages := pm\<rparr>" using assms(2) by (simp add: view_def)
  then show ?thesis using assms by (simp add: reverted_def sameEnv_def objsOk_def)
qed

lemma reverted_create:
  assumes ok: "objsOk s" and tr: "stateTrie s a = None"
  defines "t \<equiv> s\<lparr>stateObjects := (stateObjects s)(a := None), stateObjectsDirty := stateObjectsDirty s - {a}\<rparr>"
  shows "reverted s ((view s)\<lparr>accts := (accts (view s))(a := None)\<rparr>) t"
proof -
  have "acctOf t = acctOf s" by (intro acctOf_cong) (simp_all add: t_def)
  moreover have "liveObj t = (liveObj s)(a := None)"
    using tr by (auto simp: liveObj_alt fun_eq_iff t_def split: option.split)
  moreover have "GetLogs t = GetLogs s" by (simp add: GetLogs_def t_def fun_eq_iff)
  moreover have "refundCounter t = refundCounter s" "logSize t = logSize s" "preimages t = preimages s"
    by (simp_all add: t_def)
  ultimately have "view t = (view s)\<lparr>accts := (accts (view s))(a := None)\<rparr>"
    unfolding view_def by auto
  then show ?thesis using ok by (auto simp: reverted_def sameEnv_def objsOk_def t_def)
qed

lemma revertEntry_spec:
  assumes ok: "objsOk s" and e: "entryOk s e" and w: "wundo s e (view s) = Some w"
  shows "\<exists>t. revertEntry e s = Some t \<and> reverted s w t"
proof (cases e)
  case (createObjectChange a)
  with e w reverted_create [OF ok, of a] show ?thesis by auto
next
  case (resetObjectChange p)
  with e w ok show ?thesis
    by (auto simp: reverted_def view_setStateObject putAcct_def sameEnv_def objsOk_setStateObject)
next
  case (suicideChange a b n)
  show ?thesis
  proof (cases "liveObj s a")
    case None
    then have "revertEntry e s = Some (snd (getStateObject s a))"
      by (cases "getStateObject s a") (simp add: suicideChange liveObj_def)
    moreover have "w = view s" using w None by (simp add: suicideChange accts_view)
    ultimately show ?thesis by (simp add: reverted_def sameEnv_def objsOk_load ok)
  next
    case (Some obj)
    then have "modAcct (view s) a (\<lambda>x. x\<lparr>aSuicided := b, aBalance := n\<rparr>) = Some w"
      using w by (simp add: modAcct_def suicideChange accts_view)
    from revert_modAcct [OF ok this, of "\<lambda>obj. setBalanceObj (obj\<lparr>suicided := b\<rparr>) n"] Some show ?thesis
      by (cases "getStateObject s a") (simp add: suicideChange liveObj_def)
  qed
next
  case (touchChange a)
  with w ok show ?thesis by (simp add: reverted_def)
next
  case (balanceChange a n)
  with w revert_modAcct [OF ok, of a _ w "\<lambda>obj. setBalanceObj obj n"] show ?thesis by simp
next
  case (nonceChange a n)
  with w revert_modAcct [OF ok, of a _ w "\<lambda>obj. setNonceObj obj n"] show ?thesis by simp
next
  case (codeChange a c h)
  with w revert_modAcct [OF ok, of a "\<lambda>x. x\<lparr>aCode := codeView s c h, aCodeHash := h\<rparr>" w "\<lambda>obj. setCodeObj obj h c"]
  show ?thesis by simp
next
  case (storageChange a k v)
  with w revert_modAcct [OF ok, of a _ w "\<lambda>obj. setStateObj obj k v"] show ?thesis by simp
next
  case (refundChange r)
  have "reverted s ((view s)\<lparr>wRefund := r\<rparr>) (s\<lparr>refundCounter := r\<rparr>)"
    using reverted_other [OF ok refl, where r = r and lm = "logMap s" and ls = "logSize s" and pm = "preimages s"]
    by (simp add: view_def GetLogs_alt)
  with w refundChange show ?thesis by simp
next
  case (addLogChange h)
  let ?ls = "GetLogs s h"
  let ?lm = "(logMap s)(h := (if length ?ls = 1 then None else Some (butlast ?ls)))"
  have "(\<lambda>h. case ?lm h of None \<Rightarrow> [] | Some l \<Rightarrow> l) = (GetLogs s)(h := butlast ?ls)"
    by (cases ?ls) (auto simp: GetLogs_alt fun_eq_iff)
  then have "reverted s ((view s)\<lparr>wLogs := (GetLogs s)(h := butlast ?ls), wLogSize := logSize s - 1\<rparr>)
      (s\<lparr>logMap := ?lm, logSize := logSize s - 1\<rparr>)"
    using reverted_other [OF ok refl, where r = "refundCounter s" and lm = ?lm
        and ls = "logSize s - 1" and pm = "preimages s"] by (simp add: view_def)
  with w addLogChange show ?thesis by (simp add: Let_def split: if_splits)
next
  case (addPreimageChange h)
  have "reverted s ((view s)\<lparr>wPreimages := (preimages s)(h := None)\<rparr>) (s\<lparr>preimages := (preimages s)(h := None)\<rparr>)"
    using reverted_other [OF ok refl, where r = "refundCounter s" and lm = "logMap s"
        and ls = "logSize s" and pm = "(preimages s)(h := None)"] by (simp add: view_def GetLogs_alt)
  with w addPreimageChange show ?thesis by simp
qed

lemma revertEntries_spec:
  assumes "objsOk s" "entries (jrnl s) = es @ rest" "\<forall>e \<in> set es. entryOk s e" "wundos s es (view s) = Some w"
  shows "\<exists>t. revertEntries (length es) s = Some t \<and> view t = w \<and> sameEnv s t \<and> objsOk t \<and>
    entries (jrnl t) = rest \<and> validRevisions t = validRevisions s \<and> nextRevisionId t = nextRevisionId s"
  using assms
proof (induction es arbitrary: s)
  case (Cons e es)
  obtain w1 where w1: "wundo s e (view s) = Some w1" "wundos s es w1 = Some w"
    using Cons.prems(4) by (cases "wundo s e (view s)") auto
  obtain s1 where s1: "revertEntry e s = Some s1" "reverted s w1 s1"
    using revertEntry_spec [OF Cons.prems(1) _ w1(1)] Cons.prems(3) by auto
  let ?s2 = "s1\<lparr>jrnl := (jundirty (jrnl s1) e)\<lparr>entries := es @ rest\<rparr>\<rparr>"
  have s1': "view s1 = w1" "sameEnv s s1" "objsOk s1" "validRevisions s1 = validRevisions s"
    "nextRevisionId s1 = nextRevisionId s" "jrnl s1 = jrnl s"
    using s1(2) by (simp_all add: reverted_def)
  have env: "sameEnv s ?s2" "objsOk ?s2" "view ?s2 = w1" "validRevisions ?s2 = validRevisions s"
    "nextRevisionId ?s2 = nextRevisionId s"
    using s1'(1-5) by (simp_all add: sameEnv_def objsOk_def)
  have "wundos ?s2 es (view ?s2) = Some w" using wundos_cong [OF env(1)] env(3) w1(2) by simp
  moreover have "\<forall>e \<in> set es. entryOk ?s2 e"
    using Cons.prems(3) env(1) entryOk_cong [of ?s2 s] by (simp add: sameEnv_def)
  moreover have "entries (jrnl ?s2) = es @ rest" by simp
  ultimately obtain t where t: "revertEntries (length es) ?s2 = Some t" "view t = w" "sameEnv ?s2 t"
    "objsOk t" "entries (jrnl t) = rest" "validRevisions t = validRevisions ?s2"
    "nextRevisionId t = nextRevisionId ?s2"
    using Cons.IH [of ?s2] env(2) by blast
  have "revertEntries (length (e # es)) s = Some t"
    using Cons.prems(2) s1(1) s1'(6) t(1) by simp
  moreover have "sameEnv s t" by (rule sameEnv_trans [OF env(1) t(3)])
  moreover have "validRevisions t = validRevisions s" "nextRevisionId t = nextRevisionId s"
    using t(6,7) env(4,5) by simp_all
  ultimately show ?case using t(2,4,5) by blast
qed simp

lemma searchFrom_correct:
  "i \<le> j \<Longrightarrow> j \<le> n \<Longrightarrow> \<forall>k l. k \<le> l \<longrightarrow> l < n \<longrightarrow> f k \<longrightarrow> f l \<Longrightarrow>
   \<forall>k < i. \<not> f k \<Longrightarrow> \<forall>k. j \<le> k \<longrightarrow> k < n \<longrightarrow> f k \<Longrightarrow>
   searchFrom f i j \<le> n \<and> (\<forall>k < searchFrom f i j. \<not> f k) \<and> (\<forall>k. searchFrom f i j \<le> k \<longrightarrow> k < n \<longrightarrow> f k)"
proof (induction f i j rule: searchFrom.induct)
  case (1 f i j)
  let ?h = "(i + j) div 2"
  consider "\<not> i < j" | "i < j" "f ?h" | "i < j" "\<not> f ?h" by blast
  then show ?case
  proof cases
    case 1
    then have "searchFrom f i j = i" by (simp add: searchFrom.simps [of f i j])
    with "1.prems"(1,2,4,5) 1 show ?thesis by simp
  next
    case 2
    then have eq: "searchFrom f i j = searchFrom f i ?h" by (simp add: searchFrom.simps [of f i j] Let_def)
    have "\<forall>k. ?h \<le> k \<longrightarrow> k < n \<longrightarrow> f k" using "1.prems"(3) 2(2) by blast
    moreover have "i \<le> ?h" "?h \<le> n" using 2(1) "1.prems"(2) by auto
    ultimately show ?thesis unfolding eq using "1.IH"(1) [OF 2(1) refl 2(2)] "1.prems"(3,4) by blast
  next
    case 3
    then have eq: "searchFrom f i j = searchFrom f (?h + 1) j" by (simp add: searchFrom.simps [of f i j] Let_def)
    have h: "?h < n" "?h + 1 \<le> j" using 3(1) "1.prems"(2) by auto
    then have "\<forall>k < ?h + 1. \<not> f k" using "1.prems"(3) 3(2) by (metis Suc_eq_plus1 less_Suc_eq_le)
    with h show ?thesis unfolding eq using "1.IH"(2) [OF 3(1) refl 3(2)] "1.prems"(2,3,5) by blast
  qed
qed

lemma sortSearch_eq:
  assumes "\<forall>k l. k \<le> l \<longrightarrow> l < n \<longrightarrow> f k \<longrightarrow> f l" "i \<le> n" "\<forall>k < i. \<not> f k" "i < n \<Longrightarrow> f i"
  shows "sortSearch n f = i"
proof -
  have "searchFrom f 0 n \<le> n \<and> (\<forall>k < searchFrom f 0 n. \<not> f k) \<and>
      (\<forall>k. searchFrom f 0 n \<le> k \<longrightarrow> k < n \<longrightarrow> f k)"
    by (rule searchFrom_correct [OF _ _ assms(1)]) simp_all
  then show ?thesis using assms(2-4) unfolding sortSearch_def
    by (cases "searchFrom f 0 n" i rule: linorder_cases) auto
qed

text \<open>The revision a snapshot pushed is found again, whatever snapshots were taken since.\<close>

lemma sortSearch_revision:
  assumes sorted: "sorted_wrt (\<lambda>x y. fst x < fst y \<and> snd x \<le> snd y) revs"
    and revs: "revs = rs @ (rid :: nat, j :: nat) # rs'"
  shows "sortSearch (length revs) (\<lambda>i. rid \<le> fst (revs ! i)) = length rs"
proof (rule sortSearch_eq)
  have less: "fst (revs ! k) < fst (revs ! l)" if "k < l" "l < length revs" for k l
    using sorted_wrt_nth_less [OF sorted that] by simp
  show "\<forall>k l. k \<le> l \<longrightarrow> l < length revs \<longrightarrow> rid \<le> fst (revs ! k) \<longrightarrow> rid \<le> fst (revs ! l)"
    using less by (metis le_neq_implies_less less_imp_le order_trans)
  show "\<forall>k < length rs. \<not> rid \<le> fst (revs ! k)"
    using less [of _ "length rs"] by (simp add: revs not_le)
qed (simp_all add: revs)

lemma RevertToSnapshot_restores:
  assumes inv: "dbInv s" and ev: "evolves (snd (Snapshot s)) t"
  shows "\<exists>u. RevertToSnapshot t (fst (Snapshot s)) = Some u \<and> view u = view s \<and> dbInv u \<and>
    sameEnv s u \<and> entries (jrnl u) = entries (jrnl s) \<and> validRevisions u = validRevisions s \<and>
    nextRevisionId s \<le> nextRevisionId u"
proof -
  let ?s1 = "snd (Snapshot s)"
  let ?j = "jlength (jrnl s)"
  have ev0: "evolves s t" by (rule evolves_trans [OF evolves_Snapshot [OF inv] ev])
  have tinv: "dbInv t" by (rule evolves_dbInv [OF ev])
  obtain es where es: "entries (jrnl t) = es @ entries (jrnl s)" "wundos s es (view t) = Some (view s)"
    using ev0 by (auto simp: evolves_def extends_def)
  obtain rs where rs: "validRevisions t = validRevisions s @ (nextRevisionId s, ?j) # rs"
    using ev by (auto simp: evolves_def revsGrow_def)
  have "sortSearch (length (validRevisions t)) (\<lambda>i. nextRevisionId s \<le> fst (validRevisions t ! i))
      = length (validRevisions s)"
    using tinv by (intro sortSearch_revision [OF _ rs]) (simp add: dbInv_def revsOk_def)
  moreover have "jlength (jrnl t) - ?j = length es" using es(1) by (simp add: jlength_def)
  moreover have "wundos t es (view t) = Some (view s)"
    using es(2) wundos_cong [of s t es] ev0 by (simp add: evolves_def)
  moreover obtain u where u: "revertEntries (length es) t = Some u" "view u = view s" "sameEnv t u" "objsOk u"
    "entries (jrnl u) = entries (jrnl s)" "validRevisions u = validRevisions t" "nextRevisionId u = nextRevisionId t"
    using revertEntries_spec [OF _ es(1), of "view s"] tinv es(1) calculation(3) by (auto simp: dbInv_def)
  ultimately have r: "RevertToSnapshot t (fst (Snapshot s)) = Some (u\<lparr>validRevisions := validRevisions s\<rparr>)"
    by (simp add: RevertToSnapshot_def Let_def rs)
  let ?u = "u\<lparr>validRevisions := validRevisions s\<rparr>"
  have env: "sameEnv s ?u" using ev0 u(3) by (auto simp: evolves_def sameEnv_def)
  have nr: "nextRevisionId s \<le> nextRevisionId t" using ev0 by (simp add: evolves_def revsGrow_def)
  have "view ?u = view s"
  proof -
    have "acctOf ?u = acctOf u" by (rule acctOf_cong) simp_all
    moreover have "liveObj ?u = liveObj u" by (rule liveObj_cong) simp_all
    ultimately show ?thesis using u(2) by (simp add: view_def GetLogs_alt)
  qed
  moreover have "dbInv ?u"
  proof -
    have "revsOk ?u"
      by (rule revsOk_mono [of s]) (use inv u(5,7) nr in \<open>simp_all add: dbInv_def jlength_def\<close>)
    moreover have "objsOk ?u" using u(4) by (simp add: objsOk_def)
    moreover have "\<forall>e \<in> set (entries (jrnl s)). entryOk ?u e"
      using inv env entryOk_cong [of ?u s] by (simp add: dbInv_def sameEnv_def)
    ultimately show ?thesis using u(5) by (simp add: dbInv_def)
  qed
  ultimately show ?thesis using r env u(5,7) nr by (intro exI [of _ ?u]) simp
qed

text \<open>A revert seen from an earlier state: the database still evolved from there.\<close>

lemma evolves_revert:
  assumes inv: "dbInv s" and ev: "evolves (snd (Snapshot s)) t" and u: "RevertToSnapshot t (fst (Snapshot s)) = Some u"
  shows "evolves s u" "view u = view s"
proof -
  have *: "view u = view s" "dbInv u" "sameEnv s u" "entries (jrnl u) = entries (jrnl s)"
    "validRevisions u = validRevisions s" "nextRevisionId s \<le> nextRevisionId u"
    using RevertToSnapshot_restores [OF inv ev] u by auto
  then show "evolves s u" by (simp add: evolves_def extends_def revsGrow_def)
  from *(1) show "view u = view s" .
qed

end
