(* ===== verification/Snapshots.thy ===== *)
theory Snapshots
  imports Journal
begin

text \<open>
  The contract of a store with snapshots, as the virtual machine uses it (\<open>Snapshot\<close> before a call,
  \<open>RevertToSnapshot\<close> when it fails): the locale \<open>snapshot_store\<close>, interpreted on the state
  database. Then whole runs of database operations: they refine the runs of their specifications,
  and a revert undoes any run, with nested snapshots and reverts inside it.
\<close>

section \<open>The interface\<close>

locale snapshot_store =
  fixes inv :: "'s \<Rightarrow> bool"
    and ev :: "'s \<Rightarrow> 's \<Rightarrow> bool"
    and obs :: "'s \<Rightarrow> 'w"
    and snap :: "'s \<Rightarrow> nat \<times> 's"
    and revert :: "'s \<Rightarrow> nat \<Rightarrow> 's option"
  assumes ev_refl: "inv s \<Longrightarrow> ev s s"
    and ev_trans: "ev s t \<Longrightarrow> ev t u \<Longrightarrow> ev s u"
    and ev_inv: "ev s t \<Longrightarrow> inv t"
    and ev_snap: "inv s \<Longrightarrow> ev s (snd (snap s))"
    and obs_snap: "obs (snd (snap s)) = obs s"
    and revert_ok: "inv s \<Longrightarrow> ev (snd (snap s)) t \<Longrightarrow>
      \<exists>u. revert t (fst (snap s)) = Some u \<and> obs u = obs s \<and> ev s u"
begin

text \<open>The call pattern: snapshot, run, and revert when the run failed.\<close>

lemma guarded:
  assumes "inv s" "ev (snd (snap s)) t"
  obtains u where "(if failed then revert t (fst (snap s)) else Some t) = Some u"
    "ev s u" "failed \<Longrightarrow> obs u = obs s" "\<not> failed \<Longrightarrow> u = t"
proof (cases failed)
  case True
  with revert_ok [OF assms] that show ?thesis by auto
next
  case False
  with that [of t] ev_trans [OF ev_snap [OF assms(1)] assms(2)] show ?thesis by simp
qed

text \<open>Reverting twice: the outer revert still restores the outer state.\<close>

lemma nested:
  assumes "inv s" "ev (snd (snap s)) t" "ev (snd (snap t)) u"
  shows "\<exists>v w. revert u (fst (snap t)) = Some v \<and> obs v = obs t \<and>
    revert v (fst (snap s)) = Some w \<and> obs w = obs s"
proof -
  obtain v where v: "revert u (fst (snap t)) = Some v" "obs v = obs t" "ev t v"
    using revert_ok [OF ev_inv [OF assms(2)] assms(3)] by blast
  with revert_ok [OF assms(1) ev_trans [OF assms(2) v(3)]] show ?thesis by blast
qed

end

lemma RevertToSnapshot_ok:
  assumes "dbInv s" "evolves (snd (Snapshot s)) t"
  shows "\<exists>u. RevertToSnapshot t (fst (Snapshot s)) = Some u \<and> view u = view s \<and> evolves s u"
  using RevertToSnapshot_restores [OF assms] evolves_revert [OF assms] by blast

interpretation db: snapshot_store dbInv evolves view Snapshot RevertToSnapshot
  by unfold_locales
    (fact evolves_refl evolves_trans evolves_dbInv evolves_Snapshot view_Snapshot RevertToSnapshot_ok)+

section \<open>Runs of operations\<close>

datatype dbOp =
    OAddBalance address int
  | OSubBalance address int
  | OSetBalance address int
  | OSetNonce address u64
  | OSetCode address bytes
  | OSetState address hash hash
  | OSuicide address
  | OCreateAccount address
  | OAddRefund u64
  | OAddLog Log
  | OAddPreimage hash bytes

fun runOp :: "dbOp \<Rightarrow> statedb \<Rightarrow> statedb" where
  "runOp (OAddBalance a n) s = AddBalance s a n"
| "runOp (OSubBalance a n) s = SubBalance s a n"
| "runOp (OSetBalance a n) s = SetBalance s a n"
| "runOp (OSetNonce a n) s = SetNonce s a n"
| "runOp (OSetCode a c) s = SetCode s a c"
| "runOp (OSetState a k v) s = SetState s a k v"
| "runOp (OSuicide a) s = snd (Suicide s a)"
| "runOp (OCreateAccount a) s = CreateAccount s a"
| "runOp (OAddRefund g) s = AddRefund s g"
| "runOp (OAddLog l) s = AddLog s l"
| "runOp (OAddPreimage h p) s = AddPreimage s h p"

text \<open>The specification of an operation; \<open>e\<close> supplies the hash function and the current transaction.\<close>

fun specOp :: "statedb \<Rightarrow> dbOp \<Rightarrow> world \<Rightarrow> world" where
  "specOp e (OAddBalance a n) w = sAddBalance (emptyCodeHash e) w a n"
| "specOp e (OSubBalance a n) w = sAddBalance (emptyCodeHash e) w a (- n)"
| "specOp e (OSetBalance a n) w = sSetBalance (emptyCodeHash e) w a n"
| "specOp e (OSetNonce a n) w = sSetNonce (emptyCodeHash e) w a n"
| "specOp e (OSetCode a c) w = sSetCode (emptyCodeHash e) w a (keccak256 (ext e) c) c"
| "specOp e (OSetState a k v) w = sSetState (emptyCodeHash e) w a k v"
| "specOp e (OSuicide a) w = sSuicide w a"
| "specOp e (OCreateAccount a) w = sCreateAccount (emptyCodeHash e) w a"
| "specOp e (OAddRefund g) w = sAddRefund w g"
| "specOp e (OAddLog l) w = sAddLog w (thash e) (bhash e) (txIdx e) l"
| "specOp e (OAddPreimage h p) w = sAddPreimage w h p"

text \<open>Everything a caller can do between a snapshot and its revert: operations, reads that fill the
  caches, further snapshots, and reverts to those.\<close>

inductive dbSteps :: "statedb \<Rightarrow> statedb \<Rightarrow> bool" where
  dbRefl: "dbSteps s s"
| dbUpdate: "dbSteps s t \<Longrightarrow> dbSteps s (runOp op t)"
| dbLoad: "dbSteps s t \<Longrightarrow> dbSteps s (snd (getStateObject t a))"
| dbGetCode: "dbSteps s t \<Longrightarrow> dbSteps s (snd (GetCode t a))"
| dbGetState: "dbSteps s t \<Longrightarrow> dbSteps s (snd (GetState t a k))"
| dbSnapshot: "dbSteps s t \<Longrightarrow> dbSteps s (snd (Snapshot t))"
| dbRevert: "dbSteps s t \<Longrightarrow> dbSteps (snd (Snapshot t)) u \<Longrightarrow>
    RevertToSnapshot u (fst (Snapshot t)) = Some v \<Longrightarrow> dbSteps s v"

lemmas op_specs = AddBalance_spec SubBalance_spec SetBalance_spec SetNonce_spec SetCode_spec
  SetState_spec Suicide_spec CreateAccount_spec AddRefund_spec AddLog_spec AddPreimage_spec

lemma evolves_runOp: "dbInv s \<Longrightarrow> evolves s (runOp op s)"
  by (cases op) (simp_all add: op_specs)

lemma view_runOp: "dbInv s \<Longrightarrow> view (runOp op s) = specOp s op (view s)"
  by (cases op) (simp_all add: op_specs)

lemma specOp_cong: "evolves s t \<Longrightarrow> specOp t op = specOp s op"
  by (cases op) (simp_all add: evolves_env fun_eq_iff)

lemma evolves_runOps: "dbInv s \<Longrightarrow> evolves s (fold runOp ops s)"
  by (induction ops arbitrary: s) (auto intro: evolves_refl evolves_trans evolves_runOp evolves_dbInv)

lemma dbSteps_evolves: "dbSteps s t \<Longrightarrow> dbInv s \<Longrightarrow> evolves s t"
proof (induction rule: dbSteps.induct)
  case (dbRevert s t u v)
  then have t: "evolves s t" by simp
  then have "evolves (snd (Snapshot t)) u"
    using dbRevert.IH(2) evolves_dbInv [OF evolves_Snapshot [OF evolves_dbInv [OF t]]] by simp
  from evolves_revert(1) [OF evolves_dbInv [OF t] this dbRevert.hyps(3)] show ?case
    by (rule evolves_trans [OF t])
qed (blast intro: evolves_refl evolves_trans evolves_runOp evolves_load GetCode_spec(1) GetState_spec(1)
    evolves_Snapshot evolves_dbInv)+

lemma dbInv_NewStateDB: "dbInv (NewStateDB ex db tr)"
  by (simp add: dbInv_def NewStateDB_def objsOk_def revsOk_def newJournal_def)

text \<open>A concrete database for the examples: an empty state over a toy hash.\<close>

definition demoExt :: externs where
  "demoExt = \<lparr>keccak256 = (\<lambda>b. of_nat (be_nat b)), trieRoot = (\<lambda>_. 0), createAddress = (\<lambda>a n. a + ucast n)\<rparr>"

definition demoDB :: statedb where
  "demoDB = NewStateDB demoExt \<lparr>storageTries = (\<lambda>_. Map.empty), contractCodes = (\<lambda>_. [])\<rparr> Map.empty"

lemma dbInv_demoDB: "dbInv demoDB"
  by (simp add: demoDB_def dbInv_NewStateDB)

section \<open>Properties\<close>

text \<open>C2. Snapshot and revert: after any run of operations, cache-filling reads, nested snapshots and
  nested reverts, \<open>RevertToSnapshot\<close> does not panic and restores everything a client can observe
  (balances, nonces, code, storage, self-destruct marks, refund counter, logs and preimages), the
  journal entries and the list of valid revisions. The dirty counters of the journal are not covered: touching
  the RIPEMD account leaves its counter raised on purpose.\<close>

theorem revert_restores:
  assumes "dbInv s" "dbSteps (snd (Snapshot s)) t"
  shows "\<exists>u. RevertToSnapshot t (fst (Snapshot s)) = Some u \<and> view u = view s \<and> dbInv u \<and>
    entries (jrnl u) = entries (jrnl s) \<and> validRevisions u = validRevisions s"
  using RevertToSnapshot_restores [OF assms(1) dbSteps_evolves
      [OF assms(2) evolves_dbInv [OF evolves_Snapshot [OF assms(1)]]]] by blast

theorem revert_restores_witness:
  "dbInv demoDB \<and>
   dbSteps (snd (Snapshot demoDB)) (runOp (OSetState 1 2 3) (runOp (OAddBalance 1 5) (snd (Snapshot demoDB)))) \<and>
   (\<exists>u. RevertToSnapshot (runOp (OSetState 1 2 3) (runOp (OAddBalance 1 5) (snd (Snapshot demoDB))))
        (fst (Snapshot demoDB)) = Some u \<and> view u = view demoDB \<and> dbInv u \<and>
      entries (jrnl u) = entries (jrnl demoDB) \<and> validRevisions u = validRevisions demoDB)"
proof -
  have "dbSteps (snd (Snapshot demoDB)) (runOp (OSetState 1 2 3) (runOp (OAddBalance 1 5) (snd (Snapshot demoDB))))"
    by (intro dbRefl dbUpdate)
  with revert_restores [OF dbInv_demoDB this] dbInv_demoDB show ?thesis by blast
qed

text \<open>C5. Refinement: a run of database operations, with its live objects, caches and journal, shows
  exactly the world its specification computes.\<close>

theorem runs_refine:
  assumes "dbInv s"
  shows "view (fold runOp ops s) = fold (specOp s) ops (view s)"
  using assms
proof (induction ops arbitrary: s)
  case (Cons op ops)
  have e: "evolves s (runOp op s)" by (rule evolves_runOp [OF Cons.prems])
  have "view (fold runOp ops (runOp op s)) = fold (specOp (runOp op s)) ops (view (runOp op s))"
    by (rule Cons.IH [OF evolves_dbInv [OF e]])
  also have "specOp (runOp op s) = specOp s" by (rule ext) (rule specOp_cong [OF e])
  finally show ?case by (simp add: view_runOp [OF Cons.prems])
qed simp

theorem runs_refine_witness:
  "dbInv demoDB \<and> wBalance (view (fold runOp [OAddBalance 7 5, OSubBalance 7 2, OCreateAccount 7] demoDB)) 7 = 3"
proof -
  have "wBalance (fold (specOp demoDB) [OAddBalance 7 5, OSubBalance 7 2, OCreateAccount 7] (view demoDB)) 7 = 3"
    by (simp add: sAddBalance_def sCreateAccount_def wBalance_def orNew_def newAcct_def accts_view
        liveObj_alt demoDB_def NewStateDB_def)
  with runs_refine [OF dbInv_demoDB] dbInv_demoDB show ?thesis by metis
qed

text \<open>C26. Reads: the eleven queries \<open>GetBalance\<close>, \<open>GetNonce\<close>, \<open>GetCode\<close>, \<open>GetCodeSize\<close>, \<open>GetCodeHash\<close>,
  \<open>GetState\<close>, \<open>HasSuicided\<close>, \<open>Exist\<close>, \<open>Empty\<close>, \<open>GetRefund\<close> and \<open>GetLogs\<close> return what the abstract world holds, and
  reading changes nothing a client can observe, although it fills the live-object, code and storage caches.
  The size of the code is right if the code database has nothing but the empty code under the hash
  of the empty code.\<close>

theorem reads_correct:
  assumes "dbInv s" "contractCodes (database s) (emptyCodeHash s) = []"
  shows "fst (GetBalance s a) = wBalance (view s) a \<and> fst (GetNonce s a) = wNonce (view s) a \<and>
    fst (GetCode s a) = wCode (view s) a \<and> fst (GetCodeSize s a) = length (wCode (view s) a) \<and>
    fst (GetCodeHash s a) = wCodeHash (view s) a \<and>
    fst (GetState s a k) = wState (view s) a k \<and> fst (HasSuicided s a) = wSuicided (view s) a \<and>
    (fst (Exist s a) \<longleftrightarrow> accts (view s) a \<noteq> None) \<and> fst (Empty s a) = wEmpty (emptyCodeHash s) (view s) a \<and>
    GetRefund s = wRefund (view s) \<and> GetLogs s = wLogs (view s) \<and>
    (\<forall>t \<in> {snd (GetBalance s a), snd (GetNonce s a), snd (GetCode s a), snd (GetCodeSize s a), snd (GetCodeHash s a),
      snd (GetState s a k), snd (HasSuicided s a), snd (Exist s a), snd (Empty s a)}. view t = view s \<and> dbInv t)"
  using evolves_dbInv [OF evolves_load [OF assms(1), of a]] GetCode_spec [OF assms(1), of a] GetCodeSize_value [OF assms(2), of a]
    GetState_spec [OF assms(1), of a k] by (simp add: query_values query_states evolves_dbInv GetRefund_def)

theorem reads_correct_witness:
  "dbInv (AddBalance demoDB 7 5) \<and> fst (GetBalance (AddBalance demoDB 7 5) 7) = 5"
proof -
  have i: "dbInv (AddBalance demoDB 7 5)"
    by (rule evolves_dbInv [OF AddBalance_spec(1) [OF dbInv_demoDB]])
  have "wBalance (view (AddBalance demoDB 7 5)) 7 = 5"
    unfolding AddBalance_spec(2) [OF dbInv_demoDB]
    by (simp add: sAddBalance_def wBalance_def orNew_def newAcct_def accts_view
        liveObj_alt demoDB_def NewStateDB_def)
  moreover have "contractCodes (database (AddBalance demoDB 7 5)) (emptyCodeHash (AddBalance demoDB 7 5)) = []"
    using AddBalance_spec(1) [OF dbInv_demoDB, of 7 5] by (simp add: evolves_def sameEnv_def demoDB_def NewStateDB_def)
  ultimately show ?thesis using reads_correct [OF i, of 7 0] i by simp
qed

end
