(* ===== verification/VMData.thy ===== *)
theory VMData
  imports Params
begin

text \<open>
  The data structures of \<open>core/vm\<close>: the operand stack (\<open>stack.go\<close>, \<open>stack_table.go\<close>), the byte
  memory (\<open>memory.go\<close>, \<open>memory_table.go\<close>), the helpers of \<open>common.go\<close>, the jump destination
  analysis (\<open>analysis.go\<close>) and contracts (\<open>contract.go\<close>).

  The stack is a list with its top first, so \<open>Back n\<close> is the element at index \<open>n\<close>. The integer
  pool recycles big integers and has no effect on values; it is not part of the model.
\<close>

section \<open>Errors\<close>

datatype vmError =
    ErrOutOfGas
  | ErrCodeStoreOutOfGas
  | ErrDepth
  | ErrInsufficientBalance
  | ErrContractAddressCollision
  | errGasUintOverflow
  | errWriteProtection
  | errReturnDataOutOfBounds
  | errExecutionReverted
  | errMaxCodeSizeExceeded
  | errBadPairingInput
  | errBadPoint
  | errStackUnderflow nat nat
  | errStackLimit nat
  | errInvalidOpcode byte
  | errInvalidJump byte int

section \<open>Stack\<close>

type_synonym Stack = "int list"

definition newstack :: Stack where
  "newstack = []"

definition push :: "int \<Rightarrow> Stack \<Rightarrow> Stack" where
  "push d st = d # st"

definition pop :: "Stack \<Rightarrow> (int \<times> Stack) option" where
  "pop st = (case st of [] \<Rightarrow> None | x # xs \<Rightarrow> Some (x, xs))"

definition peek :: "Stack \<Rightarrow> int option" where
  "peek st = index st 0"

definition Back :: "Stack \<Rightarrow> nat \<Rightarrow> int option" where
  "Back st n = index st n"

text \<open>\<open>swap(n)\<close> exchanges the top with the element at distance \<open>n - 1\<close>; \<open>dup(n)\<close> copies that element.\<close>

definition swap :: "nat \<Rightarrow> Stack \<Rightarrow> Stack option" where
  "swap n st =
     (if 1 \<le> n \<and> n \<le> length st then Some (st[0 := st ! (n - 1), n - 1 := st ! 0]) else None)"

definition dup :: "nat \<Rightarrow> Stack \<Rightarrow> Stack option" where
  "dup n st = (if 1 \<le> n \<and> n \<le> length st then Some (push (st ! (n - 1)) st) else None)"

definition require :: "Stack \<Rightarrow> nat \<Rightarrow> vmError option" where
  "require st n = (if length st < n then Some (errStackUnderflow (length st) n) else None)"

definition makeStackFunc :: "nat \<Rightarrow> nat \<Rightarrow> Stack \<Rightarrow> vmError option" where
  "makeStackFunc npop npush st =
     (case require st npop of
        Some e \<Rightarrow> Some e
      | None \<Rightarrow>
          if int StackLimit < int (length st) + int npush - int npop
          then Some (errStackLimit (length st)) else None)"

definition makeDupStackFunc :: "nat \<Rightarrow> Stack \<Rightarrow> vmError option" where
  "makeDupStackFunc n = makeStackFunc n (n + 1)"

definition makeSwapStackFunc :: "nat \<Rightarrow> Stack \<Rightarrow> vmError option" where
  "makeSwapStackFunc n = makeStackFunc n n"

section \<open>Memory\<close>

record Memory =
  memStore :: bytes
  lastGasCost :: u64

definition NewMemory :: Memory where
  "NewMemory = \<lparr>memStore = [], lastGasCost = 0\<rparr>"

definition MemLen :: "Memory \<Rightarrow> nat" where
  "MemLen m = length (memStore m)"

definition MemSet :: "Memory \<Rightarrow> u64 \<Rightarrow> u64 \<Rightarrow> bytes \<Rightarrow> Memory option" where
  "MemSet m offset sz v =
     (if of_nat (MemLen m) < sz then None
      else if 0 < sz then
        (case slice (memStore m) (unat offset) (unat (offset + sz)) of
           None \<Rightarrow> None
         | Some _ \<Rightarrow> Some (m\<lparr>memStore := copy_at (memStore m) (unat offset) (take (unat sz) v)\<rparr>))
      else Some m)"

definition Resize :: "Memory \<Rightarrow> u64 \<Rightarrow> Memory" where
  "Resize m sz =
     (if of_nat (MemLen m) < sz
      then m\<lparr>memStore := memStore m @ replicate (unat (sz - of_nat (MemLen m))) 0\<rparr> else m)"

text \<open>\<open>GetPtr\<close> returns a window of the store, \<open>Get\<close> a copy of it; the windows are only read after
  the frame that owns the memory has ended, so both are the same value here. Their arguments are
  \<open>int64\<close>.\<close>

definition GetPtr :: "Memory \<Rightarrow> int \<Rightarrow> int \<Rightarrow> bytes option" where
  "GetPtr m offset sz =
     (if sz = 0 then Some []
      else if offset < int (MemLen m) then
        (if 0 \<le> offset \<and> 0 \<le> sz then slice (memStore m) (nat offset) (nat (offset + sz)) else None)
      else Some [])"

definition MemGet :: "Memory \<Rightarrow> int \<Rightarrow> int \<Rightarrow> bytes option" where
  "MemGet m offset sz =
     (if sz = 0 then Some []
      else if offset < int (MemLen m) then
        (if 0 \<le> offset \<and> 0 \<le> sz then
           (case slice (memStore m) (nat offset) (nat (offset + sz)) of
              None \<Rightarrow> None | Some w \<Rightarrow> Some (copy_at (replicate (nat sz) 0) 0 w))
         else None)
      else Some [])"

section \<open>Helpers\<close>

definition calcMemSize :: "int \<Rightarrow> int \<Rightarrow> int" where
  "calcMemSize off l = (if l = 0 then 0 else off + l)"

definition getData :: "bytes \<Rightarrow> u64 \<Rightarrow> u64 \<Rightarrow> bytes option" where
  "getData data start sz =
     (let len = of_nat (length data);
          start' = (if len < start then len else start);
          end' = (let e = start' + sz in if len < e then len else e)
      in map_option (\<lambda>w. RightPadBytes w (sint sz)) (slice data (unat start') (unat end')))"

definition getDataBig :: "bytes \<Rightarrow> int \<Rightarrow> int \<Rightarrow> bytes option" where
  "getDataBig data start sz =
     (let dlen = int (length data); s = BigMin start dlen; e = BigMin (s + sz) dlen
      in map_option (\<lambda>w. RightPadBytes w (sint (Uint64 sz)))
           (slice data (unat (Uint64 s)) (unat (Uint64 e))))"

definition bigUint64 :: "int \<Rightarrow> u64 \<times> bool" where
  "bigUint64 v = (Uint64 v, 64 < BitLen v)"

definition toWordSize :: "u64 \<Rightarrow> u64" where
  "toWordSize sz = (if MaxUint64 - 31 < sz then MaxUint64 div 32 + 1 else (sz + 31) div 32)"

definition allZero :: "bytes \<Rightarrow> bool" where
  "allZero b \<longleftrightarrow> list_all (\<lambda>x. x = 0) b"

section \<open>Memory sizes\<close>

definition memorySha3 :: "Stack \<Rightarrow> int option" where
  "memorySha3 st = do { o1 \<leftarrow> Back st 0; l1 \<leftarrow> Back st 1; Some (calcMemSize o1 l1) }"

definition memoryCallDataCopy :: "Stack \<Rightarrow> int option" where
  "memoryCallDataCopy st = do { o1 \<leftarrow> Back st 0; l1 \<leftarrow> Back st 2; Some (calcMemSize o1 l1) }"

definition memoryReturnDataCopy :: "Stack \<Rightarrow> int option" where
  "memoryReturnDataCopy st = do { o1 \<leftarrow> Back st 0; l1 \<leftarrow> Back st 2; Some (calcMemSize o1 l1) }"

definition memoryCodeCopy :: "Stack \<Rightarrow> int option" where
  "memoryCodeCopy st = do { o1 \<leftarrow> Back st 0; l1 \<leftarrow> Back st 2; Some (calcMemSize o1 l1) }"

definition memoryExtCodeCopy :: "Stack \<Rightarrow> int option" where
  "memoryExtCodeCopy st = do { o1 \<leftarrow> Back st 1; l1 \<leftarrow> Back st 3; Some (calcMemSize o1 l1) }"

definition memoryMLoad :: "Stack \<Rightarrow> int option" where
  "memoryMLoad st = do { o1 \<leftarrow> Back st 0; Some (calcMemSize o1 32) }"

definition memoryMStore8 :: "Stack \<Rightarrow> int option" where
  "memoryMStore8 st = do { o1 \<leftarrow> Back st 0; Some (calcMemSize o1 1) }"

definition memoryMStore :: "Stack \<Rightarrow> int option" where
  "memoryMStore st = do { o1 \<leftarrow> Back st 0; Some (calcMemSize o1 32) }"

definition memoryCreate :: "Stack \<Rightarrow> int option" where
  "memoryCreate st = do { o1 \<leftarrow> Back st 1; l1 \<leftarrow> Back st 2; Some (calcMemSize o1 l1) }"

definition memoryCall :: "Stack \<Rightarrow> int option" where
  "memoryCall st = do {
     o1 \<leftarrow> Back st 5; l1 \<leftarrow> Back st 6; o2 \<leftarrow> Back st 3; l2 \<leftarrow> Back st 4;
     Some (BigMax (calcMemSize o1 l1) (calcMemSize o2 l2)) }"

definition memoryCallCode :: "Stack \<Rightarrow> int option" where
  "memoryCallCode st = do {
     o1 \<leftarrow> Back st 5; l1 \<leftarrow> Back st 6; o2 \<leftarrow> Back st 3; l2 \<leftarrow> Back st 4;
     Some (BigMax (calcMemSize o1 l1) (calcMemSize o2 l2)) }"

definition memoryDelegateCall :: "Stack \<Rightarrow> int option" where
  "memoryDelegateCall st = do {
     o1 \<leftarrow> Back st 4; l1 \<leftarrow> Back st 5; o2 \<leftarrow> Back st 2; l2 \<leftarrow> Back st 3;
     Some (BigMax (calcMemSize o1 l1) (calcMemSize o2 l2)) }"

definition memoryStaticCall :: "Stack \<Rightarrow> int option" where
  "memoryStaticCall st = do {
     o1 \<leftarrow> Back st 4; l1 \<leftarrow> Back st 5; o2 \<leftarrow> Back st 2; l2 \<leftarrow> Back st 3;
     Some (BigMax (calcMemSize o1 l1) (calcMemSize o2 l2)) }"

definition memoryReturn :: "Stack \<Rightarrow> int option" where
  "memoryReturn st = do { o1 \<leftarrow> Back st 0; l1 \<leftarrow> Back st 1; Some (calcMemSize o1 l1) }"

definition memoryRevert :: "Stack \<Rightarrow> int option" where
  "memoryRevert st = do { o1 \<leftarrow> Back st 0; l1 \<leftarrow> Back st 1; Some (calcMemSize o1 l1) }"

definition memoryLog :: "Stack \<Rightarrow> int option" where
  "memoryLog st = do { mSize \<leftarrow> Back st 1; mStart \<leftarrow> Back st 0; Some (calcMemSize mStart mSize) }"

section \<open>Jump destination analysis\<close>

type_synonym bitvec = bytes
type_synonym destinations = "hash \<rightharpoonup> bitvec"

definition PUSH1 :: byte where "PUSH1 = 0x60"
definition PUSH32 :: byte where "PUSH32 = 0x7f"
definition JUMPDEST :: byte where "JUMPDEST = 0x5b"

definition bvSet :: "bitvec \<Rightarrow> nat \<Rightarrow> bitvec option" where
  "bvSet bits pos =
     map_option (\<lambda>b. bits[pos div 8 := or b (drop_bit (pos mod 8) 0x80)]) (index bits (pos div 8))"

definition bvSet8 :: "bitvec \<Rightarrow> nat \<Rightarrow> bitvec option" where
  "bvSet8 bits pos = do {
     b0 \<leftarrow> index bits (pos div 8);
     let bits1 = bits[pos div 8 := or b0 (drop_bit (pos mod 8) 0xFF)];
     b1 \<leftarrow> index bits1 (pos div 8 + 1);
     Some (bits1[pos div 8 + 1 := or b1 (not (drop_bit (pos mod 8) 0xFF))]) }"

definition codeSegment :: "bitvec \<Rightarrow> nat \<Rightarrow> bool option" where
  "codeSegment bits pos =
     map_option (\<lambda>b. and b (drop_bit (pos mod 8) 0x80) = 0) (index bits (pos div 8))"

text \<open>The two inner loops of \<open>codeBitmap\<close>: whole bytes first, then single bits.\<close>

fun setBits :: "bitvec \<Rightarrow> nat \<Rightarrow> nat \<Rightarrow> bitvec option" where
  "setBits bits pc n =
     (if 8 \<le> n then do { bits' \<leftarrow> bvSet8 bits pc; setBits bits' (pc + 8) (n - 8) }
      else if 0 < n then do { bits' \<leftarrow> bvSet bits pc; setBits bits' (pc + 1) (n - 1) }
      else Some bits)"

declare setBits.simps [simp del]

definition isPush :: "byte \<Rightarrow> bool" where
  "isPush op \<longleftrightarrow> PUSH1 \<le> op \<and> op \<le> PUSH32"

definition pushBytes :: "byte \<Rightarrow> nat" where
  "pushBytes op = unat (op - PUSH1 + 1)"

function codeBitmapFrom :: "bytes \<Rightarrow> nat \<Rightarrow> bitvec \<Rightarrow> bitvec option" where
  "codeBitmapFrom code pc bits =
     (if pc < length code then
        let op = code ! pc in
        if isPush op then do {
          bits' \<leftarrow> setBits bits (pc + 1) (pushBytes op);
          codeBitmapFrom code (pc + 1 + pushBytes op) bits' }
        else codeBitmapFrom code (pc + 1) bits
      else Some bits)"
  by pat_completeness auto
termination
  by (relation "measure (\<lambda>(code, pc, _). length code - pc)") auto

declare codeBitmapFrom.simps [simp del]

definition codeBitmap :: "bytes \<Rightarrow> bitvec option" where
  "codeBitmap code = codeBitmapFrom code 0 (replicate (length code div 8 + 1 + 4) 0)"

text \<open>\<open>destinations.has\<close> fills the table of analysed codes, keyed by code hash.\<close>

definition has :: "destinations \<Rightarrow> hash \<Rightarrow> bytes \<Rightarrow> int \<Rightarrow> (bool \<times> destinations) option" where
  "has d codehash code dest =
     (let udest = Uint64 dest in
      if 63 \<le> BitLen dest \<or> of_nat (length code) \<le> udest then Some (False, d)
      else do {
        (m, d') \<leftarrow> (case d codehash of
            Some m \<Rightarrow> Some (m, d)
          | None \<Rightarrow> map_option (\<lambda>m. (m, d(codehash \<mapsto> m))) (codeBitmap code));
        op \<leftarrow> index code (unat udest);
        if op = JUMPDEST then do { c \<leftarrow> codeSegment m (unat udest); Some (c, d') } else Some (False, d') })"

section \<open>Contracts\<close>

text \<open>The analysis table \<open>jumpdests\<close> is one Go map shared by reference along a chain of calls; it
  lives in the machine state (theory EVMState), not in the contract. \<open>Args\<close> is never used.\<close>

record Contract =
  CallerAddress :: address
  self :: address
  Code :: bytes
  cCodeHash :: hash
  CodeAddr :: "address option"
  Input :: bytes
  Gas :: u64
  cValue :: int
  DelegateCallFlag :: bool

text \<open>A \<open>ContractRef\<close> is an account, or a running contract.\<close>

datatype ContractRef = AccountRef address | RunningContract Contract

definition RefAddress :: "ContractRef \<Rightarrow> address" where
  "RefAddress r = (case r of AccountRef a \<Rightarrow> a | RunningContract c \<Rightarrow> self c)"

definition NewContract :: "ContractRef \<Rightarrow> address \<Rightarrow> int \<Rightarrow> u64 \<Rightarrow> Contract" where
  "NewContract caller object v gas =
     \<lparr>CallerAddress = RefAddress caller, self = object, Code = [], cCodeHash = 0, CodeAddr = None,
      Input = [], Gas = gas, cValue = v, DelegateCallFlag = False\<rparr>"

text \<open>\<open>AsDelegate\<close> asserts that the caller is a contract; the assertion panics otherwise.\<close>

definition AsDelegate :: "ContractRef \<Rightarrow> Contract \<Rightarrow> Contract option" where
  "AsDelegate caller c =
     (case caller of
        AccountRef _ \<Rightarrow> None
      | RunningContract parent \<Rightarrow>
          Some (c\<lparr>DelegateCallFlag := True, CallerAddress := CallerAddress parent, cValue := cValue parent\<rparr>))"

definition GetByte :: "Contract \<Rightarrow> u64 \<Rightarrow> byte" where
  "GetByte c n = (if n < of_nat (length (Code c)) then Code c ! unat n else 0)"

definition GetOp :: "Contract \<Rightarrow> u64 \<Rightarrow> byte" where
  "GetOp c n = GetByte c n"

definition UseGas :: "Contract \<Rightarrow> u64 \<Rightarrow> bool \<times> Contract" where
  "UseGas c gas = (if Gas c < gas then (False, c) else (True, c\<lparr>Gas := Gas c - gas\<rparr>))"

definition SetCallCode :: "Contract \<Rightarrow> address \<Rightarrow> hash \<Rightarrow> bytes \<Rightarrow> Contract" where
  "SetCallCode c addr h code = c\<lparr>Code := code, cCodeHash := h, CodeAddr := Some addr\<rparr>"

end
