(* ===== verification/Precompiles.thy ===== *)
theory Precompiles
  imports VMData StateDB
begin

text \<open>
  The precompiled contracts of \<open>core/vm/contracts.go\<close>. The hash functions, public key recovery and
  the curve operations they call are the fields of the record \<open>crypto\<close>; a curve point is
  represented by its marshalled bytes. The cost functions, the argument decoding, the modular
  exponentiation and \<open>ValidateSignatureValues\<close> (\<open>crypto/crypto.go\<close>) are modelled.
\<close>

record crypto =
  sha256Sum :: "bytes \<Rightarrow> bytes"
  ripemd160Sum :: "bytes \<Rightarrow> bytes"
  Ecrecover :: "bytes \<Rightarrow> bytes \<Rightarrow> bytes option"
  unmarshalG1 :: "bytes \<Rightarrow> bytes option"
  unmarshalG2 :: "bytes \<Rightarrow> bytes option"
  addG1 :: "bytes \<Rightarrow> bytes \<Rightarrow> bytes"
  mulG1 :: "bytes \<Rightarrow> int \<Rightarrow> bytes"
  pairingCheck :: "bytes list \<Rightarrow> bytes list \<Rightarrow> bool"

record PrecompiledContract =
  RequiredGas :: "bytes \<Rightarrow> u64 option"
  PRun :: "bytes \<Rightarrow> (bytes \<times> vmError option) option"

definition secp256k1N :: int where
  "secp256k1N = 0xfffffffffffffffffffffffffffffffebaaedce6af48a03bbfd25e8cd0364141"

definition secp256k1halfN :: int where
  "secp256k1halfN = secp256k1N div 2"

definition ValidateSignatureValues :: "byte \<Rightarrow> int \<Rightarrow> int \<Rightarrow> bool \<Rightarrow> bool" where
  "ValidateSignatureValues v r s homestead =
     (if r < 1 \<or> s < 1 then False
      else if homestead \<and> secp256k1halfN < s then False
      else r < secp256k1N \<and> s < secp256k1N \<and> (v = 0 \<or> v = 1))"

section \<open>ecrecover\<close>

definition ecrecoverGas :: "bytes \<Rightarrow> u64 option" where
  "ecrecoverGas input = Some EcrecoverGas"

definition ecrecoverRun :: "externs \<Rightarrow> crypto \<Rightarrow> bytes \<Rightarrow> (bytes \<times> vmError option) option" where
  "ecrecoverRun ex cr input0 = do {
     let input = RightPadBytes input0 128;
     rb \<leftarrow> slice input 64 96;
     sb \<leftarrow> slice input 96 128;
     vb \<leftarrow> index input 63;
     zs \<leftarrow> slice input 32 63;
     let v = vb - 27;
     if \<not> allZero zs \<or> \<not> ValidateSignatureValues v (SetBytes rb) (SetBytes sb) False then Some ([], None)
     else do {
       h \<leftarrow> slice input 0 32;
       sig \<leftarrow> slice input 64 128;
       (case Ecrecover cr h (sig @ [v]) of
          None \<Rightarrow> Some ([], None)
        | Some pubKey \<Rightarrow> do {
            body \<leftarrow> slice pubKey 1 (length pubKey);
            tail \<leftarrow> slice (HashBytes (keccak256 ex body)) 12 32;
            Some (LeftPadBytes tail 32, None) }) } }"

text \<open>What \<open>Run\<close> leaves in the array of its argument: \<open>append(input[64:128], v)\<close> reuses that array
  when it is longer than 128 bytes.\<close>

definition ecrecoverBacking :: "bytes \<Rightarrow> bytes" where
  "ecrecoverBacking input =
     (let padded = RightPadBytes input 128; v = padded ! 63 - 27 in
      if \<not> allZero (take 31 (drop 32 padded)) \<or>
         \<not> ValidateSignatureValues v (SetBytes (take 32 (drop 64 padded))) (SetBytes (take 32 (drop 96 padded))) False
      then input
      else if 128 < length input then input[128 := v] else input)"

section \<open>Hashes and the identity\<close>

definition sha256hashGas :: "bytes \<Rightarrow> u64 option" where
  "sha256hashGas input = Some (of_nat (length input + 31) div 32 * Sha256PerWordGas + Sha256BaseGas)"

definition sha256hashRun :: "crypto \<Rightarrow> bytes \<Rightarrow> (bytes \<times> vmError option) option" where
  "sha256hashRun cr input = Some (sha256Sum cr input, None)"

definition ripemd160hashGas :: "bytes \<Rightarrow> u64 option" where
  "ripemd160hashGas input = Some (of_nat (length input + 31) div 32 * Ripemd160PerWordGas + Ripemd160BaseGas)"

definition ripemd160hashRun :: "crypto \<Rightarrow> bytes \<Rightarrow> (bytes \<times> vmError option) option" where
  "ripemd160hashRun cr input = Some (LeftPadBytes (ripemd160Sum cr input) 32, None)"

definition dataCopyGas :: "bytes \<Rightarrow> u64 option" where
  "dataCopyGas input = Some (of_nat (length input + 31) div 32 * IdentityPerWordGas + IdentityBaseGas)"

definition dataCopyRun :: "bytes \<Rightarrow> (bytes \<times> vmError option) option" where
  "dataCopyRun input = Some (input, None)"

section \<open>Modular exponentiation\<close>

definition modexpTail :: "bytes \<Rightarrow> bytes" where
  "modexpTail input = (if 96 < length input then drop 96 input else [])"

definition multComplexity :: "int \<Rightarrow> int" where
  "multComplexity x =
     (if x \<le> 64 then x * x
      else if x \<le> 1024 then x * x div 4 + (96 * x - 3072)
      else x * x div 16 + (480 * x - 199680))"

definition bigModExpGas :: "bytes \<Rightarrow> u64 option" where
  "bigModExpGas input0 = do {
     b0 \<leftarrow> getData input0 0 32;
     b1 \<leftarrow> getData input0 32 32;
     b2 \<leftarrow> getData input0 64 32;
     let baseLen = SetBytes b0;
     let expLen = SetBytes b1;
     let modLen = SetBytes b2;
     let input = modexpTail input0;
     expHead \<leftarrow>
       (if int (length input) \<le> baseLen then Some 0
        else if 32 < expLen then map_option SetBytes (getData input (Uint64 baseLen) 32)
        else map_option SetBytes (getData input (Uint64 baseLen) (Uint64 expLen)));
     let msb = (if 0 < BitLen expHead then int (BitLen expHead) - 1 else 0);
     let adjExpLen = (if 32 < expLen then 8 * (expLen - 32) else 0) + msb;
     let gas = multComplexity (BigMax modLen baseLen) * BigMax adjExpLen 1 div uint ModExpQuadCoeffDiv;
     Some (if 64 < BitLen gas then MaxUint64 else Uint64 gas) }"

definition bigModExpRun :: "bytes \<Rightarrow> (bytes \<times> vmError option) option" where
  "bigModExpRun input0 = do {
     b0 \<leftarrow> getData input0 0 32;
     b1 \<leftarrow> getData input0 32 32;
     b2 \<leftarrow> getData input0 64 32;
     let baseLen = Uint64 (SetBytes b0);
     let expLen = Uint64 (SetBytes b1);
     let modLen = Uint64 (SetBytes b2);
     let input = modexpTail input0;
     if baseLen = 0 \<and> modLen = 0 then Some ([], None)
     else do {
       bb \<leftarrow> getData input 0 baseLen;
       eb \<leftarrow> getData input baseLen expLen;
       mb \<leftarrow> getData input (baseLen + expLen) modLen;
       let base = SetBytes bb;
       let e = SetBytes eb;
       let m = SetBytes mb;
       if BitLen m = 0 then Some (LeftPadBytes [] (sint modLen), None)
       else Some (LeftPadBytes (Bytes (base ^ nat e mod m)) (sint modLen), None) } }"

section \<open>Curve operations\<close>

definition newCurvePoint :: "crypto \<Rightarrow> bytes \<Rightarrow> vmError + bytes" where
  "newCurvePoint cr blob = (case unmarshalG1 cr blob of None \<Rightarrow> Inl errBadPoint | Some p \<Rightarrow> Inr p)"

definition newTwistPoint :: "crypto \<Rightarrow> bytes \<Rightarrow> vmError + bytes" where
  "newTwistPoint cr blob = (case unmarshalG2 cr blob of None \<Rightarrow> Inl errBadPoint | Some p \<Rightarrow> Inr p)"

definition bn256AddGas :: "bytes \<Rightarrow> u64 option" where
  "bn256AddGas input = Some Bn256AddGas"

definition bn256AddRun :: "crypto \<Rightarrow> bytes \<Rightarrow> (bytes \<times> vmError option) option" where
  "bn256AddRun cr input = do {
     xb \<leftarrow> getData input 0 64;
     (case newCurvePoint cr xb of
        Inl e \<Rightarrow> Some ([], Some e)
      | Inr x \<Rightarrow> do {
          yb \<leftarrow> getData input 64 64;
          (case newCurvePoint cr yb of
             Inl e \<Rightarrow> Some ([], Some e)
           | Inr y \<Rightarrow> Some (addG1 cr x y, None)) }) }"

definition bn256ScalarMulGas :: "bytes \<Rightarrow> u64 option" where
  "bn256ScalarMulGas input = Some Bn256ScalarMulGas"

definition bn256ScalarMulRun :: "crypto \<Rightarrow> bytes \<Rightarrow> (bytes \<times> vmError option) option" where
  "bn256ScalarMulRun cr input = do {
     pb \<leftarrow> getData input 0 64;
     (case newCurvePoint cr pb of
        Inl e \<Rightarrow> Some ([], Some e)
      | Inr p \<Rightarrow> do { kb \<leftarrow> getData input 64 32; Some (mulG1 cr p (SetBytes kb), None) }) }"

definition bn256PairingGas :: "bytes \<Rightarrow> u64 option" where
  "bn256PairingGas input = Some (Bn256PairingBaseGas + of_nat (length input div 192) * Bn256PairingPerPointGas)"

definition true32Byte :: bytes where "true32Byte = replicate 31 0 @ [1]"
definition false32Byte :: bytes where "false32Byte = replicate 32 0"

text \<open>The loop over the 192-byte groups, for \<open>k\<close> groups from index \<open>i\<close>.\<close>

fun pairingPoints :: "crypto \<Rightarrow> bytes \<Rightarrow> nat \<Rightarrow> nat \<Rightarrow> (vmError + (bytes list \<times> bytes list)) option" where
  "pairingPoints cr input i 0 = Some (Inr ([], []))"
| "pairingPoints cr input i (Suc k) = do {
     cb \<leftarrow> slice input i (i + 64);
     (case newCurvePoint cr cb of
        Inl e \<Rightarrow> Some (Inl e)
      | Inr c \<Rightarrow> do {
          tb \<leftarrow> slice input (i + 64) (i + 192);
          (case newTwistPoint cr tb of
             Inl e \<Rightarrow> Some (Inl e)
           | Inr t \<Rightarrow> do {
               rest \<leftarrow> pairingPoints cr input (i + 192) k;
               Some (case rest of Inl e \<Rightarrow> Inl e | Inr (cs, ts) \<Rightarrow> Inr (c # cs, t # ts)) }) }) }"

definition bn256PairingRun :: "crypto \<Rightarrow> bytes \<Rightarrow> (bytes \<times> vmError option) option" where
  "bn256PairingRun cr input =
     (if 0 < length input mod 192 then Some ([], Some errBadPairingInput)
      else do {
        pts \<leftarrow> pairingPoints cr input 0 (length input div 192);
        (case pts of
           Inl e \<Rightarrow> Some ([], Some e)
         | Inr (cs, ts) \<Rightarrow> Some (if pairingCheck cr cs ts then true32Byte else false32Byte, None)) })"

section \<open>Tables\<close>

definition ecrecover :: "externs \<Rightarrow> crypto \<Rightarrow> PrecompiledContract" where
  "ecrecover ex cr = \<lparr>RequiredGas = ecrecoverGas, PRun = ecrecoverRun ex cr\<rparr>"

definition sha256hash :: "crypto \<Rightarrow> PrecompiledContract" where
  "sha256hash cr = \<lparr>RequiredGas = sha256hashGas, PRun = sha256hashRun cr\<rparr>"

definition ripemd160hash :: "crypto \<Rightarrow> PrecompiledContract" where
  "ripemd160hash cr = \<lparr>RequiredGas = ripemd160hashGas, PRun = ripemd160hashRun cr\<rparr>"

definition dataCopy :: PrecompiledContract where
  "dataCopy = \<lparr>RequiredGas = dataCopyGas, PRun = dataCopyRun\<rparr>"

definition bigModExp :: PrecompiledContract where
  "bigModExp = \<lparr>RequiredGas = bigModExpGas, PRun = bigModExpRun\<rparr>"

definition bn256Add :: "crypto \<Rightarrow> PrecompiledContract" where
  "bn256Add cr = \<lparr>RequiredGas = bn256AddGas, PRun = bn256AddRun cr\<rparr>"

definition bn256ScalarMul :: "crypto \<Rightarrow> PrecompiledContract" where
  "bn256ScalarMul cr = \<lparr>RequiredGas = bn256ScalarMulGas, PRun = bn256ScalarMulRun cr\<rparr>"

definition bn256Pairing :: "crypto \<Rightarrow> PrecompiledContract" where
  "bn256Pairing cr = \<lparr>RequiredGas = bn256PairingGas, PRun = bn256PairingRun cr\<rparr>"

definition PrecompiledContractsHomestead :: "externs \<Rightarrow> crypto \<Rightarrow> address \<rightharpoonup> PrecompiledContract" where
  "PrecompiledContractsHomestead ex cr =
     [BytesToAddress [1] \<mapsto> ecrecover ex cr, BytesToAddress [2] \<mapsto> sha256hash cr,
      BytesToAddress [3] \<mapsto> ripemd160hash cr, BytesToAddress [4] \<mapsto> dataCopy]"

definition PrecompiledContractsByzantium :: "externs \<Rightarrow> crypto \<Rightarrow> address \<rightharpoonup> PrecompiledContract" where
  "PrecompiledContractsByzantium ex cr =
     [BytesToAddress [1] \<mapsto> ecrecover ex cr, BytesToAddress [2] \<mapsto> sha256hash cr,
      BytesToAddress [3] \<mapsto> ripemd160hash cr, BytesToAddress [4] \<mapsto> dataCopy,
      BytesToAddress [5] \<mapsto> bigModExp, BytesToAddress [6] \<mapsto> bn256Add cr,
      BytesToAddress [7] \<mapsto> bn256ScalarMul cr, BytesToAddress [8] \<mapsto> bn256Pairing cr]"

definition RunPrecompiledContract ::
  "PrecompiledContract \<Rightarrow> bytes \<Rightarrow> Contract \<Rightarrow> (bytes \<times> vmError option \<times> Contract) option" where
  "RunPrecompiledContract p input contract = do {
     gas \<leftarrow> RequiredGas p input;
     let (ok, contract') = UseGas contract gas;
     if ok then do { (ret, err) \<leftarrow> PRun p input; Some (ret, err, contract') }
     else Some ([], Some ErrOutOfGas, contract') }"

end
