(* ===== verification/EVMState.thy ===== *)
theory EVMState
  imports Precompiles
begin

text \<open>
  The state the virtual machine threads through a transaction: \<open>Context\<close>, \<open>Config\<close>, \<open>EVM\<close> and the
  fields of \<open>Interpreter\<close> (\<open>core/vm/evm.go\<close>, \<open>interpreter.go\<close>), one frame of the interpreter
  (\<open>machine\<close>), and the two functions \<open>core/evm.go\<close> installs for balance transfers.

  Modelling choices:
  \<^item> the \<open>EVM\<close> and its \<open>Interpreter\<close> point at each other; their fields form one record, and the
    instruction table, which the interpreter derives from the fork rules, is computed when needed
    (theory Interpreter);
  \<^item> \<open>abort\<close> may be set at any moment by another goroutine: \<open>aborts\<close> is the sequence of values
    successive loads see, and \<open>loads\<close> counts them;
  \<^item> debugging and tracing have no effect on execution and are left out.
\<close>

record Context =
  CanTransferFn :: "statedb \<Rightarrow> address \<Rightarrow> int \<Rightarrow> bool \<times> statedb"
  TransferFn :: "statedb \<Rightarrow> address \<Rightarrow> address \<Rightarrow> int \<Rightarrow> statedb"
  GetHash :: "u64 \<Rightarrow> hash"
  Origin :: address
  GasPrice :: int
  Coinbase :: address
  GasLimit :: u64
  BlockNumber :: int
  Time :: int
  Difficulty :: int

record Config =
  NoRecursion :: bool
  EnablePreimageRecording :: bool

record EVM =
  ctx :: Context
  sdb :: statedb
  depth :: nat
  chainConfig :: ChainConfig
  chainRules :: Rules
  vmConfig :: Config
  cryptoFns :: crypto
  aborts :: "nat \<Rightarrow> bool"
  loads :: nat
  callGasTemp :: u64
  gasTable :: GasTable
  readOnly :: bool
  returnData :: bytes
  jumpdests :: destinations

text \<open>\<open>NewEVM\<close> and the part of \<open>NewInterpreter\<close> that fills fields.\<close>

definition NewEVM :: "Context \<Rightarrow> statedb \<Rightarrow> ChainConfig \<Rightarrow> Config \<Rightarrow> crypto \<Rightarrow> (nat \<Rightarrow> bool) \<Rightarrow> EVM" where
  "NewEVM c s cfg vmc cr ab =
     \<lparr>ctx = c, sdb = s, depth = 0, chainConfig = cfg, chainRules = RulesAt cfg (BlockNumber c),
      vmConfig = vmc, cryptoFns = cr, aborts = ab, loads = 0, callGasTemp = 0,
      gasTable = GasTableAt cfg (Some (BlockNumber c)), readOnly = False, returnData = [],
      jumpdests = Map.empty\<rparr>"

definition isHomestead :: "EVM \<Rightarrow> bool" where
  "isHomestead e = IsHomestead (chainConfig e) (BlockNumber (ctx e))"

definition isEIP150 :: "EVM \<Rightarrow> bool" where
  "isEIP150 e = IsEIP150 (chainConfig e) (BlockNumber (ctx e))"

definition isEIP158 :: "EVM \<Rightarrow> bool" where
  "isEIP158 e = IsEIP158 (chainConfig e) (BlockNumber (ctx e))"

definition isByzantium :: "EVM \<Rightarrow> bool" where
  "isByzantium e = IsByzantium (chainConfig e) (BlockNumber (ctx e))"

text \<open>One frame of \<open>Interpreter.Run\<close>: its local variables.\<close>

record machine =
  pc :: u64
  evm :: EVM
  contract :: Contract
  mem :: Memory
  stack :: Stack

text \<open>The entry points of the EVM, as the instructions call them: caller, address or code, input,
  gas and value in; the new EVM, return data, (created address,) gas left and error out.\<close>

type_synonym callResult = "EVM \<times> bytes \<times> u64 \<times> vmError option"

record calls =
  CallFn :: "EVM \<Rightarrow> ContractRef \<Rightarrow> address \<Rightarrow> bytes \<Rightarrow> u64 \<Rightarrow> int \<Rightarrow> callResult option"
  CallCodeFn :: "EVM \<Rightarrow> ContractRef \<Rightarrow> address \<Rightarrow> bytes \<Rightarrow> u64 \<Rightarrow> int \<Rightarrow> callResult option"
  DelegateCallFn :: "EVM \<Rightarrow> ContractRef \<Rightarrow> address \<Rightarrow> bytes \<Rightarrow> u64 \<Rightarrow> callResult option"
  StaticCallFn :: "EVM \<Rightarrow> ContractRef \<Rightarrow> address \<Rightarrow> bytes \<Rightarrow> u64 \<Rightarrow> callResult option"
  CreateFn :: "EVM \<Rightarrow> ContractRef \<Rightarrow> bytes \<Rightarrow> u64 \<Rightarrow> int \<Rightarrow>
    (EVM \<times> bytes \<times> address \<times> u64 \<times> vmError option) option"

section \<open>core/evm.go\<close>

definition CanTransfer :: "statedb \<Rightarrow> address \<Rightarrow> int \<Rightarrow> bool \<times> statedb" where
  "CanTransfer db addr amount = (case GetBalance db addr of (b, db') \<Rightarrow> (amount \<le> b, db'))"

definition Transfer :: "statedb \<Rightarrow> address \<Rightarrow> address \<Rightarrow> int \<Rightarrow> statedb" where
  "Transfer db sender recipient amount = AddBalance (SubBalance db sender amount) recipient amount"

end
