(* ===== verification/VMGas.thy ===== *)
theory VMGas
  imports EVMState
begin

text \<open>
  Gas costs: \<open>core/vm/gas.go\<close> and \<open>gas_table.go\<close>. A cost function returns an error or the cost, with
  the EVM (the state database, the refund counter, \<open>callGasTemp\<close>) and the memory (\<open>lastGasCost\<close>) it
  updates on the way. The operands of a cost function are read before the memory fee is computed;
  the interpreter has validated the height of the stack by then, so the order makes no difference.
\<close>

definition GasQuickStep :: u64 where [params]: "GasQuickStep = 2"
definition GasFastestStep :: u64 where [params]: "GasFastestStep = 3"
definition GasFastStep :: u64 where [params]: "GasFastStep = 5"
definition GasMidStep :: u64 where [params]: "GasMidStep = 8"
definition GasSlowStep :: u64 where [params]: "GasSlowStep = 10"
definition GasExtStep :: u64 where [params]: "GasExtStep = 20"

type_synonym gasResult = "(vmError + u64) \<times> EVM \<times> Memory"

type_synonym gasFunc = "GasTable \<Rightarrow> EVM \<Rightarrow> Contract \<Rightarrow> Stack \<Rightarrow> Memory \<Rightarrow> u64 \<Rightarrow> gasResult option"

text \<open>Early return on an error, and the checked operations as the cost functions use them:
  \<open>if gas, overflow = math.SafeAdd(gas, n); overflow { return 0, errGasUintOverflow }\<close>.\<close>

definition ebind :: "vmError + 'a \<Rightarrow> ('a \<Rightarrow> vmError + 'b) \<Rightarrow> vmError + 'b" where
  "ebind r f = (case r of Inl e \<Rightarrow> Inl e | Inr x \<Rightarrow> f x)"

definition checked :: "'a \<times> bool \<Rightarrow> vmError + 'a" where
  "checked r = (if snd r then Inl errGasUintOverflow else Inr (fst r))"

definition callGas :: "GasTable \<Rightarrow> u64 \<Rightarrow> u64 \<Rightarrow> int \<Rightarrow> vmError + u64" where
  "callGas gt availableGas base callCost =
     (let available = availableGas - base;
          gas = available - available div 64
      in if 0 < CreateBySuicide gt \<and> (64 < BitLen callCost \<or> gas < Uint64 callCost) then Inr gas
         else if 64 < BitLen callCost then Inl errGasUintOverflow
         else Inr (Uint64 callCost))"

definition memoryGasCost :: "Memory \<Rightarrow> u64 \<Rightarrow> (vmError + u64) \<times> Memory" where
  "memoryGasCost m newMemSize =
     (if newMemSize = 0 then (Inr 0, m)
      else if 0xffffffffe0 < newMemSize then (Inl errGasUintOverflow, m)
      else
        let newMemSizeWords = toWordSize newMemSize;
            newMemSize' = newMemSizeWords * 32
        in if of_nat (MemLen m) < newMemSize' then
             let square = newMemSizeWords * newMemSizeWords;
                 linCoef = newMemSizeWords * MemoryGas;
                 quadCoef = square div QuadCoeffDiv;
                 newTotalFee = linCoef + quadCoef;
                 fee = newTotalFee - lastGasCost m
             in (Inr fee, m\<lparr>lastGasCost := newTotalFee\<rparr>)
           else (Inr 0, m))"

definition constGasFunc :: "u64 \<Rightarrow> gasFunc" where
  "constGasFunc gas gt e c st m memorySize = Some (Inr gas, e, m)"

definition gasCallDataCopy :: gasFunc where
  "gasCallDataCopy gt e c st m memorySize = do {
     let (r, m') = memoryGasCost m memorySize;
     l \<leftarrow> Back st 2;
     Some (ebind r (\<lambda>gas. ebind (checked (SafeAdd gas GasFastestStep)) (\<lambda>gas.
       ebind (checked (bigUint64 l)) (\<lambda>words.
       ebind (checked (SafeMul (toWordSize words) CopyGas)) (\<lambda>words.
       checked (SafeAdd gas words))))), e, m') }"

definition gasReturnDataCopy :: gasFunc where
  "gasReturnDataCopy gt e c st m memorySize = do {
     let (r, m') = memoryGasCost m memorySize;
     l \<leftarrow> Back st 2;
     Some (ebind r (\<lambda>gas. ebind (checked (SafeAdd gas GasFastestStep)) (\<lambda>gas.
       ebind (checked (bigUint64 l)) (\<lambda>words.
       ebind (checked (SafeMul (toWordSize words) CopyGas)) (\<lambda>words.
       checked (SafeAdd gas words))))), e, m') }"

definition gasSStore :: gasFunc where
  "gasSStore gt e c st m memorySize = do {
     y \<leftarrow> Back st 1;
     x \<leftarrow> Back st 0;
     let (val, s1) = GetState (sdb e) (self c) (BigToHash x);
     let e1 = e\<lparr>sdb := s1\<rparr>;
     Some (if EmptyHash val \<and> \<not> EmptyHash (BigToHash y) then (Inr SstoreSetGas, e1, m)
       else if \<not> EmptyHash val \<and> EmptyHash (BigToHash y) then
         (Inr SstoreClearGas, e1\<lparr>sdb := AddRefund (sdb e1) SstoreRefundGas\<rparr>, m)
       else (Inr SstoreResetGas, e1, m)) }"

definition makeGasLog :: "u64 \<Rightarrow> gasFunc" where
  "makeGasLog n gt e c st m memorySize = do {
     l \<leftarrow> Back st 1;
     case checked (bigUint64 l) of
       Inl err \<Rightarrow> Some (Inl err, e, m)
     | Inr requestedSize \<Rightarrow>
         let (r, m') = memoryGasCost m memorySize in
         Some (ebind r (\<lambda>gas. ebind (checked (SafeAdd gas LogGas)) (\<lambda>gas.
           ebind (checked (SafeAdd gas (n * LogTopicGas))) (\<lambda>gas.
           ebind (checked (SafeMul requestedSize LogDataGas)) (\<lambda>memorySizeGas.
           checked (SafeAdd gas memorySizeGas))))), e, m') }"

definition gasSha3 :: gasFunc where
  "gasSha3 gt e c st m memorySize = do {
     let (r, m') = memoryGasCost m memorySize;
     l \<leftarrow> Back st 1;
     Some (ebind r (\<lambda>gas. ebind (checked (SafeAdd gas Sha3Gas)) (\<lambda>gas.
       ebind (checked (bigUint64 l)) (\<lambda>wordGas.
       ebind (checked (SafeMul (toWordSize wordGas) Sha3WordGas)) (\<lambda>wordGas.
       checked (SafeAdd gas wordGas))))), e, m') }"

definition gasCodeCopy :: gasFunc where
  "gasCodeCopy gt e c st m memorySize = do {
     let (r, m') = memoryGasCost m memorySize;
     l \<leftarrow> Back st 2;
     Some (ebind r (\<lambda>gas. ebind (checked (SafeAdd gas GasFastestStep)) (\<lambda>gas.
       ebind (checked (bigUint64 l)) (\<lambda>wordGas.
       ebind (checked (SafeMul (toWordSize wordGas) CopyGas)) (\<lambda>wordGas.
       checked (SafeAdd gas wordGas))))), e, m') }"

definition gasExtCodeCopy :: gasFunc where
  "gasExtCodeCopy gt e c st m memorySize = do {
     let (r, m') = memoryGasCost m memorySize;
     l \<leftarrow> Back st 3;
     Some (ebind r (\<lambda>gas. ebind (checked (SafeAdd gas (ExtcodeCopy gt))) (\<lambda>gas.
       ebind (checked (bigUint64 l)) (\<lambda>wordGas.
       ebind (checked (SafeMul (toWordSize wordGas) CopyGas)) (\<lambda>wordGas.
       checked (SafeAdd gas wordGas))))), e, m') }"

definition gasMLoad :: gasFunc where
  "gasMLoad gt e c st m memorySize =
     (let (r, m') = memoryGasCost m memorySize
      in Some (ebind r (\<lambda>gas. checked (SafeAdd gas GasFastestStep)), e, m'))"

definition gasMStore8 :: gasFunc where
  "gasMStore8 gt e c st m memorySize =
     (let (r, m') = memoryGasCost m memorySize
      in Some (ebind r (\<lambda>gas. checked (SafeAdd gas GasFastestStep)), e, m'))"

definition gasMStore :: gasFunc where
  "gasMStore gt e c st m memorySize =
     (let (r, m') = memoryGasCost m memorySize
      in Some (ebind r (\<lambda>gas. checked (SafeAdd gas GasFastestStep)), e, m'))"

definition gasCreate :: gasFunc where
  "gasCreate gt e c st m memorySize =
     (let (r, m') = memoryGasCost m memorySize
      in Some (ebind r (\<lambda>gas. checked (SafeAdd gas CreateGas)), e, m'))"

definition gasBalance :: gasFunc where
  "gasBalance gt e c st m memorySize = Some (Inr (BalanceGas gt), e, m)"

definition gasExtCodeSize :: gasFunc where
  "gasExtCodeSize gt e c st m memorySize = Some (Inr (ExtcodeSize gt), e, m)"

definition gasSLoad :: gasFunc where
  "gasSLoad gt e c st m memorySize = Some (Inr (SLoad gt), e, m)"

definition gasExp :: gasFunc where
  "gasExp gt e c st m memorySize = do {
     x \<leftarrow> Back st 1;
     let expByteLen = of_nat ((BitLen x + 7) div 8);
     Some (checked (SafeAdd (expByteLen * ExpByte gt) GasSlowStep), e, m) }"

text \<open>The end of the four call cost functions: the base cost plus the gas handed to the callee,
  which \<open>callGasTemp\<close> remembers for the instruction itself.\<close>

definition finishCallGas :: "GasTable \<Rightarrow> EVM \<Rightarrow> Contract \<Rightarrow> int \<Rightarrow> Memory \<Rightarrow> vmError + u64 \<Rightarrow> gasResult" where
  "finishCallGas gt e c requested m r =
     (case r of
        Inl err \<Rightarrow> (Inl err, e, m)
      | Inr gas \<Rightarrow>
          (case callGas gt (Gas c) gas requested of
             Inl err \<Rightarrow> (Inl err, e\<lparr>callGasTemp := 0\<rparr>, m)
           | Inr t \<Rightarrow> (checked (SafeAdd gas t), e\<lparr>callGasTemp := t\<rparr>, m)))"

definition gasCall :: gasFunc where
  "gasCall gt e c st m memorySize = do {
     v \<leftarrow> Back st 2;
     a \<leftarrow> Back st 1;
     requested \<leftarrow> Back st 0;
     let transfersValue = (v \<noteq> 0);
     let addr = BigToAddress a;
     let (gas, s1) =
       (if isEIP158 e then
          (if transfersValue then
             let (b, s') = Empty (sdb e) addr in (if b then Calls gt + CallNewAccountGas else Calls gt, s')
           else (Calls gt, sdb e))
        else let (b, s') = Exist (sdb e) addr in (if \<not> b then Calls gt + CallNewAccountGas else Calls gt, s'));
     let e1 = e\<lparr>sdb := s1\<rparr>;
     let gas = (if transfersValue then gas + CallValueTransferGas else gas);
     let (r, m') = memoryGasCost m memorySize;
     Some (finishCallGas gt e1 c requested m' (ebind r (\<lambda>memoryGas. checked (SafeAdd gas memoryGas)))) }"

definition gasCallCode :: gasFunc where
  "gasCallCode gt e c st m memorySize = do {
     v \<leftarrow> Back st 2;
     requested \<leftarrow> Back st 0;
     let gas = (if v \<noteq> 0 then Calls gt + CallValueTransferGas else Calls gt);
     let (r, m') = memoryGasCost m memorySize;
     Some (finishCallGas gt e c requested m' (ebind r (\<lambda>memoryGas. checked (SafeAdd gas memoryGas)))) }"

definition gasReturn :: gasFunc where
  "gasReturn gt e c st m memorySize = (let (r, m') = memoryGasCost m memorySize in Some (r, e, m'))"

definition gasRevert :: gasFunc where
  "gasRevert gt e c st m memorySize = (let (r, m') = memoryGasCost m memorySize in Some (r, e, m'))"

definition gasSuicide :: gasFunc where
  "gasSuicide gt e c st m memorySize = do {
     (gas, s1) \<leftarrow>
       (if isEIP150 e then do {
          a \<leftarrow> Back st 0;
          let addr = BigToAddress a;
          Some (if isEIP158 e then
             let (emp, s') = Empty (sdb e) addr in
             if emp then
               let (b, s'') = GetBalance s' (self c)
               in (if b \<noteq> 0 then SuicideGas gt + CreateBySuicide gt else SuicideGas gt, s'')
             else (SuicideGas gt, s')
           else
             let (ex, s') = Exist (sdb e) addr
             in (if \<not> ex then SuicideGas gt + CreateBySuicide gt else SuicideGas gt, s')) }
        else Some (0, sdb e));
     let (dead, s2) = HasSuicided s1 (self c);
     let s3 = (if \<not> dead then AddRefund s2 SuicideRefundGas else s2);
     Some (Inr gas, e\<lparr>sdb := s3\<rparr>, m) }"

definition gasDelegateCall :: gasFunc where
  "gasDelegateCall gt e c st m memorySize = do {
     requested \<leftarrow> Back st 0;
     let (r, m') = memoryGasCost m memorySize;
     Some (finishCallGas gt e c requested m' (ebind r (\<lambda>gas. checked (SafeAdd gas (Calls gt))))) }"

definition gasStaticCall :: gasFunc where
  "gasStaticCall gt e c st m memorySize = do {
     requested \<leftarrow> Back st 0;
     let (r, m') = memoryGasCost m memorySize;
     Some (finishCallGas gt e c requested m' (ebind r (\<lambda>gas. checked (SafeAdd gas (Calls gt))))) }"

definition gasPush :: gasFunc where
  "gasPush gt e c st m memorySize = Some (Inr GasFastestStep, e, m)"

definition gasSwap :: gasFunc where
  "gasSwap gt e c st m memorySize = Some (Inr GasFastestStep, e, m)"

definition gasDup :: gasFunc where
  "gasDup gt e c st m memorySize = Some (Inr GasFastestStep, e, m)"

end
