(* ===== verification/Instructions.thy ===== *)
theory Instructions
  imports VMGas
begin

text \<open>
  The instructions of \<open>core/vm/instructions.go\<close>, one definition per function. An instruction maps a
  frame to the new frame, the data it returns and its error; \<open>None\<close> is a Go panic. The entry points
  it may call are passed as a record \<open>calls\<close>. \<open>peek\<close> followed by an in-place update of the integer
  is a \<open>pop\<close> followed by a \<open>push\<close>.
\<close>

type_synonym execResult = "machine \<times> bytes \<times> vmError option"
type_synonym executionFunc = "calls \<Rightarrow> machine \<Rightarrow> execResult option"

definition ok :: "machine \<Rightarrow> execResult option" where
  "ok m = Some (m, [], None)"

text \<open>\<open>big.Int.Div\<close> and \<open>Mod\<close>: Euclidean division.\<close>

definition DivE :: "int \<Rightarrow> int \<Rightarrow> int" where
  "DivE x y = (if 0 < y then x div y else - (x div (- y)))"

definition ModE :: "int \<Rightarrow> int \<Rightarrow> int" where
  "ModE x y = x mod \<bar>y\<bar>"

section \<open>Arithmetic\<close>

definition opAdd :: executionFunc where
  "opAdd cs m = do {
     (x, st) \<leftarrow> pop (stack m); (y, st) \<leftarrow> pop st;
     ok (m\<lparr>stack := push (U256 (x + y)) st\<rparr>) }"

definition opSub :: executionFunc where
  "opSub cs m = do {
     (x, st) \<leftarrow> pop (stack m); (y, st) \<leftarrow> pop st;
     ok (m\<lparr>stack := push (U256 (x - y)) st\<rparr>) }"

definition opMul :: executionFunc where
  "opMul cs m = do {
     (x, st) \<leftarrow> pop (stack m); (y, st) \<leftarrow> pop st;
     ok (m\<lparr>stack := push (U256 (x * y)) st\<rparr>) }"

definition opDiv :: executionFunc where
  "opDiv cs m = do {
     (x, st) \<leftarrow> pop (stack m); (y, st) \<leftarrow> pop st;
     ok (m\<lparr>stack := push (if y \<noteq> 0 then U256 (DivE x y) else 0) st\<rparr>) }"

definition opSdiv :: executionFunc where
  "opSdiv cs m = do {
     (x', st) \<leftarrow> pop (stack m); (y', st) \<leftarrow> pop st;
     let x = S256 x';
     let y = S256 y';
     ok (m\<lparr>stack := push
       (if y = 0 \<or> x = 0 then 0
        else if sgn x \<noteq> sgn y then U256 (- DivE \<bar>x\<bar> \<bar>y\<bar>)
        else U256 (DivE \<bar>x\<bar> \<bar>y\<bar>)) st\<rparr>) }"

definition opMod :: executionFunc where
  "opMod cs m = do {
     (x, st) \<leftarrow> pop (stack m); (y, st) \<leftarrow> pop st;
     ok (m\<lparr>stack := push (if y = 0 then 0 else U256 (ModE x y)) st\<rparr>) }"

definition opSmod :: executionFunc where
  "opSmod cs m = do {
     (x', st) \<leftarrow> pop (stack m); (y', st) \<leftarrow> pop st;
     let x = S256 x';
     let y = S256 y';
     ok (m\<lparr>stack := push
       (if y = 0 then 0
        else if x < 0 then U256 (- ModE \<bar>x\<bar> \<bar>y\<bar>)
        else U256 (ModE \<bar>x\<bar> \<bar>y\<bar>)) st\<rparr>) }"

definition opExp :: executionFunc where
  "opExp cs m = do {
     (b, st) \<leftarrow> pop (stack m); (e, st) \<leftarrow> pop st;
     ok (m\<lparr>stack := push (fst (Exp b e)) st\<rparr>) }"

definition opSignExtend :: executionFunc where
  "opSignExtend cs m = do {
     (back, st) \<leftarrow> pop (stack m);
     if back < 31 then do {
       let b = unat (Uint64 back * 8 + 7);
       (num, st) \<leftarrow> pop st;
       let msk = push_bit b 1 - 1;
       ok (m\<lparr>stack := push (U256 (if bit num b then or num (not msk) else and num msk)) st\<rparr>) }
     else ok (m\<lparr>stack := st\<rparr>) }"

definition opNot :: executionFunc where
  "opNot cs m = do { (x, st) \<leftarrow> pop (stack m); ok (m\<lparr>stack := push (U256 (not x)) st\<rparr>) }"

section \<open>Comparison and bitwise logic\<close>

definition opLt :: executionFunc where
  "opLt cs m = do {
     (x, st) \<leftarrow> pop (stack m); (y, st) \<leftarrow> pop st;
     ok (m\<lparr>stack := push (if x < y then 1 else 0) st\<rparr>) }"

definition opGt :: executionFunc where
  "opGt cs m = do {
     (x, st) \<leftarrow> pop (stack m); (y, st) \<leftarrow> pop st;
     ok (m\<lparr>stack := push (if y < x then 1 else 0) st\<rparr>) }"

definition opSlt :: executionFunc where
  "opSlt cs m = do {
     (x, st) \<leftarrow> pop (stack m); (y, st) \<leftarrow> pop st;
     ok (m\<lparr>stack := push
       (if tt255 \<le> x \<and> y < tt255 then 1
        else if x < tt255 \<and> tt255 \<le> y then 0
        else if x < y then 1 else 0) st\<rparr>) }"

definition opSgt :: executionFunc where
  "opSgt cs m = do {
     (x, st) \<leftarrow> pop (stack m); (y, st) \<leftarrow> pop st;
     ok (m\<lparr>stack := push
       (if tt255 \<le> x \<and> y < tt255 then 0
        else if x < tt255 \<and> tt255 \<le> y then 1
        else if y < x then 1 else 0) st\<rparr>) }"

definition opEq :: executionFunc where
  "opEq cs m = do {
     (x, st) \<leftarrow> pop (stack m); (y, st) \<leftarrow> pop st;
     ok (m\<lparr>stack := push (if x = y then 1 else 0) st\<rparr>) }"

definition opIszero :: executionFunc where
  "opIszero cs m = do { (x, st) \<leftarrow> pop (stack m); ok (m\<lparr>stack := push (if 0 < x then 0 else 1) st\<rparr>) }"

definition opAnd :: executionFunc where
  "opAnd cs m = do {
     (x, st) \<leftarrow> pop (stack m); (y, st) \<leftarrow> pop st;
     ok (m\<lparr>stack := push (and x y) st\<rparr>) }"

definition opOr :: executionFunc where
  "opOr cs m = do {
     (x, st) \<leftarrow> pop (stack m); (y, st) \<leftarrow> pop st;
     ok (m\<lparr>stack := push (or x y) st\<rparr>) }"

definition opXor :: executionFunc where
  "opXor cs m = do {
     (x, st) \<leftarrow> pop (stack m); (y, st) \<leftarrow> pop st;
     ok (m\<lparr>stack := push (xor x y) st\<rparr>) }"

definition opByte :: executionFunc where
  "opByte cs m = do {
     (th, st) \<leftarrow> pop (stack m); (val, st) \<leftarrow> pop st;
     ok (m\<lparr>stack := push (if th < 32 then uint (Byte val 32 (nat (Int64 th))) else 0) st\<rparr>) }"

definition opAddmod :: executionFunc where
  "opAddmod cs m = do {
     (x, st) \<leftarrow> pop (stack m); (y, st) \<leftarrow> pop st; (z, st) \<leftarrow> pop st;
     ok (m\<lparr>stack := push (if 0 < z then U256 (ModE (x + y) z) else 0) st\<rparr>) }"

definition opMulmod :: executionFunc where
  "opMulmod cs m = do {
     (x, st) \<leftarrow> pop (stack m); (y, st) \<leftarrow> pop st; (z, st) \<leftarrow> pop st;
     ok (m\<lparr>stack := push (if 0 < z then U256 (ModE (x * y) z) else 0) st\<rparr>) }"

definition opSHL :: executionFunc where
  "opSHL cs m = do {
     (s', st) \<leftarrow> pop (stack m); (v', st) \<leftarrow> pop st;
     let shift = U256 s';
     let v = U256 v';
     ok (m\<lparr>stack := push (if 256 \<le> shift then 0 else U256 (push_bit (unat (Uint64 shift)) v)) st\<rparr>) }"

definition opSHR :: executionFunc where
  "opSHR cs m = do {
     (s', st) \<leftarrow> pop (stack m); (v', st) \<leftarrow> pop st;
     let shift = U256 s';
     let v = U256 v';
     ok (m\<lparr>stack := push (if 256 \<le> shift then 0 else U256 (drop_bit (unat (Uint64 shift)) v)) st\<rparr>) }"

definition opSAR :: executionFunc where
  "opSAR cs m = do {
     (s', st) \<leftarrow> pop (stack m); (v', st) \<leftarrow> pop st;
     let shift = U256 s';
     let v = S256 v';
     ok (m\<lparr>stack := push
       (if 256 \<le> shift then U256 (if 0 < v then 0 else - 1)
        else U256 (drop_bit (unat (Uint64 shift)) v)) st\<rparr>) }"

section \<open>Environment\<close>

definition opSha3 :: executionFunc where
  "opSha3 cs m = do {
     (offset, st) \<leftarrow> pop (stack m); (sz, st) \<leftarrow> pop st;
     data \<leftarrow> MemGet (mem m) (Int64 offset) (Int64 sz);
     let h = keccak256 (ext (sdb (evm m))) data;
     let e = (if EnablePreimageRecording (vmConfig (evm m))
              then (evm m)\<lparr>sdb := AddPreimage (sdb (evm m)) h data\<rparr> else evm m);
     ok (m\<lparr>stack := push (SetBytes (HashBytes h)) st, evm := e\<rparr>) }"

definition opAddress :: executionFunc where
  "opAddress cs m = ok (m\<lparr>stack := push (AddressBig (self (contract m))) (stack m)\<rparr>)"

definition opBalance :: executionFunc where
  "opBalance cs m = do {
     (slot, st) \<leftarrow> pop (stack m);
     let (b, s) = GetBalance (sdb (evm m)) (BigToAddress slot);
     ok (m\<lparr>stack := push b st, evm := (evm m)\<lparr>sdb := s\<rparr>\<rparr>) }"

definition opOrigin :: executionFunc where
  "opOrigin cs m = ok (m\<lparr>stack := push (AddressBig (Origin (ctx (evm m)))) (stack m)\<rparr>)"

definition opCaller :: executionFunc where
  "opCaller cs m = ok (m\<lparr>stack := push (AddressBig (CallerAddress (contract m))) (stack m)\<rparr>)"

definition opCallValue :: executionFunc where
  "opCallValue cs m = ok (m\<lparr>stack := push (cValue (contract m)) (stack m)\<rparr>)"

definition opCallDataLoad :: executionFunc where
  "opCallDataLoad cs m = do {
     (x, st) \<leftarrow> pop (stack m);
     d \<leftarrow> getDataBig (Input (contract m)) x 32;
     ok (m\<lparr>stack := push (SetBytes d) st\<rparr>) }"

definition opCallDataSize :: executionFunc where
  "opCallDataSize cs m = ok (m\<lparr>stack := push (int (length (Input (contract m)))) (stack m)\<rparr>)"

definition opCallDataCopy :: executionFunc where
  "opCallDataCopy cs m = do {
     (memOffset, st) \<leftarrow> pop (stack m); (dataOffset, st) \<leftarrow> pop st; (len, st) \<leftarrow> pop st;
     d \<leftarrow> getDataBig (Input (contract m)) dataOffset len;
     mm \<leftarrow> MemSet (mem m) (Uint64 memOffset) (Uint64 len) d;
     ok (m\<lparr>stack := st, mem := mm\<rparr>) }"

definition opReturnDataSize :: executionFunc where
  "opReturnDataSize cs m = ok (m\<lparr>stack := push (int (length (returnData (evm m)))) (stack m)\<rparr>)"

definition opReturnDataCopy :: executionFunc where
  "opReturnDataCopy cs m = do {
     (memOffset, st) \<leftarrow> pop (stack m); (dataOffset, st) \<leftarrow> pop st; (len, st) \<leftarrow> pop st;
     let end' = dataOffset + len;
     let rd = returnData (evm m);
     if 64 < BitLen end' \<or> of_nat (length rd) < Uint64 end'
     then Some (m\<lparr>stack := st\<rparr>, [], Some errReturnDataOutOfBounds)
     else do {
       d \<leftarrow> slice rd (unat (Uint64 dataOffset)) (unat (Uint64 end'));
       mm \<leftarrow> MemSet (mem m) (Uint64 memOffset) (Uint64 len) d;
       ok (m\<lparr>stack := st, mem := mm\<rparr>) } }"

definition opExtCodeSize :: executionFunc where
  "opExtCodeSize cs m = do {
     (slot, st) \<leftarrow> pop (stack m);
     let (n, s) = GetCodeSize (sdb (evm m)) (BigToAddress slot);
     ok (m\<lparr>stack := push (int n) st, evm := (evm m)\<lparr>sdb := s\<rparr>\<rparr>) }"

definition opCodeSize :: executionFunc where
  "opCodeSize cs m = ok (m\<lparr>stack := push (int (length (Code (contract m)))) (stack m)\<rparr>)"

definition opCodeCopy :: executionFunc where
  "opCodeCopy cs m = do {
     (memOffset, st) \<leftarrow> pop (stack m); (codeOffset, st) \<leftarrow> pop st; (len, st) \<leftarrow> pop st;
     d \<leftarrow> getDataBig (Code (contract m)) codeOffset len;
     mm \<leftarrow> MemSet (mem m) (Uint64 memOffset) (Uint64 len) d;
     ok (m\<lparr>stack := st, mem := mm\<rparr>) }"

definition opExtCodeCopy :: executionFunc where
  "opExtCodeCopy cs m = do {
     (a, st) \<leftarrow> pop (stack m);
     (memOffset, st) \<leftarrow> pop st; (codeOffset, st) \<leftarrow> pop st; (len, st) \<leftarrow> pop st;
     let (code, s) = GetCode (sdb (evm m)) (BigToAddress a);
     d \<leftarrow> getDataBig code codeOffset len;
     mm \<leftarrow> MemSet (mem m) (Uint64 memOffset) (Uint64 len) d;
     ok (m\<lparr>stack := st, mem := mm, evm := (evm m)\<lparr>sdb := s\<rparr>\<rparr>) }"

definition opGasprice :: executionFunc where
  "opGasprice cs m = ok (m\<lparr>stack := push (GasPrice (ctx (evm m))) (stack m)\<rparr>)"

definition opBlockhash :: executionFunc where
  "opBlockhash cs m = do {
     (num, st) \<leftarrow> pop (stack m);
     let bn = BlockNumber (ctx (evm m));
     ok (m\<lparr>stack := push
       (if bn - 257 < num \<and> num < bn then HashBig (GetHash (ctx (evm m)) (Uint64 num)) else 0) st\<rparr>) }"

definition opCoinbase :: executionFunc where
  "opCoinbase cs m = ok (m\<lparr>stack := push (AddressBig (Coinbase (ctx (evm m)))) (stack m)\<rparr>)"

definition opTimestamp :: executionFunc where
  "opTimestamp cs m = ok (m\<lparr>stack := push (U256 (Time (ctx (evm m)))) (stack m)\<rparr>)"

definition opNumber :: executionFunc where
  "opNumber cs m = ok (m\<lparr>stack := push (U256 (BlockNumber (ctx (evm m)))) (stack m)\<rparr>)"

definition opDifficulty :: executionFunc where
  "opDifficulty cs m = ok (m\<lparr>stack := push (U256 (Difficulty (ctx (evm m)))) (stack m)\<rparr>)"

definition opGasLimit :: executionFunc where
  "opGasLimit cs m = ok (m\<lparr>stack := push (U256 (uint (GasLimit (ctx (evm m))))) (stack m)\<rparr>)"

section \<open>Stack, memory, storage and control flow\<close>

definition opPop :: executionFunc where
  "opPop cs m = do { (_, st) \<leftarrow> pop (stack m); ok (m\<lparr>stack := st\<rparr>) }"

definition opMload :: executionFunc where
  "opMload cs m = do {
     (offset, st) \<leftarrow> pop (stack m);
     d \<leftarrow> MemGet (mem m) (Int64 offset) 32;
     ok (m\<lparr>stack := push (SetBytes d) st\<rparr>) }"

definition opMstore :: executionFunc where
  "opMstore cs m = do {
     (mStart, st) \<leftarrow> pop (stack m); (val, st) \<leftarrow> pop st;
     mm \<leftarrow> MemSet (mem m) (Uint64 mStart) 32 (PaddedBigBytes val 32);
     ok (m\<lparr>stack := st, mem := mm\<rparr>) }"

definition opMstore8 :: executionFunc where
  "opMstore8 cs m = do {
     (o', st) \<leftarrow> pop (stack m); (v', st) \<leftarrow> pop st;
     let off = Int64 o';
     let val = Int64 v';
     if 0 \<le> off \<and> off < int (MemLen (mem m)) then
       ok (m\<lparr>stack := st, mem := (mem m)\<lparr>memStore := (memStore (mem m))[nat off := of_int (and val 0xff)]\<rparr>\<rparr>)
     else None }"

definition opSload :: executionFunc where
  "opSload cs m = do {
     (x, st) \<leftarrow> pop (stack m);
     let (v, s) = GetState (sdb (evm m)) (self (contract m)) (BigToHash x);
     ok (m\<lparr>stack := push (HashBig v) st, evm := (evm m)\<lparr>sdb := s\<rparr>\<rparr>) }"

definition opSstore :: executionFunc where
  "opSstore cs m = do {
     (x, st) \<leftarrow> pop (stack m); (val, st) \<leftarrow> pop st;
     ok (m\<lparr>stack := st, evm := (evm m)\<lparr>sdb :=
       SetState (sdb (evm m)) (self (contract m)) (BigToHash x) (BigToHash val)\<rparr>\<rparr>) }"

definition opJump :: executionFunc where
  "opJump cs m = do {
     (pos, st) \<leftarrow> pop (stack m);
     (valid, jd) \<leftarrow> has (jumpdests (evm m)) (cCodeHash (contract m)) (Code (contract m)) pos;
     let m' = m\<lparr>stack := st, evm := (evm m)\<lparr>jumpdests := jd\<rparr>\<rparr>;
     if \<not> valid then Some (m', [], Some (errInvalidJump (GetOp (contract m) (Uint64 pos)) pos))
     else ok (m'\<lparr>pc := Uint64 pos\<rparr>) }"

definition opJumpi :: executionFunc where
  "opJumpi cs m = do {
     (pos, st) \<leftarrow> pop (stack m); (cond, st) \<leftarrow> pop st;
     if cond \<noteq> 0 then do {
       (valid, jd) \<leftarrow> has (jumpdests (evm m)) (cCodeHash (contract m)) (Code (contract m)) pos;
       let m' = m\<lparr>stack := st, evm := (evm m)\<lparr>jumpdests := jd\<rparr>\<rparr>;
       if \<not> valid then Some (m', [], Some (errInvalidJump (GetOp (contract m) (Uint64 pos)) pos))
       else ok (m'\<lparr>pc := Uint64 pos\<rparr>) }
     else ok (m\<lparr>stack := st, pc := pc m + 1\<rparr>) }"

definition opJumpdest :: executionFunc where
  "opJumpdest cs m = ok m"

definition opPc :: executionFunc where
  "opPc cs m = ok (m\<lparr>stack := push (uint (pc m)) (stack m)\<rparr>)"

definition opMsize :: executionFunc where
  "opMsize cs m = ok (m\<lparr>stack := push (int (MemLen (mem m))) (stack m)\<rparr>)"

definition opGas :: executionFunc where
  "opGas cs m = ok (m\<lparr>stack := push (uint (Gas (contract m))) (stack m)\<rparr>)"

section \<open>Calls\<close>

definition opCreate :: executionFunc where
  "opCreate cs m = do {
     (v, st) \<leftarrow> pop (stack m); (offset, st) \<leftarrow> pop st; (sz, st) \<leftarrow> pop st;
     input \<leftarrow> MemGet (mem m) (Int64 offset) (Int64 sz);
     let gas0 = Gas (contract m);
     let gas = (if isEIP150 (evm m) then gas0 - gas0 div 64 else gas0);
     let c1 = snd (UseGas (contract m) gas);
     (e, res, addr, returnGas, suberr) \<leftarrow> CreateFn cs (evm m) (RunningContract c1) input gas v;
     let r = (if isHomestead e \<and> suberr = Some ErrCodeStoreOutOfGas then 0
              else if suberr \<noteq> None \<and> suberr \<noteq> Some ErrCodeStoreOutOfGas then 0
              else AddressBig addr);
     let m' = m\<lparr>evm := e, stack := push r st, contract := c1\<lparr>Gas := Gas c1 + returnGas\<rparr>\<rparr>;
     Some (m', if suberr = Some errExecutionReverted then res else [], None) }"

text \<open>The common end of the four calls: push the success flag, copy the return data, and take back
  the unused gas.\<close>

definition finishCall :: "machine \<Rightarrow> Stack \<Rightarrow> int \<Rightarrow> int \<Rightarrow> callResult \<Rightarrow> execResult option" where
  "finishCall m st retOffset retSize r = do {
     let (e, ret, returnGas, err) = r;
     mm \<leftarrow> (if err = None \<or> err = Some errExecutionReverted
            then MemSet (mem m) (Uint64 retOffset) (Uint64 retSize) ret else Some (mem m));
     Some (m\<lparr>evm := e, stack := push (if err \<noteq> None then 0 else 1) st, mem := mm,
             contract := (contract m)\<lparr>Gas := Gas (contract m) + returnGas\<rparr>\<rparr>, ret, None) }"

definition opCall :: executionFunc where
  "opCall cs m = do {
     (_, st) \<leftarrow> pop (stack m);
     let gas = callGasTemp (evm m);
     (addr, st) \<leftarrow> pop st; (v, st) \<leftarrow> pop st;
     (inOffset, st) \<leftarrow> pop st; (inSize, st) \<leftarrow> pop st;
     (retOffset, st) \<leftarrow> pop st; (retSize, st) \<leftarrow> pop st;
     let toAddr = BigToAddress addr;
     let v = U256 v;
     args \<leftarrow> MemGet (mem m) (Int64 inOffset) (Int64 inSize);
     let gas = (if v \<noteq> 0 then gas + CallStipend else gas);
     r \<leftarrow> CallFn cs (evm m) (RunningContract (contract m)) toAddr args gas v;
     finishCall m st retOffset retSize r }"

definition opCallCode :: executionFunc where
  "opCallCode cs m = do {
     (_, st) \<leftarrow> pop (stack m);
     let gas = callGasTemp (evm m);
     (addr, st) \<leftarrow> pop st; (v, st) \<leftarrow> pop st;
     (inOffset, st) \<leftarrow> pop st; (inSize, st) \<leftarrow> pop st;
     (retOffset, st) \<leftarrow> pop st; (retSize, st) \<leftarrow> pop st;
     let toAddr = BigToAddress addr;
     let v = U256 v;
     args \<leftarrow> MemGet (mem m) (Int64 inOffset) (Int64 inSize);
     let gas = (if v \<noteq> 0 then gas + CallStipend else gas);
     r \<leftarrow> CallCodeFn cs (evm m) (RunningContract (contract m)) toAddr args gas v;
     finishCall m st retOffset retSize r }"

definition opDelegateCall :: executionFunc where
  "opDelegateCall cs m = do {
     (_, st) \<leftarrow> pop (stack m);
     let gas = callGasTemp (evm m);
     (addr, st) \<leftarrow> pop st;
     (inOffset, st) \<leftarrow> pop st; (inSize, st) \<leftarrow> pop st;
     (retOffset, st) \<leftarrow> pop st; (retSize, st) \<leftarrow> pop st;
     let toAddr = BigToAddress addr;
     args \<leftarrow> MemGet (mem m) (Int64 inOffset) (Int64 inSize);
     r \<leftarrow> DelegateCallFn cs (evm m) (RunningContract (contract m)) toAddr args gas;
     finishCall m st retOffset retSize r }"

definition opStaticCall :: executionFunc where
  "opStaticCall cs m = do {
     (_, st) \<leftarrow> pop (stack m);
     let gas = callGasTemp (evm m);
     (addr, st) \<leftarrow> pop st;
     (inOffset, st) \<leftarrow> pop st; (inSize, st) \<leftarrow> pop st;
     (retOffset, st) \<leftarrow> pop st; (retSize, st) \<leftarrow> pop st;
     let toAddr = BigToAddress addr;
     args \<leftarrow> MemGet (mem m) (Int64 inOffset) (Int64 inSize);
     r \<leftarrow> StaticCallFn cs (evm m) (RunningContract (contract m)) toAddr args gas;
     finishCall m st retOffset retSize r }"

section \<open>Halting, logging and the parameterised instructions\<close>

definition opReturn :: executionFunc where
  "opReturn cs m = do {
     (offset, st) \<leftarrow> pop (stack m); (sz, st) \<leftarrow> pop st;
     ret \<leftarrow> GetPtr (mem m) (Int64 offset) (Int64 sz);
     Some (m\<lparr>stack := st\<rparr>, ret, None) }"

definition opRevert :: executionFunc where
  "opRevert cs m = do {
     (offset, st) \<leftarrow> pop (stack m); (sz, st) \<leftarrow> pop st;
     ret \<leftarrow> GetPtr (mem m) (Int64 offset) (Int64 sz);
     Some (m\<lparr>stack := st\<rparr>, ret, None) }"

definition opStop :: executionFunc where
  "opStop cs m = ok m"

definition opSuicide :: executionFunc where
  "opSuicide cs m = do {
     let (balance, s1) = GetBalance (sdb (evm m)) (self (contract m));
     (x, st) \<leftarrow> pop (stack m);
     let s2 = AddBalance s1 (BigToAddress x) balance;
     let (_, s3) = Suicide s2 (self (contract m));
     ok (m\<lparr>stack := st, evm := (evm m)\<lparr>sdb := s3\<rparr>\<rparr>) }"

fun popN :: "nat \<Rightarrow> Stack \<Rightarrow> (int list \<times> Stack) option" where
  "popN 0 st = Some ([], st)"
| "popN (Suc n) st = do { (x, st) \<leftarrow> pop st; (xs, st) \<leftarrow> popN n st; Some (x # xs, st) }"

definition makeLog :: "nat \<Rightarrow> executionFunc" where
  "makeLog n cs m = do {
     (mStart, st) \<leftarrow> pop (stack m); (mSize, st) \<leftarrow> pop st;
     (ts, st) \<leftarrow> popN n st;
     d \<leftarrow> MemGet (mem m) (Int64 mStart) (Int64 mSize);
     let l = \<lparr>LogAddress = self (contract m), Topics = map BigToHash ts, LogData = d,
              LogBlockNumber = Uint64 (BlockNumber (ctx (evm m))), TxHash = 0, TxIndex = 0,
              BlockHash = 0, LogIndex = 0\<rparr>;
     ok (m\<lparr>stack := st, evm := (evm m)\<lparr>sdb := AddLog (sdb (evm m)) l\<rparr>\<rparr>) }"

definition makePush :: "u64 \<Rightarrow> nat \<Rightarrow> executionFunc" where
  "makePush n pushByteSize cs m = do {
     let codeLen = int (length (Code (contract m)));
     let startMin = (if sint (pc m + 1) < codeLen then sint (pc m + 1) else codeLen);
     let endMin = (if startMin + int pushByteSize < codeLen then startMin + int pushByteSize else codeLen);
     d \<leftarrow> (if 0 \<le> startMin then slice (Code (contract m)) (nat startMin) (nat endMin) else None);
     ok (m\<lparr>stack := push (SetBytes (RightPadBytes d (int pushByteSize))) (stack m), pc := pc m + n\<rparr>) }"

definition makeDup :: "nat \<Rightarrow> executionFunc" where
  "makeDup n cs m = do { st \<leftarrow> dup n (stack m); ok (m\<lparr>stack := st\<rparr>) }"

definition makeSwap :: "nat \<Rightarrow> executionFunc" where
  "makeSwap n cs m = do { st \<leftarrow> swap (n + 1) (stack m); ok (m\<lparr>stack := st\<rparr>) }"

end
