(* ===== verification/JumpTable.thy ===== *)
theory JumpTable
  imports Instructions
begin

text \<open>
  Opcodes (\<open>core/vm/opcodes.go\<close>) and the instruction tables of \<open>core/vm/jump_table.go\<close>. A Go table is
  an array of 256 operations indexed by opcode; here it is the list of its initialised entries, later
  forks shadowing earlier ones, and a missing entry is the zero value, which is not valid.
\<close>

section \<open>Opcodes\<close>

named_theorems opcodes \<open>numbers of the opcodes\<close>

declare PUSH1_def [opcodes] PUSH32_def [opcodes] JUMPDEST_def [opcodes]

definition STOP :: byte where [opcodes]: "STOP = 0x00"
definition ADD :: byte where [opcodes]: "ADD = 0x01"
definition MUL :: byte where [opcodes]: "MUL = 0x02"
definition SUB :: byte where [opcodes]: "SUB = 0x03"
definition DIV :: byte where [opcodes]: "DIV = 0x04"
definition SDIV :: byte where [opcodes]: "SDIV = 0x05"
definition MOD :: byte where [opcodes]: "MOD = 0x06"
definition SMOD :: byte where [opcodes]: "SMOD = 0x07"
definition ADDMOD :: byte where [opcodes]: "ADDMOD = 0x08"
definition MULMOD :: byte where [opcodes]: "MULMOD = 0x09"
definition EXP :: byte where [opcodes]: "EXP = 0x0a"
definition SIGNEXTEND :: byte where [opcodes]: "SIGNEXTEND = 0x0b"
definition LT :: byte where [opcodes]: "LT = 0x10"
definition GT :: byte where [opcodes]: "GT = 0x11"
definition SLT :: byte where [opcodes]: "SLT = 0x12"
definition SGT :: byte where [opcodes]: "SGT = 0x13"
definition EQ :: byte where [opcodes]: "EQ = 0x14"
definition ISZERO :: byte where [opcodes]: "ISZERO = 0x15"
definition AND :: byte where [opcodes]: "AND = 0x16"
definition OR :: byte where [opcodes]: "OR = 0x17"
definition XOR :: byte where [opcodes]: "XOR = 0x18"
definition NOT :: byte where [opcodes]: "NOT = 0x19"
definition BYTE :: byte where [opcodes]: "BYTE = 0x1a"
definition SHL :: byte where [opcodes]: "SHL = 0x1b"
definition SHR :: byte where [opcodes]: "SHR = 0x1c"
definition SAR :: byte where [opcodes]: "SAR = 0x1d"
definition SHA3 :: byte where [opcodes]: "SHA3 = 0x20"
definition ADDRESS :: byte where [opcodes]: "ADDRESS = 0x30"
definition BALANCE :: byte where [opcodes]: "BALANCE = 0x31"
definition ORIGIN :: byte where [opcodes]: "ORIGIN = 0x32"
definition CALLER :: byte where [opcodes]: "CALLER = 0x33"
definition CALLVALUE :: byte where [opcodes]: "CALLVALUE = 0x34"
definition CALLDATALOAD :: byte where [opcodes]: "CALLDATALOAD = 0x35"
definition CALLDATASIZE :: byte where [opcodes]: "CALLDATASIZE = 0x36"
definition CALLDATACOPY :: byte where [opcodes]: "CALLDATACOPY = 0x37"
definition CODESIZE :: byte where [opcodes]: "CODESIZE = 0x38"
definition CODECOPY :: byte where [opcodes]: "CODECOPY = 0x39"
definition GASPRICE :: byte where [opcodes]: "GASPRICE = 0x3a"
definition EXTCODESIZE :: byte where [opcodes]: "EXTCODESIZE = 0x3b"
definition EXTCODECOPY :: byte where [opcodes]: "EXTCODECOPY = 0x3c"
definition RETURNDATASIZE :: byte where [opcodes]: "RETURNDATASIZE = 0x3d"
definition RETURNDATACOPY :: byte where [opcodes]: "RETURNDATACOPY = 0x3e"
definition BLOCKHASH :: byte where [opcodes]: "BLOCKHASH = 0x40"
definition COINBASE :: byte where [opcodes]: "COINBASE = 0x41"
definition TIMESTAMP :: byte where [opcodes]: "TIMESTAMP = 0x42"
definition NUMBER :: byte where [opcodes]: "NUMBER = 0x43"
definition DIFFICULTY :: byte where [opcodes]: "DIFFICULTY = 0x44"
definition GASLIMIT :: byte where [opcodes]: "GASLIMIT = 0x45"
definition POP :: byte where [opcodes]: "POP = 0x50"
definition MLOAD :: byte where [opcodes]: "MLOAD = 0x51"
definition MSTORE :: byte where [opcodes]: "MSTORE = 0x52"
definition MSTORE8 :: byte where [opcodes]: "MSTORE8 = 0x53"
definition SLOAD :: byte where [opcodes]: "SLOAD = 0x54"
definition SSTORE :: byte where [opcodes]: "SSTORE = 0x55"
definition JUMP :: byte where [opcodes]: "JUMP = 0x56"
definition JUMPI :: byte where [opcodes]: "JUMPI = 0x57"
definition PC :: byte where [opcodes]: "PC = 0x58"
definition MSIZE :: byte where [opcodes]: "MSIZE = 0x59"
definition GAS :: byte where [opcodes]: "GAS = 0x5a"
definition DUP1 :: byte where [opcodes]: "DUP1 = 0x80"
definition SWAP1 :: byte where [opcodes]: "SWAP1 = 0x90"
definition LOG0 :: byte where [opcodes]: "LOG0 = 0xa0"
definition CREATE :: byte where [opcodes]: "CREATE = 0xf0"
definition CALL :: byte where [opcodes]: "CALL = 0xf1"
definition CALLCODE :: byte where [opcodes]: "CALLCODE = 0xf2"
definition RETURN :: byte where [opcodes]: "RETURN = 0xf3"
definition DELEGATECALL :: byte where [opcodes]: "DELEGATECALL = 0xf4"
definition STATICCALL :: byte where [opcodes]: "STATICCALL = 0xfa"
definition REVERT :: byte where [opcodes]: "REVERT = 0xfd"
definition SELFDESTRUCT :: byte where [opcodes]: "SELFDESTRUCT = 0xff"

section \<open>Operations\<close>

record operation =
  execute :: executionFunc
  gasCost :: gasFunc
  validateStack :: "Stack \<Rightarrow> vmError option"
  memorySizeFn :: "(Stack \<Rightarrow> int option) option"
  halts :: bool
  jumps :: bool
  writes :: bool
  valid :: bool
  reverts :: bool
  returns :: bool

text \<open>A valid operation with the given three functions and every other field at its zero value.\<close>

definition mkOp :: "executionFunc \<Rightarrow> gasFunc \<Rightarrow> (Stack \<Rightarrow> vmError option) \<Rightarrow> operation" where
  "mkOp ex gc vs = \<lparr>execute = ex, gasCost = gc, validateStack = vs, memorySizeFn = None, halts = False,
     jumps = False, writes = False, valid = True, reverts = False, returns = False\<rparr>"

definition invalidOp :: operation where
  "invalidOp = (mkOp opStop (constGasFunc 0) (makeStackFunc 0 0))\<lparr>valid := False\<rparr>"

section \<open>Tables\<close>

definition frontierArithmetic :: "(byte \<times> operation) list" where
  "frontierArithmetic = [
     (STOP, (mkOp opStop (constGasFunc 0) (makeStackFunc 0 0))\<lparr>halts := True\<rparr>),
     (ADD, mkOp opAdd (constGasFunc GasFastestStep) (makeStackFunc 2 1)),
     (MUL, mkOp opMul (constGasFunc GasFastStep) (makeStackFunc 2 1)),
     (SUB, mkOp opSub (constGasFunc GasFastestStep) (makeStackFunc 2 1)),
     (DIV, mkOp opDiv (constGasFunc GasFastStep) (makeStackFunc 2 1)),
     (SDIV, mkOp opSdiv (constGasFunc GasFastStep) (makeStackFunc 2 1)),
     (MOD, mkOp opMod (constGasFunc GasFastStep) (makeStackFunc 2 1)),
     (SMOD, mkOp opSmod (constGasFunc GasFastStep) (makeStackFunc 2 1)),
     (ADDMOD, mkOp opAddmod (constGasFunc GasMidStep) (makeStackFunc 3 1)),
     (MULMOD, mkOp opMulmod (constGasFunc GasMidStep) (makeStackFunc 3 1)),
     (EXP, mkOp opExp gasExp (makeStackFunc 2 1)),
     (SIGNEXTEND, mkOp opSignExtend (constGasFunc GasFastStep) (makeStackFunc 2 1))]"

definition frontierLogic :: "(byte \<times> operation) list" where
  "frontierLogic = [
     (LT, mkOp opLt (constGasFunc GasFastestStep) (makeStackFunc 2 1)),
     (GT, mkOp opGt (constGasFunc GasFastestStep) (makeStackFunc 2 1)),
     (SLT, mkOp opSlt (constGasFunc GasFastestStep) (makeStackFunc 2 1)),
     (SGT, mkOp opSgt (constGasFunc GasFastestStep) (makeStackFunc 2 1)),
     (EQ, mkOp opEq (constGasFunc GasFastestStep) (makeStackFunc 2 1)),
     (ISZERO, mkOp opIszero (constGasFunc GasFastestStep) (makeStackFunc 1 1)),
     (AND, mkOp opAnd (constGasFunc GasFastestStep) (makeStackFunc 2 1)),
     (XOR, mkOp opXor (constGasFunc GasFastestStep) (makeStackFunc 2 1)),
     (OR, mkOp opOr (constGasFunc GasFastestStep) (makeStackFunc 2 1)),
     (NOT, mkOp opNot (constGasFunc GasFastestStep) (makeStackFunc 1 1)),
     (BYTE, mkOp opByte (constGasFunc GasFastestStep) (makeStackFunc 2 1)),
     (SHA3, (mkOp opSha3 gasSha3 (makeStackFunc 2 1))\<lparr>memorySizeFn := Some memorySha3\<rparr>)]"

definition frontierEnvironment :: "(byte \<times> operation) list" where
  "frontierEnvironment = [
     (ADDRESS, mkOp opAddress (constGasFunc GasQuickStep) (makeStackFunc 0 1)),
     (BALANCE, mkOp opBalance gasBalance (makeStackFunc 1 1)),
     (ORIGIN, mkOp opOrigin (constGasFunc GasQuickStep) (makeStackFunc 0 1)),
     (CALLER, mkOp opCaller (constGasFunc GasQuickStep) (makeStackFunc 0 1)),
     (CALLVALUE, mkOp opCallValue (constGasFunc GasQuickStep) (makeStackFunc 0 1)),
     (CALLDATALOAD, mkOp opCallDataLoad (constGasFunc GasFastestStep) (makeStackFunc 1 1)),
     (CALLDATASIZE, mkOp opCallDataSize (constGasFunc GasQuickStep) (makeStackFunc 0 1)),
     (CALLDATACOPY, (mkOp opCallDataCopy gasCallDataCopy (makeStackFunc 3 0))\<lparr>memorySizeFn := Some memoryCallDataCopy\<rparr>),
     (CODESIZE, mkOp opCodeSize (constGasFunc GasQuickStep) (makeStackFunc 0 1)),
     (CODECOPY, (mkOp opCodeCopy gasCodeCopy (makeStackFunc 3 0))\<lparr>memorySizeFn := Some memoryCodeCopy\<rparr>),
     (GASPRICE, mkOp opGasprice (constGasFunc GasQuickStep) (makeStackFunc 0 1)),
     (EXTCODESIZE, mkOp opExtCodeSize gasExtCodeSize (makeStackFunc 1 1)),
     (EXTCODECOPY, (mkOp opExtCodeCopy gasExtCodeCopy (makeStackFunc 4 0))\<lparr>memorySizeFn := Some memoryExtCodeCopy\<rparr>)]"

definition frontierBlock :: "(byte \<times> operation) list" where
  "frontierBlock = [
     (BLOCKHASH, mkOp opBlockhash (constGasFunc GasExtStep) (makeStackFunc 1 1)),
     (COINBASE, mkOp opCoinbase (constGasFunc GasQuickStep) (makeStackFunc 0 1)),
     (TIMESTAMP, mkOp opTimestamp (constGasFunc GasQuickStep) (makeStackFunc 0 1)),
     (NUMBER, mkOp opNumber (constGasFunc GasQuickStep) (makeStackFunc 0 1)),
     (DIFFICULTY, mkOp opDifficulty (constGasFunc GasQuickStep) (makeStackFunc 0 1)),
     (GASLIMIT, mkOp opGasLimit (constGasFunc GasQuickStep) (makeStackFunc 0 1))]"

definition frontierStorage :: "(byte \<times> operation) list" where
  "frontierStorage = [
     (POP, mkOp opPop (constGasFunc GasQuickStep) (makeStackFunc 1 0)),
     (MLOAD, (mkOp opMload gasMLoad (makeStackFunc 1 1))\<lparr>memorySizeFn := Some memoryMLoad\<rparr>),
     (MSTORE, (mkOp opMstore gasMStore (makeStackFunc 2 0))\<lparr>memorySizeFn := Some memoryMStore\<rparr>),
     (MSTORE8, (mkOp opMstore8 gasMStore8 (makeStackFunc 2 0))\<lparr>memorySizeFn := Some memoryMStore8\<rparr>),
     (SLOAD, mkOp opSload gasSLoad (makeStackFunc 1 1)),
     (SSTORE, (mkOp opSstore gasSStore (makeStackFunc 2 0))\<lparr>writes := True\<rparr>),
     (JUMP, (mkOp opJump (constGasFunc GasMidStep) (makeStackFunc 1 0))\<lparr>jumps := True\<rparr>),
     (JUMPI, (mkOp opJumpi (constGasFunc GasSlowStep) (makeStackFunc 2 0))\<lparr>jumps := True\<rparr>),
     (PC, mkOp opPc (constGasFunc GasQuickStep) (makeStackFunc 0 1)),
     (MSIZE, mkOp opMsize (constGasFunc GasQuickStep) (makeStackFunc 0 1)),
     (GAS, mkOp opGas (constGasFunc GasQuickStep) (makeStackFunc 0 1)),
     (JUMPDEST, mkOp opJumpdest (constGasFunc JumpdestGas) (makeStackFunc 0 0))]"

definition frontierPush :: "(byte \<times> operation) list" where
  "frontierPush = map (\<lambda>n. (PUSH1 + of_nat (n - 1),
     mkOp (makePush (of_nat n) n) gasPush (makeStackFunc 0 1))) [1..<17]"

definition frontierPushLong :: "(byte \<times> operation) list" where
  "frontierPushLong = map (\<lambda>n. (PUSH1 + of_nat (n - 1),
     mkOp (makePush (of_nat n) n) gasPush (makeStackFunc 0 1))) [17..<33]"

definition frontierDup :: "(byte \<times> operation) list" where
  "frontierDup = map (\<lambda>n. (DUP1 + of_nat (n - 1),
     mkOp (makeDup n) gasDup (makeDupStackFunc n))) [1..<17]"

definition frontierSwap :: "(byte \<times> operation) list" where
  "frontierSwap = map (\<lambda>n. (SWAP1 + of_nat (n - 1),
     mkOp (makeSwap n) gasSwap (makeSwapStackFunc (n + 1)))) [1..<17]"

definition frontierLog :: "(byte \<times> operation) list" where
  "frontierLog = map (\<lambda>n. (LOG0 + of_nat n,
     (mkOp (makeLog n) (makeGasLog (of_nat n)) (makeStackFunc (n + 2) 0))
       \<lparr>memorySizeFn := Some memoryLog, writes := True\<rparr>)) [0..<5]"

definition frontierSystem :: "(byte \<times> operation) list" where
  "frontierSystem = [
     (CREATE, (mkOp opCreate gasCreate (makeStackFunc 3 1))\<lparr>memorySizeFn := Some memoryCreate, writes := True, returns := True\<rparr>),
     (CALL, (mkOp opCall gasCall (makeStackFunc 7 1))\<lparr>memorySizeFn := Some memoryCall, returns := True\<rparr>),
     (CALLCODE, (mkOp opCallCode gasCallCode (makeStackFunc 7 1))\<lparr>memorySizeFn := Some memoryCall, returns := True\<rparr>),
     (RETURN, (mkOp opReturn gasReturn (makeStackFunc 2 0))\<lparr>memorySizeFn := Some memoryReturn, halts := True\<rparr>),
     (SELFDESTRUCT, (mkOp opSuicide gasSuicide (makeStackFunc 1 0))\<lparr>halts := True, writes := True\<rparr>)]"

definition NewFrontierInstructionSet :: "(byte \<times> operation) list" where
  "NewFrontierInstructionSet = frontierArithmetic @ frontierLogic @ frontierEnvironment @ frontierBlock @
     frontierStorage @ frontierPush @ frontierPushLong @ frontierDup @ frontierSwap @ frontierLog @ frontierSystem"

definition NewHomesteadInstructionSet :: "(byte \<times> operation) list" where
  "NewHomesteadInstructionSet = [
     (DELEGATECALL, (mkOp opDelegateCall gasDelegateCall (makeStackFunc 6 1))\<lparr>memorySizeFn := Some memoryDelegateCall, returns := True\<rparr>)] @ NewFrontierInstructionSet"

definition NewByzantiumInstructionSet :: "(byte \<times> operation) list" where
  "NewByzantiumInstructionSet = [
     (STATICCALL, (mkOp opStaticCall gasStaticCall (makeStackFunc 6 1))\<lparr>memorySizeFn := Some memoryStaticCall, returns := True\<rparr>),
     (RETURNDATASIZE, mkOp opReturnDataSize (constGasFunc GasQuickStep) (makeStackFunc 0 1)),
     (RETURNDATACOPY, (mkOp opReturnDataCopy gasReturnDataCopy (makeStackFunc 3 0))\<lparr>memorySizeFn := Some memoryReturnDataCopy\<rparr>),
     (REVERT, (mkOp opRevert gasRevert (makeStackFunc 2 0))\<lparr>memorySizeFn := Some memoryRevert, reverts := True, returns := True\<rparr>)] @ NewHomesteadInstructionSet"

definition NewConstantinopleInstructionSet :: "(byte \<times> operation) list" where
  "NewConstantinopleInstructionSet = [
     (SHL, mkOp opSHL (constGasFunc GasFastestStep) (makeStackFunc 2 1)),
     (SHR, mkOp opSHR (constGasFunc GasFastestStep) (makeStackFunc 2 1)),
     (SAR, mkOp opSAR (constGasFunc GasFastestStep) (makeStackFunc 2 1))] @ NewByzantiumInstructionSet"

definition lookupOp :: "(byte \<times> operation) list \<Rightarrow> byte \<Rightarrow> operation" where
  "lookupOp table b = (case map_of table b of Some oper \<Rightarrow> oper | None \<Rightarrow> invalidOp)"

end
