(* ===== verification/Interpreter.thy ===== *)
theory Interpreter
  imports JumpTable
begin

text \<open>
  The interpreter loop (\<open>core/vm/interpreter.go\<close>) and the entry points of the machine
  (\<open>core/vm/evm.go\<close>): \<open>Call\<close>, \<open>CallCode\<close>, \<open>DelegateCall\<close>, \<open>StaticCall\<close> and \<open>Create\<close>.

  The loop and the entry points call each other. The entry points therefore take the loop as an
  argument (\<open>run\<close>), and \<open>runLoop n\<close> ties the knot with a fuel \<open>n\<close> that both the next iteration and
  a nested call consume. \<open>None\<close> is a Go panic or exhausted fuel; theory EVMSafe shows that a fuel above the
  gas is always enough.
\<close>

type_synonym frameResult = "EVM \<times> Contract \<times> bytes \<times> vmError option"

definition instructionSet :: "EVM \<Rightarrow> (byte \<times> operation) list" where
  "instructionSet e =
     (if IsConstantinople (chainConfig e) (BlockNumber (ctx e)) then NewConstantinopleInstructionSet
      else if isByzantium e then NewByzantiumInstructionSet
      else if isHomestead e then NewHomesteadInstructionSet
      else NewFrontierInstructionSet)"

definition enforceRestrictions :: "EVM \<Rightarrow> byte \<Rightarrow> operation \<Rightarrow> Stack \<Rightarrow> vmError option option" where
  "enforceRestrictions e b oper st =
     (if RulesByzantium (chainRules e) \<and> readOnly e then
        if writes oper then Some (Some errWriteProtection)
        else if b = CALL then do {
          v \<leftarrow> Back st 2;
          Some (if 0 < BitLen v then Some errWriteProtection else None) }
        else Some None
      else Some None)"

definition precompiles :: "EVM \<Rightarrow> address \<rightharpoonup> PrecompiledContract" where
  "precompiles e =
     (if isByzantium e then PrecompiledContractsByzantium (ext (sdb e)) (cryptoFns e)
      else PrecompiledContractsHomestead (ext (sdb e)) (cryptoFns e))"

section \<open>One iteration of the loop\<close>

datatype stepResult = Halt frameResult | Next machine

text \<open>The memory an operation needs, in bytes rounded up to words: an error, or 0 when the operation
  declares none.\<close>

definition requiredMemory :: "operation \<Rightarrow> Stack \<Rightarrow> (vmError + u64) option" where
  "requiredMemory oper st =
     (case memorySizeFn oper of
        None \<Rightarrow> Some (Inr 0)
      | Some f \<Rightarrow> do {
          n \<leftarrow> f st;
          Some (ebind (checked (bigUint64 n)) (\<lambda>memSize. checked (SafeMul (toWordSize memSize) 32))) })"

text \<open>What follows the execution of an operation: the return data buffer, and the switch.\<close>

definition afterExec :: "operation \<Rightarrow> execResult \<Rightarrow> stepResult" where
  "afterExec oper r =
     (case r of (m1, res, err) \<Rightarrow>
        let m2 = (if returns oper then m1\<lparr>evm := (evm m1)\<lparr>returnData := res\<rparr>\<rparr> else m1)
        in if err \<noteq> None then Halt (evm m2, contract m2, [], err)
           else if reverts oper then Halt (evm m2, contract m2, res, Some errExecutionReverted)
           else if halts oper then Halt (evm m2, contract m2, res, None)
           else if \<not> jumps oper then Next (m2\<lparr>pc := pc m2 + 1\<rparr>)
           else Next m2)"

definition step :: "calls \<Rightarrow> machine \<Rightarrow> stepResult option" where
  "step cs m =
     (let b = GetOp (contract m) (pc m);
          oper = lookupOp (instructionSet (evm m)) b;
          fail = (\<lambda>e err. Some (Halt (e, contract m, [], Some err)))
      in if \<not> valid oper then fail (evm m) (errInvalidOpcode b)
         else case validateStack oper (stack m) of
           Some err \<Rightarrow> fail (evm m) err
         | None \<Rightarrow> do {
             restricted \<leftarrow> enforceRestrictions (evm m) b oper (stack m);
             case restricted of
               Some err \<Rightarrow> fail (evm m) err
             | None \<Rightarrow> do {
                 req \<leftarrow> requiredMemory oper (stack m);
                 case req of
                   Inl err \<Rightarrow> fail (evm m) err
                 | Inr memorySize \<Rightarrow> do {
                     (cost, e1, mem1) \<leftarrow>
                       gasCost oper (gasTable (evm m)) (evm m) (contract m) (stack m) (mem m) memorySize;
                     case cost of
                       Inl _ \<Rightarrow> fail e1 ErrOutOfGas
                     | Inr c \<Rightarrow>
                         let (paid, c1) = UseGas (contract m) c in
                         if \<not> paid then fail e1 ErrOutOfGas
                         else do {
                           let mem2 = (if 0 < memorySize then Resize mem1 memorySize else mem1);
                           r \<leftarrow> execute oper cs (m\<lparr>evm := e1, contract := c1, mem := mem2\<rparr>);
                           Some (afterExec oper r) } } } })"

section \<open>Frames\<close>

definition Run :: "(machine \<Rightarrow> frameResult option) \<Rightarrow> EVM \<Rightarrow> Contract \<Rightarrow> bytes \<Rightarrow> frameResult option" where
  "Run run e c input =
     (let e1 = e\<lparr>depth := depth e + 1, returnData := []\<rparr>;
          leave = (\<lambda>e. e\<lparr>depth := depth e - 1\<rparr>)
      in if Code c = [] then Some (leave e1, c, [], None)
         else do {
           (e2, c2, ret, err) \<leftarrow>
             run \<lparr>pc = 0, evm = e1, contract = c\<lparr>Input := input\<rparr>, mem = NewMemory, stack = newstack\<rparr>;
           Some (leave e2, c2, ret, err) })"

text \<open>\<open>run\<close> of \<open>evm.go\<close>: a precompiled contract, or the interpreter.\<close>

definition runContract :: "(machine \<Rightarrow> frameResult option) \<Rightarrow> EVM \<Rightarrow> Contract \<Rightarrow> bytes \<Rightarrow> frameResult option" where
  "runContract run e c input =
     (case Option.bind (CodeAddr c) (precompiles e) of
        Some p \<Rightarrow> do { (ret, err, c') \<leftarrow> RunPrecompiledContract p input c; Some (e, c', ret, err) }
      | None \<Rightarrow> Run run e c input)"

text \<open>\<open>NewContract\<close> gives a frame started by an account a new analysis table; a frame started by a
  contract shares the table of its parent.\<close>

definition shareTable :: "ContractRef \<Rightarrow> EVM \<Rightarrow> EVM" where
  "shareTable caller e =
     (case caller of AccountRef _ \<Rightarrow> e\<lparr>jumpdests := Map.empty\<rparr> | RunningContract _ \<Rightarrow> e)"

text \<open>The end of the four calls: on an error the state goes back to the snapshot, and unless it is a
  revert the remaining gas is consumed.\<close>

definition finishFrame :: "nat \<Rightarrow> frameResult \<Rightarrow> callResult option" where
  "finishFrame snapshot r =
     (case r of (e, c, ret, err) \<Rightarrow>
        if err \<noteq> None then do {
          s \<leftarrow> RevertToSnapshot (sdb e) snapshot;
          let c' = (if err \<noteq> Some errExecutionReverted then snd (UseGas c (Gas c)) else c);
          Some (e\<lparr>sdb := s\<rparr>, ret, Gas c', err) }
        else Some (e, ret, Gas c, err))"

text \<open>\<open>contract.SetCallCode(&addr, evm.StateDB.GetCodeHash(addr), evm.StateDB.GetCode(addr))\<close>.\<close>

definition loadCode :: "Contract \<Rightarrow> address \<Rightarrow> statedb \<Rightarrow> Contract \<times> statedb" where
  "loadCode c addr s =
     (let (h, s1) = GetCodeHash s addr; (code, s2) = GetCode s1 addr in (SetCallCode c addr h code, s2))"

definition Call :: "(machine \<Rightarrow> frameResult option) \<Rightarrow> EVM \<Rightarrow> ContractRef \<Rightarrow> address \<Rightarrow> bytes \<Rightarrow> u64 \<Rightarrow> int \<Rightarrow>
    callResult option" where
  "Call run e caller addr input gas v =
     (if NoRecursion (vmConfig e) \<and> 0 < depth e then Some (e, [], gas, None)
      else if CallCreateDepth < depth e then Some (e, [], gas, Some ErrDepth)
      else
        let (can, s1) = CanTransferFn (ctx e) (sdb e) (RefAddress caller) v in
        if \<not> can then Some (e\<lparr>sdb := s1\<rparr>, [], gas, Some ErrInsufficientBalance)
        else
          let (snapshot, s2) = Snapshot s1;
              (exists, s3) = Exist s2 addr
          in if \<not> exists \<and> precompiles e addr = None \<and> isEIP158 e \<and> v = 0
             then Some (e\<lparr>sdb := s3\<rparr>, [], gas, None)
             else
               let s4 = (if \<not> exists then CreateAccount s3 addr else s3);
                   s5 = TransferFn (ctx e) s4 (RefAddress caller) addr v;
                   (c, s6) = loadCode (NewContract caller addr v gas) addr s5
               in do {
                 r \<leftarrow> runContract run (shareTable caller (e\<lparr>sdb := s6\<rparr>)) c input;
                 finishFrame snapshot r })"

definition CallCode :: "(machine \<Rightarrow> frameResult option) \<Rightarrow> EVM \<Rightarrow> ContractRef \<Rightarrow> address \<Rightarrow> bytes \<Rightarrow> u64 \<Rightarrow> int \<Rightarrow>
    callResult option" where
  "CallCode run e caller addr input gas v =
     (if NoRecursion (vmConfig e) \<and> 0 < depth e then Some (e, [], gas, None)
      else if CallCreateDepth < depth e then Some (e, [], gas, Some ErrDepth)
      else
        let (can, s1) = CanTransferFn (ctx e) (sdb e) (RefAddress caller) v in
        if \<not> can then Some (e\<lparr>sdb := s1\<rparr>, [], gas, Some ErrInsufficientBalance)
        else
          let (snapshot, s2) = Snapshot s1;
              (c, s3) = loadCode (NewContract caller (RefAddress caller) v gas) addr s2
          in do {
            r \<leftarrow> runContract run (shareTable caller (e\<lparr>sdb := s3\<rparr>)) c input;
            finishFrame snapshot r })"

definition DelegateCall :: "(machine \<Rightarrow> frameResult option) \<Rightarrow> EVM \<Rightarrow> ContractRef \<Rightarrow> address \<Rightarrow> bytes \<Rightarrow> u64 \<Rightarrow>
    callResult option" where
  "DelegateCall run e caller addr input gas =
     (if NoRecursion (vmConfig e) \<and> 0 < depth e then Some (e, [], gas, None)
      else if CallCreateDepth < depth e then Some (e, [], gas, Some ErrDepth)
      else
        let (snapshot, s1) = Snapshot (sdb e) in
        do {
          c0 \<leftarrow> AsDelegate caller (NewContract caller (RefAddress caller) 0 gas);
          let (c, s2) = loadCode c0 addr s1;
          r \<leftarrow> runContract run (shareTable caller (e\<lparr>sdb := s2\<rparr>)) c input;
          finishFrame snapshot r })"

definition StaticCall :: "(machine \<Rightarrow> frameResult option) \<Rightarrow> EVM \<Rightarrow> ContractRef \<Rightarrow> address \<Rightarrow> bytes \<Rightarrow> u64 \<Rightarrow>
    callResult option" where
  "StaticCall run e caller addr input gas =
     (if NoRecursion (vmConfig e) \<and> 0 < depth e then Some (e, [], gas, None)
      else if CallCreateDepth < depth e then Some (e, [], gas, Some ErrDepth)
      else
        let (snapshot, s1) = Snapshot (sdb e);
            (c, s2) = loadCode (NewContract caller addr 0 gas) addr s1
        in do {
          r \<leftarrow> runContract run (shareTable caller (e\<lparr>sdb := s2, readOnly := True\<rparr>)) c input;
          (e', ret, left, err) \<leftarrow> finishFrame snapshot r;
          Some (if \<not> readOnly e then e'\<lparr>readOnly := False\<rparr> else e', ret, left, err) })"

text \<open>The tail of \<open>Create\<close>, after the init code ran.\<close>

definition finishCreate :: "nat \<Rightarrow> address \<Rightarrow> frameResult \<Rightarrow>
    (EVM \<times> bytes \<times> address \<times> u64 \<times> vmError option) option" where
  "finishCreate snapshot contractAddr r =
     (case r of (e, c, ret, err) \<Rightarrow>
        let maxCodeSizeExceeded = (isEIP158 e \<and> MaxCodeSize < length ret);
            (e1, c1, err1) =
              (if err = None \<and> \<not> maxCodeSizeExceeded then
                 let (paid, c') = UseGas c (of_nat (length ret) * CreateDataGas)
                 in if paid then (e\<lparr>sdb := SetCode (sdb e) contractAddr ret\<rparr>, c', None)
                    else (e, c', Some ErrCodeStoreOutOfGas)
               else (e, c, err))
        in do {
          (e2, c2) \<leftarrow>
            (if maxCodeSizeExceeded \<or> (err1 \<noteq> None \<and> (isHomestead e1 \<or> err1 \<noteq> Some ErrCodeStoreOutOfGas)) then do {
               s \<leftarrow> RevertToSnapshot (sdb e1) snapshot;
               Some (e1\<lparr>sdb := s\<rparr>,
                     if err1 \<noteq> Some errExecutionReverted then snd (UseGas c1 (Gas c1)) else c1) }
             else Some (e1, c1));
          let err2 = (if maxCodeSizeExceeded \<and> err1 = None then Some errMaxCodeSizeExceeded else err1);
          Some (e2, ret, contractAddr, Gas c2, err2) })"

definition Create :: "(machine \<Rightarrow> frameResult option) \<Rightarrow> EVM \<Rightarrow> ContractRef \<Rightarrow> bytes \<Rightarrow> u64 \<Rightarrow> int \<Rightarrow>
    (EVM \<times> bytes \<times> address \<times> u64 \<times> vmError option) option" where
  "Create run e caller code gas v =
     (if CallCreateDepth < depth e then Some (e, [], 0, gas, Some ErrDepth)
      else
        let (can, s1) = CanTransferFn (ctx e) (sdb e) (RefAddress caller) v in
        if \<not> can then Some (e\<lparr>sdb := s1\<rparr>, [], 0, gas, Some ErrInsufficientBalance)
        else
          let (nonce, s2) = GetNonce s1 (RefAddress caller);
              s3 = SetNonce s2 (RefAddress caller) (nonce + 1);
              contractAddr = createAddress (ext s3) (RefAddress caller) nonce;
              (contractHash, s4) = GetCodeHash s3 contractAddr;
              (n, s5) = GetNonce s4 contractAddr
          in if n \<noteq> 0 \<or> (contractHash \<noteq> 0 \<and> contractHash \<noteq> emptyCodeHash s5)
             then Some (e\<lparr>sdb := s5\<rparr>, [], 0, 0, Some ErrContractAddressCollision)
             else
               let (snapshot, s6) = Snapshot s5;
                   s7 = CreateAccount s6 contractAddr;
                   s8 = (if isEIP158 e then SetNonce s7 contractAddr 1 else s7);
                   s9 = TransferFn (ctx e) s8 (RefAddress caller) contractAddr v;
                   c = SetCallCode (NewContract caller contractAddr v gas) contractAddr
                         (keccak256 (ext s9) code) code;
                   e1 = shareTable caller (e\<lparr>sdb := s9\<rparr>)
               in if NoRecursion (vmConfig e) \<and> 0 < depth e then Some (e1, [], contractAddr, gas, None)
                  else do { r \<leftarrow> runContract run e1 c []; finishCreate snapshot contractAddr r })"

section \<open>The loop\<close>

definition callsWith :: "(machine \<Rightarrow> frameResult option) \<Rightarrow> calls" where
  "callsWith run = \<lparr>CallFn = Call run, CallCodeFn = CallCode run, DelegateCallFn = DelegateCall run,
     StaticCallFn = StaticCall run, CreateFn = Create run\<rparr>"

definition loopBody :: "(machine \<Rightarrow> frameResult option) \<Rightarrow> machine \<Rightarrow> frameResult option" where
  "loopBody run m =
     (let stop = aborts (evm m) (loads (evm m));
          m1 = m\<lparr>evm := (evm m)\<lparr>loads := loads (evm m) + 1\<rparr>\<rparr>
      in if stop then Some (evm m1, contract m1, [], None)
         else do {
           r \<leftarrow> step (callsWith run) m1;
           case r of Halt x \<Rightarrow> Some x | Next m2 \<Rightarrow> run m2 })"

primrec runLoop :: "nat \<Rightarrow> machine \<Rightarrow> frameResult option" where
  "runLoop 0 = (\<lambda>m. None)"
| "runLoop (Suc n) = loopBody (runLoop n)"

end
