(* ===== verification/VMFacts.thy ===== *)
theory VMFacts
  imports Interpreter
begin

text \<open>
  Facts about the data structures of the machine that the safety proof rests on: the jump destination
  analysis marks exactly the immediate data of the PUSH instructions and never leaves its bit vector,
  and reads and writes of memory, call data and code stay inside the slices the interpreter has
  prepared for them.
\<close>

section \<open>Jump destination analysis\<close>

text \<open>The reference: the positions of the instructions of a code, each after the immediate data of
  the one before.\<close>

definition nextInstr :: "bytes \<Rightarrow> nat \<Rightarrow> nat" where
  "nextInstr code p = p + 1 + (if isPush (code ! p) then pushBytes (code ! p) else 0)"

function instrStarts :: "bytes \<Rightarrow> nat \<Rightarrow> nat list" where
  "instrStarts code p = (if p < length code then p # instrStarts code (nextInstr code p) else [])"
  by pat_completeness auto
termination
  by (relation "measure (\<lambda>(code, p). length code - p)") (auto simp: nextInstr_def)

declare instrStarts.simps [simp del]

lemma instrStarts_ge: "q \<in> set (instrStarts code p) \<Longrightarrow> p \<le> q"
proof (induction code p rule: instrStarts.induct)
  case (1 code p)
  then show ?case by (subst (asm) (2) instrStarts.simps) (force simp: nextInstr_def split: if_splits)
qed

definition marked :: "bitvec \<Rightarrow> nat \<Rightarrow> bool" where
  "marked bits p = bit (bits ! (p div 8)) (7 - p mod 8)"

lemma bit_0x80: "k < 8 \<Longrightarrow> bit (drop_bit k (0x80 :: byte)) i \<longleftrightarrow> i = 7 - k"
proof -
  assume k: "k < 8"
  have "(0x80 :: byte) = push_bit 7 1" by simp
  then have "bit (drop_bit k (0x80 :: byte)) i \<longleftrightarrow> i + k = 7"
    by (auto simp only: bit_drop_bit_eq bit_push_bit_iff comp_def bit_1_iff)
      auto
  with k show ?thesis by auto
qed

lemma bit_0xFF: "bit (drop_bit k (0xFF :: byte)) i \<longleftrightarrow> i + k < 8"
proof -
  have "(0xFF :: byte) = mask 8" by (simp add: mask_eq_exp_minus_1)
  then show ?thesis by (auto simp only: bit_drop_bit_eq comp_def bit_mask_iff) auto
qed

lemma and_0x80: "k < 8 \<Longrightarrow> and b (drop_bit k (0x80 :: byte)) = 0 \<longleftrightarrow> \<not> bit b (7 - k)"
proof -
  assume k: "k < 8"
  have *: "bit (and b (drop_bit k (0x80 :: byte))) i \<longleftrightarrow> bit b i \<and> i = 7 - k" for i
    by (simp only: bit_and_iff bit_0x80 [OF k])
  show ?thesis
  proof
    assume "and b (drop_bit k 0x80) = 0"
    with * [of "7 - k"] show "\<not> bit b (7 - k)" by simp
  next
    assume n: "\<not> bit b (7 - k)"
    show "and b (drop_bit k 0x80) = 0"
    proof (rule bit_word_eqI)
      fix i
      show "bit (and b (drop_bit k 0x80)) i = bit (0 :: byte) i" using * [of i] n by auto
    qed
  qed
qed

lemma codeSegment_marked: "p div 8 < length bits \<Longrightarrow> codeSegment bits p = Some (\<not> marked bits p)"
  by (simp add: codeSegment_def index_def marked_def and_0x80)

lemma div_mod_8_eq: "p div 8 = q div 8 \<and> p mod 8 = q mod 8 \<longleftrightarrow> p = (q :: nat)"
  by (metis div_mult_mod_eq)

lemma bvSet_ok:
  assumes "p div 8 < length bits"
  shows "\<exists>bits'. bvSet bits p = Some bits' \<and> length bits' = length bits \<and>
    (\<forall>q. q div 8 < length bits \<longrightarrow> marked bits' q = (marked bits q \<or> q = p))"
proof -
  let ?b = "bits[p div 8 := or (bits ! (p div 8)) (drop_bit (p mod 8) 0x80)]"
  have "marked ?b q = (marked bits q \<or> q = p)" if q: "q div 8 < length bits" for q
  proof (cases "q div 8 = p div 8")
    case True
    have "q mod 8 < 8" "p mod 8 < 8" by simp_all
    then have "7 - q mod 8 = 7 - p mod 8 \<longleftrightarrow> q mod 8 = p mod 8" by arith
    then have "7 - q mod 8 = 7 - p mod 8 \<longleftrightarrow> q = p" using True div_mod_8_eq [of q p] by simp
    then show ?thesis using True q by (simp add: marked_def bit_or_iff bit_0x80)
  next
    case False
    then show ?thesis by (auto simp: marked_def)
  qed
  moreover have "bvSet bits p = Some ?b" using assms by (simp add: bvSet_def index_def)
  ultimately show ?thesis by simp
qed

lemma bvSet8_ok:
  assumes "p div 8 + 1 < length bits"
  shows "\<exists>bits'. bvSet8 bits p = Some bits' \<and> length bits' = length bits \<and>
    (\<forall>q. q div 8 < length bits \<longrightarrow> marked bits' q = (marked bits q \<or> p \<le> q \<and> q < p + 8))"
proof -
  have b1: "q div 8 = p div 8 \<Longrightarrow> 7 - q mod 8 + p mod 8 < 8 \<longleftrightarrow> p \<le> q \<and> q < p + 8" for q
  proof -
    assume "q div 8 = p div 8"
    moreover have "q = 8 * (q div 8) + q mod 8" "p = 8 * (p div 8) + p mod 8" "q mod 8 < 8" "p mod 8 < 8" by simp_all
    ultimately show ?thesis by arith
  qed
  have b2: "q div 8 = Suc (p div 8) \<Longrightarrow> \<not> 7 - q mod 8 + p mod 8 < 8 \<longleftrightarrow> p \<le> q \<and> q < p + 8" for q
  proof -
    assume "q div 8 = Suc (p div 8)"
    moreover have "q = 8 * (q div 8) + q mod 8" "p = 8 * (p div 8) + p mod 8" "q mod 8 < 8" "p mod 8 < 8" by simp_all
    ultimately show ?thesis by arith
  qed
  have b3: "q div 8 \<noteq> p div 8 \<Longrightarrow> q div 8 \<noteq> Suc (p div 8) \<Longrightarrow> \<not> (p \<le> q \<and> q < p + 8)" for q
    by auto
  let ?bits1 = "bits[p div 8 := or (bits ! (p div 8)) (drop_bit (p mod 8) 0xFF)]"
  let ?bits2 = "?bits1[p div 8 + 1 := or (bits ! (p div 8 + 1)) (not (drop_bit (p mod 8) 0xFF))]"
  have "bvSet8 bits p = Some ?bits2" using assms by (simp add: bvSet8_def index_def Let_def)
  moreover have "marked ?bits2 q = (marked bits q \<or> p \<le> q \<and> q < p + 8)" if q: "q div 8 < length bits" for q
  proof -
    consider "q div 8 = p div 8" | "q div 8 = Suc (p div 8)" | "q div 8 \<noteq> p div 8" "q div 8 \<noteq> Suc (p div 8)" by blast
    then show ?thesis
    proof cases
      case 1
      then show ?thesis using q b1 [OF 1] by (simp add: marked_def bit_or_iff bit_0xFF)
    next
      case 2
      have "bit (not (drop_bit (p mod 8) (0xFF :: byte))) (7 - q mod 8) = (\<not> 7 - q mod 8 + p mod 8 < 8)"
        by (simp add: bit_not_iff bit_0xFF less_imp_diff_less)
      with 2 show ?thesis using q b2 [OF 2] by (simp add: marked_def bit_or_iff)
    next
      case 3
      then show ?thesis using b3 [OF 3] by (auto simp: marked_def)
    qed
  qed
  ultimately show ?thesis by simp
qed

lemma setBits_ok:
  "(p + n) div 8 < length bits \<Longrightarrow>
   \<exists>bits'. setBits bits p n = Some bits' \<and> length bits' = length bits \<and>
    (\<forall>q. q div 8 < length bits \<longrightarrow> marked bits' q = (marked bits q \<or> p \<le> q \<and> q < p + n))"
proof (induction bits p n rule: setBits.induct)
  case (1 bits p n)
  consider "8 \<le> n" | "n < 8" "0 < n" | "n = 0" by linarith
  then show ?case
  proof cases
    case 1
    have "p div 8 + 1 < length bits" using 1 "1.prems" by (simp add: div_less_iff_less_mult)
    then obtain b1 where b1: "bvSet8 bits p = Some b1" "length b1 = length bits"
      "\<forall>q. q div 8 < length bits \<longrightarrow> marked b1 q = (marked bits q \<or> p \<le> q \<and> q < p + 8)"
      using bvSet8_ok by blast
    have "(p + 8 + (n - 8)) div 8 < length b1" using 1 "1.prems" b1(2) by simp
    from "1.IH"(1) [OF 1 b1(1) this] obtain b2 where b2: "setBits b1 (p + 8) (n - 8) = Some b2"
      "length b2 = length b1" "\<forall>q. q div 8 < length b1 \<longrightarrow>
        marked b2 q = (marked b1 q \<or> p + 8 \<le> q \<and> q < p + 8 + (n - 8))" by blast
    have "setBits bits p n = Some b2" using 1 b1(1) b2(1) by (simp add: setBits.simps [of bits p n])
    moreover have "marked b2 q = (marked bits q \<or> p \<le> q \<and> q < p + n)" if "q div 8 < length bits" for q
      using that b1(2,3) b2(3) 1 by auto
    ultimately show ?thesis using b1(2) b2(2) by auto
  next
    case 2
    have "p div 8 < length bits" using 2 "1.prems" by (simp add: div_less_iff_less_mult)
    then obtain b1 where b1: "bvSet bits p = Some b1" "length b1 = length bits"
      "\<forall>q. q div 8 < length bits \<longrightarrow> marked b1 q = (marked bits q \<or> q = p)"
      using bvSet_ok by blast
    have "(p + 1 + (n - 1)) div 8 < length b1" using 2 "1.prems" b1(2) by simp
    from "1.IH"(2) [OF _ 2(2) b1(1) this] 2 obtain b2 where b2: "setBits b1 (p + 1) (n - 1) = Some b2"
      "length b2 = length b1" "\<forall>q. q div 8 < length b1 \<longrightarrow>
        marked b2 q = (marked b1 q \<or> p + 1 \<le> q \<and> q < p + 1 + (n - 1))" by auto
    have "setBits bits p n = Some b2" using 2 b1(1) b2(1) by (simp add: setBits.simps [of bits p n])
    moreover have "marked b2 q = (marked bits q \<or> p \<le> q \<and> q < p + n)" if "q div 8 < length bits" for q
      using that b1(2,3) b2(3) 2 by auto
    ultimately show ?thesis using b1(2) b2(2) by auto
  next
    case 3
    then have "setBits bits p n = Some bits" by (simp add: setBits.simps [of bits p 0])
    with 3 show ?thesis by auto
  qed
qed

lemma pushBytes_range: "isPush b \<Longrightarrow> 1 \<le> pushBytes b \<and> pushBytes b \<le> 32"
proof -
  assume a: "isPush b"
  then have "unat (0x60 :: byte) \<le> unat b" "unat b \<le> unat (0x7f :: byte)"
    by (simp_all add: isPush_def PUSH1_def PUSH32_def word_le_nat_alt)
  then have r: "96 \<le> unat b" "unat b \<le> 127" by simp_all
  have "unat (b - 0x60) = unat b - 96" using r by (simp add: unat_sub word_le_nat_alt)
  moreover have "unat (x + 1) = unat x + 1" if "unat x < 32" for x :: byte
    using that by (simp add: unat_word_ariths)
  moreover have "unat b - 96 < 32" using r by arith
  ultimately have "unat (b - 0x60 + 1) = unat b - 96 + 1" by metis
  with r show ?thesis by (simp add: pushBytes_def PUSH1_def)
qed

lemma codeBitmapFrom_ok:
  "length bits = length code div 8 + 5 \<Longrightarrow> \<forall>q. p \<le> q \<longrightarrow> q div 8 < length bits \<longrightarrow> \<not> marked bits q \<Longrightarrow>
   \<exists>bits'. codeBitmapFrom code p bits = Some bits' \<and> length bits' = length bits \<and>
     (\<forall>q < length code. marked bits' q = (marked bits q \<or> p \<le> q \<and> q \<notin> set (instrStarts code p)))"
proof (induction code p bits rule: codeBitmapFrom.induct)
  case (1 code p bits)
  let ?op = "code ! p"
  consider "\<not> p < length code" | "p < length code" "isPush ?op" | "p < length code" "\<not> isPush ?op" by blast
  then show ?case
  proof cases
    case 1
    then have "codeBitmapFrom code p bits = Some bits" by (simp add: codeBitmapFrom.simps [of code p])
    with 1 show ?thesis by auto
  next
    case 2
    let ?n = "pushBytes ?op"
    have "(p + 1 + ?n) div 8 < length bits"
      using 2 pushBytes_range [of ?op] "1.prems"(1) by (simp add: div_less_iff_less_mult) linarith
    then obtain b1 where b1: "setBits bits (p + 1) ?n = Some b1" "length b1 = length bits"
      "\<forall>q. q div 8 < length bits \<longrightarrow> marked b1 q = (marked bits q \<or> p + 1 \<le> q \<and> q < p + 1 + ?n)"
      using setBits_ok by blast
    have nx: "nextInstr code p = p + 1 + ?n" using 2 by (simp add: nextInstr_def)
    have "\<forall>q. p + 1 + ?n \<le> q \<longrightarrow> q div 8 < length b1 \<longrightarrow> \<not> marked b1 q" using b1 "1.prems"(2) by auto
    then obtain b2 where b2: "codeBitmapFrom code (p + 1 + ?n) b1 = Some b2" "length b2 = length b1"
      "\<forall>q < length code. marked b2 q = (marked b1 q \<or> p + 1 + ?n \<le> q \<and> q \<notin> set (instrStarts code (p + 1 + ?n)))"
      using "1.IH"(1) [OF 2(1) refl 2(2) b1(1)] b1(2) "1.prems"(1) by auto
    have "marked b2 q = (marked bits q \<or> p \<le> q \<and> q \<notin> set (instrStarts code p))" if q: "q < length code" for q
    proof -
      have "q div 8 < length bits" using q "1.prems"(1) by (simp add: div_less_iff_less_mult)
      then have "marked b2 q = (marked bits q \<or> p + 1 \<le> q \<and> q < p + 1 + ?n \<or>
          p + 1 + ?n \<le> q \<and> q \<notin> set (instrStarts code (p + 1 + ?n)))" using b1 b2 q by simp
      also have "\<dots> = (marked bits q \<or> p \<le> q \<and> q \<notin> set (instrStarts code p))"
        using 2 nx instrStarts_ge [of q code "p + 1 + ?n"] instrStarts.simps [of code p] by auto
      finally show ?thesis .
    qed
    moreover have "codeBitmapFrom code p bits = Some b2"
      using 2 b1(1) b2(1) by (simp add: codeBitmapFrom.simps [of code p] Let_def)
    ultimately show ?thesis using b1(2) b2(2) by auto
  next
    case 3
    have nx: "nextInstr code p = p + 1" using 3 by (simp add: nextInstr_def)
    obtain b2 where b2: "codeBitmapFrom code (p + 1) bits = Some b2" "length b2 = length bits"
      "\<forall>q < length code. marked b2 q = (marked bits q \<or> p + 1 \<le> q \<and> q \<notin> set (instrStarts code (p + 1)))"
      using "1.IH"(2) [OF 3(1) refl 3(2)] "1.prems" by auto
    have "instrStarts code p = p # instrStarts code (p + 1)"
      using 3 nx instrStarts.simps [of code p] by simp
    moreover have "codeBitmapFrom code p bits = Some b2"
      using 3 b2(1) by (simp add: codeBitmapFrom.simps [of code p] Let_def)
    moreover have "p \<le> q \<longleftrightarrow> q = p \<or> p + 1 \<le> q" for q by auto
    ultimately show ?thesis using b2(2,3) instrStarts_ge [of p code "p + 1"] by auto
  qed
qed

lemma codeBitmap_ok:
  "\<exists>bits. codeBitmap code = Some bits \<and> length bits = length code div 8 + 5 \<and>
     (\<forall>p < length code. codeSegment bits p = Some (p \<in> set (instrStarts code 0)))"
proof -
  let ?z = "replicate (length code div 8 + 5) 0 :: bitvec"
  have z: "\<forall>q. 0 \<le> q \<longrightarrow> q div 8 < length ?z \<longrightarrow> \<not> marked ?z q" by (simp add: marked_def)
  obtain bits where b: "codeBitmapFrom code 0 ?z = Some bits" "length bits = length ?z"
    "\<forall>q < length code. marked bits q = (marked ?z q \<or> 0 \<le> q \<and> q \<notin> set (instrStarts code 0))"
    using codeBitmapFrom_ok [OF _ z, of code] by auto
  have "codeSegment bits p = Some (p \<in> set (instrStarts code 0))" if p: "p < length code" for p
  proof -
    have "p div 8 < length bits" using p b(2) by (simp add: div_less_iff_less_mult)
    moreover have "p div 8 < length ?z" using calculation b(2) by simp
    ultimately show ?thesis using b(3) p z by (simp add: codeSegment_marked del: length_replicate)
  qed
  with b show ?thesis by (auto simp: codeBitmap_def add.commute)
qed


section \<open>Stack\<close>

lemma makeStackFunc_None:
  "makeStackFunc p q st = None \<longleftrightarrow> p \<le> length st \<and> length st + q \<le> 1024 + p"
  by (auto simp: makeStackFunc_def require_def StackLimit_def split: option.split)

lemma pop_Cons [simp]: "pop (x # st) = Some (x, st)"
  by (simp add: pop_def)

lemma Back_simps [simp]: "Back (x # st) 0 = Some x" "Back (x # st) (Suc n) = Back st n"
  by (simp_all add: Back_def index_def)

section \<open>Word sizes and memory\<close>

definition memMax :: nat where "memMax = 1099511627744"

definition small :: "'a list \<Rightarrow> bool" where
  "small xs \<longleftrightarrow> length xs \<le> 2 ^ 41"

lemma small_Nil [simp]: "small []"
  by (simp add: small_def)

definition memOk :: "Memory \<Rightarrow> bool" where
  "memOk m \<longleftrightarrow> 32 dvd MemLen m \<and> MemLen m \<le> memMax"

lemma unat_toWordSize:
  "unat (toWordSize n) = (if unat n \<le> 2 ^ 64 - 32 then (unat n + 31) div 32 else 2 ^ 59)"
proof -
  have m: "unat (MaxUint64 - 31) = 2 ^ 64 - 32" by (simp add: MaxUint64_def)
  have c: "MaxUint64 - 31 < n \<longleftrightarrow> 2 ^ 64 - 32 < unat n" by (simp only: word_less_nat_alt m)
  have "unat (n + 31) = unat n + 31" if "unat n \<le> 2 ^ 64 - 32"
    using that by (simp add: unat_word_ariths)
  moreover have "unat (MaxUint64 div 32 + 1) = 2 ^ 59" by (simp add: MaxUint64_def unat_word_ariths unat_div)
  ultimately show ?thesis unfolding toWordSize_def c by (auto simp: unat_div)
qed

lemma checked_Inr [simp]: "checked r = Inr x \<longleftrightarrow> \<not> snd r \<and> fst r = x"
  by (auto simp: checked_def)

lemma ebind_Inr: "ebind r f = Inr y \<longleftrightarrow> (\<exists>x. r = Inr x \<and> f x = Inr y)"
  by (cases r) (auto simp: ebind_def)

lemma wordBytes:
  assumes "checked (SafeMul (toWordSize n) 32) = Inr sz"
  shows "unat sz = 32 * ((unat n + 31) div 32)"
proof (cases "unat n \<le> 2 ^ 64 - 32")
  case True
  then have "unat (toWordSize n) * 32 < 2 ^ 64" unfolding unat_toWordSize by simp
  then have "unat (toWordSize n * 32) = unat (toWordSize n) * 32" by (simp add: unat_word_ariths)
  moreover have "sz = toWordSize n * 32 \<or> (sz = 0 \<and> toWordSize n = 0)"
    using assms by (auto simp: SafeMul_def split: if_splits)
  ultimately show ?thesis using True by (auto simp: unat_toWordSize)
next
  case False
  then have t: "unat (toWordSize n) = 2 ^ 59" by (simp add: unat_toWordSize)
  then have "toWordSize n = 2 ^ 59" by (simp add: word_unat_eq_iff)
  with assms show ?thesis by (simp add: SafeMul_def MaxUint64_def)
qed

lemma bigUint64_Inr:
  assumes "0 \<le> n" "checked (bigUint64 n) = Inr x"
  shows "n < 2 ^ 64" "int (unat x) = n"
  using assms BitLen_gt_64 [of n] unat_Uint64 [of n] by (auto simp: bigUint64_def)

text \<open>The memory size the interpreter computes covers the request and is a whole number of words.\<close>

lemma requiredMemory_covers:
  assumes f: "memorySizeFn oper = Some f" "f st = Some n" "0 \<le> n" and r: "requiredMemory oper st = Some (Inr sz)"
  shows "n \<le> int (unat sz)" "32 dvd unat sz" "n = 0 \<Longrightarrow> sz = 0"
proof -
  obtain x where x: "checked (bigUint64 n) = Inr x" "checked (SafeMul (toWordSize x) 32) = Inr sz"
    using f r by (auto simp: requiredMemory_def ebind_Inr simp del: checked_Inr)
  have "unat sz = 32 * ((unat x + 31) div 32)" by (rule wordBytes [OF x(2)])
  moreover have "unat x = nat n" using bigUint64_Inr(2) [OF f(3) x(1)] by (metis nat_int)
  moreover have "m \<le> 32 * ((m + 31) div 32)" for m :: nat by arith
  ultimately have u: "unat sz = 32 * ((nat n + 31) div 32)" "nat n \<le> unat sz" by metis+
  then show "n \<le> int (unat sz)" "32 dvd unat sz" using f(3) by simp_all
  show "n = 0 \<Longrightarrow> sz = 0" using u(1) by (simp add: unat_eq_0)
qed

lemma memoryGasCost_store: "memoryGasCost m n = (r, m') \<Longrightarrow> memStore m' = memStore m"
  by (auto simp: memoryGasCost_def Let_def split: if_splits)

lemma memoryGasCost_bound: "memoryGasCost m n = (Inr g, m') \<Longrightarrow> unat n \<le> memMax"
proof -
  assume a: "memoryGasCost m n = (Inr g, m')"
  then have "\<not> 0xffffffffe0 < n" by (auto simp: memoryGasCost_def split: if_splits)
  then have "unat n \<le> unat (0xffffffffe0 :: u64)" by (simp add: word_less_nat_alt not_less)
  then show ?thesis by (simp add: memMax_def)
qed

lemma Resize_ok:
  assumes "memOk m" "32 dvd unat sz" "unat sz \<le> memMax"
  shows "memOk (Resize m sz)" "unat sz \<le> MemLen (Resize m sz)" "MemLen m \<le> MemLen (Resize m sz)"
proof -
  have l: "MemLen m < 2 ^ 64" using assms(1) by (simp add: memOk_def memMax_def)
  then have u: "unat (of_nat (MemLen m) :: u64) = MemLen m" by (simp add: unat_of_nat)
  have "MemLen (Resize m sz) = max (MemLen m) (unat sz)"
  proof (cases "of_nat (MemLen m) < sz")
    case True
    then have "unat (sz - of_nat (MemLen m)) = unat sz - MemLen m" by (simp add: unat_sub u)
    with True show ?thesis by (simp add: Resize_def MemLen_def [of "_\<lparr>memStore := _\<rparr>"] word_less_nat_alt u)
        (simp add: MemLen_def)
  next
    case False
    then show ?thesis by (simp add: Resize_def word_less_nat_alt u)
  qed
  with assms show "memOk (Resize m sz)" "unat sz \<le> MemLen (Resize m sz)" "MemLen m \<le> MemLen (Resize m sz)"
    by (auto simp: memOk_def max_def)
qed

lemma Int64_range: "0 \<le> x \<Longrightarrow> x \<le> int memMax \<Longrightarrow> Int64 x = x"
  by (rule Int64_small) (simp_all add: memMax_def)

lemma unat_Uint64_range: "0 \<le> x \<Longrightarrow> x \<le> int memMax \<Longrightarrow> unat (Uint64 x) = nat x"
  by (rule unat_Uint64) (simp_all add: memMax_def)

lemma MemGet_ok:
  assumes "memOk m" "0 \<le> off" "0 \<le> sz" "sz = 0 \<or> off + sz \<le> int (MemLen m)"
  shows "\<exists>d. MemGet m (Int64 off) (Int64 sz) = Some d \<and> length d = nat sz"
proof (cases "sz = 0")
  case True
  then show ?thesis by (simp add: MemGet_def Int64_def)
next
  case False
  then have le: "off + sz \<le> int (MemLen m)" "MemLen m \<le> memMax" using assms by (simp_all add: memOk_def)
  then have "Int64 off = off" "Int64 sz = sz" using assms by (simp_all add: Int64_range)
  moreover have "slice (memStore m) (nat off) (nat (off + sz)) = Some (take (nat sz) (drop (nat off) (memStore m)))"
    using le assms by (simp add: slice_def MemLen_def nat_add_distrib nat_le_iff)
  ultimately show ?thesis using False assms le by (simp add: MemGet_def)
qed

lemma GetPtr_ok:
  assumes "memOk m" "0 \<le> off" "0 \<le> sz" "sz = 0 \<or> off + sz \<le> int (MemLen m)"
  shows "\<exists>d. GetPtr m (Int64 off) (Int64 sz) = Some d \<and> length d = nat sz"
proof (cases "sz = 0")
  case True
  then show ?thesis by (simp add: GetPtr_def Int64_def)
next
  case False
  then have le: "off + sz \<le> int (MemLen m)" "MemLen m \<le> memMax" using assms by (simp_all add: memOk_def)
  then have "Int64 off = off" "Int64 sz = sz" using assms by (simp_all add: Int64_range)
  moreover have "slice (memStore m) (nat off) (nat (off + sz)) = Some (take (nat sz) (drop (nat off) (memStore m)))"
    using le assms by (simp add: slice_def MemLen_def nat_add_distrib nat_le_iff)
  ultimately show ?thesis using False assms le by (simp add: GetPtr_def MemLen_def)
qed

lemma MemSet_ok:
  assumes "memOk m" "0 \<le> off" "0 \<le> sz" "sz = 0 \<or> off + sz \<le> int (MemLen m)"
  shows "\<exists>m'. MemSet m (Uint64 off) (Uint64 sz) v = Some m' \<and> MemLen m' = MemLen m \<and> memOk m'"
proof (cases "sz = 0")
  case True
  then show ?thesis using assms(1) by (simp add: MemSet_def Uint64_def)
next
  case False
  then have le: "off + sz \<le> int (MemLen m)" "MemLen m \<le> memMax" using assms by (simp_all add: memOk_def)
  then have u: "unat (Uint64 off) = nat off" "unat (Uint64 sz) = nat sz" using assms by (simp_all add: unat_Uint64_range)
  have "nat off + nat sz < 2 ^ 64" using le assms(2,3) by (simp add: memMax_def)
  then have s: "unat (Uint64 off + Uint64 sz) = nat off + nat sz" by (simp add: unat_word_ariths u)
  have "MemLen m < 2 ^ 64" using le by (simp add: memMax_def)
  then have "\<not> of_nat (MemLen m) < Uint64 sz" "0 < Uint64 sz"
    using le False assms(2,3) by (simp_all add: word_less_nat_alt u unat_of_nat)
  moreover have "nat off + nat sz \<le> MemLen m" using le assms(2,3) by linarith
  ultimately show ?thesis using assms(1) by (simp add: MemSet_def s u slice_def MemLen_def memOk_def)
qed

lemma getDataBig_ok:
  assumes "length data < 2 ^ 63" "0 \<le> start" "0 \<le> sz" "sz < 2 ^ 63"
  shows "\<exists>d. getDataBig data start sz = Some d \<and> length d = nat sz"
proof -
  let ?s = "BigMin start (int (length data))"
  let ?e = "BigMin (?s + sz) (int (length data))"
  have r: "0 \<le> ?s" "?s \<le> ?e" "?e \<le> int (length data)" "?e - ?s \<le> sz"
    using assms by (auto simp: BigMin_def)
  then have u: "unat (Uint64 ?s) = nat ?s" "unat (Uint64 ?e) = nat ?e"
    using assms(1) by (auto intro!: unat_Uint64)
  have "sint (Uint64 sz) = sz"
    using assms(3,4) by (simp add: Uint64_def signed_of_int signed_take_bit_int_eq_self)
  moreover have "slice data (nat ?s) (nat ?e) = Some (take (nat ?e - nat ?s) (drop (nat ?s) data))"
    using r by (simp add: slice_def nat_le_iff nat_mono)
  ultimately have "getDataBig data start sz = Some (RightPadBytes (take (nat ?e - nat ?s) (drop (nat ?s) data)) sz)"
    unfolding getDataBig_def Let_def u by simp
  moreover have "nat ?e - nat ?s \<le> nat sz" using r by linarith
  then have "length (take (nat ?e - nat ?s) (drop (nat ?s) data)) \<le> nat sz" by (simp add: min.coboundedI2)
  then have "length (RightPadBytes (take (nat ?e - nat ?s) (drop (nat ?s) data)) sz) = nat sz"
    by (simp only: length_RightPadBytes max_absorb2)
  ultimately show ?thesis by blast
qed

lemma getData_ok:
  assumes "length data + unat sz < 2 ^ 64"
  shows "\<exists>d. getData data start sz = Some d \<and> length d \<le> max (length data) (unat sz) \<and>
    (unat sz < 2 ^ 63 \<longrightarrow> length d = unat sz)"
proof -
  let ?len = "of_nat (length data) :: u64"
  define st where "st = (if ?len < start then ?len else start)"
  define en where "en = (if ?len < st + sz then ?len else st + sz)"
  have l: "unat ?len = length data" using assms by (simp add: unat_of_nat)
  have s: "unat st \<le> length data" by (auto simp: st_def word_less_nat_alt l)
  then have e0: "unat (st + sz) = unat st + unat sz" using assms by (simp add: unat_word_ariths)
  have e: "unat en = min (length data) (unat st + unat sz)" by (auto simp: en_def word_less_nat_alt l e0)
  define w where "w = take (unat en - unat st) (drop (unat st) data)"
  have "slice data (unat st) (unat en) = Some w"
    unfolding slice_def w_def using s e by simp
  moreover have "getData data start sz = map_option (\<lambda>w. RightPadBytes w (sint sz)) (slice data (unat st) (unat en))"
    unfolding getData_def Let_def st_def en_def by (rule refl)
  ultimately have g: "getData data start sz = Some (RightPadBytes w (sint sz))" by simp
  have "unat en - unat st \<le> unat sz" unfolding e by linarith
  then have len: "length w \<le> length data" "length w \<le> unat sz" unfolding w_def by auto
  have "- 9223372036854775808 \<le> uint sz" using uint_ge_0 [of sz] by linarith
  then have "sint sz \<le> uint sz" by (simp add: sint_uint signed_take_bit_int_less_eq_self_iff)
  from nat_mono [OF this] have si: "nat (sint sz) \<le> unat sz" by simp
  have si': "nat (sint sz) = unat sz" if "unat sz < 2 ^ 63"
  proof -
    have "int (unat sz) < int (2 ^ 63)" using that by (simp only: of_nat_less_iff)
    then have "uint sz < 2 ^ 63" by simp
    moreover have "- (2 ^ 63) \<le> uint sz" by (rule order_trans [OF _ uint_ge_0]) simp
    ultimately have "signed_take_bit 63 (uint sz) = uint sz" by (intro signed_take_bit_int_eq_self) simp_all
    then have "sint sz = uint sz" by (simp add: sint_uint)
    then show ?thesis by simp
  qed
  have l: "length (RightPadBytes w (sint sz)) = max (length w) (nat (sint sz))" by (rule length_RightPadBytes)
  show ?thesis unfolding g
  proof (intro exI conjI impI)
    show "Some (RightPadBytes w (sint sz)) = Some (RightPadBytes w (sint sz))" ..
    show "length (RightPadBytes w (sint sz)) \<le> max (length data) (unat sz)" unfolding l using len si by linarith
    show "length (RightPadBytes w (sint sz)) = unat sz" if "unat sz < 2 ^ 63"
      unfolding l si' [OF that] using len by simp
  qed
qed

section \<open>The table of analysed codes\<close>

text \<open>Entries of the table come from codes with that hash.\<close>

definition tableOk :: "(bytes \<Rightarrow> hash) \<Rightarrow> destinations \<Rightarrow> bool" where
  "tableOk kc d \<longleftrightarrow> (\<forall>h bits. d h = Some bits \<longrightarrow> (\<exists>code. small code \<and> kc code = h \<and> codeBitmap code = Some bits))"

text \<open>Codes of different lengths do not collide. The table is keyed by hash only, so this is what keeps
  its bit vectors long enough for the code they are used for.\<close>

definition hashLengths :: "(bytes \<Rightarrow> hash) \<Rightarrow> bool" where
  "hashLengths kc \<longleftrightarrow> (\<forall>c d. small c \<longrightarrow> small d \<longrightarrow> kc c = kc d \<longrightarrow> length c = length d)"

lemma tableOk_empty [simp]: "tableOk kc Map.empty"
  by (simp add: tableOk_def)

lemma has_ok:
  assumes t: "tableOk kc d" and kc: "hashLengths kc" and c: "small code" "kc code = h" and dest: "0 \<le> dest"
  shows "\<exists>b d'. has d h code dest = Some (b, d') \<and> tableOk kc d' \<and> (b \<longrightarrow> nat dest < length code)"
proof (cases "63 \<le> BitLen dest \<or> of_nat (length code) \<le> Uint64 dest")
  case True
  then show ?thesis using t by (auto simp: has_def Let_def)
next
  case False
  have "\<not> 63 \<le> BitLen dest" using False by simp
  then have "dest < 2 ^ 62" using BitLen_le_iff [of dest 62] dest by simp
  then have u: "unat (Uint64 dest) = nat dest" using dest by (intro unat_Uint64) simp_all
  have "length code < 2 ^ 64" using c(1) by (simp add: small_def)
  then have lt: "nat dest < length code" using False u by (simp add: word_le_nat_alt unat_of_nat)
  obtain bits d' where b: "(case d h of Some m \<Rightarrow> Some (m, d)
      | None \<Rightarrow> map_option (\<lambda>m. (m, d(h \<mapsto> m))) (codeBitmap code)) = Some (bits, d')"
    and d': "tableOk kc d'" and len: "length bits = length code div 8 + 5"
  proof (cases "d h")
    case None
    obtain m where m: "codeBitmap code = Some m" "length m = length code div 8 + 5" using codeBitmap_ok by blast
    have "tableOk kc (d(h \<mapsto> m))" using t c m(1) by (auto simp: tableOk_def)
    with that [of m "d(h \<mapsto> m)"] None m show ?thesis by simp
  next
    case (Some m)
    then obtain code' where c': "small code'" "kc code' = h" "codeBitmap code' = Some m" using t by (auto simp: tableOk_def)
    then have "length code' = length code" using kc c unfolding hashLengths_def by metis
    moreover have "length m = length code' div 8 + 5" using codeBitmap_ok [of code'] c'(3) by auto
    ultimately show ?thesis using that [of m d] Some t by simp
  qed
  have "nat dest div 8 < length bits" using lt len by (simp add: div_less_iff_less_mult)
  then obtain cs where "codeSegment bits (nat dest) = Some cs" by (simp add: codeSegment_def index_def)
  then have "has d h code dest = Some (if code ! nat dest = JUMPDEST then cs else False, d')"
    using False lt by (simp add: has_def Let_def b u index_def)
  with d' lt show ?thesis by blast
qed

text \<open>With no collision on this code at all, the answer is exact.\<close>

definition validJumpdest :: "bytes \<Rightarrow> int \<Rightarrow> bool" where
  "validJumpdest code dest \<longleftrightarrow>
     dest < int (length code) \<and> code ! nat dest = JUMPDEST \<and> nat dest \<in> set (instrStarts code 0)"

lemma has_exact:
  assumes t: "tableOk kc d" and inj: "\<And>code'. small code' \<Longrightarrow> kc code' = h \<Longrightarrow> code' = code"
    and c: "small code" "kc code = h" and dest: "0 \<le> dest"
  shows "\<exists>d'. has d h code dest = Some (validJumpdest code dest, d') \<and> tableOk kc d'"
proof (cases "63 \<le> BitLen dest \<or> of_nat (length code) \<le> Uint64 dest")
  case True
  have "length code < 2 ^ 62" using c(1) by (simp add: small_def)
  have "\<not> dest < int (length code)"
  proof
    assume "dest < int (length code)"
    then have l: "dest < 2 ^ 62" using \<open>length code < 2 ^ 62\<close> by simp
    then have "\<not> 63 \<le> BitLen dest" using BitLen_le_iff [of dest 62] dest by simp
    moreover have "unat (Uint64 dest) = nat dest" using dest l by (intro unat_Uint64) simp_all
    then have "\<not> of_nat (length code) \<le> Uint64 dest"
      using \<open>dest < int (length code)\<close> \<open>length code < 2 ^ 62\<close> dest by (simp add: word_le_nat_alt unat_of_nat nat_less_iff)
    ultimately show False using True by simp
  qed
  then show ?thesis using t True by (simp add: has_def Let_def validJumpdest_def)
next
  case False
  have "\<not> 63 \<le> BitLen dest" using False by simp
  then have "dest < 2 ^ 62" using BitLen_le_iff [of dest 62] dest by simp
  then have u: "unat (Uint64 dest) = nat dest" using dest by (intro unat_Uint64) simp_all
  have "length code < 2 ^ 64" using c(1) by (simp add: small_def)
  then have lt: "nat dest < length code" using False u by (simp add: word_le_nat_alt unat_of_nat)
  obtain bits where m: "codeBitmap code = Some bits"
    "codeSegment bits (nat dest) = Some (nat dest \<in> set (instrStarts code 0))"
    using codeBitmap_ok [of code] lt by blast
  have hit: "d h = None \<or> d h = Some bits"
  proof (cases "d h")
    case (Some b')
    then obtain code' where "small code'" "kc code' = h" "codeBitmap code' = Some b'" using t by (auto simp: tableOk_def)
    with inj [of code'] m(1) Some show ?thesis by simp
  qed simp
  then obtain d' where d': "(case d h of Some m \<Rightarrow> Some (m, d)
      | None \<Rightarrow> map_option (\<lambda>m. (m, d(h \<mapsto> m))) (codeBitmap code)) = Some (bits, d')" "tableOk kc d'"
  proof
    assume "d h = None"
    moreover have "tableOk kc (d(h \<mapsto> bits))" using t c m(1) by (auto simp: tableOk_def)
    ultimately show ?thesis using that [of "d(h \<mapsto> bits)"] m(1) by simp
  next
    assume "d h = Some bits"
    then show ?thesis using that [of d] t by simp
  qed
  have "dest < int (length code)" using lt dest by linarith
  moreover have "has d h code dest = Some (if code ! nat dest = JUMPDEST then nat dest \<in> set (instrStarts code 0) else False, d')"
    using False lt m(2) by (simp add: has_def Let_def d'(1) u index_def)
  ultimately show ?thesis using d'(2) by (simp add: validJumpdest_def)
qed

end
