(* ===== verification/VMArith.thy ===== *)
theory VMArith
  imports VMFacts "HOL-Library.Signed_Division"
begin

text \<open>
  The arithmetic and logic instructions against 256-bit words. The code computes on unbounded
  integers and truncates; the references below are the operations of the word library, with division
  by zero giving zero.
\<close>

section \<open>References\<close>

definition binaryWord :: "(byte \<times> (hash \<Rightarrow> hash \<Rightarrow> hash)) list" where
  "binaryWord = [
     (ADD, \<lambda>x y. x + y),
     (MUL, \<lambda>x y. x * y),
     (SUB, \<lambda>x y. x - y),
     (DIV, \<lambda>x y. x div y),
     (SDIV, \<lambda>x y. of_int (sint x sdiv sint y)),
     (MOD, \<lambda>x y. if y = 0 then 0 else x mod y),
     (SMOD, \<lambda>x y. if y = 0 then 0 else of_int (sint x smod sint y)),
     (EXP, \<lambda>x y. x ^ unat y),
     (SIGNEXTEND, \<lambda>k x. if k < 31 then signed_take_bit (8 * unat k + 7) x else x),
     (LT, \<lambda>x y. if x < y then 1 else 0),
     (GT, \<lambda>x y. if y < x then 1 else 0),
     (SLT, \<lambda>x y. if word_sless x y then 1 else 0),
     (SGT, \<lambda>x y. if word_sless y x then 1 else 0),
     (EQ, \<lambda>x y. if x = y then 1 else 0),
     (AND, \<lambda>x y. and x y),
     (OR, \<lambda>x y. or x y),
     (XOR, \<lambda>x y. xor x y),
     (BYTE, \<lambda>i x. if i < 32 then and (drop_bit (8 * (31 - unat i)) x) 0xff else 0),
     (SHL, \<lambda>s x. push_bit (unat s) x),
     (SHR, \<lambda>s x. drop_bit (unat s) x)]"

definition unaryWord :: "(byte \<times> (hash \<Rightarrow> hash)) list" where
  "unaryWord = [(ISZERO, \<lambda>x. if x = 0 then 1 else 0), (NOT, \<lambda>x. not x)]"

text \<open>The sum and the product of the modular instructions are not truncated.\<close>

definition ternaryWord :: "(byte \<times> (hash \<Rightarrow> hash \<Rightarrow> hash \<Rightarrow> hash)) list" where
  "ternaryWord = [
     (ADDMOD, \<lambda>x y z. if z = 0 then 0 else of_int ((uint x + uint y) mod uint z)),
     (MULMOD, \<lambda>x y z. if z = 0 then 0 else of_int (uint x * uint y mod uint z))]"

section \<open>Binary instructions\<close>

text \<open>\<open>f\<close> is what the instruction computes on two words.\<close>

definition implements :: "executionFunc \<Rightarrow> (hash \<Rightarrow> hash \<Rightarrow> hash) \<Rightarrow> bool" where
  "implements ex f \<longleftrightarrow> (\<forall>cs m x y st. stack m = uint x # uint y # st \<longrightarrow>
     ex cs m = Some (m\<lparr>stack := uint (f x y) # st\<rparr>, [], None))"

lemma implementsI:
  "(\<And>cs m x y st. stack m = uint x # uint y # st \<Longrightarrow>
     ex cs m = Some (m\<lparr>stack := uint (f x y) # st\<rparr>, [], None)) \<Longrightarrow> implements ex f"
  by (simp add: implements_def)

lemma implementsD:
  "implements ex f \<Longrightarrow> ex cs (m\<lparr>stack := uint x # uint y # st\<rparr>) = Some (m\<lparr>stack := uint (f x y) # st\<rparr>, [], None)"
  by (simp add: implements_def)

lemmas exec_simps = pop_Cons push_def ok_def Let_def

lemma U256_uint [simp]: "U256 (uint (x :: hash)) = uint x"
  by (simp add: U256_id in256_uint)

lemma S256_uint [simp]: "S256 (uint (x :: hash)) = sint x"
  by (simp add: S256_sint in256_uint)

lemma ring_impl:
  "implements opAdd (\<lambda>x y. x + y)" "implements opMul (\<lambda>x y. x * y)" "implements opSub (\<lambda>x y. x - y)"
  by (rule implementsI; simp add: opAdd_def opMul_def opSub_def exec_simps
      uint_word_ariths U256_mod tt256_def)+

lemma U256_word: "U256 k = uint (of_int k :: hash)"
  by (rule uint_word_U256 [symmetric])

lemma uint_pos: "y \<noteq> 0 \<Longrightarrow> 0 < uint (y :: hash)"
  by (simp add: order_less_le uint_0_iff)

lemma of_int_uint_div: "(of_int (uint x div uint y) :: hash) = x div y" "(of_int (uint x mod uint y) :: hash) = x mod y"
  by (simp_all add: word_div_def word_mod_def)

lemma div_impl:
  "implements opDiv (\<lambda>x y. x div y)" "implements opMod (\<lambda>x y. if y = 0 then 0 else x mod y)"
  by (rule implementsI; simp add: opDiv_def opMod_def exec_simps DivE_def ModE_def uint_pos
      uint_0_iff U256_word of_int_uint_div)+

lemma exp_impl: "implements opExp (\<lambda>x y. x ^ unat y)"
  by (rule implementsI) (simp add: opExp_def exec_simps Exp_result U256_word)

lemma sdiv_eq: "y \<noteq> 0 \<Longrightarrow> x sdiv y = (if sgn x \<noteq> sgn y then - (\<bar>x\<bar> div \<bar>y\<bar>) else \<bar>x\<bar> div \<bar>y\<bar>)" for x y :: int
  by (auto simp: signed_divide_int_def sgn_if)

lemma smod_eq: "y \<noteq> 0 \<Longrightarrow> x smod y = (if x < 0 then - (\<bar>x\<bar> mod \<bar>y\<bar>) else \<bar>x\<bar> mod \<bar>y\<bar>)" for x y :: int
  by (auto simp: signed_modulo_int_def sgn_if signed_divide_int_def minus_div_mult_eq_mod [symmetric])

lemma sdiv_zero: "0 sdiv y = 0" "x sdiv 0 = 0" for x y :: int
  by (simp_all add: signed_divide_int_def)

lemma sdiv_impl: "implements opSdiv (\<lambda>x y. of_int (sint x sdiv sint y))"
proof (rule implementsI)
  fix cs and m :: machine and st and x y :: hash
  assume st: "stack m = uint x # uint y # st"
  have "(if sint y = 0 \<or> sint x = 0 then 0
      else if sgn (sint x) \<noteq> sgn (sint y) then U256 (- DivE \<bar>sint x\<bar> \<bar>sint y\<bar>) else U256 (DivE \<bar>sint x\<bar> \<bar>sint y\<bar>))
    = uint (of_int (sint x sdiv sint y) :: hash)"
    unfolding U256_word [symmetric]
    by (cases "sint y = 0"; cases "sint x = 0") (simp_all add: sdiv_eq DivE_def sdiv_zero U256_mod)
  then show "opSdiv cs m = Some (m\<lparr>stack := uint (of_int (sint x sdiv sint y) :: hash) # st\<rparr>, [], None)"
    by (simp only: opSdiv_def exec_simps st Option.bind.simps prod.case S256_uint)
qed

lemma smod_impl: "implements opSmod (\<lambda>x y. if y = 0 then 0 else of_int (sint x smod sint y))"
proof (rule implementsI)
  fix cs and m :: machine and st and x y :: hash
  assume st: "stack m = uint x # uint y # st"
  have "(if sint y = 0 then 0 else if sint x < 0 then U256 (- ModE \<bar>sint x\<bar> \<bar>sint y\<bar>) else U256 (ModE \<bar>sint x\<bar> \<bar>sint y\<bar>))
    = uint (if y = 0 then 0 else of_int (sint x smod sint y) :: hash)"
  proof (cases "y = 0")
    case False
    then have "sint y \<noteq> 0" using signed_eq_0_iff [of y] by simp
    then show ?thesis using False by (simp add: smod_eq ModE_def U256_word)
  qed simp
  then show "opSmod cs m = Some (m\<lparr>stack := uint (if y = 0 then 0 else of_int (sint x smod sint y) :: hash) # st\<rparr>, [], None)"
    by (simp only: opSmod_def exec_simps st Option.bind.simps prod.case S256_uint)
qed

lemma cmp_impl:
  "implements opLt (\<lambda>x y. if x < y then 1 else 0)" "implements opGt (\<lambda>x y. if y < x then 1 else 0)"
  "implements opEq (\<lambda>x y. if x = y then 1 else 0)"
  by (rule implementsI; simp add: opLt_def opGt_def opEq_def exec_simps word_less_def word_uint_eq_iff)+

lemma signed_compare:
  assumes "in256 x" "in256 y"
  shows "(if tt255 \<le> x \<and> y < tt255 then a else if x < tt255 \<and> tt255 \<le> y then b else if x < y then a else b)
    = (if S256 x < S256 y then a else b)"
    "(if tt255 \<le> x \<and> y < tt255 then b else if x < tt255 \<and> tt255 \<le> y then a else if y < x then a else b)
    = (if S256 y < S256 x then a else b)"
  using assms by (auto simp: in256_def S256_def)

lemma scmp_impl:
  "implements opSlt (\<lambda>x y. if word_sless x y then 1 else 0)" "implements opSgt (\<lambda>x y. if word_sless y x then 1 else 0)"
  by (rule implementsI; simp add: opSlt_def opSgt_def exec_simps signed_compare in256_uint word_sless_alt)+

lemma bit_impl:
  "implements opAnd (\<lambda>x y. and x y)" "implements opOr (\<lambda>x y. or x y)" "implements opXor (\<lambda>x y. xor x y)"
  by (rule implementsI; simp add: opAnd_def opOr_def opXor_def exec_simps
      unsigned_and_eq unsigned_or_eq unsigned_xor_eq)+

lemma unat_Uint64_word: "x < 256 \<Longrightarrow> unat (Uint64 (uint x)) = unat (x :: hash)"
proof -
  assume "x < 256"
  then have "uint x < 256" by (simp add: word_less_def)
  then show ?thesis by (subst unat_Uint64) simp_all
qed

lemma U256_push_bit: "U256 (push_bit n (uint (x :: hash))) = uint (push_bit n x)"
  by (simp only: U256_word push_bit_eq_mult of_int_mult word_of_int_uint of_int_power of_int_numeral)

lemma uint_drop_bit: "drop_bit n (uint (x :: hash)) = uint (drop_bit n x)"
proof -
  have "take_bit 256 (uint x) = uint x"
    using in256_uint [of x] by (intro take_bit_int_eq_self) (simp_all add: in256_def tt256_def)
  then show ?thesis by (simp add: unsigned_drop_bit_eq)
qed

lemma shift_beyond:
  assumes "\<not> s < (256 :: hash)"
  shows "push_bit (unat s) (x :: hash) = 0" "drop_bit (unat s) x = 0"
proof -
  have "256 \<le> unat s" using assms by (simp add: word_less_nat_alt)
  then show "push_bit (unat s) x = 0" "drop_bit (unat s) x = 0"
    by (auto simp: bit_eq_iff bit_simps dest: bit_imp_le_length)
qed

lemma uint_ge_256: "256 \<le> uint s \<longleftrightarrow> \<not> s < (256 :: hash)"
  by (auto simp: word_less_def)

lemma shift_impl:
  "implements opSHL (\<lambda>s x. push_bit (unat s) x)" "implements opSHR (\<lambda>s x. drop_bit (unat s) x)"
proof -
  have v: "(if 256 \<le> uint s then 0 else U256 (push_bit (unat (Uint64 (uint s))) (uint x))) = uint (push_bit (unat s) x)"
      "(if 256 \<le> uint s then 0 else U256 (drop_bit (unat (Uint64 (uint s))) (uint x))) = uint (drop_bit (unat s) x)"
    for s x :: hash
    by (cases "s < 256"; simp add: uint_ge_256 shift_beyond unat_Uint64_word U256_push_bit uint_drop_bit)+
  show "implements opSHL (\<lambda>s x. push_bit (unat s) x)" "implements opSHR (\<lambda>s x. drop_bit (unat s) x)"
    by (rule implementsI; simp only: opSHL_def opSHR_def exec_simps Option.bind.simps prod.case U256_uint v)+
qed

lemma byte_impl: "implements opByte (\<lambda>i x. if i < 32 then and (drop_bit (8 * (31 - unat i)) x) 0xff else 0)"
proof -
  have v: "(if uint i < 32 then uint (Byte (uint x) 32 (nat (Int64 (uint i)))) else 0)
      = uint (if i < 32 then and (drop_bit (8 * (31 - unat i)) x) 0xff else 0)" for i x :: hash
  proof (cases "i < 32")
    case True
    then have i: "uint i < 32" by (simp add: word_less_def)
    have i': "unat i < 32" using True by (simp add: word_less_nat_alt)
    have "nat (Int64 (uint i)) = unat i" using i by (simp add: Int64_small)
    then have "unat (Byte (uint x) 32 (nat (Int64 (uint i)))) = unat x div 256 ^ (31 - unat i) mod 256"
      using i' by (simp add: Byte_def bigEndianByteAt_eq)
    moreover have "and (drop_bit (8 * (31 - unat i)) x) 0xff = take_bit 8 (drop_bit (8 * (31 - unat i)) x)"
      by (simp add: take_bit_eq_mask mask_eq_exp_minus_1)
    then have "unat (and (drop_bit (8 * (31 - unat i)) x) 0xff) = unat x div 256 ^ (31 - unat i) mod 256"
      by (simp only: unsigned_take_bit_eq unat_drop_bit_eq)
        (simp add: take_bit_eq_mod drop_bit_eq_div power_mult)
    ultimately have "unat (Byte (uint x) 32 (nat (Int64 (uint i)))) = unat (and (drop_bit (8 * (31 - unat i)) x) 0xff)"
      by (rule trans [OF _ sym])
    then show ?thesis using True i by (simp only: uint_nat if_True)
  qed (simp add: word_less_def)
  show ?thesis by (rule implementsI) (simp only: opByte_def exec_simps Option.bind.simps prod.case v)
qed

lemma signextend_impl: "implements opSignExtend (\<lambda>k x. if k < 31 then signed_take_bit (8 * unat k + 7) x else x)"
proof (rule implementsI)
  fix cs and m :: machine and st and k x :: hash
  assume st: "stack m = uint k # uint x # st"
  show "opSignExtend cs m = Some (m\<lparr>stack := uint (if k < 31 then signed_take_bit (8 * unat k + 7) x else x) # st\<rparr>, [], None)"
  proof (cases "k < 31")
    case True
    then have k: "uint k < 31" by (simp add: word_less_def)
    have k': "unat k < 31" using True by (simp add: word_less_nat_alt)
    then have u: "unat (Uint64 (uint k)) = unat k" by (simp add: unat_Uint64_word word_less_nat_alt)
    define b where "b = 8 * unat k + 7"
    have b: "unat (Uint64 (uint k) * 8 + 7) = b" using k' by (simp add: unat_word_ariths u b_def)
    have "U256 (if bit (uint x) b then or (uint x) (not (push_bit b 1 - 1)) else and (uint x) (push_bit b 1 - 1))
        = uint (if bit x b then or x (not (mask b)) else and x (mask b))"
      using k' by (simp add: b_def U256_word of_int_or_eq of_int_and_eq of_int_not_eq mask_eq_exp_minus_1 bit_uint_iff)
    also have "(if bit x b then or x (not (mask b)) else and x (mask b)) = signed_take_bit b x"
      by (rule bit_eqI) (auto simp: bit_simps signed_take_bit_def)
    finally show ?thesis using True k
      by (simp only: opSignExtend_def exec_simps st b b_def [symmetric] Option.bind.simps prod.case if_True)
  next
    case False
    then have "\<not> uint k < 31" by (simp add: word_less_def)
    then show ?thesis using False st by (simp add: opSignExtend_def exec_simps)
  qed
qed

text \<open>The arithmetic right shift agrees with its reference except on one input.\<close>

definition sarWord :: "hash \<Rightarrow> hash \<Rightarrow> hash" where
  "sarWord s x = (if x = 0 \<and> 256 \<le> s then - 1 else signed_drop_bit (unat s) x)"

lemma sar_impl: "implements opSAR sarWord"
proof (rule implementsI)
  fix cs and m :: machine and st and s x :: hash
  assume st: "stack m = uint s # uint x # st"
  have v: "(if 256 \<le> uint s then U256 (if 0 < sint x then 0 else - 1) else U256 (drop_bit (unat (Uint64 (uint s))) (sint x)))
    = uint (sarWord s x)"
  proof (cases "s < 256")
    case True
    have "of_int (drop_bit (unat s) (sint x)) = (of_int (sint (signed_drop_bit (unat s) x)) :: hash)"
      by (simp add: sint_signed_drop_bit_eq)
    with True show ?thesis by (simp add: uint_ge_256 unat_Uint64_word U256_word sarWord_def not_le [symmetric])
  next
    case False
    then have s: "256 \<le> unat s" by (simp add: word_less_nat_alt)
    have "bit x 255 \<longleftrightarrow> sint x < 0" using bit_last_iff [of x] by simp
    moreover have "sint x = 0 \<longleftrightarrow> x = 0" by (rule signed_eq_0_iff)
    ultimately show ?thesis using False s
      by (auto simp: uint_ge_256 sarWord_def signed_drop_bit_beyond U256_word)
  qed
  show "opSAR cs m = Some (m\<lparr>stack := uint (sarWord s x) # st\<rparr>, [], None)"
    by (simp only: opSAR_def exec_simps Option.bind.simps prod.case st U256_uint S256_uint v)
qed

lemmas binary_impl = ring_impl div_impl sdiv_impl smod_impl exp_impl signextend_impl cmp_impl scmp_impl
  bit_impl byte_impl shift_impl

lemma lookupOp_Cons: "lookupOp ((k, oper) # t) b = (if b = k then oper else lookupOp t b)"
  by (simp add: lookupOp_def)

lemma lookup_binary:
  "map (\<lambda>p. execute (lookupOp NewConstantinopleInstructionSet (fst p))) binaryWord =
     [opAdd, opMul, opSub, opDiv, opSdiv, opMod, opSmod, opExp, opSignExtend, opLt, opGt, opSlt, opSgt, opEq,
      opAnd, opOr, opXor, opByte, opSHL, opSHR]"
  by (simp add: binaryWord_def lookupOp_Cons opcodes mkOp_def
      NewConstantinopleInstructionSet_def NewByzantiumInstructionSet_def NewHomesteadInstructionSet_def
      NewFrontierInstructionSet_def frontierArithmetic_def frontierLogic_def)

lemma binary_ops:
  "list_all (\<lambda>(b, f). implements (execute (lookupOp NewConstantinopleInstructionSet b)) f) binaryWord"
proof -
  have "list_all2 implements (map (\<lambda>p. execute (lookupOp NewConstantinopleInstructionSet (fst p))) binaryWord) (map snd binaryWord)"
    unfolding lookup_binary by (simp add: binaryWord_def binary_impl)
  then show ?thesis
    by (simp add: list_all2_map1 list_all2_map2 list_all2_same list_all_iff split_beta)
qed

section \<open>Unary and ternary instructions\<close>

lemma unary_impl:
  "opIszero cs (m\<lparr>stack := uint x # st\<rparr>) = Some (m\<lparr>stack := uint (if x = 0 then 1 else 0 :: hash) # st\<rparr>, [], None)"
  "opNot cs (m\<lparr>stack := uint x # st\<rparr>) = Some (m\<lparr>stack := uint (not x) # st\<rparr>, [], None)" for x :: hash
proof -
  have "0 < uint x \<longleftrightarrow> x \<noteq> 0" using uint_pos [of x] by auto
  then show "opIszero cs (m\<lparr>stack := uint x # st\<rparr>) = Some (m\<lparr>stack := uint (if x = 0 then 1 else 0 :: hash) # st\<rparr>, [], None)"
    by (simp add: opIszero_def exec_simps)
  show "opNot cs (m\<lparr>stack := uint x # st\<rparr>) = Some (m\<lparr>stack := uint (not x) # st\<rparr>, [], None)"
    by (simp add: opNot_def exec_simps U256_word of_int_not_eq)
qed

lemma ternary_impl:
  "opAddmod cs (m\<lparr>stack := uint x # uint y # uint z # st\<rparr>) =
     Some (m\<lparr>stack := uint (if z = 0 then 0 else of_int ((uint x + uint y) mod uint z) :: hash) # st\<rparr>, [], None)"
  "opMulmod cs (m\<lparr>stack := uint x # uint y # uint z # st\<rparr>) =
     Some (m\<lparr>stack := uint (if z = 0 then 0 else of_int (uint x * uint y mod uint z) :: hash) # st\<rparr>, [], None)" for x y z :: hash
  using uint_pos [of z]
  by (simp_all add: opAddmod_def opMulmod_def exec_simps ModE_def U256_word)

lemma lookup_others:
  "execute (lookupOp NewConstantinopleInstructionSet ISZERO) = opIszero"
  "execute (lookupOp NewConstantinopleInstructionSet NOT) = opNot"
  "execute (lookupOp NewConstantinopleInstructionSet ADDMOD) = opAddmod"
  "execute (lookupOp NewConstantinopleInstructionSet MULMOD) = opMulmod"
  by (simp_all add: lookupOp_Cons opcodes mkOp_def
      NewConstantinopleInstructionSet_def NewByzantiumInstructionSet_def NewHomesteadInstructionSet_def
      NewFrontierInstructionSet_def frontierArithmetic_def frontierLogic_def)

section \<open>Properties\<close>

text \<open>C21. Every arithmetic, comparison and bitwise instruction of the table (all but SAR) replaces its
  operands by the result of the corresponding operation on 256-bit words, changes nothing else and
  does not fail: the big-integer code computes exactly modulo \<open>2^256\<close>, signed or unsigned as the
  instruction demands.\<close>

theorem word_arithmetic:
  "list_all (\<lambda>(b, f). \<forall>cs m x y st. execute (lookupOp NewConstantinopleInstructionSet b) cs (m\<lparr>stack := uint x # uint y # st\<rparr>)
       = Some (m\<lparr>stack := uint (f x y) # st\<rparr>, [], None)) binaryWord \<and>
   list_all (\<lambda>(b, f). \<forall>cs m x st. execute (lookupOp NewConstantinopleInstructionSet b) cs (m\<lparr>stack := uint x # st\<rparr>)
       = Some (m\<lparr>stack := uint (f x) # st\<rparr>, [], None)) unaryWord \<and>
   list_all (\<lambda>(b, f). \<forall>cs m x y z st. execute (lookupOp NewConstantinopleInstructionSet b) cs (m\<lparr>stack := uint x # uint y # uint z # st\<rparr>)
       = Some (m\<lparr>stack := uint (f x y z) # st\<rparr>, [], None)) ternaryWord"
proof (intro conjI)
  show "list_all (\<lambda>(b, f). \<forall>cs m x y st. execute (lookupOp NewConstantinopleInstructionSet b) cs (m\<lparr>stack := uint x # uint y # st\<rparr>)
       = Some (m\<lparr>stack := uint (f x y) # st\<rparr>, [], None)) binaryWord"
    using binary_ops by (rule list.pred_mono_strong) (auto simp: implementsD)
qed (simp_all add: unaryWord_def ternaryWord_def lookup_others unary_impl ternary_impl)

text \<open>C33. SAR is the arithmetic right shift of 256-bit words, except that shifting zero by 256 or more
  gives \<open>2^256 - 1\<close>: the code tests for a positive value where it should test for a non-negative one.\<close>

theorem sar_arithmetic:
  fixes s x :: hash
  shows "opSAR cs (m\<lparr>stack := uint s # uint x # st\<rparr>) =
     Some (m\<lparr>stack := uint (if x = 0 \<and> 256 \<le> s then - 1 else signed_drop_bit (unat s) x) # st\<rparr>, [], None)"
  by (rule implementsD [OF sar_impl, unfolded sarWord_def])

end
