(* ===== verification/VMProps.thy ===== *)
theory VMProps
  imports VMFacts
begin

text \<open>
  Memory and jumps: the fee for growing memory is the increase of a fixed function of its size, a
  stored word is read back, and the jump destination analysis decides exactly which positions of a code
  are instructions.
\<close>

section \<open>Memory fee\<close>

text \<open>The fee for a memory of \<open>w\<close> words, and the state of a memory that has paid for its size.\<close>

definition memFee :: "nat \<Rightarrow> nat" where
  "memFee w = 3 * w + w * w div 512"

definition feeInv :: "Memory \<Rightarrow> bool" where
  "feeInv m \<longleftrightarrow> memOk m \<and> unat (lastGasCost m) = memFee (MemLen m div 32)"

lemma memFee_mono: "v \<le> w \<Longrightarrow> memFee v \<le> memFee w"
  by (simp add: memFee_def add_mono div_le_mono mult_le_mono)

lemma totalFee_unat:
  assumes "w < 2 ^ 32"
  shows "unat (of_nat w * MemoryGas + of_nat w * of_nat w div QuadCoeffDiv :: u64) = memFee w"
proof -
  have "w * w < 2 ^ 32 * 2 ^ 32" using assms by (intro mult_strict_mono) simp_all
  then have sq: "w * w < 18446744073709551616" by simp
  then have "w * w div 512 < 18446744073709551616 div 512 + 1" by (simp add: less_Suc_eq_le div_le_mono)
  then have "3 * w + w * w div 512 < 18446744073709551616" using assms by simp
  then show ?thesis using assms sq
    by (simp add: memFee_def params gas_simps unat_of_nat mult.commute)
qed

lemma memory_fee_step:
  assumes inv: "feeInv m" and sz: "32 dvd unat sz" "unat sz \<le> 137438953440"
  shows "\<exists>g m'. memoryGasCost m sz = (Inr g, m') \<and>
    unat g = memFee (max (MemLen m) (unat sz) div 32) - memFee (MemLen m div 32) \<and>
    feeInv (if 0 < sz then Resize m' sz else m')"
proof -
  obtain w where w: "unat sz = 32 * w" using sz(1) by (rule dvdE)
  then have w32: "w < 2 ^ 32" using sz(2) by simp
  have le: "\<not> 0xffffffffe0 < sz" using sz(2) by (simp add: word_less_nat_alt)
  have ws: "toWordSize sz = of_nat w"
    using w w32 by (simp add: word_unat_eq_iff unat_toWordSize unat_of_nat)
  have ml: "unat (of_nat (MemLen m) :: u64) = MemLen m" using inv by (simp add: feeInv_def memOk_def memMax_def unat_of_nat)
  have big: "of_nat w * 32 = sz" using w w32 by (simp add: word_unat_eq_iff unat_word_ariths unat_of_nat)
  show ?thesis
  proof (cases "of_nat (MemLen m) < sz")
    case True
    then have lt: "MemLen m < unat sz" by (simp add: word_less_nat_alt ml)
    then have nz: "sz \<noteq> 0" "0 < sz" by (auto simp: word_less_nat_alt)
    define total where "total = of_nat w * MemoryGas + of_nat w * of_nat w div QuadCoeffDiv"
    define m' where "m' = m\<lparr>lastGasCost := total\<rparr>"
    have t: "unat total = memFee w" unfolding total_def by (rule totalFee_unat [OF w32])
    have "MemLen m div 32 \<le> w" using lt w by simp
    then have "unat (lastGasCost m) \<le> unat total" using inv t by (simp add: feeInv_def memFee_mono)
    then have "unat (total - lastGasCost m) = memFee w - memFee (MemLen m div 32)"
      using inv t by (simp add: feeInv_def u64_sub_unat)
    moreover have "memoryGasCost m sz = (Inr (total - lastGasCost m), m')"
      using nz le True by (simp add: memoryGasCost_def Let_def ws big total_def m'_def)
    moreover have "memOk m'" using inv by (simp add: feeInv_def memOk_def m'_def MemLen_def)
    then have "memOk (Resize m' sz)" using sz by (intro Resize_ok) (simp_all add: memMax_def)
    moreover have "MemLen (Resize m' sz) = unat sz" "lastGasCost (Resize m' sz) = total"
      using True by (simp_all add: Resize_def m'_def MemLen_def unat_sub) (simp_all add: MemLen_def [symmetric] ml lt less_imp_le)
    ultimately show ?thesis using nz lt w t by (simp add: feeInv_def max_def)
  next
    case False
    then have ge: "unat sz \<le> MemLen m" by (simp add: word_less_nat_alt ml)
    then have "memoryGasCost m sz = (Inr 0, m)" using le False by (simp add: memoryGasCost_def Let_def ws big)
    moreover have "(if 0 < sz then Resize m sz else m) = m" using False by (simp add: Resize_def)
    ultimately show ?thesis using ge inv by (auto simp: max_def)
  qed
qed

lemma wrapped_square:
  fixes w :: nat
  shows "w * w div 512 = (w * w mod 2 ^ 64) div 512 + 2 ^ 55 * (w * w div 2 ^ 64)"
proof -
  have "w * w = 512 * (2 ^ 55 * (w * w div 2 ^ 64)) + w * w mod 2 ^ 64" using mult_div_mod_eq [of "2 ^ 64" "w * w"] by simp
  then show ?thesis by (metis add.commute div_mult_self2 zero_neq_numeral)
qed

lemma totalFee_wrapped:
  assumes "w \<le> 0x7FFFFFFFF"
  shows "unat ((of_nat w :: u64) * MemoryGas + of_nat w * of_nat w div QuadCoeffDiv) = 3 * w + (w * w mod 2 ^ 64) div 512"
proof -
  have w: "unat (of_nat w :: u64) = w" using assms by (simp add: unat_of_nat)
  have "unat ((of_nat w :: u64) * of_nat w) = w * w mod 2 ^ 64" by (simp add: unat_word_ariths w)
  then have q: "unat ((of_nat w :: u64) * of_nat w div QuadCoeffDiv) = (w * w mod 2 ^ 64) div 512" by (simp add: unat_div params)
  have l: "unat ((of_nat w :: u64) * MemoryGas) = 3 * w" using assms w by (simp add: unat_word_ariths params)
  have "(w * w mod 2 ^ 64) div 512 < 2 ^ 55" by (simp add: less_mult_imp_div_less)
  then have "3 * w + (w * w mod 2 ^ 64) div 512 < 2 ^ 64" using assms by simp
  then show ?thesis by (subst unat_word_ariths) (simp only: q l, simp)
qed

section \<open>Words in memory\<close>

lemma word_bytes:
  fixes v :: hash
  shows "length (PaddedBigBytes (uint v) 32) = 32" "SetBytes (PaddedBigBytes (uint v) 32) = uint v"
proof -
  have v: "uint v < 256 ^ 32" using in256_uint [of v] by (simp add: in256_def tt256_def)
  then have e: "PaddedBigBytes (uint v) 32 = LeftPadBytes (Bytes (uint v)) 32"
    using PaddedBigBytes_eq [of "uint v" 32] by simp
  have "unat v < 256 ^ 32" using unsigned_less [of v, where 'a = nat] by simp
  then have "length (Bytes (uint v)) \<le> 32" unfolding Bytes_def by (simp add: nat_be_length_le)
  then show "length (PaddedBigBytes (uint v) 32) = 32" by (simp add: e length_LeftPadBytes)
  show "SetBytes (PaddedBigBytes (uint v) 32) = uint v"
    by (simp add: e SetBytes_def Bytes_def)
qed

lemma take_drop_copy_at:
  "off + length src \<le> length dst \<Longrightarrow> take (length src) (drop off (copy_at dst off src)) = src"
  by (simp add: copy_at_def)

lemma MemSet_eq:
  assumes "memOk m" "0 \<le> off" "off + int (length v) \<le> int (MemLen m)"
  shows "MemSet m (Uint64 off) (of_nat (length v)) v =
    Some (m\<lparr>memStore := copy_at (memStore m) (nat off) v\<rparr>)"
proof -
  have le: "MemLen m \<le> memMax" using assms(1) by (simp add: memOk_def)
  then have u: "unat (Uint64 off) = nat off" using assms by (simp add: unat_Uint64_range)
  have l: "length v < 2 ^ 64" using assms le by (simp add: memMax_def)
  then have ul: "unat (of_nat (length v) :: u64) = length v" by (simp add: unat_of_nat)
  have "nat off + length v < 2 ^ 64" using le assms by (simp add: memMax_def)
  then have s: "unat (Uint64 off + of_nat (length v)) = nat off + length v" by (simp add: unat_word_ariths u ul)
  have "unat (of_nat (MemLen m) :: u64) = MemLen m" using le by (simp add: memMax_def unat_of_nat)
  moreover have "nat off + length v \<le> MemLen m" "length v \<le> MemLen m" using assms(2,3) by linarith+
  ultimately show ?thesis
    by (auto simp: MemSet_def word_less_nat_alt s u ul slice_def MemLen_def)
qed

lemma MemGet_eq:
  assumes "memOk m" "0 \<le> off" "off + int n \<le> int (MemLen m)" "0 < n"
  shows "MemGet m (Int64 off) (int n) = Some (take n (drop (nat off) (memStore m)))"
proof -
  have "MemLen m \<le> memMax" using assms(1) by (simp add: memOk_def)
  then have "Int64 off = off" using assms by (simp add: Int64_range)
  moreover have "nat off + n \<le> MemLen m" using assms by linarith
  moreover have "nat (off + int n) = nat off + n" using assms by (simp add: nat_add_distrib)
  ultimately show ?thesis using assms
    by (simp add: MemGet_def slice_def MemLen_def copy_at_def)
qed

section \<open>Properties\<close>

text \<open>C24. As long as no more than \<open>2^32 - 1\<close> words are asked for, growing the memory costs exactly the
  difference of the fees \<open>3 w + w^2 / 512\<close> of the new and the old size, never a wrapped value, and the
  memory has then paid for its new size.\<close>

theorem memory_fee:
  assumes "feeInv m" "32 dvd unat sz" "unat sz \<le> 0x1FFFFFFFE0"
  shows "\<exists>g m'. memoryGasCost m sz = (Inr g, m') \<and>
    unat g = memFee (max (MemLen m) (unat sz) div 32) - memFee (MemLen m div 32) \<and>
    feeInv (if 0 < sz then Resize m' sz else m')"
  using assms by (intro memory_fee_step) simp_all

theorem memory_fee_witness:
  "feeInv NewMemory \<and> (\<exists>g m'. memoryGasCost NewMemory 1024 = (Inr g, m') \<and> unat g = 98 \<and>
     feeInv (Resize m' 1024))"
proof -
  have i: "feeInv NewMemory" by (simp add: feeInv_def memOk_def NewMemory_def MemLen_def memFee_def)
  have "32 dvd unat (1024 :: u64)" "unat (1024 :: u64) \<le> 0x1FFFFFFFE0" by simp_all
  from memory_fee [OF i this] show ?thesis using i
    by (simp add: MemLen_def NewMemory_def memFee_def)
qed

text \<open>C31. What \<open>memoryGasCost\<close> charges over the whole range that its guard admits, up to \<open>0x7FFFFFFFF\<close> words: for a
  memory that is smaller, the charge is the difference to the total charged before, and the new total falls short of
  the fee \<open>3 w + w^2 / 512\<close> by \<open>2^55\<close> for every time that the square of the word count wraps at 64 bits. So the fee
  is right below \<open>2^32\<close> words and too small from \<open>2^32\<close> words on, although the comment says that the guard keeps the
  calculation from overflowing.\<close>

theorem memory_fee_wraps:
  assumes "0 < w" "w \<le> 0x7FFFFFFFF" "MemLen m < 32 * w"
  shows "\<exists>m'. memoryGasCost m (of_nat (32 * w)) = (Inr (lastGasCost m' - lastGasCost m), m') \<and>
    unat (lastGasCost m') + 2 ^ 55 * (w * w div 2 ^ 64) = memFee w \<and> (unat (lastGasCost m') < memFee w \<longleftrightarrow> 2 ^ 32 \<le> w)"
proof -
  let ?sz = "of_nat (32 * w) :: u64"
  define total where "total = of_nat w * MemoryGas + of_nat w * of_nat w div QuadCoeffDiv"
  have sz: "unat ?sz = 32 * w" "unat (of_nat (MemLen m) :: u64) = MemLen m"
    using assms by (simp_all add: unat_of_nat del: of_nat_mult)
  have ws: "toWordSize ?sz = of_nat w" using sz assms(2) by (simp add: word_unat_eq_iff unat_toWordSize unat_of_nat)
  have "?sz \<noteq> 0" "\<not> 0xffffffffe0 < ?sz" "of_nat (MemLen m) < of_nat w * (32 :: u64)" "of_nat w * (32 :: u64) = ?sz"
    using assms sz by (auto simp: word_less_nat_alt mult.commute)
  then have g: "memoryGasCost m ?sz = (Inr (total - lastGasCost m), m\<lparr>lastGasCost := total\<rparr>)"
    by (simp add: memoryGasCost_def Let_def ws total_def del: of_nat_mult)
  have t: "unat total + 2 ^ 55 * (w * w div 2 ^ 64) = memFee w"
    unfolding total_def totalFee_wrapped [OF assms(2)] memFee_def wrapped_square [of w] by simp
  have "0 < w * w div 2 ^ 64 \<longleftrightarrow> 2 ^ 64 \<le> w * w" by (simp add: div_greater_zero_iff)
  moreover have "(2 :: nat) ^ 64 \<le> w * w \<longleftrightarrow> 2 ^ 32 \<le> w" using power_mono_iff [of "2 ^ 32" w 2] by (simp add: power2_eq_square)
  ultimately show ?thesis using g t by (intro exI [of _ "m\<lparr>lastGasCost := total\<rparr>"]) auto
qed

theorem memory_fee_wraps_witness:
  "\<exists>m'. memoryGasCost NewMemory 0x2000000000 = (Inr (lastGasCost m'), m') \<and> unat (lastGasCost m') + 2 ^ 55 = memFee (2 ^ 32)"
  using memory_fee_wraps [of "2 ^ 32" NewMemory] by (auto simp: NewMemory_def MemLen_def)

text \<open>C25. A word stored by MSTORE inside the memory is what MLOAD reads back at the same offset, and no
  other byte of the memory changes.\<close>

theorem mstore_mload:
  fixes v :: hash
  assumes "memOk mm" "0 \<le> off" "off + 32 \<le> int (MemLen mm)"
  shows "\<exists>mm'. opMstore cs (m\<lparr>mem := mm, stack := off # uint v # st\<rparr>) = Some (m\<lparr>mem := mm', stack := st\<rparr>, [], None) \<and>
    opMload cs (m\<lparr>mem := mm', stack := off # st\<rparr>) = Some (m\<lparr>mem := mm', stack := uint v # st\<rparr>, [], None) \<and>
    MemLen mm' = MemLen mm \<and>
    (\<forall>i < MemLen mm. int i < off \<or> off + 32 \<le> int i \<longrightarrow> memStore mm' ! i = memStore mm ! i)"
proof -
  let ?b = "PaddedBigBytes (uint v) 32"
  define mm' where "mm' = mm\<lparr>memStore := copy_at (memStore mm) (nat off) ?b\<rparr>"
  have s: "MemSet mm (Uint64 off) 32 ?b = Some mm'"
    using MemSet_eq [of mm off ?b] assms by (simp add: word_bytes mm'_def)
  have fit: "nat off + 32 \<le> length (memStore mm)" using assms by (simp add: MemLen_def)
  then have ml: "MemLen mm' = MemLen mm" by (simp add: mm'_def MemLen_def)
  then have "memOk mm'" using assms(1) by (simp add: memOk_def)
  then have "MemGet mm' (Int64 off) 32 = Some (take 32 (drop (nat off) (memStore mm')))"
    using MemGet_eq [of mm' off 32] assms ml by simp
  also have "take 32 (drop (nat off) (memStore mm')) = ?b"
    using take_drop_copy_at [of "nat off" ?b "memStore mm"] fit by (simp add: mm'_def word_bytes)
  finally have g: "MemGet mm' (Int64 off) 32 = Some ?b" .
  have "\<forall>i < MemLen mm. int i < off \<or> off + 32 \<le> int i \<longrightarrow> memStore mm' ! i = memStore mm ! i"
    using fit assms(2) by (auto simp: mm'_def MemLen_def nth_copy_at word_bytes)
  with s g ml show ?thesis
    by (intro exI [of _ mm']) (simp add: opMstore_def opMload_def pop_Cons push_def ok_def word_bytes)
qed

theorem mstore_mload_witness:
  "\<forall>cs m. \<exists>mm'. opMstore cs (m\<lparr>mem := NewMemory\<lparr>memStore := replicate 64 0\<rparr>, stack := [17, uint (42 :: hash)]\<rparr>)
      = Some (m\<lparr>mem := mm', stack := []\<rparr>, [], None) \<and>
    opMload cs (m\<lparr>mem := mm', stack := [17]\<rparr>) = Some (m\<lparr>mem := mm', stack := [uint (42 :: hash)]\<rparr>, [], None)"
proof (intro allI)
  fix cs and m :: machine
  let ?mm = "NewMemory\<lparr>memStore := replicate 64 0\<rparr>"
  have "memOk ?mm" "0 \<le> (17 :: int)" "17 + 32 \<le> int (MemLen ?mm)" by (simp_all add: memOk_def MemLen_def memMax_def)
  from mstore_mload [OF this, where cs = cs and m = m and v = 42 and st = "[]"]
  show "\<exists>mm'. opMstore cs (m\<lparr>mem := ?mm, stack := [17, uint (42 :: hash)]\<rparr>) = Some (m\<lparr>mem := mm', stack := []\<rparr>, [], None) \<and>
    opMload cs (m\<lparr>mem := mm', stack := [17]\<rparr>) = Some (m\<lparr>mem := mm', stack := [uint (42 :: hash)]\<rparr>, [], None)"
    by blast
qed

text \<open>C22. The bit vector of \<open>codeBitmap\<close> never leaves its bounds, whatever the code, and a position is a
  code segment exactly when an instruction starts there, counting from the beginning of the code and
  skipping the immediate data of every PUSH.\<close>

theorem jumpdest_analysis:
  "\<exists>bits. codeBitmap code = Some bits \<and>
     (\<forall>p < length code. codeSegment bits p = Some (p \<in> set (instrStarts code 0)))"
  using codeBitmap_ok [of code] by blast

theorem jumpdest_analysis_witness:
  "\<exists>bits. codeBitmap [0x61, 0x5b, 0x5b, 0x5b] = Some bits \<and> codeSegment bits 2 = Some False \<and>
     codeSegment bits 3 = Some True"
proof -
  have "instrStarts [0x61, 0x5b, 0x5b, 0x5b] 0 = [0, 3]"
    by (simp add: instrStarts.simps nextInstr_def isPush_def pushBytes_def PUSH1_def PUSH32_def)
  then show ?thesis using jumpdest_analysis [of "[0x61, 0x5b, 0x5b, 0x5b]"] by fastforce
qed

text \<open>C23. When the hash of the code is not shared by another code, \<open>has\<close> accepts a destination, given as
  an arbitrary non-negative integer, exactly when a JUMPDEST instruction starts there; it never fails,
  and it leaves the table of analysed codes consistent.\<close>

theorem has_decides:
  assumes "tableOk kc d" "\<forall>code'. small code' \<and> kc code' = h \<longrightarrow> code' = code"
    and "small code" "kc code = h" "0 \<le> dest"
  shows "\<exists>d'. has d h code dest = Some (validJumpdest code dest, d') \<and> tableOk kc d'"
  using assms by (intro has_exact) blast+

theorem has_decides_witness:
  "\<exists>d'. has Map.empty 1 [0x61, 0x5b, 0x5b, 0x5b] 3 = Some (True, d') \<and>
     tableOk (\<lambda>c. if c = [0x61, 0x5b, 0x5b, 0x5b] then 1 else 0) d'"
proof -
  let ?code = "[0x61, 0x5b, 0x5b, 0x5b] :: bytes"
  let ?kc = "\<lambda>c. if c = ?code then 1 else 0 :: hash"
  have "instrStarts ?code 0 = [0, 3]"
    by (simp add: instrStarts.simps nextInstr_def isPush_def pushBytes_def PUSH1_def PUSH32_def)
  then have v: "validJumpdest ?code 3 = True" by (simp add: validJumpdest_def JUMPDEST_def)
  have "tableOk ?kc Map.empty" "\<forall>code'. small code' \<and> ?kc code' = 1 \<longrightarrow> code' = ?code" "small ?code" "?kc ?code = 1"
    by (simp_all add: small_def)
  from has_decides [OF this, of 3, unfolded v] show ?thesis by simp
qed

end
