(* ===== verification/PrecompileFacts.thy ===== *)
theory PrecompileFacts
  imports VMFacts
begin

text \<open>
  The precompiled contracts never panic: on every input the machine can pass them their cost is defined,
  and when the cost can be paid at all (it is at most \<open>2^60\<close>) the contract returns, with a result of a
  bounded size. For the modular exponentiation this is the cost function bounding the three lengths of
  the input before any of them is used to allocate or slice.
\<close>

text \<open>The documented result sizes of the functions outside the model.\<close>

definition cryptoOk :: "crypto \<Rightarrow> bool" where
  "cryptoOk cr \<longleftrightarrow>
     (\<forall>b. length (sha256Sum cr b) = 32) \<and>
     (\<forall>b. length (ripemd160Sum cr b) = 20) \<and>
     (\<forall>h s pk. Ecrecover cr h s = Some pk \<longrightarrow> length pk = 65) \<and>
     (\<forall>p q. length (addG1 cr p q) = 64) \<and>
     (\<forall>p k. length (mulG1 cr p k) = 64)"

text \<open>A contract whose cost is defined and which returns when it can be paid.\<close>

definition precompileOk :: "PrecompiledContract \<Rightarrow> bool" where
  "precompileOk p \<longleftrightarrow>
     (\<forall>input. small input \<longrightarrow> (\<exists>g. RequiredGas p input = Some g \<and>
        (unat g \<le> 2 ^ 60 \<longrightarrow> (\<exists>ret err. PRun p input = Some (ret, err) \<and> small ret))))"

lemma precompileOkI:
  "(\<And>input. small input \<Longrightarrow> \<exists>g. RequiredGas p input = Some g) \<Longrightarrow>
   (\<And>input g. small input \<Longrightarrow> RequiredGas p input = Some g \<Longrightarrow> unat g \<le> 2 ^ 60 \<Longrightarrow>
     \<exists>ret err. PRun p input = Some (ret, err) \<and> small ret) \<Longrightarrow> precompileOk p"
  by (fastforce simp: precompileOk_def)

lemma smallI: "length xs \<le> 1000 \<Longrightarrow> small xs"
  by (simp add: small_def)

section \<open>Signatures, hashes and curves\<close>

lemma ecrecover_ok:
  assumes "cryptoOk cr"
  shows "precompileOk (ecrecover ex cr)"
proof (rule precompileOkI)
  fix input g
  let ?p = "RightPadBytes input 128"
  have len: "128 \<le> length ?p" by (simp add: length_RightPadBytes)
  have "\<exists>ret err. ecrecoverRun ex cr input = Some (ret, err) \<and> length ret \<le> 32"
  proof -
    have "length pk = 65" if "Ecrecover cr h s = Some pk" for h s pk using assms that by (auto simp: cryptoOk_def)
    then have "(case Ecrecover cr h s of None \<Rightarrow> Some ([], None)
        | Some pubKey \<Rightarrow> do {
            body \<leftarrow> slice pubKey 1 (length pubKey);
            tail \<leftarrow> slice (HashBytes (keccak256 ex body)) 12 32;
            Some (LeftPadBytes tail 32, None) }) = r \<Longrightarrow> \<exists>ret err. r = Some (ret, err) \<and> length ret \<le> 32" for h s r
      by (auto simp: slice_def length_HashBytes length_LeftPadBytes split: option.splits)
    then show ?thesis using len by (auto simp: ecrecoverRun_def Let_def slice_def index_def)
  qed
  then show "\<exists>ret err. PRun (ecrecover ex cr) input = Some (ret, err) \<and> small ret"
    by (force simp: ecrecover_def intro: smallI)
qed (simp add: ecrecover_def ecrecoverGas_def)

lemma hashes_ok:
  assumes "cryptoOk cr"
  shows "precompileOk (sha256hash cr)" "precompileOk (ripemd160hash cr)" "precompileOk dataCopy"
  using assms
  by (auto simp: precompileOk_def cryptoOk_def sha256hash_def ripemd160hash_def dataCopy_def sha256hashGas_def
      sha256hashRun_def ripemd160hashGas_def ripemd160hashRun_def dataCopyGas_def dataCopyRun_def
      length_LeftPadBytes intro: smallI)

lemma getData_small:
  assumes "small input" "unat n \<le> 1000"
  shows "\<exists>d. getData input s n = Some d \<and> length d = unat n"
  using getData_ok [of input n s] assms by (auto simp: small_def)

lemma curves_ok:
  assumes "cryptoOk cr"
  shows "precompileOk (bn256Add cr)" "precompileOk (bn256ScalarMul cr)"
proof -
  have a: "small (addG1 cr p q)" "small (mulG1 cr p k)" for p q k using assms by (auto simp: cryptoOk_def intro: smallI)
  have "\<exists>ret err. bn256AddRun cr input = Some (ret, err) \<and> small ret" if "small input" for input
    using getData_small [OF that, of 64 0] getData_small [OF that, of 64 64] a(1)
    by (auto simp: bn256AddRun_def newCurvePoint_def split: option.split)
  then show "precompileOk (bn256Add cr)" by (simp add: precompileOk_def bn256Add_def bn256AddGas_def)
  have "\<exists>ret err. bn256ScalarMulRun cr input = Some (ret, err) \<and> small ret" if "small input" for input
    using getData_small [OF that, of 64 0] getData_small [OF that, of 32 64] a(2)
    by (auto simp: bn256ScalarMulRun_def newCurvePoint_def split: option.split)
  then show "precompileOk (bn256ScalarMul cr)" by (simp add: precompileOk_def bn256ScalarMul_def bn256ScalarMulGas_def)
qed

lemma pairingPoints_ok: "i + 192 * k \<le> length input \<Longrightarrow> \<exists>r. pairingPoints cr input i k = Some r"
proof (induction k arbitrary: i)
  case (Suc k)
  have "\<exists>r. pairingPoints cr input (i + 192) k = Some r" using Suc by simp
  then show ?case using Suc.prems by (auto simp: slice_def split: sum.split)
qed simp

lemma pairing_ok: "precompileOk (bn256Pairing cr)"
proof -
  have "\<exists>ret err. bn256PairingRun cr input = Some (ret, err) \<and> small ret" for input
  proof (cases "0 < length input mod 192")
    case False
    have "192 * (length input div 192) \<le> length input" by simp
    then obtain r where "pairingPoints cr input 0 (length input div 192) = Some r"
      using pairingPoints_ok [of 0 "length input div 192" input cr] by auto
    then show ?thesis using False
      by (auto simp: bn256PairingRun_def true32Byte_def false32Byte_def intro: smallI split: sum.split prod.split)
  qed (simp add: bn256PairingRun_def)
  then show ?thesis by (simp add: precompileOk_def bn256Pairing_def bn256PairingGas_def)
qed

section \<open>Modular exponentiation\<close>

lemma small_modexpTail: "small input \<Longrightarrow> small (modexpTail input)"
  by (auto simp: small_def modexpTail_def)

lemma multComplexity_bounds:
  assumes "0 \<le> x"
  shows "0 \<le> multComplexity x" "1 \<le> x \<Longrightarrow> 1 \<le> multComplexity x" "x * x div 16 \<le> multComplexity x"
proof -
  have a: "1024 < x \<Longrightarrow> x * x div 16 \<le> multComplexity x" by (simp add: multComplexity_def)
  have b: "x * x div 16 \<le> x * x div 4" by (rule zdiv_mono2) simp_all
  have q: "0 \<le> x * x" by simp
  have c: "64 < x \<Longrightarrow> x \<le> 1024 \<Longrightarrow> x * x div 4 \<le> multComplexity x" by (simp add: multComplexity_def)
  have d: "x \<le> 64 \<Longrightarrow> multComplexity x = x * x" by (simp add: multComplexity_def)
  have e: "x * x div 16 \<le> x * x" using zdiv_mono2 [of "x * x" 1 16] q by simp
  show f: "x * x div 16 \<le> multComplexity x" using a b c d e by linarith
  then show "0 \<le> multComplexity x" using q by (meson order_trans pos_imp_zdiv_nonneg_iff zero_less_numeral)
  show "1 \<le> x \<Longrightarrow> 1 \<le> multComplexity x"
  proof (cases "x \<le> 64")
    case True
    assume "1 \<le> x"
    then have "1 * 1 \<le> x * x" by (intro mult_mono) simp_all
    with True show ?thesis by (simp add: d)
  next
    case False
    then have "64 * 64 \<le> x * x" by (intro mult_mono) simp_all
    then have "16 \<le> x * x" by simp
    then have "1 \<le> x * x div 16" by simp
    with f show ?thesis by linarith
  qed
qed

lemma modexp_lengths:
  assumes x: "x = BigMax modLen baseLen" "0 \<le> modLen" "0 \<le> baseLen" "1 \<le> x"
    and adj: "0 \<le> adj" and g: "multComplexity x * BigMax adj 1 div 20 \<le> 2 ^ 60"
  shows "x < 2 ^ 35" "adj < 2 ^ 65"
proof -
  let ?k = "BigMax adj 1"
  have k: "1 \<le> ?k" "adj \<le> ?k" by (simp_all add: BigMax_def)
  have m1: "1 \<le> multComplexity x" using multComplexity_bounds(2) [of x] x by simp
  have p: "multComplexity x * ?k \<le> 20 * 2 ^ 60 + 19" using g by linarith
  have "multComplexity x * 1 \<le> multComplexity x * ?k" using m1 k by (intro mult_left_mono) simp_all
  then have "x * x div 16 \<le> 20 * 2 ^ 60 + 19" using multComplexity_bounds(3) [of x] x p by linarith
  then have "x * x div 16 < 2 ^ 66" by simp
  then have "x * x < 2 ^ 70" by simp
  show "x < 2 ^ 35"
  proof (rule ccontr)
    assume "\<not> x < 2 ^ 35"
    then have "2 ^ 35 * 2 ^ 35 \<le> x * x" by (intro mult_mono) simp_all
    with \<open>x * x < 2 ^ 70\<close> show False by simp
  qed
  have "1 * ?k \<le> multComplexity x * ?k" using m1 k by (intro mult_right_mono) simp_all
  then have "adj \<le> 20 * 2 ^ 60 + 19" using p k by linarith
  then show "adj < 2 ^ 65" by simp
qed

lemma sint_small: "unat n < 2 ^ 63 \<Longrightarrow> sint n = int (unat n)" for n :: u64
proof -
  assume "unat n < 2 ^ 63"
  then have "int (unat n) < int (2 ^ 63)" by (simp only: of_nat_less_iff)
  then have u: "uint n < 2 ^ 63" by simp
  moreover have "- (2 ^ 63) \<le> uint n" by (rule order_trans [OF _ uint_ge_0]) simp
  ultimately have "signed_take_bit 63 (uint n) = uint n" by (intro signed_take_bit_int_eq_self) simp_all
  then show ?thesis by (simp add: sint_uint)
qed

lemma modexp_result_small:
  fixes n :: u64
  assumes m: "0 < SetBytes mb" "length mb = unat n" "unat n < 2 ^ 35" and b: "0 \<le> base"
  shows "small (LeftPadBytes (Bytes (base ^ e mod SetBytes mb)) (sint n))"
proof -
  let ?v = "base ^ e mod SetBytes mb"
  have "0 \<le> ?v" "?v < SetBytes mb" using m(1) by simp_all
  then have "?v < 256 ^ unat n" using SetBytes_less [of mb] m(2) by simp
  then have "int (nat \<bar>?v\<bar>) < int (256 ^ unat n)" using \<open>0 \<le> ?v\<close> by simp
  then have "nat \<bar>?v\<bar> < 256 ^ unat n" by (simp only: of_nat_less_iff)
  then have "length (Bytes ?v) \<le> unat n" by (simp add: Bytes_def nat_be_length_le)
  moreover have "nat (sint n) = unat n" using m(3) sint_small [of n] by simp
  ultimately show ?thesis using m(3) by (simp add: small_def length_LeftPadBytes)
qed

text \<open>The header of the input: three lengths of 32 bytes.\<close>

lemma modexp_header:
  assumes "small input"
  obtains b0 b1 b2 where "getData input 0 32 = Some b0" "getData input 32 32 = Some b1" "getData input 64 32 = Some b2"
  using getData_small [OF assms, of 32 0] getData_small [OF assms, of 32 32] getData_small [OF assms, of 32 64]
  by auto

definition modexpExpHead :: "bytes \<Rightarrow> int \<Rightarrow> int \<Rightarrow> int option" where
  "modexpExpHead input baseLen expLen =
     (if int (length input) \<le> baseLen then Some 0
      else if 32 < expLen then map_option SetBytes (getData input (Uint64 baseLen) 32)
      else map_option SetBytes (getData input (Uint64 baseLen) (Uint64 expLen)))"

lemma modexpExpHead_ok:
  assumes "small input" "0 \<le> expLen"
  shows "\<exists>h. modexpExpHead input baseLen expLen = Some h \<and> 0 \<le> h"
proof -
  have "unat (Uint64 expLen) \<le> 1000" if "expLen \<le> 32"
    using that assms(2) by (subst unat_Uint64) simp_all
  then show ?thesis using assms
    getData_small [OF assms(1), of 32 "Uint64 baseLen"] getData_small [OF assms(1), of "Uint64 expLen" "Uint64 baseLen"]
    by (auto simp: modexpExpHead_def)
qed

lemma bigModExpGas_eq:
  assumes "small input" "getData input 0 32 = Some b0" "getData input 32 32 = Some b1" "getData input 64 32 = Some b2"
  obtains msb where "0 \<le> msb" and
    "bigModExpGas input = Some (
       let adj = (if 32 < SetBytes b1 then 8 * (SetBytes b1 - 32) else 0) + msb;
           gas = multComplexity (BigMax (SetBytes b2) (SetBytes b0)) * BigMax adj 1 div 20
       in if 64 < BitLen gas then MaxUint64 else Uint64 gas)"
proof -
  obtain h where h: "modexpExpHead (modexpTail input) (SetBytes b0) (SetBytes b1) = Some h" "0 \<le> h"
    using modexpExpHead_ok small_modexpTail assms(1) SetBytes_nonneg by blast
  define msb where "msb = (if 0 < BitLen h then int (BitLen h) - 1 else 0)"
  show thesis
  proof (rule that [of msb])
    show "0 \<le> msb" by (simp add: msb_def)
    show "bigModExpGas input = Some (
       let adj = (if 32 < SetBytes b1 then 8 * (SetBytes b1 - 32) else 0) + msb;
           gas = multComplexity (BigMax (SetBytes b2) (SetBytes b0)) * BigMax adj 1 div 20
       in if 64 < BitLen gas then MaxUint64 else Uint64 gas)"
      using h(1) unfolding bigModExpGas_def modexpExpHead_def assms(2-4) Let_def msb_def
      by (simp add: params)
  qed
qed

lemma bigModExp_ok: "precompileOk bigModExp"
proof (rule precompileOkI)
  fix input :: bytes assume "small input"
  then show "\<exists>g. RequiredGas bigModExp input = Some g"
    by (metis bigModExpGas_eq bigModExp_def modexp_header PrecompiledContract.select_convs(1))
next
  fix input g
  assume s: "small input" and g: "RequiredGas bigModExp input = Some g" "unat g \<le> 2 ^ 60"
  obtain b0 b1 b2 where b: "getData input 0 32 = Some b0" "getData input 32 32 = Some b1" "getData input 64 32 = Some b2"
    using modexp_header [OF s] .
  obtain msb where msb: "0 \<le> msb" and e: "bigModExpGas input = Some (
       let adj = (if 32 < SetBytes b1 then 8 * (SetBytes b1 - 32) else 0) + msb;
           gas = multComplexity (BigMax (SetBytes b2) (SetBytes b0)) * BigMax adj 1 div 20
       in if 64 < BitLen gas then MaxUint64 else Uint64 gas)"
    using bigModExpGas_eq [OF s b] .
  let ?x = "BigMax (SetBytes b2) (SetBytes b0)"
  define adj where "adj = (if 32 < SetBytes b1 then 8 * (SetBytes b1 - 32) else 0) + msb"
  define gas where "gas = multComplexity ?x * BigMax adj 1 div 20"
  have adj: "0 \<le> adj" "8 * (SetBytes b1 - 32) \<le> adj" using msb by (simp_all add: adj_def)
  have x0: "0 \<le> ?x" "SetBytes b2 \<le> ?x" "SetBytes b0 \<le> ?x" by (simp_all add: BigMax_def)
  have "g = (if 64 < BitLen gas then MaxUint64 else Uint64 gas)"
    using g(1) e unfolding bigModExp_def PrecompiledContract.simps Let_def adj_def [symmetric] gas_def [symmetric]
    by (simp only: option.inject)
  moreover have "0 \<le> gas" using multComplexity_bounds(1) [OF x0(1)]
    by (simp add: gas_def BigMax_def pos_imp_zdiv_nonneg_iff)
  ultimately have gas: "gas \<le> 2 ^ 60"
    using g(2) BitLen_gt_64 [of gas] unat_Uint64 [of gas] by (auto simp: MaxUint64_def split: if_splits)
  have "\<exists>ret err. bigModExpRun input = Some (ret, err) \<and> small ret"
  proof (cases "?x = 0")
    case True
    then have "SetBytes b0 = 0" "SetBytes b2 = 0" using x0 SetBytes_nonneg [of b0] SetBytes_nonneg [of b2] by linarith+
    then show ?thesis using b by (simp add: bigModExpRun_def Uint64_def)
  next
    case False
    then have x1: "1 \<le> ?x" using x0 by linarith
    have lim: "?x < 2 ^ 35" "adj < 2 ^ 65"
      using modexp_lengths [OF refl SetBytes_nonneg SetBytes_nonneg x1 adj(1)] gas by (simp_all add: gas_def)
    define bl el ml where "bl = Uint64 (SetBytes b0)" and "el = Uint64 (SetBytes b1)" and "ml = Uint64 (SetBytes b2)"
    have u: "unat bl < 2 ^ 35" "unat el < 2 ^ 63" "unat ml < 2 ^ 35"
      using lim x0 adj SetBytes_nonneg [of b0] SetBytes_nonneg [of b1] SetBytes_nonneg [of b2]
      by (simp_all add: bl_def el_def ml_def unat_Uint64)
    let ?t = "modexpTail input"
    have t: "length ?t \<le> 2 ^ 41" using small_modexpTail [OF s] by (simp add: small_def)
    obtain bb where bb: "getData ?t 0 bl = Some bb" using getData_ok [of ?t bl 0] u t by auto
    obtain eb where eb: "getData ?t bl el = Some eb" using getData_ok [of ?t el bl] u t by auto
    obtain mb where mb: "getData ?t (bl + el) ml = Some mb" "length mb = unat ml" using getData_ok [of ?t ml "bl + el"] u t by auto
    have "small (LeftPadBytes [] (sint ml))" using u(3) sint_small [of ml] by (simp add: small_def length_LeftPadBytes)
    moreover have "BitLen (SetBytes mb) \<noteq> 0 \<Longrightarrow> 0 < SetBytes mb" using BitLen_pos [of "SetBytes mb"] SetBytes_nonneg [of mb] by linarith
    ultimately show ?thesis
      using bb eb mb u(3) by (auto simp: bigModExpRun_def Let_def b simp flip: bl_def el_def ml_def
          intro!: modexp_result_small)
  qed
  then show "\<exists>ret err. PRun bigModExp input = Some (ret, err) \<and> small ret" by (simp add: bigModExp_def)
qed

lemma precompiles_ok: "cryptoOk (cryptoFns e) \<Longrightarrow> precompiles e a = Some p \<Longrightarrow> precompileOk p"
  by (auto simp: precompiles_def PrecompiledContractsByzantium_def PrecompiledContractsHomestead_def
      ecrecover_ok hashes_ok curves_ok pairing_ok bigModExp_ok split: if_splits)

end
