(* ===== verification/EVMInv.thy ===== *)
theory EVMInv
  imports Snapshots PrecompileFacts
begin

text \<open>
  The invariants under which the interpreter runs: on worlds (\<open>worldOk\<close>), state databases
  (\<open>stateOk\<close>), machines (\<open>evmOk\<close>), contracts and frames (\<open>frameOk\<close>); what running code may do to a
  machine (\<open>goes\<close>: the supply does not grow, and a write-protected machine keeps every observable of
  the world); the contract of one entry of an instruction table (\<open>opGood\<close>), and the lemma that a
  round of the interpreter loop on such an entry neither panics nor breaks the invariant and uses
  up gas.
\<close>

section \<open>Worlds the machine runs on\<close>

definition totalSupply :: "world \<Rightarrow> int" where
  "totalSupply w = (\<Sum>a\<in>UNIV. wBalance w a)"

definition worldOk :: "externs \<Rightarrow> world \<Rightarrow> bool" where
  "worldOk ex w \<longleftrightarrow> (\<forall>a. 0 \<le> wBalance w a) \<and> totalSupply w < tt256 \<and> (\<forall>a. small (wCode w a)) \<and>
     (\<forall>a. wCode w a \<noteq> [] \<longrightarrow> wCodeHash w a = keccak256 ex (wCode w a))"

text \<open>What a read-only call must leave alone. Whether an empty account exists, and the recorded
  preimages, may change.\<close>

definition frozen :: "world \<Rightarrow> world \<Rightarrow> bool" where
  "frozen w w' \<longleftrightarrow> (\<forall>a. wBalance w' a = wBalance w a \<and> wNonce w' a = wNonce w a \<and> wCode w' a = wCode w a \<and>
       wState w' a = wState w a \<and> wSuicided w' a = wSuicided w a) \<and>
     wLogs w' = wLogs w \<and> wRefund w' = wRefund w"

lemma frozen_refl [simp]: "frozen w w"
  by (simp add: frozen_def)

lemma frozen_trans: "frozen u v \<Longrightarrow> frozen v w \<Longrightarrow> frozen u w"
  by (simp add: frozen_def)

lemma supply_frozen: "frozen w w' \<Longrightarrow> totalSupply w' = totalSupply w"
  by (simp add: frozen_def totalSupply_def)

lemma wFields_putAcct [simp]:
  "wBalance (putAcct w a x) b = (if b = a then aBalance x else wBalance w b)"
  "wNonce (putAcct w a x) b = (if b = a then aNonce x else wNonce w b)"
  "wCode (putAcct w a x) b = (if b = a then aCode x else wCode w b)"
  "wCodeHash (putAcct w a x) b = (if b = a then aCodeHash x else wCodeHash w b)"
  "wState (putAcct w a x) b = (if b = a then aStorage x else wState w b)"
  "wSuicided (putAcct w a x) b = (if b = a then aSuicided x else wSuicided w b)"
  "wLogs (putAcct w a x) = wLogs w" "wRefund (putAcct w a x) = wRefund w"
  by (auto simp: putAcct_def wBalance_def wNonce_def wCode_def wCodeHash_def wState_def wSuicided_def fun_eq_iff)

lemma orNew_fields [simp]:
  "aBalance (orNew eh w a) = wBalance w a" "aNonce (orNew eh w a) = wNonce w a" "aCode (orNew eh w a) = wCode w a"
  "aStorage (orNew eh w a) = wState w a" "aSuicided (orNew eh w a) = wSuicided w a"
  "wCode w a \<noteq> [] \<Longrightarrow> aCodeHash (orNew eh w a) = wCodeHash w a"
  by (auto simp: orNew_def newAcct_def wBalance_def wNonce_def wCode_def wCodeHash_def wState_def wSuicided_def
      fun_eq_iff split: option.splits)

lemma supply_putAcct: "totalSupply (putAcct w a x) = totalSupply w - wBalance w a + aBalance x"
proof -
  have s: "totalSupply v = wBalance v a + (\<Sum>b\<in>UNIV - {a}. wBalance v b)" for v
    unfolding totalSupply_def by (rule sum.remove) simp_all
  have "(\<Sum>b\<in>UNIV - {a}. wBalance (putAcct w a x) b) = (\<Sum>b\<in>UNIV - {a}. wBalance w b)"
    by (rule sum.cong) simp_all
  then show ?thesis using s [of w] s [of "putAcct w a x"] by simp
qed

lemma balance_le_supply:
  assumes "\<forall>b. 0 \<le> wBalance w b"
  shows "wBalance w a \<le> totalSupply w"
  unfolding totalSupply_def by (rule member_le_sum) (simp_all add: assms)

lemma worldOk_balance: "worldOk ex w \<Longrightarrow> in256 (wBalance w a)"
  using balance_le_supply [of w a] by (auto simp: worldOk_def in256_def)

text \<open>An account may be replaced by one with a legal code and a balance that fits.\<close>

lemma worldOk_put:
  assumes "worldOk ex w" "0 \<le> aBalance x" "totalSupply w - wBalance w a + aBalance x < tt256" "small (aCode x)"
    "aCode x \<noteq> [] \<longrightarrow> aCodeHash x = keccak256 ex (aCode x)"
  shows "worldOk ex (putAcct w a x)"
  using assms by (auto simp: worldOk_def supply_putAcct)

lemma worldOk_orNew:
  "worldOk ex w \<Longrightarrow> small (aCode (orNew eh w a))"
  "worldOk ex w \<Longrightarrow> aCode (orNew eh w a) \<noteq> [] \<Longrightarrow> aCodeHash (orNew eh w a) = keccak256 ex (aCode (orNew eh w a))"
  by (simp_all add: worldOk_def)

lemma worldOk_sSetNonce: "worldOk ex w \<Longrightarrow> worldOk ex (sSetNonce eh w a n)"
  unfolding sSetNonce_def by (rule worldOk_put) (auto simp: worldOk_def)

lemma worldOk_sSetState: "worldOk ex w \<Longrightarrow> worldOk ex (sSetState eh w a k v)"
  unfolding sSetState_def by (rule worldOk_put) (auto simp: worldOk_def)

lemma worldOk_sSetCode: "worldOk ex w \<Longrightarrow> small c \<Longrightarrow> worldOk ex (sSetCode eh w a (keccak256 ex c) c)"
  unfolding sSetCode_def by (rule worldOk_put) (auto simp: worldOk_def)

lemma worldOk_sCreateAccount: "worldOk ex w \<Longrightarrow> worldOk ex (sCreateAccount eh w a)"
  unfolding sCreateAccount_def by (rule worldOk_put) (auto simp: worldOk_def newAcct_def)

lemma other_fields [simp]:
  "wBalance (w\<lparr>wRefund := r\<rparr>) = wBalance w" "wCode (w\<lparr>wRefund := r\<rparr>) = wCode w" "wCodeHash (w\<lparr>wRefund := r\<rparr>) = wCodeHash w"
  "wBalance (w\<lparr>wLogs := l, wLogSize := n\<rparr>) = wBalance w" "wCode (w\<lparr>wLogs := l, wLogSize := n\<rparr>) = wCode w"
  "wCodeHash (w\<lparr>wLogs := l, wLogSize := n\<rparr>) = wCodeHash w"
  by (simp_all add: fun_eq_iff wBalance_def wCode_def wCodeHash_def)

lemma worldOk_sAddRefund: "worldOk ex w \<Longrightarrow> worldOk ex (sAddRefund w g)"
  by (simp add: worldOk_def sAddRefund_def totalSupply_def)

lemma worldOk_sAddLog: "worldOk ex w \<Longrightarrow> worldOk ex (sAddLog w th bh ti l)"
  by (simp add: worldOk_def sAddLog_def totalSupply_def)

lemma supply_ops [simp]:
  "totalSupply (sSetNonce eh w a n) = totalSupply w" "totalSupply (sSetState eh w a k v) = totalSupply w"
  "totalSupply (sSetCode eh w a h c) = totalSupply w" "totalSupply (sCreateAccount eh w a) = totalSupply w"
  "totalSupply (sAddRefund w g) = totalSupply w" "totalSupply (sAddLog w th bh ti l) = totalSupply w"
  by (simp_all add: sSetNonce_def sSetState_def sSetCode_def sCreateAccount_def supply_putAcct)
    (simp_all add: totalSupply_def sAddRefund_def sAddLog_def)

lemma frozen_sAddPreimage [simp]: "frozen w (sAddPreimage w h p)"
  by (simp add: frozen_def sAddPreimage_def wBalance_def wNonce_def wCode_def wState_def wSuicided_def fun_eq_iff
      split: option.split)

lemma wCodeHash_sAddPreimage [simp]: "wCodeHash (sAddPreimage w h p) = wCodeHash w"
  by (simp add: sAddPreimage_def wCodeHash_def fun_eq_iff split: option.split)

lemma worldOk_sAddPreimage: "worldOk ex w \<Longrightarrow> worldOk ex (sAddPreimage w h p)"
  using frozen_sAddPreimage [of w h p] by (simp add: worldOk_def frozen_def totalSupply_def)

lemma frozen_create: "accts w a = None \<Longrightarrow> frozen w (sCreateAccount eh w a)"
  by (auto simp: frozen_def sCreateAccount_def newAcct_def wNonce_def wCode_def wState_def wSuicided_def fun_eq_iff)

text \<open>A transfer the sender can pay for.\<close>

lemma transfer_world:
  assumes ok: "worldOk ex w" and v: "0 \<le> v" "v \<le> wBalance w a"
  shows "worldOk ex (sAddBalance eh (sAddBalance eh w a (- v)) b v)"
    "totalSupply (sAddBalance eh (sAddBalance eh w a (- v)) b v) = totalSupply w"
proof -
  let ?w1 = "sAddBalance eh w a (- v)"
  have w1: "worldOk ex ?w1" unfolding sAddBalance_def
    using ok v by (intro worldOk_put) (auto simp: worldOk_def)
  have s1: "totalSupply ?w1 = totalSupply w - v" by (simp add: sAddBalance_def supply_putAcct)
  show s: "totalSupply (sAddBalance eh ?w1 b v) = totalSupply w" by (simp add: sAddBalance_def supply_putAcct)
  have "totalSupply w < tt256" using ok by (simp add: worldOk_def)
  with w1 s1 v show "worldOk ex (sAddBalance eh ?w1 b v)" unfolding sAddBalance_def [of eh ?w1 b v]
    by (intro worldOk_put) (auto simp: worldOk_def)
qed

lemma frozen_zero_transfer: "frozen w (sAddBalance eh (sAddBalance eh w a 0) b 0)"
  by (auto simp: frozen_def sAddBalance_def)

section \<open>States\<close>

definition stateOk :: "statedb \<Rightarrow> bool" where
  "stateOk s \<longleftrightarrow> dbInv s \<and> worldOk (ext s) (view s) \<and> (\<forall>h. small (contractCodes (database s) h)) \<and>
     hashLengths (keccak256 (ext s))"

text \<open>Legal changes of the state, and changes that a read-only call may make.\<close>

definition moves :: "statedb \<Rightarrow> statedb \<Rightarrow> bool" where
  "moves s t \<longleftrightarrow> evolves s t \<and> stateOk t \<and> totalSupply (view t) \<le> totalSupply (view s)"

definition quiet :: "statedb \<Rightarrow> statedb \<Rightarrow> bool" where
  "quiet s t \<longleftrightarrow> moves s t \<and> frozen (view s) (view t)"

lemma stateOk_dbInv: "stateOk s \<Longrightarrow> dbInv s"
  by (simp add: stateOk_def)

lemma moves_ok: "moves s t \<Longrightarrow> stateOk t"
  by (simp add: moves_def)

lemma moves_ext: "moves s t \<Longrightarrow> ext t = ext s"
  by (simp add: moves_def evolves_env)

lemma quiet_moves: "quiet s t \<Longrightarrow> moves s t"
  by (simp add: quiet_def)

lemma moves_refl: "stateOk s \<Longrightarrow> moves s s"
  by (simp add: moves_def stateOk_dbInv evolves_refl)

lemma quiet_refl: "stateOk s \<Longrightarrow> quiet s s"
  by (simp add: quiet_def moves_refl)

lemma moves_trans: "moves s t \<Longrightarrow> moves t u \<Longrightarrow> moves s u"
  by (auto simp: moves_def intro: evolves_trans)

lemma quiet_trans: "quiet s t \<Longrightarrow> quiet t u \<Longrightarrow> quiet s u"
  by (auto simp: quiet_def intro: moves_trans frozen_trans)

lemma moves_intro:
  assumes "stateOk s" "evolves s t" "worldOk (ext s) (view t)" "totalSupply (view t) \<le> totalSupply (view s)"
  shows "moves s t"
  using assms evolves_dbInv [OF assms(2)] evolves_env [OF assms(2)] by (simp add: moves_def stateOk_def)

lemma quiet_same: "stateOk s \<Longrightarrow> evolves s t \<Longrightarrow> view t = view s \<Longrightarrow> quiet s t"
  by (simp add: quiet_def moves_intro stateOk_def)

lemma moves_write:
  assumes "stateOk s"
  shows "moves s (SetNonce s a n)" "moves s (SetState s a k v)" "moves s (CreateAccount s a)"
    "moves s (AddRefund s g)" "moves s (AddLog s l)" "small c \<Longrightarrow> moves s (SetCode s a c)"
  using assms
  by (auto intro!: moves_intro simp: stateOk_def SetNonce_spec SetState_spec CreateAccount_spec AddRefund_spec AddLog_spec
      SetCode_spec worldOk_sSetNonce worldOk_sSetState worldOk_sCreateAccount worldOk_sAddRefund worldOk_sAddLog
      worldOk_sSetCode)

lemma quiet_reads:
  assumes "stateOk s"
  shows "quiet s (snd (getStateObject s a))" "quiet s (snd (GetCode s a))" "quiet s (snd (GetState s a k))"
    "quiet s (snd (Snapshot s))"
  using assms by (auto intro!: quiet_same simp: stateOk_def evolves_load GetCode_spec GetState_spec evolves_Snapshot)

lemma quiet_preimage: "stateOk s \<Longrightarrow> quiet s (AddPreimage s h p)"
  unfolding quiet_def
  by (auto intro!: moves_intro simp: stateOk_def AddPreimage_spec worldOk_sAddPreimage supply_frozen [OF frozen_sAddPreimage])

lemma quiet_create: "stateOk s \<Longrightarrow> accts (view s) a = None \<Longrightarrow> quiet s (CreateAccount s a)"
  using moves_write(3) [of s a] frozen_create [of "view s" a] by (simp add: quiet_def stateOk_def CreateAccount_spec)

lemma view_Transfer:
  assumes "dbInv s"
  shows "evolves s (Transfer s a b v)"
    "view (Transfer s a b v) = sAddBalance (emptyCodeHash s) (sAddBalance (emptyCodeHash s) (view s) a (- v)) b v"
proof -
  note S = SubBalance_spec [OF assms, of a v]
  note A = AddBalance_spec [OF evolves_dbInv [OF S(1)], of b v]
  show "evolves s (Transfer s a b v)" unfolding Transfer_def by (rule evolves_trans [OF S(1) A(1)])
  show "view (Transfer s a b v) = sAddBalance (emptyCodeHash s) (sAddBalance (emptyCodeHash s) (view s) a (- v)) b v"
    unfolding Transfer_def A(2) S(2) evolves_env(3) [OF S(1)] ..
qed

lemma moves_Transfer:
  assumes "stateOk s" "0 \<le> v" "v \<le> wBalance (view s) a"
  shows "moves s (Transfer s a b v)" "v = 0 \<Longrightarrow> quiet s (Transfer s a b v)"
proof -
  note T = view_Transfer [OF stateOk_dbInv [OF assms(1)]]
  have w: "worldOk (ext s) (view s)" using assms(1) by (simp add: stateOk_def)
  show m: "moves s (Transfer s a b v)"
    by (rule moves_intro [OF assms(1) T(1)]) (simp_all add: T(2) transfer_world [OF w assms(2,3)])
  show "quiet s (Transfer s a b v)" if "v = 0"
    using m frozen_zero_transfer that by (simp add: quiet_def T(2))
qed

text \<open>The state after SELFDESTRUCT: the balance moves to the beneficiary, or is destroyed.\<close>

lemma moves_suicide:
  assumes "stateOk s"
  shows "moves s (snd (Suicide (AddBalance s b (wBalance (view s) a)) a))"
proof -
  let ?eh = "emptyCodeHash s"
  let ?w = "view s"
  let ?v = "wBalance ?w a"
  let ?w1 = "sAddBalance ?eh ?w b ?v"
  have d: "dbInv s" and w: "worldOk (ext s) ?w" using assms by (simp_all add: stateOk_def)
  note A = AddBalance_spec [OF d, of b ?v]
  note S = Suicide_spec [OF evolves_dbInv [OF A(1)], of a]
  have ev: "evolves s (snd (Suicide (AddBalance s b ?v) a))" by (rule evolves_trans [OF A(1) S(1)])
  have vw: "view (snd (Suicide (AddBalance s b ?v) a)) = sSuicide ?w1 a" by (simp only: S(2) A(2))
  have b0: "0 \<le> wBalance ?w c" "small (wCode ?w c)" "wCode ?w c \<noteq> [] \<Longrightarrow> wCodeHash ?w c = keccak256 (ext s) (wCode ?w c)" for c
    using w by (simp_all add: worldOk_def)
  have sup: "totalSupply ?w1 = totalSupply ?w + ?v" by (simp add: sAddBalance_def supply_putAcct)
  have ok: "worldOk (ext s) (sSuicide ?w1 a) \<and> totalSupply (sSuicide ?w1 a) \<le> totalSupply ?w"
  proof (cases "accts ?w1 a")
    case None
    then have "a \<noteq> b" "accts ?w a = None" by (auto simp: sAddBalance_def putAcct_def split: if_splits)
    then have v0: "?v = 0" by (simp add: wBalance_def)
    then have "worldOk (ext s) ?w1" unfolding sAddBalance_def using w b0 by (intro worldOk_put) (auto simp: worldOk_def)
    with None v0 sup show ?thesis by (simp add: sSuicide_def)
  next
    case (Some x)
    then have x: "aBalance x = wBalance ?w1 a" "aCode x = wCode ?w1 a" "aCodeHash x = wCodeHash ?w1 a"
      by (simp_all add: wBalance_def wCode_def wCodeHash_def)
    have e: "sSuicide ?w1 a = putAcct ?w1 a (x\<lparr>aSuicided := True, aBalance := 0\<rparr>)" using Some by (simp add: sSuicide_def)
    have b1: "?v \<le> wBalance ?w1 a" using b0 by (simp add: sAddBalance_def)
    have t: "totalSupply (sSuicide ?w1 a) \<le> totalSupply ?w" using b1 sup by (simp add: e supply_putAcct)
    moreover have "totalSupply ?w < tt256" using w by (simp add: worldOk_def)
    moreover have "0 \<le> wBalance ?w1 c" "small (wCode ?w1 c)"
      "wCode ?w1 c \<noteq> [] \<Longrightarrow> wCodeHash ?w1 c = keccak256 (ext s) (wCode ?w1 c)" for c
      using b0 by (auto simp: sAddBalance_def)
    ultimately have "worldOk (ext s) (sSuicide ?w1 a)" using x unfolding worldOk_def e by auto
    with t show ?thesis by simp
  qed
  show ?thesis by (rule moves_intro [OF assms ev]) (use ok vw in simp_all)
qed

section \<open>Machines\<close>

definition evmOk :: "EVM \<Rightarrow> bool" where
  "evmOk e \<longleftrightarrow> stateOk (sdb e) \<and> CanTransferFn (ctx e) = CanTransfer \<and> TransferFn (ctx e) = Transfer \<and>
     in256 (GasPrice (ctx e)) \<and> gasTable_ok (gasTable e) \<and> cryptoOk (cryptoFns e) \<and>
     small (returnData e) \<and> tableOk (keccak256 (ext (sdb e))) (jumpdests e)"

definition contractOk :: "externs \<Rightarrow> Contract \<Rightarrow> bool" where
  "contractOk ex c \<longleftrightarrow> small (Code c) \<and> small (Input c) \<and> in256 (cValue c) \<and>
     (Code c \<noteq> [] \<longrightarrow> cCodeHash c = keccak256 ex (Code c))"

definition frameOk :: "machine \<Rightarrow> bool" where
  "frameOk m \<longleftrightarrow> evmOk (evm m) \<and> contractOk (ext (sdb (evm m))) (contract m) \<and> memOk (mem m) \<and>
     list_all in256 (stack m) \<and> length (stack m) \<le> 1024 \<and> unat (Gas (contract m)) \<le> 2 ^ 60"

text \<open>Write protection is in force.\<close>

definition protected :: "EVM \<Rightarrow> bool" where
  "protected e \<longleftrightarrow> readOnly e \<and> RulesByzantium (chainRules e)"

definition envEq :: "EVM \<Rightarrow> EVM \<Rightarrow> bool" where
  "envEq e e' \<longleftrightarrow> ctx e' = ctx e \<and> depth e' = depth e \<and> chainConfig e' = chainConfig e \<and>
     chainRules e' = chainRules e \<and> vmConfig e' = vmConfig e \<and> cryptoFns e' = cryptoFns e \<and>
     aborts e' = aborts e \<and> gasTable e' = gasTable e \<and> readOnly e' = readOnly e"

text \<open>What running code may do to the machine.\<close>

definition goes :: "EVM \<Rightarrow> EVM \<Rightarrow> bool" where
  "goes e e' \<longleftrightarrow> envEq e e' \<and> moves (sdb e) (sdb e') \<and>
     (protected e \<longrightarrow> frozen (view (sdb e)) (view (sdb e'))) \<and>
     small (returnData e') \<and> tableOk (keccak256 (ext (sdb e))) (jumpdests e')"

lemma goes_evmOk: "evmOk e \<Longrightarrow> goes e e' \<Longrightarrow> evmOk e'"
  by (auto simp: evmOk_def goes_def envEq_def moves_ok dest: moves_ext)

lemma goes_refl: "evmOk e \<Longrightarrow> goes e e"
  by (simp add: goes_def envEq_def evmOk_def moves_refl)

lemma protected_envEq: "envEq e e' \<Longrightarrow> protected e' = protected e"
  by (simp add: envEq_def protected_def)

lemma goes_trans: "goes e e' \<Longrightarrow> goes e' e'' \<Longrightarrow> goes e e''"
proof -
  assume a: "goes e e'" "goes e' e''"
  then have "protected e' = protected e" using protected_envEq by (auto simp: goes_def)
  moreover have "ext (sdb e') = ext (sdb e)" using a by (auto simp: goes_def dest: moves_ext)
  moreover have "envEq e e''" using a by (simp add: goes_def envEq_def)
  ultimately show ?thesis using a unfolding goes_def by (metis moves_trans frozen_trans)
qed

lemma goes_quiet: "evmOk e \<Longrightarrow> quiet (sdb e) t \<Longrightarrow> goes e (e\<lparr>sdb := t\<rparr>)"
  by (auto simp: goes_def envEq_def evmOk_def quiet_def)

lemma goes_moves: "evmOk e \<Longrightarrow> moves (sdb e) t \<Longrightarrow> \<not> protected e \<Longrightarrow> goes e (e\<lparr>sdb := t\<rparr>)"
  by (auto simp: goes_def envEq_def evmOk_def)

lemma goes_locals:
  assumes "evmOk e"
  shows "goes e (e\<lparr>callGasTemp := g\<rparr>)" "small d \<Longrightarrow> goes e (e\<lparr>returnData := d\<rparr>)" "goes e (e\<lparr>loads := n\<rparr>)"
    "tableOk (keccak256 (ext (sdb e))) j \<Longrightarrow> goes e (e\<lparr>jumpdests := j\<rparr>)"
  using assms by (auto simp: goes_def envEq_def evmOk_def moves_refl)

lemma goes_ext: "goes e e' \<Longrightarrow> ext (sdb e') = ext (sdb e)"
  by (auto simp: goes_def dest: moves_ext)

lemma goes_env: "goes e e' \<Longrightarrow> envEq e e'"
  by (simp add: goes_def)

lemma contractOk_Gas [simp]: "contractOk ex (c\<lparr>Gas := g\<rparr>) = contractOk ex c"
  by (simp add: contractOk_def)

section \<open>One operation\<close>

text \<open>The part of an iteration after the checks of the stack and of the restrictions.\<close>

definition operate :: "calls \<Rightarrow> operation \<Rightarrow> machine \<Rightarrow> stepResult option" where
  "operate cs oper m =
     (let fail = (\<lambda>e err. Some (Halt (e, contract m, [], Some err))) in do {
        req \<leftarrow> requiredMemory oper (stack m);
        case req of
          Inl err \<Rightarrow> fail (evm m) err
        | Inr memorySize \<Rightarrow> do {
            (cost, e1, mem1) \<leftarrow>
              gasCost oper (gasTable (evm m)) (evm m) (contract m) (stack m) (mem m) memorySize;
            case cost of
              Inl _ \<Rightarrow> fail e1 ErrOutOfGas
            | Inr c \<Rightarrow>
                let (paid, c1) = UseGas (contract m) c in
                if \<not> paid then fail e1 ErrOutOfGas
                else do {
                  let mem2 = (if 0 < memorySize then Resize mem1 memorySize else mem1);
                  r \<leftarrow> execute oper cs (m\<lparr>evm := e1, contract := c1, mem := mem2\<rparr>);
                  Some (afterExec oper r) } } })"

lemma step_operate:
  "step cs m =
     (let b = GetOp (contract m) (pc m);
          oper = lookupOp (instructionSet (evm m)) b;
          fail = (\<lambda>err. Some (Halt (evm m, contract m, [], Some err)))
      in if \<not> valid oper then fail (errInvalidOpcode b)
         else case validateStack oper (stack m) of
           Some err \<Rightarrow> fail err
         | None \<Rightarrow> do {
             restricted \<leftarrow> enforceRestrictions (evm m) b oper (stack m);
             case restricted of Some err \<Rightarrow> fail err | None \<Rightarrow> operate cs oper m })"
  unfolding step_def operate_def Let_def by (rule refl)

definition stepOk :: "machine \<Rightarrow> stepResult \<Rightarrow> bool" where
  "stepOk m r =
     (case r of
        Halt (e, c, ret, err) \<Rightarrow> goes (evm m) e \<and> unat (Gas c) \<le> unat (Gas (contract m)) \<and> small ret
      | Next m' \<Rightarrow> frameOk m' \<and> goes (evm m) (evm m') \<and> unat (Gas (contract m')) < unat (Gas (contract m)))"

text \<open>The program counter is inside the code: true of every instruction but STOP, which also stands for
  the end of the code.\<close>

definition inCode :: "machine \<Rightarrow> bool" where
  "inCode m \<longleftrightarrow> pc m < of_nat (length (Code (contract m)))"

text \<open>An instruction that makes no call: it keeps the contract, the invariant of the frame and the
  bounds of what it returns.\<close>

definition execGood :: "operation \<Rightarrow> nat \<Rightarrow> bool" where
  "execGood oper p \<longleftrightarrow> (\<forall>cs m. frameOk m \<longrightarrow> p \<le> length (stack m) \<longrightarrow> validateStack oper (stack m) = None \<longrightarrow>
     (writes oper \<longrightarrow> \<not> protected (evm m)) \<longrightarrow> (\<not> halts oper \<longrightarrow> inCode m) \<longrightarrow>
     (\<forall>f n. memorySizeFn oper = Some f \<longrightarrow> f (stack m) = Some n \<longrightarrow> n \<le> int (MemLen (mem m))) \<longrightarrow>
     (\<exists>m' res err. execute oper cs m = Some (m', res, err) \<and> frameOk m' \<and> goes (evm m) (evm m') \<and>
        contract m' = contract m \<and> small res))"

lemma execGoodD:
  assumes "execGood oper p" "frameOk m" "p \<le> length (stack m)" "validateStack oper (stack m) = None"
    "writes oper \<Longrightarrow> \<not> protected (evm m)" "\<not> halts oper \<Longrightarrow> inCode m"
    "\<And>f n. memorySizeFn oper = Some f \<Longrightarrow> f (stack m) = Some n \<Longrightarrow> n \<le> int (MemLen (mem m))"
  shows "\<exists>m' res err. execute oper cs m = Some (m', res, err) \<and> frameOk m' \<and> goes (evm m) (evm m') \<and>
        contract m' = contract m \<and> small res"
  using assms unfolding execGood_def by blast

definition memGood :: "operation \<Rightarrow> nat \<Rightarrow> bool" where
  "memGood oper p \<longleftrightarrow> (\<forall>f st. memorySizeFn oper = Some f \<longrightarrow> p \<le> length st \<longrightarrow> list_all in256 st \<longrightarrow>
     (\<exists>n \<ge> 0. f st = Some n))"

definition gasGood :: "operation \<Rightarrow> nat \<Rightarrow> bool" where
  "gasGood oper p \<longleftrightarrow> (\<forall>gt e c st m sz. gasTable_ok gt \<longrightarrow> evmOk e \<longrightarrow> p \<le> length st \<longrightarrow> list_all in256 st \<longrightarrow>
     (writes oper \<longrightarrow> \<not> protected e) \<longrightarrow>
     (\<exists>r e1 m1. gasCost oper gt e c st m sz = Some (r, e1, m1) \<and> goes e e1 \<and> memStore m1 = memStore m \<and>
        (\<forall>g. r = Inr g \<longrightarrow> (halts oper \<or> reverts oper \<or> 1 \<le> unat g) \<and> (memorySizeFn oper \<noteq> None \<longrightarrow> unat sz \<le> memMax))))"

definition opGood :: "operation \<Rightarrow> bool" where
  "opGood oper \<longleftrightarrow> (\<exists>p q. validateStack oper = makeStackFunc p q \<and> execGood oper p \<and> memGood oper p \<and> gasGood oper p)"

lemma frameOk_update:
  assumes "frameOk m" "goes (evm m) e'" "memOk mm" "list_all in256 st" "length st \<le> 1024"
  shows "frameOk (m\<lparr>evm := e', mem := mm, stack := st, pc := p\<rparr>)"
  using assms by (auto simp: frameOk_def goes_evmOk dest: goes_ext)

lemma UseGas_paid: "UseGas c g = (True, c1) \<Longrightarrow> c1 = c\<lparr>Gas := Gas c - g\<rparr> \<and> unat (Gas c1) = unat (Gas c) - unat g \<and> unat g \<le> unat (Gas c)"
  by (auto simp: UseGas_def gas_simps not_less split: if_splits)

lemma UseGas_cases: "UseGas c g = (if unat (Gas c) < unat g then (False, c) else (True, c\<lparr>Gas := Gas c - g\<rparr>))"
  by (simp add: UseGas_def gas_simps)

text \<open>The frame in which an instruction executes: gas paid, memory resized.\<close>

lemma frameOk_charged:
  assumes ok: "frameOk m" and g: "goes (evm m) e1" and st: "memStore mem1 = memStore (mem m)"
    and c1: "UseGas (contract m) g' = (True, c1)"
    and sz: "32 dvd unat sz" "sz = 0 \<or> unat sz \<le> memMax"
  defines "mem2 \<equiv> (if 0 < sz then Resize mem1 sz else mem1)"
  shows "frameOk (m\<lparr>evm := e1, contract := c1, mem := mem2\<rparr>)" "unat sz \<le> MemLen mem2"
proof -
  have m1: "memOk mem1" using ok st by (simp add: frameOk_def memOk_def MemLen_def)
  have "memOk mem2 \<and> unat sz \<le> MemLen mem2"
    using sz m1 Resize_ok [OF m1, of sz] by (auto simp: mem2_def word_gt_0 unat_gt_0)
  then show "unat sz \<le> MemLen mem2" "frameOk (m\<lparr>evm := e1, contract := c1, mem := mem2\<rparr>)"
    using ok UseGas_paid [OF c1] goes_evmOk [of "evm m" e1] g goes_ext [OF g] by (auto simp: frameOk_def)
qed

lemma afterExec_ok:
  assumes f: "frameOk m2" and g: "goes (evm m) (evm m2)" and s: "small res"
    and le: "unat (Gas (contract m2)) \<le> unat (Gas (contract m))"
    and lt: "err = None \<Longrightarrow> \<not> halts oper \<Longrightarrow> \<not> reverts oper \<Longrightarrow> unat (Gas (contract m2)) < unat (Gas (contract m))"
  shows "stepOk m (afterExec oper (m2, res, err))"
proof -
  define m3 where "m3 = (if returns oper then m2\<lparr>evm := (evm m2)\<lparr>returnData := res\<rparr>\<rparr> else m2)"
  have e: "evmOk (evm m2)" using f by (simp add: frameOk_def)
  have g3: "goes (evm m2) (evm m3)" using e s by (simp add: m3_def goes_locals goes_refl)
  have f3: "frameOk (m3\<lparr>pc := p\<rparr>)" for p
    using f g3 goes_evmOk [OF e g3] goes_ext [OF g3] by (auto simp: frameOk_def m3_def)
  have "m3\<lparr>pc := pc m3\<rparr> = m3" by simp
  with f3 [of "pc m3"] have "frameOk m3" by simp
  moreover have "contract m3 = contract m2" by (simp add: m3_def)
  ultimately show ?thesis using goes_trans [OF g g3] s le lt f3
    unfolding afterExec_def prod.case Let_def m3_def [symmetric]
    by (auto simp: stepOk_def)
qed

lemma requiredMemory_ok:
  assumes "memGood oper p" "p \<le> length st" "list_all in256 st"
  shows "\<exists>req. requiredMemory oper st = Some req \<and>
    (\<forall>sz. req = Inr sz \<longrightarrow> 32 dvd unat sz \<and> (memorySizeFn oper = None \<longrightarrow> sz = 0) \<and>
      (\<forall>f n. memorySizeFn oper = Some f \<longrightarrow> f st = Some n \<longrightarrow> n \<le> int (unat sz)))"
proof (cases "memorySizeFn oper")
  case None
  then show ?thesis by (simp add: requiredMemory_def)
next
  case (Some f)
  then obtain n where n: "0 \<le> n" "f st = Some n" using assms by (auto simp: memGood_def)
  then obtain req where r: "requiredMemory oper st = Some req" using Some by (simp add: requiredMemory_def)
  show ?thesis
    using r n Some requiredMemory_covers [OF Some n(2,1)] by auto
qed

lemma operate_reach:
  assumes pq: "validateStack oper = makeStackFunc p q" and mg: "memGood oper p" and gg: "gasGood oper p"
    and ok: "frameOk m" and vs: "validateStack oper (stack m) = None" and wr: "writes oper \<Longrightarrow> \<not> protected (evm m)"
  obtains (stops) r where "operate cs oper m = Some r" "stepOk m r"
  | (executes) sz g e1 m1 m2 where
      "gasCost oper (gasTable (evm m)) (evm m) (contract m) (stack m) (mem m) sz = Some (Inr g, e1, m1)"
      "halts oper \<or> reverts oper \<or> 1 \<le> unat g"
      "operate cs oper m = map_option (afterExec oper) (execute oper cs m2)"
      "frameOk m2" "goes (evm m) (evm m2)" "evm m2 = e1" "stack m2 = stack m" "inCode m2 = inCode m"
      "unat (Gas (contract m2)) + unat g = unat (Gas (contract m))"
      "\<forall>f n. memorySizeFn oper = Some f \<longrightarrow> f (stack m2) = Some n \<longrightarrow> n \<le> int (MemLen (mem m2))"
proof -
  have st: "p \<le> length (stack m)" "list_all in256 (stack m)"
    using vs ok by (auto simp: pq makeStackFunc_None frameOk_def)
  have e: "evmOk (evm m)" "gasTable_ok (gasTable (evm m))" using ok by (simp_all add: frameOk_def evmOk_def)
  have fail: "stepOk m (Halt (e', contract m, [], Some err))" if "goes (evm m) e'" for e' err
    using that by (simp add: stepOk_def)
  obtain req where req: "requiredMemory oper (stack m) = Some req" and
    rq: "\<And>sz. req = Inr sz \<Longrightarrow> 32 dvd unat sz" "\<And>sz. req = Inr sz \<Longrightarrow> memorySizeFn oper = None \<Longrightarrow> sz = 0"
      "\<And>sz f n. req = Inr sz \<Longrightarrow> memorySizeFn oper = Some f \<Longrightarrow> f (stack m) = Some n \<Longrightarrow> n \<le> int (unat sz)"
    using requiredMemory_ok [OF mg st] by blast
  show thesis
  proof (cases req)
    case (Inl err)
    show thesis by (rule stops) (use Inl req fail goes_refl [OF e(1)] in \<open>simp_all add: operate_def\<close>)
  next
    case (Inr sz)
    obtain r e1 m1 where g: "gasCost oper (gasTable (evm m)) (evm m) (contract m) (stack m) (mem m) sz = Some (r, e1, m1)"
      "goes (evm m) e1" "memStore m1 = memStore (mem m)"
      and gr: "\<And>g. r = Inr g \<Longrightarrow> (halts oper \<or> reverts oper \<or> 1 \<le> unat g) \<and> (memorySizeFn oper \<noteq> None \<longrightarrow> unat sz \<le> memMax)"
      using gg e st wr unfolding gasGood_def by blast
    show thesis
    proof (cases "\<exists>g. r = Inr g \<and> fst (UseGas (contract m) g)")
      case False
      show thesis
        by (rule stops [of "Halt (e1, contract m, [], Some ErrOutOfGas)"], insert False req Inr g fail [OF g(2)], cases r)
          (auto simp: operate_def Let_def split: prod.split)
    next
      case True
      then obtain c c1 where c: "r = Inr c" "UseGas (contract m) c = (True, c1)"
        by (metis prod.collapse)
      define mem2 where "mem2 = (if 0 < sz then Resize m1 sz else m1)"
      let ?m2 = "m\<lparr>evm := e1, contract := c1, mem := mem2\<rparr>"
      have "sz = 0 \<or> unat sz \<le> memMax" using rq(2) [OF Inr] gr [OF c(1)] by auto
      note F = frameOk_charged [OF ok g(2,3) c(2) rq(1) [OF Inr] this, folded mem2_def]
      have "int (unat sz) \<le> int (MemLen mem2)" using F(2) by (simp only: of_nat_le_iff)
      then have cov: "n \<le> int (MemLen (mem ?m2))" if "memorySizeFn oper = Some f" "f (stack ?m2) = Some n" for f n
        using order_trans [OF rq(3) [OF Inr that(1)], of n] that(2) by simp
      note G = UseGas_paid [OF c(2)]
      have op: "operate cs oper m = map_option (afterExec oper) (execute oper cs ?m2)"
        using req Inr g(1) c by (simp add: operate_def Let_def mem2_def map_option_case split: option.split)
      show thesis
        by (rule executes [OF g(1) [unfolded c(1)] _ op F(1)]) (use g(2) gr [OF c(1)] G cov in \<open>auto simp: inCode_def\<close>)
    qed
  qed
qed

lemma opGood_operate:
  assumes op: "opGood oper" and ok: "frameOk m" and vs: "validateStack oper (stack m) = None"
    and wr: "writes oper \<Longrightarrow> \<not> protected (evm m)" and ic: "\<not> halts oper \<Longrightarrow> inCode m"
  shows "\<exists>r. operate cs oper m = Some r \<and> stepOk m r"
proof -
  obtain p q where pq: "validateStack oper = makeStackFunc p q" and ex: "execGood oper p" and mg: "memGood oper p" and gg: "gasGood oper p"
    using op by (auto simp: opGood_def)
  show ?thesis
  proof (rule operate_reach [OF pq mg gg ok vs wr, where cs = cs])
    fix sz g e1 m1 m2
    assume g: "halts oper \<or> reverts oper \<or> 1 \<le> unat g" "unat (Gas (contract m2)) + unat g = unat (Gas (contract m))"
      and o: "operate cs oper m = map_option (afterExec oper) (execute oper cs m2)"
      and m2: "frameOk m2" "goes (evm m) (evm m2)" "stack m2 = stack m" "inCode m2 = inCode m"
      and c: "\<forall>f n. memorySizeFn oper = Some f \<longrightarrow> f (stack m2) = Some n \<longrightarrow> n \<le> int (MemLen (mem m2))"
    have "p \<le> length (stack m2)" using vs m2(3) by (auto simp: pq makeStackFunc_None)
    then obtain m' res err where x: "execute oper cs m2 = Some (m', res, err)" "frameOk m'" "goes (evm m2) (evm m')"
      "contract m' = contract m2" "small res"
      using execGoodD [OF ex m2(1)] m2(3,4) c vs wr ic protected_envEq [OF goes_env [OF m2(2)]] by metis
    have "stepOk m (afterExec oper (m', res, err))"
      using x g goes_trans [OF m2(2) x(3)] by (intro afterExec_ok) auto
    then show ?thesis using x(1) o by simp
  qed auto
qed

end
