(* ===== verification/EVMOps.thy ===== *)
theory EVMOps
  imports EVMInv VMArith
begin

text \<open>
  The instructions that work on the stack alone meet the contract of \<open>EVMInv\<close>: arithmetic,
  comparison, environment, block, push, dup and swap instructions.
\<close>

section \<open>Instructions on the stack alone\<close>

definition pureGood :: "executionFunc \<Rightarrow> nat \<Rightarrow> nat \<Rightarrow> bool" where
  "pureGood ex p q \<longleftrightarrow> (\<forall>cs m. frameOk m \<longrightarrow> p \<le> length (stack m) \<longrightarrow>
     (\<exists>st' pc'. ex cs m = Some (m\<lparr>stack := st', pc := pc'\<rparr>, [], None) \<and> list_all in256 st' \<and>
        length st' + p = length (stack m) + q))"

definition flatGas :: "gasFunc \<Rightarrow> nat \<Rightarrow> bool" where
  "flatGas gc p \<longleftrightarrow> (\<forall>gt e c st m sz. gasTable_ok gt \<longrightarrow> p \<le> length st \<longrightarrow>
     (\<exists>r. gc gt e c st m sz = Some (r, e, m) \<and> (\<forall>g. r = Inr g \<longrightarrow> 1 \<le> unat g)))"

lemma flatGas_const: "1 \<le> unat g \<Longrightarrow> flatGas (constGasFunc g) p"
  by (simp add: flatGas_def constGasFunc_def)

lemma pure_opGood:
  assumes "pureGood (execute oper) p q" "flatGas (gasCost oper) p" "validateStack oper = makeStackFunc p q"
    "memorySizeFn oper = None"
  shows "opGood oper"
  unfolding opGood_def
proof (intro exI conjI)
  show "validateStack oper = makeStackFunc p q" by fact
  show "memGood oper p" using assms(4) by (simp add: memGood_def)
  show "gasGood oper p" unfolding gasGood_def
  proof (intro allI impI)
    fix gt e c m sz and st :: Stack
    assume "gasTable_ok gt" "evmOk e" "p \<le> length st"
    then show "\<exists>r e1 m1. gasCost oper gt e c st m sz = Some (r, e1, m1) \<and> goes e e1 \<and> memStore m1 = memStore m \<and>
        (\<forall>g. r = Inr g \<longrightarrow> (halts oper \<or> reverts oper \<or> 1 \<le> unat g) \<and> (memorySizeFn oper \<noteq> None \<longrightarrow> unat sz \<le> memMax))"
      using assms(2,4) goes_refl [of e] unfolding flatGas_def by metis
  qed
  show "execGood oper p" unfolding execGood_def
  proof (intro allI impI)
    fix cs m
    assume m: "frameOk m" "p \<le> length (stack m)" "validateStack oper (stack m) = None"
    obtain st' pc' where x: "execute oper cs m = Some (m\<lparr>stack := st', pc := pc'\<rparr>, [], None)" "list_all in256 st'"
        "length st' + p = length (stack m) + q"
      using assms(1) m unfolding pureGood_def by blast
    have e: "evmOk (evm m)" using m(1) by (simp add: frameOk_def)
    have "length st' \<le> 1024" using m(3) x(3) by (auto simp: assms(3) makeStackFunc_None)
    then have "frameOk (m\<lparr>stack := st', pc := pc'\<rparr>)"
      using m(1) x(2) by (simp add: frameOk_def)
    then show "\<exists>m' res err. execute oper cs m = Some (m', res, err) \<and> frameOk m' \<and> goes (evm m) (evm m') \<and>
        contract m' = contract m \<and> small res"
      using x(1) goes_refl [OF e] by auto
  qed
qed

lemma frameOk_stack: "frameOk m \<Longrightarrow> list_all in256 (stack m)"
  by (simp add: frameOk_def)

lemma pure_same: "m = m\<lparr>pc := pc m\<rparr>"
  by simp

lemma pure_push:
  assumes "\<And>cs m. ex cs m = Some (m\<lparr>stack := f m # stack m\<rparr>, [], None)" "\<And>m. frameOk m \<Longrightarrow> in256 (f m)"
  shows "pureGood ex 0 1"
  unfolding pureGood_def
proof (intro allI impI)
  fix cs m assume m: "frameOk m"
  show "\<exists>st' pc'. ex cs m = Some (m\<lparr>stack := st', pc := pc'\<rparr>, [], None) \<and> list_all in256 st' \<and>
        length st' + 0 = length (stack m) + 1"
    using assms m frameOk_stack [OF m] by (intro exI [of _ "f m # stack m"] exI [of _ "pc m"]) simp
qed

lemma pure_unary:
  assumes "\<And>cs m x st. frameOk m \<Longrightarrow> stack m = x # st \<Longrightarrow> in256 x \<Longrightarrow>
    ex cs m = Some (m\<lparr>stack := f m x # st\<rparr>, [], None) \<and> in256 (f m x)"
  shows "pureGood ex 1 1"
  unfolding pureGood_def
proof (intro allI impI)
  fix cs m assume m: "frameOk m" "1 \<le> length (stack m)"
  then obtain x st where st: "stack m = x # st" by (cases "stack m") auto
  then have i: "in256 x" "list_all in256 st" using frameOk_stack [OF m(1)] by simp_all
  show "\<exists>st' pc'. ex cs m = Some (m\<lparr>stack := st', pc := pc'\<rparr>, [], None) \<and> list_all in256 st' \<and>
        length st' + 1 = length (stack m) + 1"
    using assms [OF m(1) st i(1)] i st by (intro exI [of _ "f m x # st"] exI [of _ "pc m"]) simp
qed

lemma word_of_in256: "in256 x \<Longrightarrow> \<exists>w :: hash. x = uint w"
  by (rule exI [of _ "of_int x"]) (simp add: uint_word_U256 U256_id)

lemma pure_implements:
  assumes "implements ex f"
  shows "pureGood ex 2 1"
  unfolding pureGood_def
proof (intro allI impI)
  fix cs m assume m: "frameOk m" "2 \<le> length (stack m)"
  then obtain x y st where st: "stack m = x # y # st" by (cases "stack m"; cases "tl (stack m)") auto
  then have i: "in256 x" "in256 y" "list_all in256 st" using frameOk_stack [OF m(1)] by simp_all
  then obtain v w :: hash where "x = uint v" "y = uint w" using word_of_in256 by blast
  with assms st have "ex cs m = Some (m\<lparr>stack := uint (f v w) # st\<rparr>, [], None)" by (simp add: implements_def)
  then show "\<exists>st' pc'. ex cs m = Some (m\<lparr>stack := st', pc := pc'\<rparr>, [], None) \<and> list_all in256 st' \<and>
        length st' + 2 = length (stack m) + 1"
    using st i in256_uint by (intro exI [of _ "uint (f v w) # st"] exI [of _ "pc m"]) simp
qed

lemma pure_ternary: "pureGood opAddmod 3 1" "pureGood opMulmod 3 1"
proof -
  have "\<exists>st' pc'. opAddmod cs m = Some (m\<lparr>stack := st', pc := pc'\<rparr>, [], None) \<and> list_all in256 st' \<and>
        length st' + 3 = length (stack m) + 1"
    "\<exists>st' pc'. opMulmod cs m = Some (m\<lparr>stack := st', pc := pc'\<rparr>, [], None) \<and> list_all in256 st' \<and>
        length st' + 3 = length (stack m) + 1"
    if m: "frameOk m" "3 \<le> length (stack m)" for cs m
  proof -
    obtain x y z st where st: "stack m = x # y # z # st" using m(2)
      by (cases "stack m"; cases "tl (stack m)"; cases "tl (tl (stack m))") auto
    then have i: "list_all in256 st" using frameOk_stack [OF m(1)] by simp
    have z: "in256 0" by (simp add: in256_small)
    show "\<exists>st' pc'. opAddmod cs m = Some (m\<lparr>stack := st', pc := pc'\<rparr>, [], None) \<and> list_all in256 st' \<and>
        length st' + 3 = length (stack m) + 1"
      using st i z by (intro exI [of _ "(if 0 < z then U256 (ModE (x + y) z) else 0) # st"] exI [of _ "pc m"])
        (auto simp: opAddmod_def exec_simps)
    show "\<exists>st' pc'. opMulmod cs m = Some (m\<lparr>stack := st', pc := pc'\<rparr>, [], None) \<and> list_all in256 st' \<and>
        length st' + 3 = length (stack m) + 1"
      using st i z by (intro exI [of _ "(if 0 < z then U256 (ModE (x * y) z) else 0) # st"] exI [of _ "pc m"])
        (auto simp: opMulmod_def exec_simps)
  qed
  then show "pureGood opAddmod 3 1" "pureGood opMulmod 3 1" unfolding pureGood_def by blast+
qed

lemma in256_length: "small xs \<Longrightarrow> in256 (int (length xs))"
  by (rule in256_small) (simp_all add: small_def)

lemma in256_u64: "in256 (uint (x :: u64))"
  using unsigned_less [of x, where 'a = int] by (intro in256_small) simp_all

lemma frameOk_parts:
  assumes "frameOk m"
  shows "in256 (cValue (contract m))" "small (Input (contract m))" "small (Code (contract m))"
    "small (returnData (evm m))" "in256 (GasPrice (ctx (evm m)))" "memOk (mem m)" "evmOk (evm m)"
    "stateOk (sdb (evm m))" "in256 (int (MemLen (mem m)))"
  using assms by (auto simp: frameOk_def contractOk_def evmOk_def memOk_def memMax_def intro: in256_small)

lemma pure_pushes:
  "pureGood opAddress 0 1" "pureGood opOrigin 0 1" "pureGood opCaller 0 1" "pureGood opCallValue 0 1"
  "pureGood opCallDataSize 0 1" "pureGood opReturnDataSize 0 1" "pureGood opCodeSize 0 1" "pureGood opGasprice 0 1"
  "pureGood opCoinbase 0 1" "pureGood opTimestamp 0 1" "pureGood opNumber 0 1" "pureGood opDifficulty 0 1"
  "pureGood opGasLimit 0 1" "pureGood opPc 0 1" "pureGood opMsize 0 1" "pureGood opGas 0 1"
  unfolding opAddress_def opOrigin_def opCaller_def opCallValue_def opCallDataSize_def opReturnDataSize_def opCodeSize_def
      opGasprice_def opCoinbase_def opTimestamp_def opNumber_def opDifficulty_def opGasLimit_def opPc_def opMsize_def
      opGas_def exec_simps
  by (rule pure_push, rule refl, simp add: frameOk_parts in256_length in256_u64)+

lemma SetBytes_in256: "length d \<le> 32 \<Longrightarrow> in256 (SetBytes d)"
proof -
  assume "length d \<le> 32"
  then have "(256 :: int) ^ length d \<le> 256 ^ 32" by (intro power_increasing) simp_all
  then show ?thesis using SetBytes_less [of d] by (simp add: in256_def tt256_def)
qed

lemma pure_unaries:
  "pureGood opIszero 1 1" "pureGood opNot 1 1" "pureGood opCallDataLoad 1 1" "pureGood opBlockhash 1 1"
proof -
  have b: "in256 0" "in256 1" by (simp_all add: in256_small)
  show "pureGood opIszero 1 1"
    by (rule pure_unary [where f = "\<lambda>m x. if 0 < x then 0 else 1"]) (simp add: opIszero_def exec_simps b)
  show "pureGood opNot 1 1"
    by (rule pure_unary [where f = "\<lambda>m x. U256 (not x)"]) (simp add: opNot_def exec_simps)
  show "pureGood opBlockhash 1 1"
    by (rule pure_unary [where f = "\<lambda>m x. if BlockNumber (ctx (evm m)) - 257 < x \<and> x < BlockNumber (ctx (evm m))
        then HashBig (GetHash (ctx (evm m)) (Uint64 x)) else 0"]) (simp add: opBlockhash_def exec_simps b)
  have d: "\<exists>d. getDataBig (Input (contract m)) x 32 = Some d \<and> length d = 32" if "frameOk m" "in256 x" for m x
    using getDataBig_ok [of "Input (contract m)" x 32] frameOk_parts(2) [OF that(1)] in256_nonneg [OF that(2)]
    by (auto simp: small_def)
  show "pureGood opCallDataLoad 1 1"
    by (rule pure_unary [where f = "\<lambda>m x. SetBytes (the (getDataBig (Input (contract m)) x 32))"])
      (use d in \<open>fastforce simp: opCallDataLoad_def exec_simps SetBytes_in256\<close>)
qed

lemma pure_Pop: "pureGood opPop 1 0"
  unfolding pureGood_def
proof (intro allI impI)
  fix cs m assume m: "frameOk m" "1 \<le> length (stack m)"
  then obtain x st where st: "stack m = x # st" by (cases "stack m") auto
  then show "\<exists>st' pc'. opPop cs m = Some (m\<lparr>stack := st', pc := pc'\<rparr>, [], None) \<and> list_all in256 st' \<and>
        length st' + 1 = length (stack m) + 0"
    using frameOk_stack [OF m(1)] by (intro exI [of _ st] exI [of _ "pc m"]) (simp add: opPop_def exec_simps)
qed

lemma pure_none: "pureGood opJumpdest 0 0" "pureGood opStop 0 0"
proof -
  have "\<exists>st' pc'. ok m = Some (m\<lparr>stack := st', pc := pc'\<rparr>, [], None) \<and> list_all in256 st' \<and>
        length st' + 0 = length (stack m) + 0" if m: "frameOk m" for m
    using frameOk_stack [OF m] by (intro exI [of _ "stack m"] exI [of _ "pc m"]) (simp add: ok_def)
  then show "pureGood opJumpdest 0 0" "pureGood opStop 0 0"
    by (simp_all add: pureGood_def opJumpdest_def opStop_def)
qed

lemma pure_dup: "1 \<le> n \<Longrightarrow> pureGood (makeDup n) n (n + 1)"
  unfolding pureGood_def
proof (intro allI impI)
  fix cs m assume m: "1 \<le> n" "frameOk m" "n \<le> length (stack m)"
  then have "in256 (stack m ! (n - 1))" using frameOk_stack [OF m(2)] by (simp add: list_all_length)
  then show "\<exists>st' pc'. makeDup n cs m = Some (m\<lparr>stack := st', pc := pc'\<rparr>, [], None) \<and> list_all in256 st' \<and>
        length st' + n = length (stack m) + (n + 1)"
    using m frameOk_stack [OF m(2)]
    by (intro exI [of _ "stack m ! (n - 1) # stack m"] exI [of _ "pc m"]) (simp add: makeDup_def dup_def exec_simps)
qed

lemma pure_swap: "pureGood (makeSwap n) (n + 1) (n + 1)"
  unfolding pureGood_def
proof (intro allI impI)
  fix cs m assume m: "frameOk m" "n + 1 \<le> length (stack m)"
  let ?st = "(stack m)[0 := stack m ! n, n := stack m ! 0]"
  have "stack m ! n \<in> set (stack m)" "stack m ! 0 \<in> set (stack m)" using m(2) by (auto intro: nth_mem)
  then have "list_all in256 ?st" using frameOk_stack [OF m(1)] unfolding list_all_iff
    by (auto dest!: subsetD [OF set_update_subset_insert])
  then show "\<exists>st' pc'. makeSwap n cs m = Some (m\<lparr>stack := st', pc := pc'\<rparr>, [], None) \<and> list_all in256 st' \<and>
        length st' + (n + 1) = length (stack m) + (n + 1)"
    using m by (intro exI [of _ ?st] exI [of _ "pc m"]) (simp add: makeSwap_def swap_def exec_simps)
qed

text \<open>A PUSH is only executed at a position inside the code, so its operand is read in range.\<close>

lemma makePush_ok:
  assumes m: "frameOk m" and pc: "pc m < of_nat (length (Code (contract m)))" and k: "k \<le> 32"
  shows "\<exists>v. makePush n k cs m = Some (m\<lparr>stack := v # stack m, pc := pc m + n\<rparr>, [], None) \<and> in256 v"
proof -
  let ?c = "Code (contract m)"
  have l: "length ?c \<le> 2 ^ 41" using frameOk_parts(3) [OF m] by (simp add: small_def)
  then have p: "unat (pc m) < length ?c" using pc by (simp add: word_less_nat_alt unat_of_nat)
  then have u: "unat (pc m + 1) = unat (pc m) + 1" using l by (simp add: unat_word_ariths)
  then have s: "sint (pc m + 1) = int (unat (pc m) + 1)" using l p by (subst sint_small) simp_all
  define a where "a = (if sint (pc m + 1) < int (length ?c) then sint (pc m + 1) else int (length ?c))"
  define b where "b = (if a + int k < int (length ?c) then a + int k else int (length ?c))"
  have "0 \<le> sint (pc m + 1)" using s by simp
  then have ab: "0 \<le> a" "a \<le> b" "b \<le> int (length ?c)" "b - a \<le> int k" by (auto simp: a_def b_def)
  then have sl: "slice ?c (nat a) (nat b) = Some (take (nat b - nat a) (drop (nat a) ?c))"
    by (simp add: slice_def nat_le_iff)
  let ?d = "take (nat b - nat a) (drop (nat a) ?c)"
  have "length ?d \<le> k" using ab by simp
  then have "length (RightPadBytes ?d (int k)) \<le> 32" using k by (simp add: length_RightPadBytes)
  then have "in256 (SetBytes (RightPadBytes ?d (int k)))" by (rule SetBytes_in256)
  then show ?thesis using ab sl unfolding makePush_def exec_simps a_def [symmetric] b_def [symmetric]
    by (intro exI [of _ "SetBytes (RightPadBytes ?d (int k))"]) simp
qed

lemma push_opGood:
  assumes oper: "execute oper = makePush n k" "k \<le> 32" "flatGas (gasCost oper) 0" "validateStack oper = makeStackFunc 0 1"
    "memorySizeFn oper = None" "\<not> halts oper"
  shows "opGood oper"
proof -
  have "execGood oper 0" unfolding execGood_def
  proof (intro allI impI)
    fix cs m
    assume m: "frameOk m" "validateStack oper (stack m) = None" "\<not> halts oper \<longrightarrow> inCode m"
    then obtain v where v: "makePush n k cs m = Some (m\<lparr>stack := v # stack m, pc := pc m + n\<rparr>, [], None)" "in256 v"
      using makePush_ok [OF m(1) _ oper(2)] oper(6) unfolding inCode_def by blast
    have "length (stack m) + 1 \<le> 1024" using m(2) by (simp add: oper makeStackFunc_None)
    then have "frameOk (m\<lparr>stack := v # stack m, pc := pc m + n\<rparr>)" using m(1) v(2) by (simp add: frameOk_def)
    then show "\<exists>m' res err. execute oper cs m = Some (m', res, err) \<and> frameOk m' \<and> goes (evm m) (evm m') \<and>
        contract m' = contract m \<and> small res"
      using v(1) goes_refl [OF frameOk_parts(7) [OF m(1)]] oper(1) by auto
  qed
  moreover have "gasGood oper 0" using oper(3,5) goes_refl unfolding flatGas_def gasGood_def by (metis (no_types, lifting))
  ultimately show ?thesis using oper(4,5) unfolding opGood_def memGood_def by auto
qed

end
