(* ===== verification/EVMGas.thy ===== *)
theory EVMGas
  imports EVMInv
begin

text \<open>
  The cost functions that charge for memory (core/vm/gas_table.go): each reads only the stack, and a
  cost it returns is positive and comes with a bounded memory size.
\<close>

text \<open>A cost function that charges for memory and reads only the stack.\<close>

definition memGas :: "gasFunc \<Rightarrow> nat \<Rightarrow> nat \<Rightarrow> bool" where
  "memGas gc p k \<longleftrightarrow> (\<forall>gt e c st m sz. gasTable_ok gt \<longrightarrow> p \<le> length st \<longrightarrow>
     (\<exists>r m1. gc gt e c st m sz = Some (r, e, m1) \<and> memStore m1 = memStore m \<and>
       (\<forall>g. r = Inr g \<longrightarrow> k \<le> unat g \<and> unat sz \<le> memMax)))"

lemma memGas_gasGood:
  assumes "memGas (gasCost oper) p k" "1 \<le> k \<or> halts oper \<or> reverts oper"
  shows "gasGood oper p"
  unfolding gasGood_def
proof (intro allI impI)
  fix gt e c m sz and st :: Stack
  assume a: "gasTable_ok gt" "evmOk e" "p \<le> length st"
  obtain r m1 where r: "gasCost oper gt e c st m sz = Some (r, e, m1)" "memStore m1 = memStore m"
    "\<And>g. r = Inr g \<Longrightarrow> k \<le> unat g \<and> unat sz \<le> memMax"
    using assms(1) a(1,3) unfolding memGas_def by blast
  show "\<exists>r e1 m1. gasCost oper gt e c st m sz = Some (r, e1, m1) \<and> goes e e1 \<and> memStore m1 = memStore m \<and>
        (\<forall>g. r = Inr g \<longrightarrow> (halts oper \<or> reverts oper \<or> 1 \<le> unat g) \<and> (memorySizeFn oper \<noteq> None \<longrightarrow> unat sz \<le> memMax))"
  proof (intro exI conjI allI impI)
    show "gasCost oper gt e c st m sz = Some (r, e, m1)" by fact
    show "goes e e" using a(2) by (rule goes_refl)
    show "memStore m1 = memStore m" by fact
    show "halts oper \<or> reverts oper \<or> 1 \<le> unat g" if "r = Inr g" for g using r(3) [OF that] assms(2) by linarith
    show "unat sz \<le> memMax" if "r = Inr g" for g using r(3) [OF that] by blast
  qed
qed

lemma checkedAdd: "checked (SafeAdd a b) = Inr g \<Longrightarrow> unat g = unat a + unat b"
proof -
  assume "checked (SafeAdd a b) = Inr g"
  then have "SafeAdd a b = (g, False)" by (simp add: prod_eq_iff)
  then show ?thesis by (simp add: SafeAdd_eq u64_add_unat)
qed

lemma Back_ok: "n < length st \<Longrightarrow> Back st n = Some (st ! n)"
  by (simp add: Back_def index_def)

lemma memGas_const:
  assumes "memoryGasCost m sz = (r, m')" "ebind r (\<lambda>gas. checked (SafeAdd gas k)) = Inr g"
  shows "unat k \<le> unat g" "unat sz \<le> memMax"
  using assms by (auto simp: ebind_Inr simp del: checked_Inr dest!: checkedAdd intro: memoryGasCost_bound)

lemma memGas_words:
  assumes "memoryGasCost m sz = (r, m')"
    "ebind r (\<lambda>gas. ebind (checked (SafeAdd gas k)) (\<lambda>gas. ebind x (\<lambda>w. ebind (y w) (\<lambda>w. checked (SafeAdd gas w))))) = Inr g"
  shows "unat k \<le> unat g" "unat sz \<le> memMax"
  using assms by (auto simp: ebind_Inr simp del: checked_Inr dest!: checkedAdd intro: memoryGasCost_bound)

lemma memGas_log:
  assumes "memoryGasCost m sz = (r, m')"
    "ebind r (\<lambda>gas. ebind (checked (SafeAdd gas k)) (\<lambda>gas. ebind (checked (SafeAdd gas n)) (\<lambda>gas. ebind x (\<lambda>w. checked (SafeAdd gas w))))) = Inr g"
  shows "unat k \<le> unat g" "unat sz \<le> memMax"
  using assms by (auto simp: ebind_Inr simp del: checked_Inr dest!: checkedAdd intro: memoryGasCost_bound)

lemma memGasI:
  assumes "\<And>gt e c st m sz r m'. gasTable_ok gt \<Longrightarrow> p \<le> length st \<Longrightarrow> memoryGasCost m sz = (r, m') \<Longrightarrow>
    gc gt e c st m sz = Some (f gt st r, e, m') \<and> (\<forall>g. f gt st r = Inr g \<longrightarrow> k \<le> unat g \<and> unat sz \<le> memMax)"
  shows "memGas gc p k"
  unfolding memGas_def
proof (intro allI impI)
  fix gt e c m sz and st :: Stack
  assume a: "gasTable_ok gt" "p \<le> length st"
  obtain r m' where r: "memoryGasCost m sz = (r, m')" by fastforce
  show "\<exists>r m1. gc gt e c st m sz = Some (r, e, m1) \<and> memStore m1 = memStore m \<and>
       (\<forall>g. r = Inr g \<longrightarrow> k \<le> unat g \<and> unat sz \<le> memMax)"
    using assms [OF a r] memoryGasCost_store [OF r] by blast
qed

lemma memGas_simple:
  "memGas gasMLoad p 1" "memGas gasMStore p 1" "memGas gasMStore8 p 1" "memGas gasCreate p 32000"
  "memGas gasReturn p 0" "memGas gasRevert p 0"
proof -
  have c: "\<forall>g. ebind r (\<lambda>gas. checked (SafeAdd gas k)) = Inr g \<longrightarrow> unat k \<le> unat g \<and> unat sz \<le> memMax"
    if "memoryGasCost m sz = (r, m')" for k m sz r m'
    using memGas_const [OF that] by blast
  have f: "1 \<le> unat GasFastestStep" by (simp add: params)
  show "memGas gasMLoad p 1" "memGas gasMStore p 1" "memGas gasMStore8 p 1"
    using c [where k = GasFastestStep] f
    by (intro memGasI [where f = "\<lambda>gt st r. ebind r (\<lambda>gas. checked (SafeAdd gas GasFastestStep))"];
      fastforce simp: gasMLoad_def gasMStore_def gasMStore8_def simp del: checked_Inr)+
  have f': "32000 \<le> unat CreateGas" by (simp add: params)
  show "memGas gasCreate p 32000"
    using c [where k = CreateGas] f'
    by (intro memGasI [where f = "\<lambda>gt st r. ebind r (\<lambda>gas. checked (SafeAdd gas CreateGas))"];
      fastforce simp: gasCreate_def simp del: checked_Inr)
  show "memGas gasReturn p 0" "memGas gasRevert p 0"
    by (rule memGasI [where f = "\<lambda>gt st r. r"]; auto simp: gasReturn_def gasRevert_def intro: memoryGasCost_bound)+
qed

lemma memGas_copy:
  "memGas gasCallDataCopy 3 1" "memGas gasReturnDataCopy 3 1" "memGas gasCodeCopy 3 1" "memGas gasExtCodeCopy 4 1" "memGas gasSha3 2 1"
proof -
  have c: "\<forall>g. ebind r (\<lambda>gas. ebind (checked (SafeAdd gas k)) (\<lambda>gas. ebind x (\<lambda>w. ebind (y w) (\<lambda>w. checked (SafeAdd gas w))))) = Inr g
      \<longrightarrow> 1 \<le> unat g \<and> unat sz \<le> memMax"
    if "memoryGasCost m sz = (r, m')" "1 \<le> unat k" for k m sz r m' and x :: "vmError + 'a" and y
    using memGas_words [OF that(1)] that(2) order_trans by blast
  have f: "1 \<le> unat GasFastestStep" "1 \<le> unat Sha3Gas" by (simp_all add: params)
  let ?f = "\<lambda>k n (y :: u64 \<Rightarrow> vmError + u64) gt st r.
    ebind r (\<lambda>gas. ebind (checked (SafeAdd gas (k gt))) (\<lambda>gas.
      ebind (checked (bigUint64 (st ! n))) (\<lambda>w. ebind (y w) (\<lambda>w. checked (SafeAdd gas w)))))"
  let ?c = "\<lambda>w. checked (SafeMul (toWordSize w) CopyGas)"
  show "memGas gasCallDataCopy 3 1" "memGas gasReturnDataCopy 3 1" "memGas gasCodeCopy 3 1"
    by (rule memGasI [where f = "?f (\<lambda>_. GasFastestStep) 2 ?c"], rule conjI,
      simp add: gasCallDataCopy_def gasReturnDataCopy_def gasCodeCopy_def Back_ok del: checked_Inr,
      rule c, assumption, rule f)+
  have "1 \<le> unat (ExtcodeCopy gt)" if "gasTable_ok gt" for gt using gasTable_okD(2) [OF that] by simp
  then show "memGas gasExtCodeCopy 4 1"
    by (intro memGasI [where f = "?f ExtcodeCopy 3 ?c"] conjI c) (simp_all add: gasExtCodeCopy_def Back_ok del: checked_Inr)
  show "memGas gasSha3 2 1"
    by (intro memGasI [where f = "?f (\<lambda>_. Sha3Gas) 1 (\<lambda>w. checked (SafeMul (toWordSize w) Sha3WordGas))"] conjI c)
      (simp_all add: gasSha3_def Back_ok f params del: checked_Inr)
qed

lemma memGas_Log: "memGas (makeGasLog n) 2 1"
proof -
  have f: "1 \<le> unat LogGas" by (simp add: params)
  let ?f = "\<lambda>r rs. ebind r (\<lambda>gas. ebind (checked (SafeAdd gas LogGas)) (\<lambda>gas.
    ebind (checked (SafeAdd gas (n * LogTopicGas))) (\<lambda>gas. ebind (checked (SafeMul rs LogDataGas)) (\<lambda>w. checked (SafeAdd gas w)))))"
  show ?thesis unfolding memGas_def
  proof (intro allI impI)
    fix gt e c m sz and st :: Stack
    assume l: "2 \<le> length st"
    obtain r m' where r: "memoryGasCost m sz = (r, m')" by fastforce
    show "\<exists>r m1. makeGasLog n gt e c st m sz = Some (r, e, m1) \<and> memStore m1 = memStore m \<and>
         (\<forall>g. r = Inr g \<longrightarrow> 1 \<le> unat g \<and> unat sz \<le> memMax)"
    proof (cases "checked (bigUint64 (st ! 1))")
      case (Inl err)
      then show ?thesis using l by (simp add: makeGasLog_def Back_ok)
    next
      case (Inr rs)
      then have "makeGasLog n gt e c st m sz = Some (?f r rs, e, m')"
        using l r by (simp add: makeGasLog_def Back_ok del: checked_Inr)
      moreover have "1 \<le> unat g \<and> unat sz \<le> memMax" if "?f r rs = Inr g" for g
        using memGas_log [OF r that] f by linarith
      ultimately show ?thesis using memoryGasCost_store [OF r] by blast
    qed
  qed
qed

end
