(* ===== verification/EVMMem.thy ===== *)
theory EVMMem
  imports EVMOps EVMGas
begin

text \<open>
  The instructions that touch memory, code, storage, logs or the program counter meet the contract of
  \<open>EVMInv\<close>.
\<close>

section \<open>Common lemmas\<close>

text \<open>The result of an instruction that makes no call, leaving at most \<open>n\<close> operands.\<close>

definition fine :: "machine \<Rightarrow> nat \<Rightarrow> execResult option \<Rightarrow> bool" where
  "fine m n r \<longleftrightarrow> (\<exists>m' res err. r = Some (m', res, err) \<and> contract m' = contract m \<and> goes (evm m) (evm m') \<and>
     memOk (mem m') \<and> list_all in256 (stack m') \<and> length (stack m') \<le> n \<and> small res)"

lemma fine_Some [simp]:
  "fine m n (Some (m', res, err)) \<longleftrightarrow> contract m' = contract m \<and> goes (evm m) (evm m') \<and> memOk (mem m') \<and>
     list_all in256 (stack m') \<and> length (stack m') \<le> n \<and> small res"
  by (simp add: fine_def)

text \<open>The requests of an instruction are inside the memory.\<close>

definition covered :: "operation \<Rightarrow> machine \<Rightarrow> bool" where
  "covered oper m \<longleftrightarrow> (\<forall>f n. memorySizeFn oper = Some f \<longrightarrow> f (stack m) = Some n \<longrightarrow> n \<le> int (MemLen (mem m)))"

lemma coveredD: "covered oper m \<Longrightarrow> memorySizeFn oper = Some f \<Longrightarrow> f (stack m) = Some n \<Longrightarrow> n \<le> int (MemLen (mem m))"
  by (simp add: covered_def)

lemma execGoodI:
  assumes v: "validateStack oper = makeStackFunc p q"
    and x: "\<And>cs m. frameOk m \<Longrightarrow> p \<le> length (stack m) \<Longrightarrow> (writes oper \<Longrightarrow> \<not> protected (evm m)) \<Longrightarrow> (\<not> halts oper \<Longrightarrow> inCode m) \<Longrightarrow>
      covered oper m \<Longrightarrow> fine m (length (stack m) + q - p) (execute oper cs m)"
  shows "execGood oper p"
  unfolding execGood_def
proof (intro allI impI)
  fix cs m
  assume m: "frameOk m" "p \<le> length (stack m)" "validateStack oper (stack m) = None"
    "writes oper \<longrightarrow> \<not> protected (evm m)" "\<not> halts oper \<longrightarrow> inCode m"
    "\<forall>f n. memorySizeFn oper = Some f \<longrightarrow> f (stack m) = Some n \<longrightarrow> n \<le> int (MemLen (mem m))"
  then obtain m' res err where r: "execute oper cs m = Some (m', res, err)" "contract m' = contract m" "goes (evm m) (evm m')"
    "memOk (mem m')" "list_all in256 (stack m')" "length (stack m') \<le> length (stack m) + q - p" "small res"
    using x [of m cs] unfolding fine_def covered_def by blast
  have "length (stack m') \<le> 1024" using m(3) r(6) by (auto simp: v makeStackFunc_None)
  then have "frameOk m'" using m(1) r goes_evmOk [OF _ r(3)] goes_ext [OF r(3)] by (simp add: frameOk_def)
  with r show "\<exists>m' res err. execute oper cs m = Some (m', res, err) \<and> frameOk m' \<and> goes (evm m) (evm m') \<and>
        contract m' = contract m \<and> small res" by blast
qed

lemmas stack_split = Suc_le_length_iff eval_nat_numeral

lemma calcMemSize_nonneg: "in256 x \<Longrightarrow> in256 y \<Longrightarrow> 0 \<le> calcMemSize x y"
  by (simp add: calcMemSize_def in256_def)

lemma calcMemSize_covers: "calcMemSize off sz \<le> n \<Longrightarrow> sz = 0 \<or> off + sz \<le> n"
  by (simp add: calcMemSize_def split: if_splits)

lemma in256_consts [simp]: "in256 0" "in256 1" "in256 32"
  by (simp_all add: in256_small)

lemma memGood_fns:
  "memorySizeFn oper = None \<Longrightarrow> memGood oper p"
  "memorySizeFn oper = Some memorySha3 \<Longrightarrow> memGood oper 2" "memorySizeFn oper = Some memoryCallDataCopy \<Longrightarrow> memGood oper 3"
  "memorySizeFn oper = Some memoryReturnDataCopy \<Longrightarrow> memGood oper 3" "memorySizeFn oper = Some memoryCodeCopy \<Longrightarrow> memGood oper 3"
  "memorySizeFn oper = Some memoryExtCodeCopy \<Longrightarrow> memGood oper 4" "memorySizeFn oper = Some memoryMLoad \<Longrightarrow> memGood oper 1"
  "memorySizeFn oper = Some memoryMStore8 \<Longrightarrow> memGood oper 2" "memorySizeFn oper = Some memoryMStore \<Longrightarrow> memGood oper 2"
  "memorySizeFn oper = Some memoryCreate \<Longrightarrow> memGood oper 3" "memorySizeFn oper = Some memoryReturn \<Longrightarrow> memGood oper 2"
  "memorySizeFn oper = Some memoryRevert \<Longrightarrow> memGood oper 2" "memorySizeFn oper = Some memoryLog \<Longrightarrow> memGood oper (n + 2)"
  by (auto simp: memGood_def stack_split memorySha3_def memoryCallDataCopy_def memoryReturnDataCopy_def memoryCodeCopy_def
      memoryExtCodeCopy_def memoryMLoad_def memoryMStore8_def memoryMStore_def memoryCreate_def memoryReturn_def
      memoryRevert_def memoryLog_def calcMemSize_nonneg)

lemma memOpGood:
  assumes "validateStack oper = makeStackFunc p q" "execGood oper p" "memGood oper p" "memGas (gasCost oper) p k"
    "1 \<le> k \<or> halts oper \<or> reverts oper"
  shows "opGood oper"
  using assms memGas_gasGood [OF assms(4,5)] unfolding opGood_def by blast

lemma MemGet_covered:
  assumes "frameOk m" "in256 off" "in256 sz" "calcMemSize off sz \<le> int (MemLen (mem m))"
  shows "\<exists>d. MemGet (mem m) (Int64 off) (Int64 sz) = Some d \<and> length d = nat sz \<and> small d"
proof -
  have c: "sz = 0 \<or> off + sz \<le> int (MemLen (mem m))" by (rule calcMemSize_covers [OF assms(4)])
  obtain d where d: "MemGet (mem m) (Int64 off) (Int64 sz) = Some d" "length d = nat sz"
    using MemGet_ok [OF frameOk_parts(6) [OF assms(1)] in256_nonneg in256_nonneg c] assms(2,3) by blast
  have "nat sz \<le> MemLen (mem m)" using c in256_nonneg [OF assms(2)] by auto
  then have "small d" using d(2) frameOk_parts(6) [OF assms(1)] by (simp add: small_def memOk_def memMax_def)
  with d show ?thesis by blast
qed

lemma GetPtr_covered:
  assumes "frameOk m" "in256 off" "in256 sz" "calcMemSize off sz \<le> int (MemLen (mem m))"
  shows "\<exists>d. GetPtr (mem m) (Int64 off) (Int64 sz) = Some d \<and> small d"
proof -
  have c: "sz = 0 \<or> off + sz \<le> int (MemLen (mem m))" by (rule calcMemSize_covers [OF assms(4)])
  obtain d where d: "GetPtr (mem m) (Int64 off) (Int64 sz) = Some d" "length d = nat sz"
    using GetPtr_ok [OF frameOk_parts(6) [OF assms(1)] in256_nonneg in256_nonneg c] assms(2,3) by blast
  have "nat sz \<le> MemLen (mem m)" using c in256_nonneg [OF assms(2)] by auto
  then have "small d" using d(2) frameOk_parts(6) [OF assms(1)] by (simp add: small_def memOk_def memMax_def)
  with d show ?thesis by blast
qed

lemma MemSet_covered:
  assumes "frameOk m" "in256 off" "in256 sz" "calcMemSize off sz \<le> int (MemLen (mem m))"
  shows "\<exists>mm. MemSet (mem m) (Uint64 off) (Uint64 sz) d = Some mm \<and> memOk mm \<and> MemLen mm = MemLen (mem m)"
  using MemSet_ok [OF frameOk_parts(6) [OF assms(1)] in256_nonneg [OF assms(2)] in256_nonneg [OF assms(3)]
      calcMemSize_covers [OF assms(4)]] by blast

lemma getDataBig_covered:
  assumes "frameOk m" "in256 off" "in256 sz" "calcMemSize off sz \<le> int (MemLen (mem m))" "small data" "in256 start"
  shows "\<exists>d. getDataBig data start sz = Some d"
proof -
  have "sz \<le> int memMax" using calcMemSize_covers [OF assms(4)] frameOk_parts(6) [OF assms(1)] in256_nonneg [OF assms(2)]
    by (auto simp: memOk_def)
  then have "sz < 2 ^ 63" by (simp add: memMax_def)
  then show ?thesis using getDataBig_ok [of data start sz] assms in256_nonneg by (auto simp: small_def)
qed

lemmas memGood_rules = memGood_fns memGood_fns [unfolded One_nat_def]

lemmas memGas_rules = memGas_simple memGas_copy memGas_Log
  memGas_simple [unfolded One_nat_def] memGas_copy [unfolded One_nat_def] memGas_Log [unfolded One_nat_def]

lemmas op_simps = mkOp_def exec_simps

lemma goes_self [simp]: "frameOk m \<Longrightarrow> goes (evm m) (evm m)"
  by (simp add: frameOk_def goes_refl)

lemma memOk_self [simp]: "frameOk m \<Longrightarrow> memOk (mem m)"
  by (simp add: frameOk_def)

section \<open>Hashing, copying, loading and storing\<close>

lemma opGood_SHA3: "opGood ((mkOp opSha3 gasSha3 (makeStackFunc 2 1))\<lparr>memorySizeFn := Some memorySha3\<rparr>)" (is "opGood ?op")
proof (rule memOpGood [where p = 2 and q = 1 and k = 1])
  show "execGood ?op 2"
  proof (rule execGoodI [where q = 1])
    fix cs m
    assume m: "frameOk m" "2 \<le> length (stack m)" "covered ?op m"
    obtain off sz st where st: "stack m = off # sz # st" using m(2) by (auto simp: stack_split)
    then have i: "in256 off" "in256 sz" "list_all in256 st" using frameOk_stack [OF m(1)] by simp_all
    have "calcMemSize off sz \<le> int (MemLen (mem m))" using m(3) st by (simp add: covered_def memorySha3_def eval_nat_numeral)
    then obtain d where d: "MemGet (mem m) (Int64 off) (Int64 sz) = Some d" using MemGet_covered [OF m(1) i(1,2)] by blast
    show "fine m (length (stack m) + 1 - 2) (execute ?op cs m)"
      using frameOk_parts(7,8) [OF m(1)] m(1) st d i
      by (simp add: op_simps opSha3_def goes_quiet quiet_preimage SetBytes_in256 length_HashBytes)
  qed (simp add: mkOp_def)
qed (simp_all add: mkOp_def memGood_rules memGas_rules)

lemma copy_covered:
  assumes "frameOk m" "in256 off" "in256 sz" "calcMemSize off sz \<le> int (MemLen (mem m))" "small data" "in256 start"
  obtains d mm where "getDataBig data start sz = Some d" "MemSet (mem m) (Uint64 off) (Uint64 sz) d = Some mm" "memOk mm"
  using getDataBig_covered [OF assms] MemSet_covered [OF assms(1-4)] by blast

lemma opGood_CALLDATACOPY:
  "opGood ((mkOp opCallDataCopy gasCallDataCopy (makeStackFunc 3 0))\<lparr>memorySizeFn := Some memoryCallDataCopy\<rparr>)" (is "opGood ?op")
proof (rule memOpGood [where p = 3 and q = 0 and k = 1])
  show "execGood ?op 3"
  proof (rule execGoodI [where q = 0])
    fix cs m
    assume m: "frameOk m" "3 \<le> length (stack m)" "covered ?op m"
    obtain off start sz st where st: "stack m = off # start # sz # st" using m(2) by (auto simp: stack_split)
    then have i: "in256 off" "in256 start" "in256 sz" "list_all in256 st" using frameOk_stack [OF m(1)] by simp_all
    have "calcMemSize off sz \<le> int (MemLen (mem m))" using m(3) st by (simp add: covered_def memoryCallDataCopy_def eval_nat_numeral)
    then obtain d mm where "getDataBig (Input (contract m)) start sz = Some d"
      "MemSet (mem m) (Uint64 off) (Uint64 sz) d = Some mm" "memOk mm"
      using copy_covered [OF m(1) i(1,3) _ frameOk_parts(2) [OF m(1)] i(2)] by blast
    then show "fine m (length (stack m) + 0 - 3) (execute ?op cs m)"
      using m(1) st i by (simp add: op_simps opCallDataCopy_def)
  qed (simp add: mkOp_def)
qed (simp_all add: mkOp_def memGood_rules memGas_rules)

lemma opGood_CODECOPY:
  "opGood ((mkOp opCodeCopy gasCodeCopy (makeStackFunc 3 0))\<lparr>memorySizeFn := Some memoryCodeCopy\<rparr>)" (is "opGood ?op")
proof (rule memOpGood [where p = 3 and q = 0 and k = 1])
  show "execGood ?op 3"
  proof (rule execGoodI [where q = 0])
    fix cs m
    assume m: "frameOk m" "3 \<le> length (stack m)" "covered ?op m"
    obtain off start sz st where st: "stack m = off # start # sz # st" using m(2) by (auto simp: stack_split)
    then have i: "in256 off" "in256 start" "in256 sz" "list_all in256 st" using frameOk_stack [OF m(1)] by simp_all
    have "calcMemSize off sz \<le> int (MemLen (mem m))" using m(3) st by (simp add: covered_def memoryCodeCopy_def eval_nat_numeral)
    then obtain d mm where "getDataBig (Code (contract m)) start sz = Some d"
      "MemSet (mem m) (Uint64 off) (Uint64 sz) d = Some mm" "memOk mm"
      using copy_covered [OF m(1) i(1,3) _ frameOk_parts(3) [OF m(1)] i(2)] by blast
    then show "fine m (length (stack m) + 0 - 3) (execute ?op cs m)"
      using m(1) st i by (simp add: op_simps opCodeCopy_def)
  qed (simp add: mkOp_def)
qed (simp_all add: mkOp_def memGood_rules memGas_rules)

lemma stateOk_code: "stateOk s \<Longrightarrow> small (wCode (view s) a)"
  by (simp add: stateOk_def worldOk_def)

lemma opGood_EXTCODECOPY:
  "opGood ((mkOp opExtCodeCopy gasExtCodeCopy (makeStackFunc 4 0))\<lparr>memorySizeFn := Some memoryExtCodeCopy\<rparr>)" (is "opGood ?op")
proof (rule memOpGood [where p = 4 and q = 0 and k = 1])
  show "execGood ?op 4"
  proof (rule execGoodI [where q = 0])
    fix cs m
    assume m: "frameOk m" "4 \<le> length (stack m)" "covered ?op m"
    obtain a off start sz st where st: "stack m = a # off # start # sz # st" using m(2) by (auto simp: stack_split)
    then have i: "in256 off" "in256 start" "in256 sz" "list_all in256 st" using frameOk_stack [OF m(1)] by simp_all
    note s = frameOk_parts(7,8) [OF m(1)]
    obtain code t where g: "GetCode (sdb (evm m)) (BigToAddress a) = (code, t)" by fastforce
    then have "small code" "quiet (sdb (evm m)) t"
      using GetCode_spec(3) [OF stateOk_dbInv [OF s(2)]] stateOk_code [OF s(2)] quiet_reads(2) [OF s(2)] by (metis fst_conv, metis snd_conv)
    have "calcMemSize off sz \<le> int (MemLen (mem m))" using m(3) st by (simp add: covered_def memoryExtCodeCopy_def eval_nat_numeral)
    then obtain d mm where "getDataBig code start sz = Some d"
      "MemSet (mem m) (Uint64 off) (Uint64 sz) d = Some mm" "memOk mm"
      using copy_covered [OF m(1) i(1,3) _ \<open>small code\<close> i(2)] by blast
    then show "fine m (length (stack m) + 0 - 4) (execute ?op cs m)"
      using s st i g \<open>quiet (sdb (evm m)) t\<close> by (simp add: op_simps opExtCodeCopy_def goes_quiet)
  qed (simp add: mkOp_def)
qed (simp_all add: mkOp_def memGood_rules memGas_rules)

lemma opGood_MLOAD: "opGood ((mkOp opMload gasMLoad (makeStackFunc 1 1))\<lparr>memorySizeFn := Some memoryMLoad\<rparr>)" (is "opGood ?op")
proof (rule memOpGood [where p = 1 and q = 1 and k = 1])
  show "execGood ?op 1"
  proof (rule execGoodI [where q = 1])
    fix cs m
    assume m: "frameOk m" "1 \<le> length (stack m)" "covered ?op m"
    obtain off st where st: "stack m = off # st" using m(2) by (auto simp: stack_split)
    then have i: "in256 off" "list_all in256 st" using frameOk_stack [OF m(1)] by simp_all
    have "calcMemSize off 32 \<le> int (MemLen (mem m))" using m(3) st by (simp add: covered_def memoryMLoad_def)
    then obtain d where d: "MemGet (mem m) (Int64 off) (Int64 32) = Some d" "length d = 32"
      using MemGet_covered [OF m(1) i(1), of 32] by auto
    have "Int64 32 = 32" by (simp add: Int64_small)
    with d show "fine m (length (stack m) + 1 - 1) (execute ?op cs m)"
      using m(1) st i by (simp add: op_simps opMload_def SetBytes_in256)
  qed (simp add: mkOp_def)
qed (simp_all add: mkOp_def memGood_rules memGas_rules)

lemma opGood_MSTORE: "opGood ((mkOp opMstore gasMStore (makeStackFunc 2 0))\<lparr>memorySizeFn := Some memoryMStore\<rparr>)" (is "opGood ?op")
proof (rule memOpGood [where p = 2 and q = 0 and k = 1])
  show "execGood ?op 2"
  proof (rule execGoodI [where q = 0])
    fix cs m
    assume m: "frameOk m" "2 \<le> length (stack m)" "covered ?op m"
    obtain off v st where st: "stack m = off # v # st" using m(2) by (auto simp: stack_split)
    then have i: "in256 off" "list_all in256 st" using frameOk_stack [OF m(1)] by simp_all
    have "calcMemSize off 32 \<le> int (MemLen (mem m))" using m(3) st by (simp add: covered_def memoryMStore_def)
    then obtain mm where d: "MemSet (mem m) (Uint64 off) (Uint64 32) (PaddedBigBytes v 32) = Some mm" "memOk mm"
      using MemSet_covered [OF m(1) i(1), of 32] by auto
    have "Uint64 32 = 32" by (simp add: Uint64_def)
    with d show "fine m (length (stack m) + 0 - 2) (execute ?op cs m)"
      using m(1) st i by (simp add: op_simps opMstore_def)
  qed (simp add: mkOp_def)
qed (simp_all add: mkOp_def memGood_rules memGas_rules)

lemma opGood_MSTORE8: "opGood ((mkOp opMstore8 gasMStore8 (makeStackFunc 2 0))\<lparr>memorySizeFn := Some memoryMStore8\<rparr>)" (is "opGood ?op")
proof (rule memOpGood [where p = 2 and q = 0 and k = 1])
  show "execGood ?op 2"
  proof (rule execGoodI [where q = 0])
    fix cs m
    assume m: "frameOk m" "2 \<le> length (stack m)" "covered ?op m"
    obtain off v st where st: "stack m = off # v # st" using m(2) by (auto simp: stack_split)
    then have i: "in256 off" "list_all in256 st" using frameOk_stack [OF m(1)] by simp_all
    have c: "off + 1 \<le> int (MemLen (mem m))" using m(3) st by (simp add: covered_def memoryMStore8_def calcMemSize_def)
    then have "Int64 off = off" using in256_nonneg [OF i(1)] memOk_self [OF m(1)] by (intro Int64_range) (auto simp: memOk_def)
    then show "fine m (length (stack m) + 0 - 2) (execute ?op cs m)"
      using m(1) st i c in256_nonneg [OF i(1)] memOk_self [OF m(1)] by (simp add: op_simps opMstore8_def memOk_def MemLen_def)
  qed (simp add: mkOp_def)
qed (simp_all add: mkOp_def memGood_rules memGas_rules)

lemma opGood_RETURNDATACOPY:
  "opGood ((mkOp opReturnDataCopy gasReturnDataCopy (makeStackFunc 3 0))\<lparr>memorySizeFn := Some memoryReturnDataCopy\<rparr>)" (is "opGood ?op")
proof (rule memOpGood [where p = 3 and q = 0 and k = 1])
  show "execGood ?op 3"
  proof (rule execGoodI [where q = 0])
    fix cs m
    assume m: "frameOk m" "3 \<le> length (stack m)" "covered ?op m"
    obtain off start sz st where st: "stack m = off # start # sz # st" using m(2) by (auto simp: stack_split)
    then have i: "in256 off" "in256 start" "in256 sz" "list_all in256 st" using frameOk_stack [OF m(1)] by simp_all
    let ?rd = "returnData (evm m)"
    have rd: "length ?rd \<le> 2 ^ 41" using frameOk_parts(4) [OF m(1)] by (simp add: small_def)
    show "fine m (length (stack m) + 0 - 3) (execute ?op cs m)"
    proof (cases "64 < BitLen (start + sz) \<or> of_nat (length ?rd) < Uint64 (start + sz)")
      case True
      then show ?thesis using m(1) st i by (simp add: op_simps opReturnDataCopy_def)
    next
      case False
      have n: "0 \<le> start" "0 \<le> sz" using i by (simp_all add: in256_nonneg)
      then have lt: "start + sz < 2 ^ 64" using False BitLen_gt_64 [of "start + sz"] by simp
      have u: "unat (Uint64 (start + sz)) = nat (start + sz)" "unat (Uint64 start) = nat start"
        using n lt by (simp_all add: unat_Uint64)
      have "unat (of_nat (length ?rd) :: u64) = length ?rd" using rd by (simp add: unat_of_nat)
      then have "nat (start + sz) \<le> length ?rd" using False u by (simp add: word_less_nat_alt not_less)
      then obtain d where "slice ?rd (unat (Uint64 start)) (unat (Uint64 (start + sz))) = Some d"
        using n by (simp add: u slice_def nat_mono)
      moreover have "calcMemSize off sz \<le> int (MemLen (mem m))"
        using m(3) st by (simp add: covered_def memoryReturnDataCopy_def eval_nat_numeral)
      then obtain mm where "MemSet (mem m) (Uint64 off) (Uint64 sz) d = Some mm" "memOk mm"
        using MemSet_covered [OF m(1) i(1,3)] by blast
      ultimately show ?thesis using False m(1) st i by (simp add: op_simps opReturnDataCopy_def)
    qed
  qed (simp add: mkOp_def)
qed (simp_all add: mkOp_def memGood_rules memGas_rules)

lemma opGood_RETURN:
  "opGood ((mkOp opReturn gasReturn (makeStackFunc 2 0))\<lparr>memorySizeFn := Some memoryReturn, halts := True\<rparr>)" (is "opGood ?op")
proof (rule memOpGood [where p = 2 and q = 0 and k = 0])
  show "execGood ?op 2"
  proof (rule execGoodI [where q = 0])
    fix cs m
    assume m: "frameOk m" "2 \<le> length (stack m)" "covered ?op m"
    obtain off sz st where st: "stack m = off # sz # st" using m(2) by (auto simp: stack_split)
    then have i: "in256 off" "in256 sz" "list_all in256 st" using frameOk_stack [OF m(1)] by simp_all
    have "calcMemSize off sz \<le> int (MemLen (mem m))" using m(3) st by (simp add: covered_def memoryReturn_def eval_nat_numeral)
    then obtain d where "GetPtr (mem m) (Int64 off) (Int64 sz) = Some d" "small d" using GetPtr_covered [OF m(1) i(1,2)] by blast
    then show "fine m (length (stack m) + 0 - 2) (execute ?op cs m)" using m(1) st i by (simp add: op_simps opReturn_def)
  qed (simp add: mkOp_def)
qed (simp_all add: mkOp_def memGood_rules memGas_rules)

lemma opGood_REVERT:
  "opGood ((mkOp opRevert gasRevert (makeStackFunc 2 0))\<lparr>memorySizeFn := Some memoryRevert, reverts := True, returns := True\<rparr>)" (is "opGood ?op")
proof (rule memOpGood [where p = 2 and q = 0 and k = 0])
  show "execGood ?op 2"
  proof (rule execGoodI [where q = 0])
    fix cs m
    assume m: "frameOk m" "2 \<le> length (stack m)" "covered ?op m"
    obtain off sz st where st: "stack m = off # sz # st" using m(2) by (auto simp: stack_split)
    then have i: "in256 off" "in256 sz" "list_all in256 st" using frameOk_stack [OF m(1)] by simp_all
    have "calcMemSize off sz \<le> int (MemLen (mem m))" using m(3) st by (simp add: covered_def memoryRevert_def eval_nat_numeral)
    then obtain d where "GetPtr (mem m) (Int64 off) (Int64 sz) = Some d" "small d" using GetPtr_covered [OF m(1) i(1,2)] by blast
    then show "fine m (length (stack m) + 0 - 2) (execute ?op cs m)" using m(1) st i by (simp add: op_simps opRevert_def)
  qed (simp add: mkOp_def)
qed (simp_all add: mkOp_def memGood_rules memGas_rules)

lemma popN_ok: "n \<le> length st \<Longrightarrow> popN n st = Some (take n st, drop n st)"
proof (induction n arbitrary: st)
  case (Suc n)
  then show ?case by (cases st) simp_all
qed simp

lemma opGood_LOG:
  "opGood ((mkOp (makeLog n) (makeGasLog k) (makeStackFunc (n + 2) 0))\<lparr>memorySizeFn := Some memoryLog, writes := True\<rparr>)" (is "opGood ?op")
proof (rule memOpGood [where p = "n + 2" and q = 0 and k = 1])
  show "execGood ?op (n + 2)"
  proof (rule execGoodI [where q = 0])
    fix cs m
    assume m: "frameOk m" "n + 2 \<le> length (stack m)" "writes ?op \<Longrightarrow> \<not> protected (evm m)" "covered ?op m"
    obtain off sz st where st: "stack m = off # sz # st" using m(2) by (auto simp: stack_split)
    then have i: "in256 off" "in256 sz" "list_all in256 st" "n \<le> length st" using frameOk_stack [OF m(1)] m(2) by simp_all
    have "calcMemSize off sz \<le> int (MemLen (mem m))" using m(4) st by (simp add: covered_def memoryLog_def)
    then obtain d where d: "MemGet (mem m) (Int64 off) (Int64 sz) = Some d" using MemGet_covered [OF m(1) i(1,2)] by blast
    have "list_all in256 (drop n st)" using i(3) by (auto simp: list_all_iff dest: in_set_dropD)
    then show "fine m (length (stack m) + 0 - (n + 2)) (execute ?op cs m)"
      using frameOk_parts(7,8) [OF m(1)] m(1,3) st i d
      by (simp add: op_simps makeLog_def popN_ok goes_moves moves_write)
  qed (simp add: mkOp_def)
  show "memGood ?op (n + 2)" by (rule memGood_fns) simp
  show "memGas (gasCost ?op) (n + 2) 1" using memGas_Log [of k] by (simp add: memGas_def mkOp_def)
qed (simp_all add: mkOp_def memGood_rules)

section \<open>State and control flow\<close>

lemma flatOpGood:
  assumes "validateStack oper = makeStackFunc p q" "execGood oper p" "memorySizeFn oper = None" "flatGas (gasCost oper) p"
  shows "opGood oper"
proof -
  have "gasGood oper p" using assms(3,4) goes_refl unfolding flatGas_def gasGood_def by (metis (no_types, lifting))
  then show ?thesis using assms memGood_fns(1) unfolding opGood_def by blast
qed

lemma flatGas_table: "flatGas gasBalance p" "flatGas gasExtCodeSize p" "flatGas gasSLoad p"
  "flatGas gasPush p" "flatGas gasDup p" "flatGas gasSwap p"
  by (simp_all add: flatGas_def gasBalance_def gasExtCodeSize_def gasSLoad_def gasPush_def gasDup_def gasSwap_def params
      gasTable_okD Suc_le_eq)

lemma flatGas_exp: "flatGas gasExp 2"
proof -
  have "1 \<le> unat g" if "checked (SafeAdd a GasSlowStep) = Inr g" for a g
    using checkedAdd [OF that] by (simp add: params)
  then show ?thesis by (auto simp: flatGas_def gasExp_def Back_ok simp del: checked_Inr)
qed

lemma opGood_BALANCE: "opGood (mkOp opBalance gasBalance (makeStackFunc 1 1))" (is "opGood ?op")
proof (rule flatOpGood [where p = 1 and q = 1])
  show "execGood ?op 1"
  proof (rule execGoodI [where q = 1])
    fix cs m
    assume m: "frameOk m" "1 \<le> length (stack m)"
    obtain x st where st: "stack m = x # st" using m(2) by (auto simp: stack_split)
    then have i: "list_all in256 st" using frameOk_stack [OF m(1)] by simp
    note s = frameOk_parts(7,8) [OF m(1)]
    obtain b t where g: "GetBalance (sdb (evm m)) (BigToAddress x) = (b, t)" by fastforce
    then have "quiet (sdb (evm m)) t" using query_states(1) quiet_reads(1) [OF s(2)] by (metis snd_conv)
    moreover have "in256 b" using query_values(1) [of "sdb (evm m)"] worldOk_balance s(2) g unfolding stateOk_def by (metis fst_conv)
    ultimately show "fine m (length (stack m) + 1 - 1) (execute ?op cs m)"
      using s m(1) st i g by (simp add: op_simps opBalance_def goes_quiet)
  qed (simp add: mkOp_def)
qed (simp_all add: mkOp_def flatGas_table)

lemma GetCodeSize_bound: "stateOk s \<Longrightarrow> in256 (int (fst (GetCodeSize s a)))"
proof -
  assume s: "stateOk s"
  have c: "small (contractCodes (database s) h)" for h using s by (simp add: stateOk_def)
  show ?thesis
  proof (cases "liveObj s a")
    case None
    then have l: "getStateObject s a = (None, snd (getStateObject s a))" by (simp add: liveObj_def prod_eq_iff)
    show ?thesis by (subst GetCodeSize_def, subst l) simp
  next
    case (Some obj)
    then have l: "getStateObject s a = (Some obj, snd (getStateObject s a))" by (simp add: liveObj_def prod_eq_iff)
    have "wCode (view s) a = fst (soCode s obj)" using Some by (simp add: wCode_def accts_view acctOf_def)
    moreover have "small (wCode (view s) a)" using s by (rule stateOk_code)
    ultimately have "small (objCode obj)" by (cases "objCode obj = []") (simp_all add: soCode_def)
    then show ?thesis by (subst GetCodeSize_def, subst l) (simp add: load_simps c in256_length)
  qed
qed

lemma opGood_EXTCODESIZE: "opGood (mkOp opExtCodeSize gasExtCodeSize (makeStackFunc 1 1))" (is "opGood ?op")
proof (rule flatOpGood [where p = 1 and q = 1])
  show "execGood ?op 1"
  proof (rule execGoodI [where q = 1])
    fix cs m
    assume m: "frameOk m" "1 \<le> length (stack m)"
    obtain x st where st: "stack m = x # st" using m(2) by (auto simp: stack_split)
    then have i: "list_all in256 st" using frameOk_stack [OF m(1)] by simp
    note s = frameOk_parts(7,8) [OF m(1)]
    obtain b t where g: "GetCodeSize (sdb (evm m)) (BigToAddress x) = (b, t)" by fastforce
    then have "quiet (sdb (evm m)) t" using query_states(7) quiet_reads(1) [OF s(2)] by (metis snd_conv)
    moreover have "in256 (int b)" using GetCodeSize_bound [OF s(2), of "BigToAddress x"] g by simp
    ultimately show "fine m (length (stack m) + 1 - 1) (execute ?op cs m)"
      using s m(1) st i g by (simp add: op_simps opExtCodeSize_def goes_quiet)
  qed (simp add: mkOp_def)
qed (simp_all add: mkOp_def flatGas_table)

lemma opGood_SLOAD: "opGood (mkOp opSload gasSLoad (makeStackFunc 1 1))" (is "opGood ?op")
proof (rule flatOpGood [where p = 1 and q = 1])
  show "execGood ?op 1"
  proof (rule execGoodI [where q = 1])
    fix cs m
    assume m: "frameOk m" "1 \<le> length (stack m)"
    obtain x st where st: "stack m = x # st" using m(2) by (auto simp: stack_split)
    then have i: "list_all in256 st" using frameOk_stack [OF m(1)] by simp
    note s = frameOk_parts(7,8) [OF m(1)]
    obtain b t where g: "GetState (sdb (evm m)) (self (contract m)) (BigToHash x) = (b, t)" by fastforce
    then have "quiet (sdb (evm m)) t" using quiet_reads(3) [OF s(2)] by (metis snd_conv)
    then show "fine m (length (stack m) + 1 - 1) (execute ?op cs m)"
      using s m(1) st i g by (simp add: op_simps opSload_def goes_quiet)
  qed (simp add: mkOp_def)
qed (simp_all add: mkOp_def flatGas_table)

lemma protected_sdb [simp]: "protected (e\<lparr>sdb := t\<rparr>) = protected e"
  by (simp add: protected_def)

lemma opGood_SSTORE: "opGood ((mkOp opSstore gasSStore (makeStackFunc 2 0))\<lparr>writes := True\<rparr>)" (is "opGood ?op")
  unfolding opGood_def
proof (intro exI conjI)
  show "validateStack ?op = makeStackFunc 2 0" by (simp add: mkOp_def)
  show "memGood ?op 2" by (simp add: memGood_rules mkOp_def)
  show "execGood ?op 2"
  proof (rule execGoodI [where q = 0])
    fix cs m
    assume m: "frameOk m" "2 \<le> length (stack m)" "writes ?op \<Longrightarrow> \<not> protected (evm m)"
    obtain x y st where st: "stack m = x # y # st" using m(2) by (auto simp: stack_split)
    then have i: "list_all in256 st" using frameOk_stack [OF m(1)] by simp
    show "fine m (length (stack m) + 0 - 2) (execute ?op cs m)"
      using m st i frameOk_parts(7,8) [OF m(1)] by (simp add: op_simps opSstore_def goes_moves moves_write)
  qed (simp add: mkOp_def)
  show "gasGood ?op 2" unfolding gasGood_def
  proof (intro allI impI)
    fix gt e sz and c :: Contract and m :: Memory and st :: Stack
    assume e: "evmOk e" "2 \<le> length st" "writes ?op \<longrightarrow> \<not> protected e"
    obtain x y st' where st: "st = x # y # st'" using e(2) by (auto simp: stack_split)
    obtain v t where g: "GetState (sdb e) (self c) (BigToHash x) = (v, t)" by fastforce
    have s: "stateOk (sdb e)" using e(1) by (simp add: evmOk_def)
    then have q: "quiet (sdb e) t" using quiet_reads(3) [OF s] g by (metis snd_conv)
    have "moves (sdb e) (AddRefund t k)" for k
      using moves_trans [OF quiet_moves [OF q] moves_write(4) [OF moves_ok [OF quiet_moves [OF q]]]] .
    then have "goes e (e\<lparr>sdb := AddRefund t k\<rparr>)" "goes e (e\<lparr>sdb := t\<rparr>)" for k
      using e q by (simp_all add: goes_moves goes_quiet)
    then show "\<exists>r e1 m1. gasCost ?op gt e c st m sz = Some (r, e1, m1) \<and> goes e e1 \<and> memStore m1 = memStore m \<and>
        (\<forall>g. r = Inr g \<longrightarrow> (halts ?op \<or> reverts ?op \<or> 1 \<le> unat g) \<and> (memorySizeFn ?op \<noteq> None \<longrightarrow> unat sz \<le> memMax))"
      using st g by (simp add: gasSStore_def mkOp_def params Let_def)
  qed
qed

lemma quiet_trans_load: "quiet s t \<Longrightarrow> quiet s (snd (getStateObject t a))"
  using quiet_trans quiet_reads(1) moves_ok quiet_moves by metis

lemma gasSuicide_ok:
  assumes e: "evmOk e" "1 \<le> length st" "\<not> protected e"
  shows "\<exists>g e1. gasSuicide gt e c st m sz = Some (Inr g, e1, m) \<and> goes e e1"
proof -
  have s: "stateOk (sdb e)" using e(1) by (simp add: evmOk_def)
  obtain a st' where st: "st = a # st'" using e(2) by (auto simp: stack_split)
  obtain g t where t: "(if isEIP150 e then do {
          a \<leftarrow> Back st 0;
          let addr = BigToAddress a;
          Some (if isEIP158 e then
             let (emp, s') = Empty (sdb e) addr in
             if emp then
               let (b, s'') = GetBalance s' (self c)
               in (if b \<noteq> 0 then SuicideGas gt + CreateBySuicide gt else SuicideGas gt, s'')
             else (SuicideGas gt, s')
           else
             let (ex, s') = Exist (sdb e) addr
             in (if \<not> ex then SuicideGas gt + CreateBySuicide gt else SuicideGas gt, s')) }
        else Some (0, sdb e)) = Some (g, t)" and q: "quiet (sdb e) t"
  proof (cases "isEIP150 e")
    case False
    then show ?thesis using that quiet_refl [OF s] by simp
  next
    case E150: True
    show ?thesis
    proof (cases "isEIP158 e")
      case True
      obtain emp t1 where t1: "Empty (sdb e) (BigToAddress a) = (emp, t1)" by fastforce
      then have q: "quiet (sdb e) t1" using query_states(6) [of "sdb e"] quiet_reads(1) [OF s] by (metis snd_conv)
      obtain b t2 where t2: "GetBalance t1 (self c) = (b, t2)" by fastforce
      then have "quiet (sdb e) t2" using query_states(1) [of t1] quiet_trans_load [OF q] by (metis snd_conv)
      then show ?thesis using that q E150 True st t1 t2 by (cases emp) simp_all
    next
      case False
      obtain ex t1 where t1: "Exist (sdb e) (BigToAddress a) = (ex, t1)" by fastforce
      then have q: "quiet (sdb e) t1" using query_states(5) [of "sdb e"] quiet_reads(1) [OF s] by (metis snd_conv)
      then show ?thesis using that E150 False st t1 by simp
    qed
  qed
  obtain d t2 where h: "HasSuicided t (self c) = (d, t2)" by fastforce
  then have q2: "quiet (sdb e) t2" using query_states(4) quiet_trans_load [OF q] by (metis snd_conv)
  define t3 where "t3 = (if \<not> d then AddRefund t2 SuicideRefundGas else t2)"
  have "moves (sdb e) t3"
    using moves_trans [OF quiet_moves [OF q2] moves_write(4) [OF moves_ok [OF quiet_moves [OF q2]]]] quiet_moves [OF q2]
    by (simp add: t3_def)
  then have "goes e (e\<lparr>sdb := t3\<rparr>)" using e by (simp add: goes_moves)
  moreover have "gasSuicide gt e c st m sz = Some (Inr g, e\<lparr>sdb := t3\<rparr>, m)"
    unfolding gasSuicide_def t by (simp add: h t3_def)
  ultimately show ?thesis by blast
qed

lemma opGood_SELFDESTRUCT:
  "opGood ((mkOp opSuicide gasSuicide (makeStackFunc 1 0))\<lparr>halts := True, writes := True\<rparr>)" (is "opGood ?op")
  unfolding opGood_def
proof (intro exI conjI)
  show "validateStack ?op = makeStackFunc 1 0" by (simp add: mkOp_def)
  show "memGood ?op 1" by (simp add: memGood_rules mkOp_def)
  show "execGood ?op 1"
  proof (rule execGoodI [where q = 0])
    fix cs m
    assume m: "frameOk m" "1 \<le> length (stack m)" "writes ?op \<Longrightarrow> \<not> protected (evm m)"
    obtain x st where st: "stack m = x # st" using m(2) by (auto simp: stack_split)
    then have i: "list_all in256 st" using frameOk_stack [OF m(1)] by simp
    have s: "stateOk (sdb (evm m))" using frameOk_parts(8) [OF m(1)] .
    let ?t = "snd (getStateObject (sdb (evm m)) (self (contract m)))"
    have g: "GetBalance (sdb (evm m)) (self (contract m)) = (wBalance (view ?t) (self (contract m)), ?t)"
      by (simp add: prod_eq_iff query_values query_states)
    have q: "moves (sdb (evm m)) ?t" using quiet_moves [OF quiet_reads(1) [OF s]] .
    obtain d u where u: "Suicide (AddBalance ?t (BigToAddress x) (wBalance (view ?t) (self (contract m)))) (self (contract m)) = (d, u)"
      by fastforce
    then have "moves (sdb (evm m)) u" using moves_trans [OF q moves_suicide [OF moves_ok [OF q]]] by (metis snd_conv)
    then have "goes (evm m) ((evm m)\<lparr>sdb := u\<rparr>)"
      using goes_moves [OF frameOk_parts(7) [OF m(1)]] m(3) by (simp add: mkOp_def)
    then show "fine m (length (stack m) + 0 - 1) (execute ?op cs m)"
      using m(1) st i g u by (simp add: op_simps opSuicide_def)
  qed (simp add: mkOp_def)
  show "gasGood ?op 1" unfolding gasGood_def
  proof (intro allI impI)
    fix gt e sz and c :: Contract and m :: Memory and st :: Stack
    assume e: "evmOk e" "1 \<le> length st" "writes ?op \<longrightarrow> \<not> protected e"
    then show "\<exists>r e1 m1. gasCost ?op gt e c st m sz = Some (r, e1, m1) \<and> goes e e1 \<and> memStore m1 = memStore m \<and>
        (\<forall>g. r = Inr g \<longrightarrow> (halts ?op \<or> reverts ?op \<or> 1 \<le> unat g) \<and> (memorySizeFn ?op \<noteq> None \<longrightarrow> unat sz \<le> memMax))"
      using gasSuicide_ok [OF e(1,2)] by (fastforce simp: mkOp_def)
  qed
qed

section \<open>Jumps\<close>

lemma has_frame:
  assumes m: "frameOk m" "inCode m" and d: "in256 dest"
  obtains b jd where "has (jumpdests (evm m)) (cCodeHash (contract m)) (Code (contract m)) dest = Some (b, jd)"
    "goes (evm m) ((evm m)\<lparr>jumpdests := jd\<rparr>)"
proof -
  have e: "evmOk (evm m)" "contractOk (ext (sdb (evm m))) (contract m)" using m(1) by (simp_all add: frameOk_def)
  have "Code (contract m) \<noteq> []" using m(2) by (auto simp: inCode_def)
  then have c: "small (Code (contract m))" "keccak256 (ext (sdb (evm m))) (Code (contract m)) = cCodeHash (contract m)"
    using e(2) by (simp_all add: contractOk_def)
  have t: "tableOk (keccak256 (ext (sdb (evm m)))) (jumpdests (evm m))" "hashLengths (keccak256 (ext (sdb (evm m))))"
    using e(1) by (simp_all add: evmOk_def stateOk_def)
  show ?thesis using has_ok [OF t c] d that goes_locals(4) [OF e(1)] by (fastforce simp: in256_def)
qed

lemma opGood_JUMP: "opGood ((mkOp opJump (constGasFunc GasMidStep) (makeStackFunc 1 0))\<lparr>jumps := True\<rparr>)" (is "opGood ?op")
proof (rule flatOpGood [where p = 1 and q = 0])
  show "execGood ?op 1"
  proof (rule execGoodI [where q = 0])
    fix cs m
    assume m: "frameOk m" "1 \<le> length (stack m)" "\<not> halts ?op \<Longrightarrow> inCode m"
    obtain x st where st: "stack m = x # st" using m(2) by (auto simp: stack_split)
    then have i: "in256 x" "list_all in256 st" using frameOk_stack [OF m(1)] by simp_all
    have "inCode m" using m(3) by (simp add: mkOp_def)
    from has_frame [OF m(1) this i(1)] obtain b jd where
      "has (jumpdests (evm m)) (cCodeHash (contract m)) (Code (contract m)) x = Some (b, jd)"
      "goes (evm m) ((evm m)\<lparr>jumpdests := jd\<rparr>)" .
    then show "fine m (length (stack m) + 0 - 1) (execute ?op cs m)"
      using m(1) st i by (simp add: op_simps opJump_def)
  qed (simp add: mkOp_def)
qed (simp_all add: mkOp_def flatGas_const params)

lemma opGood_JUMPI: "opGood ((mkOp opJumpi (constGasFunc GasSlowStep) (makeStackFunc 2 0))\<lparr>jumps := True\<rparr>)" (is "opGood ?op")
proof (rule flatOpGood [where p = 2 and q = 0])
  show "execGood ?op 2"
  proof (rule execGoodI [where q = 0])
    fix cs m
    assume m: "frameOk m" "2 \<le> length (stack m)" "\<not> halts ?op \<Longrightarrow> inCode m"
    obtain x y st where st: "stack m = x # y # st" using m(2) by (auto simp: stack_split)
    then have i: "in256 x" "list_all in256 st" using frameOk_stack [OF m(1)] by simp_all
    have "inCode m" using m(3) by (simp add: mkOp_def)
    from has_frame [OF m(1) this i(1)] obtain b jd where
      "has (jumpdests (evm m)) (cCodeHash (contract m)) (Code (contract m)) x = Some (b, jd)"
      "goes (evm m) ((evm m)\<lparr>jumpdests := jd\<rparr>)" .
    then show "fine m (length (stack m) + 0 - 2) (execute ?op cs m)"
      using m(1) st i by (simp add: op_simps opJumpi_def)
  qed (simp add: mkOp_def)
qed (simp_all add: mkOp_def flatGas_const params)

end
