(* ===== verification/EVMCalls.thy ===== *)
theory EVMCalls
  imports EVMMem
begin

text \<open>
  The entry points of the machine (core/vm/evm.go) over an interpreter loop that behaves: they return,
  their state changes are legal, gas is not created, and a failed call leaves the world as it was.
\<close>

section \<open>Contracts of the loop and of the entry points\<close>

text \<open>The interpreter loop, for frames with less than \<open>n\<close> gas.\<close>

definition runOk :: "nat \<Rightarrow> (machine \<Rightarrow> frameResult option) \<Rightarrow> bool" where
  "runOk n run \<longleftrightarrow> (\<forall>m. frameOk m \<longrightarrow> unat (Gas (contract m)) < n \<longrightarrow>
     (\<exists>e c ret err. run m = Some (e, c, ret, err) \<and> goes (evm m) e \<and> unat (Gas c) \<le> unat (Gas (contract m)) \<and> small ret))"

text \<open>The errors after which the remaining gas is returned.\<close>

definition keepsGas :: "vmError option \<Rightarrow> bool" where
  "keepsGas err \<longleftrightarrow> err \<in> {None, Some errExecutionReverted, Some ErrDepth, Some ErrInsufficientBalance}"

definition callRes :: "EVM \<Rightarrow> u64 \<Rightarrow> callResult option \<Rightarrow> bool" where
  "callRes e gas r \<longleftrightarrow> (\<exists>e' ret left err. r = Some (e', ret, left, err) \<and> goes e e' \<and> unat left \<le> unat gas \<and> small ret \<and>
     (err \<noteq> None \<longrightarrow> view (sdb e') = view (sdb e)) \<and> (keepsGas err \<or> left = 0))"

definition createRes :: "EVM \<Rightarrow> u64 \<Rightarrow> (EVM \<times> bytes \<times> address \<times> u64 \<times> vmError option) option \<Rightarrow> bool" where
  "createRes e gas r \<longleftrightarrow> (\<exists>e' ret a left err. r = Some (e', ret, a, left, err) \<and> goes e e' \<and> unat left \<le> unat gas \<and> small ret)"

lemma callRes_Some [simp]:
  "callRes e gas (Some (e', ret, left, err)) \<longleftrightarrow> goes e e' \<and> unat left \<le> unat gas \<and> small ret \<and>
     (err \<noteq> None \<longrightarrow> view (sdb e') = view (sdb e)) \<and> (keepsGas err \<or> left = 0)"
  by (simp add: callRes_def)

lemma createRes_Some [simp]:
  "createRes e gas (Some (e', ret, a, left, err)) \<longleftrightarrow> goes e e' \<and> unat left \<le> unat gas \<and> small ret"
  by (simp add: createRes_def)

lemma keepsGas_simps [simp]: "keepsGas None" "keepsGas (Some ErrDepth)" "keepsGas (Some ErrInsufficientBalance)"
    "keepsGas (Some errExecutionReverted)"
  by (simp_all add: keepsGas_def)

definition callsOk :: "nat \<Rightarrow> calls \<Rightarrow> bool" where
  "callsOk n cs \<longleftrightarrow> (\<forall>e caller a input gas v. evmOk e \<longrightarrow> small input \<longrightarrow> unat gas < n \<longrightarrow> unat gas \<le> 2 ^ 60 \<longrightarrow> in256 v \<longrightarrow>
     ((protected e \<longrightarrow> v = 0) \<longrightarrow> callRes e gas (CallFn cs e caller a input gas v)) \<and>
     callRes e gas (CallCodeFn cs e caller a input gas v) \<and>
     callRes e gas (StaticCallFn cs e caller a input gas) \<and>
     (\<forall>c. caller = RunningContract c \<longrightarrow> in256 (cValue c) \<longrightarrow> callRes e gas (DelegateCallFn cs e caller a input gas)) \<and>
     (\<not> protected e \<longrightarrow> createRes e gas (CreateFn cs e caller input gas v)))"

section \<open>Frames\<close>

lemma goes_state:
  assumes "evmOk e" "moves (sdb e) t" "protected e \<Longrightarrow> quiet (sdb e) t"
  shows "goes e (e\<lparr>sdb := t\<rparr>)"
  using assms goes_quiet goes_moves by (cases "protected e") auto

lemma evmOk_depth [simp]: "evmOk (e\<lparr>depth := d\<rparr>) = evmOk e"
  by (simp add: evmOk_def)

lemma evmOk_readOnly [simp]: "evmOk (e\<lparr>readOnly := d\<rparr>) = evmOk e"
  by (simp add: evmOk_def)

lemma goes_leave: "goes (e\<lparr>depth := d, returnData := r\<rparr>) e' \<Longrightarrow> goes e (e'\<lparr>depth := depth e\<rparr>)"
  by (simp add: goes_def envEq_def protected_def)

lemma Run_ok:
  assumes run: "runOk n run" and e: "evmOk e" and c: "contractOk (ext (sdb e)) c" "small input"
    and g: "unat (Gas c) < n" "unat (Gas c) \<le> 2 ^ 60"
  shows "\<exists>e' c' ret err. Run run e c input = Some (e', c', ret, err) \<and> goes e e' \<and> unat (Gas c') \<le> unat (Gas c) \<and> small ret"
proof (cases "Code c = []")
  case True
  have "goes e (e\<lparr>returnData := []\<rparr>)" by (rule goes_locals(2) [OF e small_Nil])
  then show ?thesis using True by (simp add: Run_def goes_def envEq_def protected_def)
next
  case False
  let ?e = "e\<lparr>depth := depth e + 1, returnData := []\<rparr>"
  let ?m = "\<lparr>pc = 0, evm = ?e, contract = c\<lparr>Input := input\<rparr>, mem = NewMemory, stack = newstack\<rparr>"
  have "evmOk ?e" using goes_evmOk [OF e goes_locals(2) [OF e small_Nil]] by (simp add: evmOk_def)
  then have "frameOk ?m" using c g by (simp add: frameOk_def contractOk_def memOk_def NewMemory_def MemLen_def newstack_def)
  then obtain e' c' ret err where r: "run ?m = Some (e', c', ret, err)" "goes ?e e'" "unat (Gas c') \<le> unat (Gas c)" "small ret"
    using run g unfolding runOk_def by fastforce
  moreover have "depth e' = depth e + 1" using goes_env [OF r(2)] by (simp add: envEq_def)
  ultimately show ?thesis using False goes_leave [OF r(2)] by (simp add: Run_def)
qed

lemma UseGas_le: "unat (Gas (snd (UseGas c g))) \<le> unat (Gas c)"
  by (simp add: UseGas_cases unat_sub_if_size word_le_nat_alt)

lemma runContract_ok:
  assumes run: "runOk n run" and e: "evmOk e" and c: "contractOk (ext (sdb e)) c" "small input"
    and g: "unat (Gas c) < n" "unat (Gas c) \<le> 2 ^ 60"
  shows "\<exists>e' c' ret err. runContract run e c input = Some (e', c', ret, err) \<and> goes e e' \<and> unat (Gas c') \<le> unat (Gas c) \<and> small ret"
proof (cases "Option.bind (CodeAddr c) (precompiles e)")
  case None
  then show ?thesis using Run_ok [OF assms] by (simp add: runContract_def)
next
  case (Some p)
  then have "precompileOk p" using e precompiles_ok by (auto simp: evmOk_def bind_eq_Some_conv)
  then obtain q where q: "RequiredGas p input = Some q"
    "unat q \<le> 2 ^ 60 \<Longrightarrow> \<exists>ret err. PRun p input = Some (ret, err) \<and> small ret" using c(2) by (auto simp: precompileOk_def)
  show ?thesis
  proof (cases "fst (UseGas c q)")
    case True
    then obtain c1 where u: "UseGas c q = (True, c1)" by (metis prod.collapse)
    then show ?thesis using Some q UseGas_paid [OF u] g(2) goes_refl [OF e]
      by (fastforce simp: runContract_def RunPrecompiledContract_def)
  next
    case False
    then obtain c1 where u: "UseGas c q = (False, c1)" by (metis prod.collapse)
    then show ?thesis using Some q UseGas_le [of c q] goes_refl [OF e]
      by (simp add: runContract_def RunPrecompiledContract_def)
  qed
qed

lemma goes_shareTable: "evmOk e \<Longrightarrow> goes e (shareTable caller e)"
  using goes_locals(4) [of e Map.empty] goes_refl by (cases caller) (auto simp: shareTable_def tableOk_def)

lemma loadCode_ok:
  assumes s: "stateOk s" and l: "loadCode c a s = (c', s')"
  shows "quiet s s'" "Gas c' = Gas c" "in256 (cValue c) \<Longrightarrow> small (Input c) \<Longrightarrow> contractOk (ext s) c'"
proof -
  let ?t = "snd (getStateObject s a)"
  have q: "quiet s ?t" by (rule quiet_reads(1) [OF s])
  have t: "stateOk ?t" using moves_ok [OF quiet_moves [OF q]] .
  have h: "GetCodeHash s a = (wCodeHash (view s) a, ?t)" by (simp add: prod_eq_iff query_values query_states)
  have d: "fst (GetCode ?t a) = wCode (view s) a" using GetCode_spec(3) [OF stateOk_dbInv [OF t]] by simp
  have l': "c' = c\<lparr>Code := wCode (view s) a, cCodeHash := wCodeHash (view s) a, CodeAddr := Some a\<rparr>" "s' = snd (GetCode ?t a)"
    using l d by (auto simp: loadCode_def h SetCallCode_def split: prod.splits)
  show "quiet s s'" unfolding l' by (rule quiet_trans [OF q quiet_reads(2) [OF t]])
  show "Gas c' = Gas c" by (simp add: l')
  show "contractOk (ext s) c'" if "in256 (cValue c)" "small (Input c)"
    using that s by (simp add: l' contractOk_def stateOk_def worldOk_def)
qed

lemma finishFrame_ok:
  assumes e: "evmOk e" and g: "goes (e\<lparr>sdb := snd (Snapshot (sdb e))\<rparr>) e'"
    and r: "unat (Gas c) \<le> unat gas" "small ret"
  shows "callRes e gas (finishFrame (fst (Snapshot (sdb e))) (e', c, ret, err))"
proof -
  have s: "stateOk (sdb e)" using e by (simp add: evmOk_def)
  have g1: "goes e e'" using goes_trans [OF goes_quiet [OF e quiet_reads(4) [OF s]] g] .
  have ev: "evolves (snd (Snapshot (sdb e))) (sdb e')" using g by (simp add: goes_def moves_def)
  show ?thesis
  proof (cases "err = None")
    case True
    then show ?thesis using g1 r by (simp add: finishFrame_def)
  next
    case False
    obtain u where u: "RevertToSnapshot (sdb e') (fst (Snapshot (sdb e))) = Some u" "view u = view (sdb e)" "evolves (sdb e) u"
      using RevertToSnapshot_ok [OF stateOk_dbInv [OF s] ev] by blast
    have q: "quiet (sdb e) u" using quiet_same [OF s u(3,2)] .
    have "goes e (e'\<lparr>sdb := u\<rparr>)" using g1 q by (auto simp: goes_def envEq_def quiet_def)
    moreover have "Gas (snd (UseGas c (Gas c))) = 0" by (simp add: UseGas_cases)
    ultimately show ?thesis using False u(1,2) r
      by (cases "err = Some errExecutionReverted") (auto simp: finishFrame_def keepsGas_def)
  qed
qed

lemma callRes_quiet:
  assumes "goes e e1" "view (sdb e1) = view (sdb e)" "callRes e1 gas r"
  shows "callRes e gas r"
  using assms goes_trans [OF assms(1)] unfolding callRes_def by metis

lemma evmOk_snapshot: "evmOk e \<Longrightarrow> goes e (e\<lparr>sdb := snd (Snapshot (sdb e))\<rparr>)"
  using goes_quiet quiet_reads(4) by (simp add: evmOk_def)

text \<open>The common course of the four calls: snapshot, prepare the state, run, and settle.\<close>

lemma frame_ok:
  assumes run: "runOk n run" and e: "evmOk e"
    and s: "goes (e\<lparr>sdb := snd (Snapshot (sdb e))\<rparr>) (e\<lparr>sdb := s'\<rparr>)"
    and c: "contractOk (ext (sdb e)) c" "small input" "Gas c = gas" and g: "unat gas < n" "unat gas \<le> 2 ^ 60"
  shows "callRes e gas (do { r \<leftarrow> runContract run (shareTable caller (e\<lparr>sdb := s'\<rparr>)) c input;
    finishFrame (fst (Snapshot (sdb e))) r })"
proof -
  have e0: "evmOk (e\<lparr>sdb := snd (Snapshot (sdb e))\<rparr>)" by (rule goes_evmOk [OF e evmOk_snapshot [OF e]])
  have e1: "evmOk (e\<lparr>sdb := s'\<rparr>)" by (rule goes_evmOk [OF e0 s])
  note sh = goes_shareTable [OF e1, of caller]
  have x: "ext (sdb (shareTable caller (e\<lparr>sdb := s'\<rparr>))) = ext (sdb e)"
    using goes_ext [OF goes_trans [OF evmOk_snapshot [OF e] goes_trans [OF s sh]]] .
  have "contractOk (ext (sdb (shareTable caller (e\<lparr>sdb := s'\<rparr>)))) c" using c(1) by (simp only: x)
  from runContract_ok [OF run goes_evmOk [OF e1 sh] this c(2)] obtain e' c' ret err where
    r: "runContract run (shareTable caller (e\<lparr>sdb := s'\<rparr>)) c input = Some (e', c', ret, err)"
      "goes (shareTable caller (e\<lparr>sdb := s'\<rparr>)) e'" "unat (Gas c') \<le> unat gas" "small ret" using c(3) g by auto
  show ?thesis using finishFrame_ok [OF e goes_trans [OF s goes_trans [OF sh r(2)]] r(3,4)] r(1) by simp
qed

lemma CanTransfer_ok:
  "CanTransfer s a v = (v \<le> wBalance (view s) a, snd (getStateObject s a))"
  by (simp add: CanTransfer_def prod_eq_iff query_values query_states split: prod.split)

lemma case_Snapshot: "(case Snapshot s of (i, t) \<Rightarrow> f i t) = f (nextRevisionId s) (snd (Snapshot s))"
  by (simp add: case_prod_unfold)

lemma contractOk_new [simp]: "cValue (NewContract caller a v gas) = v" "Input (NewContract caller a v gas) = []"
    "Gas (NewContract caller a v gas) = gas"
  by (simp_all add: NewContract_def)

text \<open>Loading the code of the callee and running it.\<close>

lemma load_frame_ok:
  assumes run: "runOk n run" and e: "evmOk e"
    and s: "goes (e\<lparr>sdb := snd (Snapshot (sdb e))\<rparr>) (e\<lparr>sdb := s1\<rparr>)"
    and c: "in256 (cValue c)" "small (Input c)" "small input" "Gas c = gas" and g: "unat gas < n" "unat gas \<le> 2 ^ 60"
    and l: "loadCode c a s1 = (c', s2)"
  shows "callRes e gas (do { r \<leftarrow> runContract run (shareTable caller (e\<lparr>sdb := s2\<rparr>)) c' input;
    finishFrame (fst (Snapshot (sdb e))) r })"
proof -
  have e0: "evmOk (e\<lparr>sdb := snd (Snapshot (sdb e))\<rparr>)" by (rule goes_evmOk [OF e evmOk_snapshot [OF e]])
  have e1: "evmOk (e\<lparr>sdb := s1\<rparr>)" by (rule goes_evmOk [OF e0 s])
  then have s1: "stateOk s1" by (simp add: evmOk_def)
  have x: "ext s1 = ext (sdb e)" using goes_ext [OF goes_trans [OF evmOk_snapshot [OF e] s]] by simp
  note L = loadCode_ok [OF s1 l]
  have "goes (e\<lparr>sdb := snd (Snapshot (sdb e))\<rparr>) (e\<lparr>sdb := s2\<rparr>)"
    using goes_trans [OF s goes_quiet [OF e1, of s2]] L(1) by simp
  from frame_ok [OF run e this _ c(3) _ g] show ?thesis using L(2,3) c x by simp
qed

section \<open>The four calls\<close>

text \<open>The state of the callee's account before its code runs.\<close>

definition prepareAccount :: "statedb \<Rightarrow> address \<Rightarrow> statedb" where
  "prepareAccount s a = (if accts (view s) a = None then CreateAccount (snd (getStateObject s a)) a else snd (getStateObject s a))"

lemma prepare_quiet: "stateOk s \<Longrightarrow> quiet s (prepareAccount s a)"
proof -
  assume s: "stateOk s"
  have q: "quiet s (snd (getStateObject s a))" by (rule quiet_reads(1) [OF s])
  from quiet_create [OF moves_ok [OF quiet_moves [OF q]], of a] q quiet_trans show ?thesis
    by (auto simp: prepareAccount_def)
qed

lemma prepare_transfer:
  assumes s: "stateOk s" and v: "0 \<le> v" "v \<le> wBalance (view s) b"
  shows "moves s (Transfer (prepareAccount s a) b a v)" "v = 0 \<Longrightarrow> quiet s (Transfer (prepareAccount s a) b a v)"
proof -
  note q = prepare_quiet [OF s, of a]
  have "v \<le> wBalance (view (prepareAccount s a)) b" using q v(2) by (simp add: quiet_def frozen_def)
  note T = moves_Transfer [OF moves_ok [OF quiet_moves [OF q]] v(1) this]
  show "moves s (Transfer (prepareAccount s a) b a v)" by (rule moves_trans [OF quiet_moves [OF q] T(1)])
  show "quiet s (Transfer (prepareAccount s a) b a v)" if "v = 0" by (rule quiet_trans [OF q T(2) [OF that]])
qed

text \<open>\<open>Call\<close> after its checks.\<close>

lemma Call_cases:
  fixes e :: EVM and caller :: ContractRef
  assumes "evmOk e"
  defines "s1 \<equiv> snd (getStateObject (sdb e) (RefAddress caller))"
  defines "s2 \<equiv> snd (Snapshot s1)"
  shows "Call run e caller a input gas v =
    (if NoRecursion (vmConfig e) \<and> 0 < depth e then Some (e, [], gas, None)
     else if CallCreateDepth < depth e then Some (e, [], gas, Some ErrDepth)
     else if wBalance (view (sdb e)) (RefAddress caller) < v then Some (e\<lparr>sdb := s1\<rparr>, [], gas, Some ErrInsufficientBalance)
     else if accts (view (sdb e)) a = None \<and> precompiles e a = None \<and> isEIP158 e \<and> v = 0
     then Some (e\<lparr>sdb := snd (getStateObject s2 a)\<rparr>, [], gas, None)
     else let (c, s6) = loadCode (NewContract caller a v gas) a (Transfer (prepareAccount s2 a) (RefAddress caller) a v)
       in do { r \<leftarrow> runContract run (shareTable caller (e\<lparr>sdb := s6\<rparr>)) c input; finishFrame (fst (Snapshot s1)) r })"
proof -
  have ct: "CanTransferFn (ctx e) = CanTransfer" "TransferFn (ctx e) = Transfer"
    using assms(1) by (simp_all add: evmOk_def)
  have vw: "view s2 = view (sdb e)" by (simp add: s2_def s1_def)
  have x: "Exist s2 a = (accts (view s2) a \<noteq> None, snd (getStateObject s2 a))"
    by (simp add: prod_eq_iff query_values query_states)
  show ?thesis
    unfolding Call_def ct CanTransfer_ok s1_def [symmetric] Let_def prod.case
    by (simp add: case_Snapshot x s2_def [symmetric] not_le vw prepareAccount_def)
qed

lemma Call_ok:
  assumes run: "runOk n run" and e: "evmOk e" and i: "small input" "unat gas < n" "unat gas \<le> 2 ^ 60" "in256 v"
    and p: "protected e \<Longrightarrow> v = 0"
  shows "callRes e gas (Call run e caller a input gas v)"
proof -
  define s1 where "s1 = snd (getStateObject (sdb e) (RefAddress caller))"
  define e1 where "e1 = e\<lparr>sdb := s1\<rparr>"
  define s2 where "s2 = snd (Snapshot s1)"
  have s: "stateOk (sdb e)" using e by (simp add: evmOk_def)
  have q1: "quiet (sdb e) s1" unfolding s1_def by (rule quiet_reads(1) [OF s])
  have g1: "goes e e1" unfolding e1_def by (rule goes_quiet [OF e q1])
  note ok1 = goes_evmOk [OF e g1]
  have v1: "view (sdb e1) = view (sdb e)" by (simp add: e1_def s1_def)
  have g2: "goes e1 (e1\<lparr>sdb := s2\<rparr>)" using evmOk_snapshot [OF ok1] by (simp add: e1_def s2_def)
  note ok2 = goes_evmOk [OF ok1 g2]
  have o2: "stateOk s2" using ok2 by (simp add: evmOk_def)
  have g3: "goes e (e\<lparr>sdb := snd (getStateObject s2 a)\<rparr>)"
    using goes_trans [OF g1 goes_trans [OF g2 goes_quiet [OF ok2, of "snd (getStateObject s2 a)"]]] quiet_reads(1) [OF o2]
    by (simp add: e1_def)
  have run: "callRes e gas (do { r \<leftarrow> runContract run (shareTable caller (e\<lparr>sdb := s6\<rparr>)) c input; finishFrame (fst (Snapshot s1)) r })"
    if v: "v \<le> wBalance (view (sdb e)) (RefAddress caller)"
      and l: "loadCode (NewContract caller a v gas) a (Transfer (prepareAccount s2 a) (RefAddress caller) a v) = (c, s6)" for c s6
  proof -
    have "v \<le> wBalance (view s2) (RefAddress caller)" using v by (simp add: s2_def s1_def)
    note T = prepare_transfer [OF o2 _ this, of a]
    have "goes (e1\<lparr>sdb := snd (Snapshot (sdb e1))\<rparr>) (e1\<lparr>sdb := Transfer (prepareAccount s2 a) (RefAddress caller) a v\<rparr>)"
      using goes_state [OF ok2, of "Transfer (prepareAccount s2 a) (RefAddress caller) a v"] T i(4) p
      by (auto simp: in256_def e1_def s2_def)
    from load_frame_ok [OF run ok1 this _ _ i(1) _ i(2,3) l] i(4) callRes_quiet [OF g1 v1] show ?thesis
      by (simp add: e1_def)
  qed
  show ?thesis
    unfolding Call_cases [OF e] s1_def [symmetric] s2_def [symmetric]
    using goes_refl [OF e] g1 v1 g3 run by (auto simp: e1_def not_less split: prod.split)
qed

lemma CallCode_ok:
  assumes run: "runOk n run" and e: "evmOk e" and i: "small input" "unat gas < n" "unat gas \<le> 2 ^ 60" "in256 v"
  shows "callRes e gas (CallCode run e caller a input gas v)"
proof -
  have s: "stateOk (sdb e)" and ct: "CanTransferFn (ctx e) = CanTransfer" using e by (simp_all add: evmOk_def)
  define s1 where "s1 = snd (getStateObject (sdb e) (RefAddress caller))"
  define e1 where "e1 = e\<lparr>sdb := s1\<rparr>"
  have g1: "goes e e1" unfolding e1_def s1_def by (rule goes_quiet [OF e quiet_reads(1) [OF s]])
  note ok1 = goes_evmOk [OF e g1]
  have v1: "view (sdb e1) = view (sdb e)" by (simp add: e1_def s1_def)
  obtain c s3 where l: "loadCode (NewContract caller (RefAddress caller) v gas) a (snd (Snapshot s1)) = (c, s3)" by fastforce
  have "goes (e1\<lparr>sdb := snd (Snapshot (sdb e1))\<rparr>) (e1\<lparr>sdb := snd (Snapshot s1)\<rparr>)"
    using goes_refl [OF goes_evmOk [OF ok1 evmOk_snapshot [OF ok1]]] by (simp add: e1_def)
  from load_frame_ok [OF run ok1 this _ _ i(1) _ i(2,3) l] i(4) callRes_quiet [OF g1 v1]
  have "callRes e gas (do { r \<leftarrow> runContract run (shareTable caller (e\<lparr>sdb := s3\<rparr>)) c input; finishFrame (fst (Snapshot s1)) r })"
    by (simp add: e1_def)
  then show ?thesis using goes_refl [OF e] g1 v1 l
    by (simp add: CallCode_def ct CanTransfer_ok s1_def [symmetric] e1_def case_Snapshot Let_def)
qed

lemma DelegateCall_ok:
  assumes run: "runOk n run" and e: "evmOk e" and i: "small input" "unat gas < n" "unat gas \<le> 2 ^ 60" "in256 (cValue p)"
  shows "callRes e gas (DelegateCall run e (RunningContract p) a input gas)"
proof -
  let ?c = "(NewContract (RunningContract p) (self p) 0 gas)\<lparr>DelegateCallFlag := True, CallerAddress := CallerAddress p, cValue := cValue p\<rparr>"
  obtain c s2 where l: "loadCode ?c a (snd (Snapshot (sdb e))) = (c, s2)" by fastforce
  note s = goes_refl [OF goes_evmOk [OF e evmOk_snapshot [OF e]]]
  from load_frame_ok [OF run e s _ _ i(1) _ i(2,3) l] i(4)
  have "callRes e gas (do { r \<leftarrow> runContract run (shareTable (RunningContract p) (e\<lparr>sdb := s2\<rparr>)) c input;
    finishFrame (fst (Snapshot (sdb e))) r })" by simp
  then show ?thesis using goes_refl [OF e] l
    by (simp add: DelegateCall_def AsDelegate_def RefAddress_def case_Snapshot Let_def)
qed

text \<open>Code running under a static call is write-protected, whatever the caller was.\<close>

lemma StaticCall_ok:
  assumes run: "runOk n run" and e: "evmOk e" and i: "small input" "unat gas < n" "unat gas \<le> 2 ^ 60"
  shows "callRes e gas (StaticCall run e caller a input gas) \<and>
    (RulesByzantium (chainRules e) \<longrightarrow> (\<forall>e' r. StaticCall run e caller a input gas = Some (e', r) \<longrightarrow>
      frozen (view (sdb e)) (view (sdb e'))))"
proof -
  let ?e = "e\<lparr>readOnly := True\<rparr>"
  have ro: "evmOk ?e" using e by simp
  note s = goes_refl [OF goes_evmOk [OF ro evmOk_snapshot [OF ro]]]
  obtain c s2 where l: "loadCode (NewContract caller a 0 gas) a (snd (Snapshot (sdb e))) = (c, s2)" by fastforce
  then have "loadCode (NewContract caller a 0 gas) a (snd (Snapshot (sdb ?e))) = (c, s2)" by simp
  from load_frame_ok [OF run ro s _ _ i(1) _ i(2,3) this]
  have "callRes ?e gas (do { r \<leftarrow> runContract run (shareTable caller (?e\<lparr>sdb := s2\<rparr>)) c input;
    finishFrame (fst (Snapshot (sdb e))) r })" by simp
  then obtain e' ret left err where
    r: "do { r \<leftarrow> runContract run (shareTable caller (?e\<lparr>sdb := s2\<rparr>)) c input; finishFrame (fst (Snapshot (sdb e))) r } =
        Some (e', ret, left, err)"
      "goes ?e e'" "unat left \<le> unat gas" "small ret" "err \<noteq> None \<longrightarrow> view (sdb e') = view (sdb e)" "keepsGas err \<or> left = 0"
    unfolding callRes_def by auto
  have eq: "e\<lparr>sdb := s2, readOnly := True\<rparr> = ?e\<lparr>sdb := s2\<rparr>" by simp
  let ?f = "if \<not> readOnly e then e'\<lparr>readOnly := False\<rparr> else e'"
  have g: "goes e ?f" using r(2) by (auto simp: goes_def envEq_def protected_def)
  have fz: "RulesByzantium (chainRules e) \<Longrightarrow> frozen (view (sdb e)) (view (sdb e'))" using r(2) by (simp add: goes_def protected_def)
  show ?thesis
  proof (cases "(NoRecursion (vmConfig e) \<and> 0 < depth e) \<or> CallCreateDepth < depth e")
    case True
    then show ?thesis using goes_refl [OF e] by (auto simp: StaticCall_def)
  next
    case False
    have "StaticCall run e caller a input gas = Some (?f, ret, left, err)"
      using False r(1) l by (auto simp: StaticCall_def case_Snapshot bind_eq_Some_conv eq)
    then show ?thesis using g fz r(3-) by auto
  qed
qed

section \<open>Contract creation\<close>

lemma finishCreate_ok:
  assumes e: "evmOk e" "\<not> protected e" and g: "goes (e\<lparr>sdb := snd (Snapshot (sdb e))\<rparr>) e'"
    and r: "unat (Gas c) \<le> unat gas" "small ret"
  shows "createRes e gas (finishCreate (fst (Snapshot (sdb e))) a (e', c, ret, err))"
proof -
  let ?big = "isEIP158 e' \<and> MaxCodeSize < length ret"
  define p where "p = UseGas c (of_nat (length ret) * CreateDataGas)"
  define x where "x = (if err = None \<and> \<not> ?big then
    if fst p then (e'\<lparr>sdb := SetCode (sdb e') a ret\<rparr>, snd p, None) else (e', snd p, Some ErrCodeStoreOutOfGas)
    else (e', c, err))"
  obtain e1 c1 err1 where x1: "x = (e1, c1, err1)" by (metis prod_cases3)
  let ?e0 = "e\<lparr>sdb := snd (Snapshot (sdb e))\<rparr>"
  note e0 = goes_evmOk [OF e(1) evmOk_snapshot [OF e(1)]]
  have e': "evmOk e'" "\<not> protected e'" using goes_evmOk [OF e0 g] protected_envEq [OF goes_env [OF g]] e(2) by auto
  have "goes e' (e'\<lparr>sdb := SetCode (sdb e') a ret\<rparr>)"
    using goes_moves [OF e'(1) moves_write(6) e'(2)] e'(1) r(2) by (simp add: evmOk_def)
  then have g1: "goes ?e0 e1" using g x1 goes_trans [OF g] by (auto simp: x_def split: if_splits)
  have c1: "unat (Gas c1) \<le> unat gas" using x1 r(1) UseGas_le [of c "of_nat (length ret) * CreateDataGas"]
    by (auto simp: x_def p_def split: if_splits)
  have s: "stateOk (sdb e)" using e(1) by (simp add: evmOk_def)
  have g1': "goes e e1" by (rule goes_trans [OF evmOk_snapshot [OF e(1)] g1])
  have "evolves (snd (Snapshot (sdb e))) (sdb e1)" using g1 by (simp add: goes_def moves_def)
  then obtain u where u: "RevertToSnapshot (sdb e1) (fst (Snapshot (sdb e))) = Some u" "view u = view (sdb e)" "evolves (sdb e) u"
    using RevertToSnapshot_ok [OF stateOk_dbInv [OF s]] by blast
  have gu: "goes e (e1\<lparr>sdb := u\<rparr>)" using g1' quiet_same [OF s u(3,2)] by (auto simp: goes_def envEq_def quiet_def)
  have z: "unat (Gas (snd (UseGas c1 (Gas c1)))) \<le> unat gas" using UseGas_le [of c1 "Gas c1"] c1 by linarith
  have "finishCreate (fst (Snapshot (sdb e))) a (e', c, ret, err) =
    (let (e1, c1, err1) = x in do {
       (e2, c2) \<leftarrow> (if ?big \<or> (err1 \<noteq> None \<and> (isHomestead e1 \<or> err1 \<noteq> Some ErrCodeStoreOutOfGas)) then do {
         s \<leftarrow> RevertToSnapshot (sdb e1) (fst (Snapshot (sdb e)));
         Some (e1\<lparr>sdb := s\<rparr>, if err1 \<noteq> Some errExecutionReverted then snd (UseGas c1 (Gas c1)) else c1) }
         else Some (e1, c1));
       Some (e2, ret, a, Gas c2, if ?big \<and> err1 = None then Some errMaxCodeSizeExceeded else err1) })"
    unfolding finishCreate_def x_def p_def prod.case Let_def case_prod_unfold fst_conv snd_conv by (rule refl)
  then show ?thesis using x1 u(1) gu g1' c1 z r(2) by simp
qed

text \<open>The state in which the init code runs.\<close>

definition freshAccount :: "EVM \<Rightarrow> statedb \<Rightarrow> address \<Rightarrow> statedb" where
  "freshAccount e s a = (let s7 = CreateAccount s a in if isEIP158 e then SetNonce s7 a 1 else s7)"

lemma moves_fresh: "stateOk s \<Longrightarrow> moves s (freshAccount e s a)"
  using moves_write(3) [of s a] moves_trans [OF moves_write(3) [of s a] moves_write(1) [OF moves_ok [OF moves_write(3) [of s a]]]]
  by (simp add: freshAccount_def Let_def)

lemma wBalance_fresh: "stateOk s \<Longrightarrow> wBalance (view (freshAccount e s a)) b = wBalance (view s) b"
proof -
  assume "stateOk s"
  then have d: "dbInv s" by (rule stateOk_dbInv)
  note C = CreateAccount_spec [OF d, of a]
  note N = SetNonce_spec(2) [OF evolves_dbInv [OF C(1)], of a 1]
  show ?thesis
    by (cases "isEIP158 e") (simp_all add: freshAccount_def Let_def N C(2) sSetNonce_def sCreateAccount_def orNew_fields)
qed

text \<open>\<open>Create\<close> after its checks.\<close>

definition createdAddr :: "EVM \<Rightarrow> ContractRef \<Rightarrow> address" where
  "createdAddr e caller = createAddress (ext (sdb e)) (RefAddress caller) (wNonce (view (sdb e)) (RefAddress caller))"

definition createState :: "EVM \<Rightarrow> ContractRef \<Rightarrow> statedb" where
  "createState e caller =
     (let b = RefAddress caller;
          s3 = SetNonce (snd (getStateObject (snd (getStateObject (sdb e) b)) b)) b (wNonce (view (sdb e)) b + 1);
          a = createdAddr e caller
      in snd (getStateObject (snd (getStateObject s3 a)) a))"

lemma createState_ok:
  assumes e: "evmOk e"
  shows "moves (sdb e) (createState e caller)"
    "ext (createState e caller) = ext (sdb e)"
    "wBalance (view (createState e caller)) b = wBalance (view (sdb e)) b"
    "view (createState e caller) = sSetNonce (emptyCodeHash (sdb e)) (view (sdb e)) (RefAddress caller) (wNonce (view (sdb e)) (RefAddress caller) + 1)"
proof -
  let ?b = "RefAddress caller"
  let ?s2 = "snd (getStateObject (snd (getStateObject (sdb e) ?b)) ?b)"
  let ?s3 = "SetNonce ?s2 ?b (wNonce (view (sdb e)) ?b + 1)"
  let ?a = "createdAddr e caller"
  have s: "stateOk (sdb e)" using e by (simp add: evmOk_def)
  have q2: "quiet (sdb e) ?s2" using quiet_trans_load quiet_reads(1) [OF s] by blast
  note m3 = moves_trans [OF quiet_moves [OF q2] moves_write(1) [OF moves_ok [OF quiet_moves [OF q2]]]]
  have q5: "quiet ?s3 (createState e caller)"
    unfolding createState_def Let_def using quiet_trans_load quiet_reads(1) [OF moves_ok [OF m3]] by blast
  show m: "moves (sdb e) (createState e caller)" by (rule moves_trans [OF m3 quiet_moves [OF q5]])
  show "ext (createState e caller) = ext (sdb e)" by (rule moves_ext [OF m])
  show w: "view (createState e caller) = sSetNonce (emptyCodeHash (sdb e)) (view (sdb e)) ?b (wNonce (view (sdb e)) ?b + 1)"
    using SetNonce_spec(2) [OF stateOk_dbInv [OF moves_ok [OF quiet_moves [OF q2]]]] by (simp add: createState_def Let_def)
  show "wBalance (view (createState e caller)) b = wBalance (view (sdb e)) b" by (simp add: w sSetNonce_def)
qed

lemma Create_cases:
  fixes e :: EVM and caller :: ContractRef and v :: int
  assumes "evmOk e"
  defines "s5 \<equiv> createState e caller" and "a \<equiv> createdAddr e caller"
  defines "s9 \<equiv> Transfer (freshAccount e (snd (Snapshot s5)) a) (RefAddress caller) a v"
  shows "Create run e caller code gas v =
    (if CallCreateDepth < depth e then Some (e, [], 0, gas, Some ErrDepth)
     else if wBalance (view (sdb e)) (RefAddress caller) < v
     then Some (e\<lparr>sdb := snd (getStateObject (sdb e) (RefAddress caller))\<rparr>, [], 0, gas, Some ErrInsufficientBalance)
     else if wNonce (view s5) a \<noteq> 0 \<or> (wCodeHash (view s5) a \<noteq> 0 \<and> wCodeHash (view s5) a \<noteq> emptyCodeHash s5)
     then Some (e\<lparr>sdb := s5\<rparr>, [], 0, 0, Some ErrContractAddressCollision)
     else if NoRecursion (vmConfig e) \<and> 0 < depth e then Some (shareTable caller (e\<lparr>sdb := s9\<rparr>), [], a, gas, None)
     else do { r \<leftarrow> runContract run (shareTable caller (e\<lparr>sdb := s9\<rparr>))
           (SetCallCode (NewContract caller a v gas) a (keccak256 (ext s9) code) code) [];
         finishCreate (fst (Snapshot s5)) a r })"
proof -
  let ?b = "RefAddress caller"
  have ct: "CanTransferFn (ctx e) = CanTransfer" "TransferFn (ctx e) = Transfer"
    using assms(1) by (simp_all add: evmOk_def)
  have n: "GetNonce s x = (wNonce (view s) x, snd (getStateObject s x))" "GetCodeHash s x = (wCodeHash (view s) x, snd (getStateObject s x))" for s x
    by (simp_all add: prod_eq_iff query_values query_states)
  let ?s2 = "snd (getStateObject (snd (getStateObject (sdb e) ?b)) ?b)"
  let ?s3 = "SetNonce ?s2 ?b (wNonce (view (sdb e)) ?b + 1)"
  have s: "dbInv (sdb e)" using assms(1) by (simp add: evmOk_def stateOk_def)
  have "dbInv ?s2" using evolves_load evolves_dbInv s by blast
  then have x: "ext ?s3 = ext (sdb e)" using evolves_env(1) [OF SetNonce_spec(1)] by simp
  have s5: "snd (getStateObject (snd (getStateObject ?s3 a)) a) = s5" "view ?s3 = view s5"
    by (simp_all add: s5_def a_def createState_def Let_def)
  have ca: "createAddress (ext ?s3) ?b (wNonce (view (sdb e)) ?b) = a" by (simp add: a_def createdAddr_def x)
  show ?thesis
    unfolding Create_def ct CanTransfer_ok n Let_def prod.case view_load ca s5 s9_def freshAccount_def case_Snapshot
    by (simp add: not_le case_Snapshot)
qed

text \<open>The init code runs in a legal state and comes back.\<close>

lemma Create_frame:
  fixes e :: EVM and caller :: ContractRef and v :: int
  assumes run: "runOk n run" and e: "evmOk e" "\<not> protected e" and i: "small code" "unat gas < n" "unat gas \<le> 2 ^ 60" "in256 v"
    and v: "v \<le> wBalance (view (sdb e)) (RefAddress caller)"
  defines "s5 \<equiv> createState e caller" and "a \<equiv> createdAddr e caller"
  defines "s9 \<equiv> Transfer (freshAccount e (snd (Snapshot s5)) a) (RefAddress caller) a v"
  defines "c \<equiv> SetCallCode (NewContract caller a v gas) a (keccak256 (ext s9) code) code"
  shows "goes e (e\<lparr>sdb := s5\<rparr>)" "goes e (shareTable caller (e\<lparr>sdb := s9\<rparr>))"
    "\<exists>e' c' ret err. runContract run (shareTable caller (e\<lparr>sdb := s9\<rparr>)) c [] = Some (e', c', ret, err) \<and>
       goes (e\<lparr>sdb := snd (Snapshot s5)\<rparr>) e' \<and> unat (Gas c') \<le> unat gas \<and> small ret"
proof -
  note C = createState_ok [OF e(1), of caller, folded s5_def]
  define e5 where "e5 = e\<lparr>sdb := s5\<rparr>"
  show g5: "goes e (e\<lparr>sdb := s5\<rparr>)" by (rule goes_moves [OF e(1) C(1) e(2)])
  note ok5 = goes_evmOk [OF e(1) g5]
  have g6: "goes (e\<lparr>sdb := s5\<rparr>) (e\<lparr>sdb := snd (Snapshot s5)\<rparr>)" using evmOk_snapshot [OF ok5] by simp
  note ok6 = goes_evmOk [OF ok5 g6]
  have s6: "stateOk (snd (Snapshot s5))" using ok6 by (simp add: evmOk_def)
  have "v \<le> wBalance (view (freshAccount e (snd (Snapshot s5)) a)) (RefAddress caller)" using v C(3) by (simp add: wBalance_fresh [OF s6])
  note m9 = moves_trans [OF moves_fresh [OF s6] moves_Transfer(1) [OF moves_ok [OF moves_fresh [OF s6]] _ this]]
  have g9: "goes (e\<lparr>sdb := snd (Snapshot s5)\<rparr>) (e\<lparr>sdb := s9\<rparr>)"
    using goes_moves [OF ok6, of s9] m9 e(2) i(4) by (simp add: s9_def in256_def)
  note ok9 = goes_evmOk [OF ok6 g9]
  note sh = goes_shareTable [OF ok9, of caller]
  show "goes e (shareTable caller (e\<lparr>sdb := s9\<rparr>))"
    by (rule goes_trans [OF g5 goes_trans [OF g6 goes_trans [OF g9 sh]]])
  have x: "ext (sdb (shareTable caller (e\<lparr>sdb := s9\<rparr>))) = ext s9" using goes_ext [OF sh] by simp
  have "contractOk (ext (sdb (shareTable caller (e\<lparr>sdb := s9\<rparr>)))) c"
    using i(1,4) unfolding x by (simp add: c_def SetCallCode_def contractOk_def)
  moreover have gc: "Gas c = gas" by (simp add: c_def SetCallCode_def)
  ultimately obtain e' c' ret err where
    r: "runContract run (shareTable caller (e\<lparr>sdb := s9\<rparr>)) c [] = Some (e', c', ret, err)"
      "goes (shareTable caller (e\<lparr>sdb := s9\<rparr>)) e'" "unat (Gas c') \<le> unat gas" "small ret"
    using runContract_ok [OF run goes_evmOk [OF ok9 sh], of c "[]"] i(2,3) by auto
  then show "\<exists>e' c' ret err. runContract run (shareTable caller (e\<lparr>sdb := s9\<rparr>)) c [] = Some (e', c', ret, err) \<and>
       goes (e\<lparr>sdb := snd (Snapshot s5)\<rparr>) e' \<and> unat (Gas c') \<le> unat gas \<and> small ret"
    using goes_trans [OF g9 goes_trans [OF sh r(2)]] by blast
qed

lemma Create_ok:
  assumes run: "runOk n run" and e: "evmOk e" "\<not> protected e" and i: "small code" "unat gas < n" "unat gas \<le> 2 ^ 60" "in256 v"
  shows "createRes e gas (Create run e caller code gas v)"
proof -
  let ?a = "createdAddr e caller" and ?b = "RefAddress caller"
  define s5 where "s5 = createState e caller"
  define s9 where "s9 = Transfer (freshAccount e (snd (Snapshot s5)) ?a) ?b ?a v"
  define c where "c = SetCallCode (NewContract caller ?a v gas) ?a (keccak256 (ext s9) code) code"
  have g1: "goes e (e\<lparr>sdb := snd (getStateObject (sdb e) ?b)\<rparr>)"
    using goes_quiet [OF e(1) quiet_reads(1)] e(1) by (simp add: evmOk_def)
  have rest: "createRes e gas (if NoRecursion (vmConfig e) \<and> 0 < depth e then Some (shareTable caller (e\<lparr>sdb := s9\<rparr>), [], ?a, gas, None)
     else do { r \<leftarrow> runContract run (shareTable caller (e\<lparr>sdb := s9\<rparr>)) c []; finishCreate (fst (Snapshot s5)) ?a r })"
    and g5: "goes e (e\<lparr>sdb := s5\<rparr>)"
    if v: "v \<le> wBalance (view (sdb e)) ?b"
  proof -
    note F = Create_frame [OF run e i v, folded s5_def, folded s9_def, folded c_def]
    show "goes e (e\<lparr>sdb := s5\<rparr>)" by (rule F(1))
    obtain e' c' ret err where r: "runContract run (shareTable caller (e\<lparr>sdb := s9\<rparr>)) c [] = Some (e', c', ret, err)"
      "goes (e\<lparr>sdb := snd (Snapshot s5)\<rparr>) e'" "unat (Gas c') \<le> unat gas" "small ret" using F(3) by blast
    have "createRes (e\<lparr>sdb := s5\<rparr>) gas (finishCreate (fst (Snapshot s5)) ?a (e', c', ret, err))"
      using finishCreate_ok [OF goes_evmOk [OF e(1) F(1)] _ _ r(3,4)] r(2) e(2) by simp
    then have "createRes e gas (finishCreate (fst (Snapshot s5)) ?a (e', c', ret, err))"
      using goes_trans [OF F(1)] unfolding createRes_def by blast
    then show "createRes e gas (if NoRecursion (vmConfig e) \<and> 0 < depth e then Some (shareTable caller (e\<lparr>sdb := s9\<rparr>), [], ?a, gas, None)
     else do { r \<leftarrow> runContract run (shareTable caller (e\<lparr>sdb := s9\<rparr>)) c []; finishCreate (fst (Snapshot s5)) ?a r })"
      using F(2) r(1) by simp
  qed
  show ?thesis
    unfolding Create_cases [OF e(1)] s5_def [symmetric] s9_def [symmetric] c_def [symmetric]
    using goes_refl [OF e(1)] g1 g5 rest by (auto simp: not_less)
qed

text \<open>A creation that ends without an error has stored the returned code.\<close>

lemma finishCreate_success:
  assumes "finishCreate i a (e, c, ret, err) = Some (e', ret', a', left, None)"
  shows "ret' = ret \<and> a' = a \<and> sdb e' = SetCode (sdb e) a ret"
  using assms by (auto simp: finishCreate_def Let_def bind_eq_Some_conv split: prod.splits if_splits)

theorem callsWith_ok: "runOk n run \<Longrightarrow> callsOk n (callsWith run)"
  unfolding callsOk_def callsWith_def
  by (auto intro: Call_ok CallCode_ok DelegateCall_ok Create_ok dest: StaticCall_ok)

end
