(* ===== verification/EVMCallOps.thy ===== *)
theory EVMCallOps
  imports EVMCalls
begin

text \<open>
  The five instructions that start a frame. The gas a callee gets was charged to the caller together
  with at least one unit more, so a call never gives the caller more gas than it had.
\<close>

section \<open>The contract of a calling instruction\<close>

text \<open>\<open>extra\<close> is the gas the callee gets on top of what the caller has left. An instruction with
  \<open>zero\<close> may not carry a value in a write-protected frame.\<close>

definition execCall :: "operation \<Rightarrow> nat \<Rightarrow> (EVM \<Rightarrow> Stack \<Rightarrow> nat) \<Rightarrow> bool \<Rightarrow> bool" where
  "execCall oper p extra zero \<longleftrightarrow> (\<forall>n cs m. callsOk n cs \<longrightarrow> frameOk m \<longrightarrow> p \<le> length (stack m) \<longrightarrow> validateStack oper (stack m) = None \<longrightarrow>
     (writes oper \<longrightarrow> \<not> protected (evm m)) \<longrightarrow> (zero \<longrightarrow> protected (evm m) \<longrightarrow> stack m ! 2 = 0) \<longrightarrow> covered oper m \<longrightarrow>
     unat (Gas (contract m)) + extra (evm m) (stack m) < n \<longrightarrow> unat (Gas (contract m)) + extra (evm m) (stack m) \<le> 2 ^ 60 \<longrightarrow>
     (\<exists>m' res. execute oper cs m = Some (m', res, None) \<and> frameOk m' \<and> goes (evm m) (evm m') \<and> small res \<and>
        unat (Gas (contract m')) \<le> unat (Gas (contract m)) + extra (evm m) (stack m)))"

lemma execCallD:
  assumes "execCall oper p extra zero" "callsOk n cs" "frameOk m" "p \<le> length (stack m)" "validateStack oper (stack m) = None"
    "writes oper \<Longrightarrow> \<not> protected (evm m)" "zero \<Longrightarrow> protected (evm m) \<Longrightarrow> stack m ! 2 = 0" "covered oper m"
    "unat (Gas (contract m)) + extra (evm m) (stack m) < n" "unat (Gas (contract m)) + extra (evm m) (stack m) \<le> 2 ^ 60"
  shows "\<exists>m' res. execute oper cs m = Some (m', res, None) \<and> frameOk m' \<and> goes (evm m) (evm m') \<and> small res \<and>
        unat (Gas (contract m')) \<le> unat (Gas (contract m)) + extra (evm m) (stack m)"
  using assms unfolding execCall_def by metis

definition gasCovers :: "operation \<Rightarrow> nat \<Rightarrow> (EVM \<Rightarrow> Stack \<Rightarrow> nat) \<Rightarrow> bool" where
  "gasCovers oper p extra \<longleftrightarrow> (\<forall>gt e c st m sz g e1 m1. gasTable_ok gt \<longrightarrow> p \<le> length st \<longrightarrow> list_all in256 st \<longrightarrow>
     gasCost oper gt e c st m sz = Some (Inr g, e1, m1) \<longrightarrow> extra e1 st < unat g)"

definition callGood :: "operation \<Rightarrow> bool \<Rightarrow> bool" where
  "callGood oper zero \<longleftrightarrow> (\<exists>p q extra. validateStack oper = makeStackFunc p q \<and> execCall oper p extra zero \<and> memGood oper p \<and>
     gasGood oper p \<and> gasCovers oper p extra)"

lemma callGood_operate:
  assumes op: "callGood oper zero" and cs: "callsOk n cs" and ok: "frameOk m" and g: "unat (Gas (contract m)) \<le> n"
    and vs: "validateStack oper (stack m) = None" and wr: "writes oper \<Longrightarrow> \<not> protected (evm m)"
    and z: "zero \<Longrightarrow> protected (evm m) \<Longrightarrow> stack m ! 2 = 0"
  shows "\<exists>r. operate cs oper m = Some r \<and> stepOk m r"
proof -
  obtain p q extra where pq: "validateStack oper = makeStackFunc p q" and ex: "execCall oper p extra zero" and mg: "memGood oper p"
    and gg: "gasGood oper p" and gc: "gasCovers oper p extra" using op by (auto simp: callGood_def)
  have st: "p \<le> length (stack m)" "list_all in256 (stack m)" "gasTable_ok (gasTable (evm m))" "unat (Gas (contract m)) \<le> 2 ^ 60"
    using vs ok by (auto simp: pq makeStackFunc_None frameOk_def evmOk_def)
  show ?thesis
  proof (rule operate_reach [OF pq mg gg ok vs wr, where cs = cs])
    fix sz k e1 m1 m2
    assume k: "gasCost oper (gasTable (evm m)) (evm m) (contract m) (stack m) (mem m) sz = Some (Inr k, e1, m1)"
        "unat (Gas (contract m2)) + unat k = unat (Gas (contract m))"
      and o: "operate cs oper m = map_option (afterExec oper) (execute oper cs m2)"
      and m2: "frameOk m2" "goes (evm m) (evm m2)" "evm m2 = e1" "stack m2 = stack m"
      and c: "\<forall>f n. memorySizeFn oper = Some f \<longrightarrow> f (stack m2) = Some n \<longrightarrow> n \<le> int (MemLen (mem m2))"
    have x: "extra (evm m2) (stack m2) < unat k" using gc k(1) st m2(3,4) unfolding gasCovers_def by metis
    then have b: "unat (Gas (contract m2)) + extra (evm m2) (stack m2) < unat (Gas (contract m))" using k(2) by linarith
    have pr: "protected (evm m2) = protected (evm m)" by (rule protected_envEq [OF goes_env [OF m2(2)]])
    have "unat (Gas (contract m2)) + extra (evm m2) (stack m2) < n" "unat (Gas (contract m2)) + extra (evm m2) (stack m2) \<le> 2 ^ 60"
      using b g st(4) by linarith+
    then obtain m' res where r: "execute oper cs m2 = Some (m', res, None)" "frameOk m'" "goes (evm m2) (evm m')" "small res"
      "unat (Gas (contract m')) \<le> unat (Gas (contract m2)) + extra (evm m2) (stack m2)"
      using execCallD [OF ex cs m2(1)] st(1) vs wr z c pr m2(4) by (metis covered_def)
    have "stepOk m (afterExec oper (m', res, None))"
      using r b goes_trans [OF m2(2) r(3)] by (intro afterExec_ok) auto
    then show ?thesis using r(1) o by simp
  qed auto
qed

section \<open>What a call costs\<close>

lemma finishCallGas_cases:
  assumes "finishCallGas gt e c req m r = (Inr g, e1, m1)"
  shows "\<exists>k. r = Inr k \<and> unat g = unat k + unat (callGasTemp e1)"
  using assms by (auto simp: finishCallGas_def simp del: checked_Inr dest: checkedAdd split: sum.splits)

lemma finishCallGas_env:
  assumes "evmOk e" "finishCallGas gt e c req m r = (x, e1, m1)"
  shows "goes e e1" "m1 = m"
  using assms goes_refl goes_locals(1) by (auto simp: finishCallGas_def split: sum.splits)

text \<open>A call cost function: it reads the stack and perhaps the state, adds at least \<open>k\<close> to the cost of
  memory, and hands the rest to the callee.\<close>

lemma callCost_ok:
  assumes c: "\<And>gt e c st m sz. gasTable_ok gt \<Longrightarrow> p \<le> length st \<Longrightarrow>
      \<exists>t b. gasCost oper gt e c st m sz = Some (finishCallGas gt (e\<lparr>sdb := t\<rparr>) c (st ! 0) (snd (memoryGasCost m sz)) b) \<and>
        (stateOk (sdb e) \<longrightarrow> quiet (sdb e) t) \<and> (\<forall>k. b = Inr k \<longrightarrow> fee st < unat k \<and> \<not> isl (fst (memoryGasCost m sz)))"
  shows "gasGood oper p" "gasCovers oper p (\<lambda>e st. unat (callGasTemp e) + fee st)"
proof -
  show "gasGood oper p" unfolding gasGood_def
  proof (intro allI impI)
    fix gt e sz and c :: Contract and m :: Memory and st :: Stack
    assume a: "gasTable_ok gt" "evmOk e" "p \<le> length st"
    obtain t b where t: "gasCost oper gt e c st m sz = Some (finishCallGas gt (e\<lparr>sdb := t\<rparr>) c (st ! 0) (snd (memoryGasCost m sz)) b)"
      "quiet (sdb e) t" "\<And>k. b = Inr k \<Longrightarrow> fee st < unat k \<and> \<not> isl (fst (memoryGasCost m sz))"
      using c [OF a(1,3)] a(2) unfolding evmOk_def by metis
    obtain x e1 m1 where f: "finishCallGas gt (e\<lparr>sdb := t\<rparr>) c (st ! 0) (snd (memoryGasCost m sz)) b = (x, e1, m1)" by (metis prod_cases3)
    note g = goes_quiet [OF a(2) t(2)]
    note F = finishCallGas_env [OF goes_evmOk [OF a(2) g] f]
    have ms: "memStore m1 = memStore m" using F(2) memoryGasCost_store [of m sz] by (metis prod.collapse)
    have "1 \<le> unat k \<and> unat sz \<le> memMax" if x: "x = Inr k" for k
    proof -
      obtain k0 where k: "b = Inr k0" "unat k = unat k0 + unat (callGasTemp e1)"
        using finishCallGas_cases [OF f [unfolded x]] by blast
      with t(3) [OF k(1)] memoryGasCost_bound [of m sz] show ?thesis
        by (cases "memoryGasCost m sz"; cases "fst (memoryGasCost m sz)") auto
    qed
    then show "\<exists>r e1 m1. gasCost oper gt e c st m sz = Some (r, e1, m1) \<and> goes e e1 \<and> memStore m1 = memStore m \<and>
        (\<forall>g. r = Inr g \<longrightarrow> (halts oper \<or> reverts oper \<or> 1 \<le> unat g) \<and> (memorySizeFn oper \<noteq> None \<longrightarrow> unat sz \<le> memMax))"
      using t(1) f goes_trans [OF g F(1)] ms by simp
  qed
  show "gasCovers oper p (\<lambda>e st. unat (callGasTemp e) + fee st)" unfolding gasCovers_def
  proof (intro allI impI)
    fix gt e sz g e1 m1 and c :: Contract and m :: Memory and st :: Stack
    assume a: "gasTable_ok gt" "p \<le> length st" and g: "gasCost oper gt e c st m sz = Some (Inr g, e1, m1)"
    obtain t b where t: "finishCallGas gt (e\<lparr>sdb := t\<rparr>) c (st ! 0) (snd (memoryGasCost m sz)) b = (Inr g, e1, m1)"
      "\<And>k. b = Inr k \<Longrightarrow> fee st < unat k"
      using c [OF a, of e c m sz] g by auto
    obtain k where k: "b = Inr k" "unat g = unat k + unat (callGasTemp e1)" using finishCallGas_cases [OF t(1)] by blast
    with t(2) [OF k(1)] show "unat (callGasTemp e1) + fee st < unat g" by simp
  qed
qed

lemma checkedAdd': "ebind r (\<lambda>x. checked (SafeAdd a x)) = Inr k \<Longrightarrow> unat a \<le> unat k \<and> \<not> isl r"
  "ebind r (\<lambda>x. checked (SafeAdd x a)) = Inr k \<Longrightarrow> unat a \<le> unat k \<and> \<not> isl r"
  by (auto simp: ebind_Inr simp del: checked_Inr dest: checkedAdd)

definition stipend :: "Stack \<Rightarrow> nat" where
  "stipend st = (if st ! 2 = 0 then 0 else 2300)"

lemma plain_costs:
  assumes o: "gasCost oper = gasDelegateCall \<or> gasCost oper = gasStaticCall" and p: "0 < p"
  shows "gasGood oper p" "gasCovers oper p (\<lambda>e st. unat (callGasTemp e) + 0)"
proof -
  have c: "\<exists>t b. gasCost oper gt e c st m sz = Some (finishCallGas gt (e\<lparr>sdb := t\<rparr>) c (st ! 0) (snd (memoryGasCost m sz)) b) \<and>
        (stateOk (sdb e) \<longrightarrow> quiet (sdb e) t) \<and> (\<forall>k. b = Inr k \<longrightarrow> 0 < unat k \<and> \<not> isl (fst (memoryGasCost m sz)))"
    if gt: "gasTable_ok gt" and l: "p \<le> length st" for gt e c st m sz
  proof (intro exI conjI allI impI)
    have "Back st 0 = Some (st ! 0)" by (rule Back_ok) (use l p in linarith)
    then show "gasCost oper gt e c st m sz = Some (finishCallGas gt (e\<lparr>sdb := sdb e\<rparr>) c (st ! 0) (snd (memoryGasCost m sz))
        (ebind (fst (memoryGasCost m sz)) (\<lambda>gas. checked (SafeAdd gas (Calls gt)))))"
      using o by (cases "memoryGasCost m sz") (auto simp: gasDelegateCall_def gasStaticCall_def)
    fix k
    assume "ebind (fst (memoryGasCost m sz)) (\<lambda>gas. checked (SafeAdd gas (Calls gt))) = Inr k"
    from checkedAdd'(2) [OF this] gasTable_okD(5) [OF gt]
    show "0 < unat k" "\<not> isl (fst (memoryGasCost m sz))" by auto
  qed (rule quiet_refl)
  show "gasGood oper p" by (rule callCost_ok(1)) (rule c)
  show "gasCovers oper p (\<lambda>e st. unat (callGasTemp e) + 0)" by (rule callCost_ok(2)) (rule c)
qed

lemma callcode_costs:
  assumes o: "gasCost oper = gasCallCode" and p: "2 < p"
  shows "gasGood oper p" "gasCovers oper p (\<lambda>e st. unat (callGasTemp e) + stipend st)"
proof -
  have c: "\<exists>t b. gasCost oper gt e c st m sz = Some (finishCallGas gt (e\<lparr>sdb := t\<rparr>) c (st ! 0) (snd (memoryGasCost m sz)) b) \<and>
        (stateOk (sdb e) \<longrightarrow> quiet (sdb e) t) \<and> (\<forall>k. b = Inr k \<longrightarrow> stipend st < unat k \<and> \<not> isl (fst (memoryGasCost m sz)))"
    if gt: "gasTable_ok gt" and l: "p \<le> length st" for gt e c st m sz
  proof (intro exI conjI allI impI)
    let ?g = "if st ! 2 \<noteq> 0 then Calls gt + CallValueTransferGas else Calls gt"
    have "Back st 0 = Some (st ! 0)" "Back st 2 = Some (st ! 2)" by (rule Back_ok, use l p in linarith)+
    then show "gasCost oper gt e c st m sz = Some (finishCallGas gt (e\<lparr>sdb := sdb e\<rparr>) c (st ! 0) (snd (memoryGasCost m sz))
        (ebind (fst (memoryGasCost m sz)) (\<lambda>gas. checked (SafeAdd ?g gas))))"
      using o by (cases "memoryGasCost m sz") (auto simp: gasCallCode_def)
    have f: "stipend st < unat ?g" using gasTable_okD(5,7) [OF gt] by (simp add: stipend_def params unat_word_ariths)
    fix k
    assume "ebind (fst (memoryGasCost m sz)) (\<lambda>gas. checked (SafeAdd ?g gas)) = Inr k"
    from checkedAdd'(1) [OF this] f show "stipend st < unat k" "\<not> isl (fst (memoryGasCost m sz))" by auto
  qed (rule quiet_refl)
  show "gasGood oper p" by (rule callCost_ok(1)) (rule c)
  show "gasCovers oper p (\<lambda>e st. unat (callGasTemp e) + stipend st)" by (rule callCost_ok(2)) (rule c)
qed

lemma call_costs:
  assumes o: "gasCost oper = gasCall" and p: "2 < p"
  shows "gasGood oper p" "gasCovers oper p (\<lambda>e st. unat (callGasTemp e) + stipend st)"
proof -
  have c: "\<exists>t b. gasCost oper gt e c st m sz = Some (finishCallGas gt (e\<lparr>sdb := t\<rparr>) c (st ! 0) (snd (memoryGasCost m sz)) b) \<and>
        (stateOk (sdb e) \<longrightarrow> quiet (sdb e) t) \<and> (\<forall>k. b = Inr k \<longrightarrow> stipend st < unat k \<and> \<not> isl (fst (memoryGasCost m sz)))"
    if gt: "gasTable_ok gt" and l: "p \<le> length st" for gt e c st m sz
  proof (intro exI conjI allI impI)
    let ?s = "snd (getStateObject (sdb e) (BigToAddress (st ! 1)))"
    let ?t = "if isEIP158 e \<and> st ! 2 = 0 then sdb e else ?s"
    let ?new = "if isEIP158 e then st ! 2 \<noteq> 0 \<and> fst (Empty (sdb e) (BigToAddress (st ! 1))) else \<not> fst (Exist (sdb e) (BigToAddress (st ! 1)))"
    let ?h = "if ?new then Calls gt + CallNewAccountGas else Calls gt"
    let ?g = "if st ! 2 \<noteq> 0 then ?h + CallValueTransferGas else ?h"
    have b: "Back st 0 = Some (st ! 0)" "Back st 1 = Some (st ! 1)" "Back st 2 = Some (st ! 2)" by (rule Back_ok, use l p in linarith)+
    have q: "Empty (sdb e) a = (fst (Empty (sdb e) a), snd (getStateObject (sdb e) a))"
        "Exist (sdb e) a = (fst (Exist (sdb e) a), snd (getStateObject (sdb e) a))" for a
      by (simp_all add: prod_eq_iff query_states)
    show "gasCost oper gt e c st m sz = Some (finishCallGas gt (e\<lparr>sdb := ?t\<rparr>) c (st ! 0) (snd (memoryGasCost m sz))
        (ebind (fst (memoryGasCost m sz)) (\<lambda>gas. checked (SafeAdd ?g gas))))"
      unfolding o gasCall_def b
      by (subst q, subst q) (simp add: case_prod_unfold Let_def)
    show "quiet (sdb e) ?t" if "stateOk (sdb e)" using that by (simp add: quiet_refl quiet_reads(1))
    have f: "stipend st < unat ?g" using gasTable_okD(5,7) [OF gt] by (simp add: stipend_def params unat_word_ariths)
    fix k
    assume "ebind (fst (memoryGasCost m sz)) (\<lambda>gas. checked (SafeAdd ?g gas)) = Inr k"
    from checkedAdd'(1) [OF this] f show "stipend st < unat k" "\<not> isl (fst (memoryGasCost m sz))" by auto
  qed
  show "gasGood oper p" by (rule callCost_ok(1)) (rule c)
  show "gasCovers oper p (\<lambda>e st. unat (callGasTemp e) + stipend st)" by (rule callCost_ok(2)) (rule c)
qed

section \<open>The calling instructions\<close>

lemma in256_flag [simp]: "in256 (if b then 0 else 1)"
  by simp

text \<open>The common end of the four calls.\<close>

lemma finishCall_ok:
  assumes m: "frameOk m" and r: "callRes (evm m) gas r" and g: "unat (Gas (contract m)) + unat gas \<le> 2 ^ 60"
    and o: "in256 ro" "in256 rs" "calcMemSize ro rs \<le> int (MemLen (mem m))" and st: "list_all in256 st" "length st < 1024"
  shows "\<exists>m' res. Option.bind r (finishCall m st ro rs) = Some (m', res, None) \<and> frameOk m' \<and> goes (evm m) (evm m') \<and> small res \<and>
    unat (Gas (contract m')) \<le> unat (Gas (contract m)) + unat gas"
proof -
  obtain e' ret left err where x: "r = Some (e', ret, left, err)" "goes (evm m) e'" "unat left \<le> unat gas" "small ret"
    using r by (auto simp: callRes_def)
  obtain mm where mm: "(if err = None \<or> err = Some errExecutionReverted
      then MemSet (mem m) (Uint64 ro) (Uint64 rs) ret else Some (mem m)) = Some mm" "memOk mm"
    using MemSet_covered [OF m o, of ret] memOk_self [OF m] by (metis (full_types))
  let ?c = "(contract m)\<lparr>Gas := Gas (contract m) + left\<rparr>"
  let ?m = "m\<lparr>evm := e', stack := push (if err \<noteq> None then 0 else 1) st, mem := mm, contract := ?c\<rparr>"
  have gs: "unat (Gas (contract m) + left) = unat (Gas (contract m)) + unat left"
    using g x(3) by (intro u64_add_unat) simp
  have "contractOk (ext (sdb e')) ?c" using m goes_ext [OF x(2)] by (simp add: frameOk_def)
  then have "frameOk ?m" using m mm(2) st g gs x(3) goes_evmOk [OF _ x(2)] by (simp add: frameOk_def push_def)
  moreover have "Option.bind r (finishCall m st ro rs) = Some (?m, ret, None)"
    by (simp add: x(1) finishCall_def mm(1))
  ultimately show ?thesis using x gs by auto
qed

lemma BigMax_covers: "BigMax x y \<le> n \<Longrightarrow> x \<le> n \<and> y \<le> n"
  by (simp add: BigMax_def split: if_splits)

lemma memGood_calls:
  "memorySizeFn oper = Some memoryCall \<Longrightarrow> memGood oper 7" "memorySizeFn oper = Some memoryDelegateCall \<Longrightarrow> memGood oper 6"
  "memorySizeFn oper = Some memoryStaticCall \<Longrightarrow> memGood oper 6"
  by (auto simp: memGood_def stack_split memoryCall_def memoryDelegateCall_def memoryStaticCall_def BigMax_def calcMemSize_nonneg)

lemma U256_in256: "in256 v \<Longrightarrow> U256 v = v"
  by (simp add: in256_def U256_mod)

text \<open>CALL and CALLCODE: the callee may get a stipend.\<close>

lemma valueCall_exec:
  fixes f :: "calls \<Rightarrow> EVM \<Rightarrow> ContractRef \<Rightarrow> address \<Rightarrow> bytes \<Rightarrow> u64 \<Rightarrow> int \<Rightarrow> callResult option"
  assumes c: "execute oper = opCall \<and> zero \<and> f = CallFn \<or> execute oper = opCallCode \<and> f = CallCodeFn" and o: "validateStack oper = makeStackFunc 7 1" "memorySizeFn oper = Some memoryCall"
  shows "execCall oper 7 (\<lambda>e st. unat (callGasTemp e) + stipend st) zero"
  unfolding execCall_def
proof (intro allI impI)
  fix n cs m
  assume cs: "callsOk n cs" and m: "frameOk m" "7 \<le> length (stack m)" "validateStack oper (stack m) = None" "covered oper m"
    and z: "zero \<longrightarrow> protected (evm m) \<longrightarrow> stack m ! 2 = 0"
    and g: "unat (Gas (contract m)) + (unat (callGasTemp (evm m)) + stipend (stack m)) < n"
      "unat (Gas (contract m)) + (unat (callGasTemp (evm m)) + stipend (stack m)) \<le> 2 ^ 60"
  obtain x0 a v i isz ro rs st where st: "stack m = x0 # a # v # i # isz # ro # rs # st" using m(2) by (auto simp: stack_split)
  then have i: "in256 v" "in256 i" "in256 isz" "in256 ro" "in256 rs" "list_all in256 st" using frameOk_stack [OF m(1)] by simp_all
  have "memoryCall (stack m) = Some (BigMax (calcMemSize ro rs) (calcMemSize i isz))" by (simp add: st memoryCall_def eval_nat_numeral)
  then have cov: "calcMemSize ro rs \<le> int (MemLen (mem m))" "calcMemSize i isz \<le> int (MemLen (mem m))"
    using coveredD [OF m(4) o(2)] BigMax_covers by blast+
  obtain d where d: "MemGet (mem m) (Int64 i) (Int64 isz) = Some d" "small d" using MemGet_covered [OF m(1) i(2,3) cov(2)] by blast
  let ?g = "if v \<noteq> 0 then callGasTemp (evm m) + CallStipend else callGasTemp (evm m)"
  have gs: "unat ?g = unat (callGasTemp (evm m)) + stipend (stack m)"
    using g(2) by (auto simp: stipend_def st params gas_simps)
  have "callRes (evm m) ?g (f cs (evm m) (RunningContract (contract m)) (BigToAddress a) d ?g v)"
    using cs frameOk_parts(7) [OF m(1)] d(2) gs g i(1) c z unfolding callsOk_def by (auto simp: st)
  from finishCall_ok [OF m(1) this _ i(4,5) cov(1) i(6)] gs g(2) m(3)
  obtain m' res where "Option.bind (f cs (evm m) (RunningContract (contract m)) (BigToAddress a) d ?g v) (finishCall m st ro rs) = Some (m', res, None)"
    "frameOk m'" "goes (evm m) (evm m')" "small res" "unat (Gas (contract m')) \<le> unat (Gas (contract m)) + unat ?g"
    by (auto simp: o(1) makeStackFunc_None st)
  then show "\<exists>m' res. execute oper cs m = Some (m', res, None) \<and> frameOk m' \<and> goes (evm m) (evm m') \<and> small res \<and>
      unat (Gas (contract m')) \<le> unat (Gas (contract m)) + (unat (callGasTemp (evm m)) + stipend (stack m))"
    using c d(1) gs by (auto simp: opCall_def opCallCode_def st pop_Cons U256_in256 [OF i(1)] Let_def)
qed

text \<open>DELEGATECALL and STATICCALL carry no value of their own.\<close>

lemma plainCall_exec:
  fixes f :: "calls \<Rightarrow> EVM \<Rightarrow> ContractRef \<Rightarrow> address \<Rightarrow> bytes \<Rightarrow> u64 \<Rightarrow> callResult option"
  assumes c: "execute oper = opDelegateCall \<and> f = DelegateCallFn \<and> memorySizeFn oper = Some memoryDelegateCall \<or>
      execute oper = opStaticCall \<and> f = StaticCallFn \<and> memorySizeFn oper = Some memoryStaticCall"
    and o: "validateStack oper = makeStackFunc 6 1"
  shows "execCall oper 6 (\<lambda>e st. unat (callGasTemp e) + 0) zero"
  unfolding execCall_def
proof (intro allI impI)
  fix n cs m
  assume cs: "callsOk n cs" and m: "frameOk m" "6 \<le> length (stack m)" "validateStack oper (stack m) = None" "covered oper m"
    and g: "unat (Gas (contract m)) + (unat (callGasTemp (evm m)) + 0) < n" "unat (Gas (contract m)) + (unat (callGasTemp (evm m)) + 0) \<le> 2 ^ 60"
  obtain x0 a i isz ro rs st where st: "stack m = x0 # a # i # isz # ro # rs # st" using m(2) by (auto simp: stack_split)
  then have i: "in256 i" "in256 isz" "in256 ro" "in256 rs" "list_all in256 st" using frameOk_stack [OF m(1)] by simp_all
  have "memoryDelegateCall (stack m) = Some (BigMax (calcMemSize ro rs) (calcMemSize i isz))"
    "memoryStaticCall (stack m) = Some (BigMax (calcMemSize ro rs) (calcMemSize i isz))"
    by (simp_all add: st memoryDelegateCall_def memoryStaticCall_def eval_nat_numeral)
  then have cov: "calcMemSize ro rs \<le> int (MemLen (mem m))" "calcMemSize i isz \<le> int (MemLen (mem m))"
    using coveredD [OF m(4)] c BigMax_covers by blast+
  obtain d where d: "MemGet (mem m) (Int64 i) (Int64 isz) = Some d" "small d" using MemGet_covered [OF m(1) i(1,2) cov(2)] by blast
  let ?g = "callGasTemp (evm m)"
  have "callRes (evm m) ?g (f cs (evm m) (RunningContract (contract m)) (BigToAddress a) d ?g)"
    using cs frameOk_parts(1,7) [OF m(1)] d(2) g in256_consts(1) c unfolding callsOk_def by auto
  from finishCall_ok [OF m(1) this _ i(3,4) cov(1) i(5)] g(2) m(3)
  obtain m' res where "Option.bind (f cs (evm m) (RunningContract (contract m)) (BigToAddress a) d ?g) (finishCall m st ro rs) = Some (m', res, None)"
    "frameOk m'" "goes (evm m) (evm m')" "small res" "unat (Gas (contract m')) \<le> unat (Gas (contract m)) + unat ?g"
    by (auto simp: o makeStackFunc_None st)
  then show "\<exists>m' res. execute oper cs m = Some (m', res, None) \<and> frameOk m' \<and> goes (evm m) (evm m') \<and> small res \<and>
      unat (Gas (contract m')) \<le> unat (Gas (contract m)) + (unat (callGasTemp (evm m)) + 0)"
    using c d(1) by (auto simp: opDelegateCall_def opStaticCall_def st pop_Cons Let_def)
qed

lemma create_exec:
  assumes c: "execute oper = opCreate" "memorySizeFn oper = Some memoryCreate" "writes oper" "validateStack oper = makeStackFunc 3 1"
  shows "execCall oper 3 (\<lambda>e st. 0) zero"
  unfolding execCall_def
proof (intro allI impI)
  fix n cs m
  assume cs: "callsOk n cs" and m: "frameOk m" "3 \<le> length (stack m)" "validateStack oper (stack m) = None" "covered oper m"
    "writes oper \<longrightarrow> \<not> protected (evm m)" and g: "unat (Gas (contract m)) + 0 < n"
  obtain v off sz st where st: "stack m = v # off # sz # st" using m(2) by (auto simp: stack_split)
  then have i: "in256 v" "in256 off" "in256 sz" "list_all in256 st" using frameOk_stack [OF m(1)] by simp_all
  have "calcMemSize off sz \<le> int (MemLen (mem m))" using m(4) st c(2) by (simp add: covered_def memoryCreate_def eval_nat_numeral)
  then obtain d where d: "MemGet (mem m) (Int64 off) (Int64 sz) = Some d" "small d" using MemGet_covered [OF m(1) i(2,3)] by blast
  let ?G = "Gas (contract m)"
  define gas where "gas = (if isEIP150 (evm m) then ?G - ?G div 64 else ?G)"
  have gle: "unat gas \<le> unat ?G" by (auto simp: gas_def unat_sub_if_size word_le_nat_alt unat_div)
  define c1 where "c1 = snd (UseGas (contract m) gas)"
  have c1: "c1 = (contract m)\<lparr>Gas := ?G - gas\<rparr>" "unat (Gas c1) + unat gas = unat ?G"
    using gle by (auto simp: c1_def UseGas_cases unat_sub word_le_nat_alt)
  have G: "unat ?G \<le> 2 ^ 60" using m(1) by (simp add: frameOk_def)
  have "createRes (evm m) gas (CreateFn cs (evm m) (RunningContract c1) d gas v)"
    using cs frameOk_parts(7) [OF m(1)] d(2) gle g G i(1) m(5) c(3) unfolding callsOk_def by auto
  then obtain e' ret a left err where x: "CreateFn cs (evm m) (RunningContract c1) d gas v = Some (e', ret, a, left, err)"
    "goes (evm m) e'" "unat left \<le> unat gas" "small ret" by (auto simp: createRes_def)
  let ?r = "if isHomestead e' \<and> err = Some ErrCodeStoreOutOfGas then 0
              else if err \<noteq> None \<and> err \<noteq> Some ErrCodeStoreOutOfGas then 0 else AddressBig a"
  let ?m = "m\<lparr>evm := e', stack := push ?r st, contract := c1\<lparr>Gas := Gas c1 + left\<rparr>\<rparr>"
  have gs: "unat (Gas c1 + left) = unat (Gas c1) + unat left" using c1(2) x(3) G by (intro u64_add_unat) simp
  have "contractOk (ext (sdb e')) (c1\<lparr>Gas := Gas c1 + left\<rparr>)" using m(1) goes_ext [OF x(2)] by (simp add: frameOk_def c1(1))
  moreover have "in256 ?r" using in256_AddressBig by simp
  ultimately have "frameOk ?m" using m(1,3) i(4) G gs x(3) c1(2) goes_evmOk [OF _ x(2)]
    by (simp add: frameOk_def push_def c(4) makeStackFunc_None st)
  moreover have "execute oper cs m = Some (?m, if err = Some errExecutionReverted then ret else [], None)"
    by (simp add: c(1) opCreate_def st pop_Cons d(1) gas_def [symmetric] c1_def [symmetric] x(1) Let_def)
  ultimately show "\<exists>m' res. execute oper cs m = Some (m', res, None) \<and> frameOk m' \<and> goes (evm m) (evm m') \<and> small res \<and>
      unat (Gas (contract m')) \<le> unat ?G + 0"
    using x c1(2) gs by auto
qed

lemma callGoodI:
  assumes "validateStack oper = makeStackFunc p q" "execCall oper p extra zero" "memGood oper p" "gasGood oper p" "gasCovers oper p extra"
  shows "callGood oper zero"
  using assms unfolding callGood_def by blast

lemma memGas_covers:
  assumes "memGas (gasCost oper) p k" "0 < k"
  shows "gasCovers oper p (\<lambda>e st. 0)"
  unfolding gasCovers_def
proof (intro allI impI)
  fix gt e sz g e1 m1 and c :: Contract and m :: Memory and st :: Stack
  assume "gasTable_ok gt" "p \<le> length st" "gasCost oper gt e c st m sz = Some (Inr g, e1, m1)"
  then have "k \<le> unat g" using assms(1) unfolding memGas_def by (metis Pair_inject option.inject)
  then show "0 < unat g" using assms(2) by linarith
qed

lemma callGood_ops:
  "callGood ((mkOp opCreate gasCreate (makeStackFunc 3 1))\<lparr>memorySizeFn := Some memoryCreate, writes := True, returns := True\<rparr>) False" (is "callGood ?create _")
  "callGood ((mkOp opCall gasCall (makeStackFunc 7 1))\<lparr>memorySizeFn := Some memoryCall, returns := True\<rparr>) True" (is "callGood ?call _")
  "callGood ((mkOp opCallCode gasCallCode (makeStackFunc 7 1))\<lparr>memorySizeFn := Some memoryCall, returns := True\<rparr>) False" (is "callGood ?code _")
  "callGood ((mkOp opDelegateCall gasDelegateCall (makeStackFunc 6 1))\<lparr>memorySizeFn := Some memoryDelegateCall, returns := True\<rparr>) False" (is "callGood ?delegate _")
  "callGood ((mkOp opStaticCall gasStaticCall (makeStackFunc 6 1))\<lparr>memorySizeFn := Some memoryStaticCall, returns := True\<rparr>) False" (is "callGood ?static _")
proof -
  have "memGas (gasCost ?create) 3 32000" by (simp add: mkOp_def memGas_simple)
  then have "gasGood ?create 3" "gasCovers ?create 3 (\<lambda>e st. 0)" using memGas_gasGood memGas_covers by simp_all
  moreover have "execCall ?create 3 (\<lambda>e st. 0) False" by (rule create_exec) (simp_all add: mkOp_def)
  ultimately show "callGood ?create False"
    by (intro callGoodI [where p = 3 and q = 1]) (simp_all add: mkOp_def memGood_rules)
  show "callGood ?call True"
    by (rule callGoodI [OF _ valueCall_exec [where f = CallFn] _ call_costs(1,2)]) (simp_all add: mkOp_def memGood_calls)
  show "callGood ?code False"
    by (rule callGoodI [OF _ valueCall_exec [where f = CallCodeFn] _ callcode_costs(1,2)]) (simp_all add: mkOp_def memGood_calls)
  show "callGood ?delegate False"
    by (rule callGoodI [OF _ plainCall_exec [where f = DelegateCallFn] _ plain_costs(1,2)]) (simp_all add: mkOp_def memGood_calls)
  show "callGood ?static False"
    by (rule callGoodI [OF _ plainCall_exec [where f = StaticCallFn] _ plain_costs(1,2)]) (simp_all add: mkOp_def memGood_calls)
qed

end
