(* ===== verification/EVMTable.thy ===== *)
theory EVMTable
  imports EVMCallOps
begin

text \<open>
  Every entry of the four instruction tables meets the contract of a plain or of a calling
  instruction.
\<close>

definition goodEntry :: "byte \<times> operation \<Rightarrow> bool" where
  "goodEntry x = (case x of (b, oper) \<Rightarrow>
     if b = CALL then callGood oper True \<and> validateStack oper = makeStackFunc 7 1
     else (opGood oper \<and> (halts oper \<or> b \<noteq> STOP)) \<or> callGood oper False)"

lemma mkOp_validate [simp]: "validateStack (mkOp ex gc vs) = vs"
  by (simp add: mkOp_def)

lemma opGood_simple:
  "pureGood ex p q \<Longrightarrow> 1 \<le> unat g \<Longrightarrow> opGood (mkOp ex (constGasFunc g) (makeStackFunc p q))"
  "pureGood ex p q \<Longrightarrow> flatGas gc p \<Longrightarrow> opGood (mkOp ex gc (makeStackFunc p q))"
  by (rule pure_opGood [where p = p and q = q]; simp add: mkOp_def flatGas_const)+

lemmas pure_all = pure_implements [OF sar_impl] binary_impl [THEN pure_implements] pure_ternary pure_pushes pure_unaries pure_Pop pure_none
lemmas pure_table = pure_all pure_all [unfolded One_nat_def]

lemma opGood_STOP: "opGood ((mkOp opStop (constGasFunc 0) (makeStackFunc 0 0))\<lparr>halts := True\<rparr>)" (is "opGood ?op")
  unfolding opGood_def
proof (intro exI conjI)
  show "validateStack ?op = makeStackFunc 0 0" by (simp add: mkOp_def)
  show "memGood ?op 0" by (simp add: memGood_rules mkOp_def)
  show "execGood ?op 0"
  proof (rule execGoodI [where q = 0])
    fix cs m assume "frameOk m"
    then show "fine m (length (stack m) + 0 - 0) (execute ?op cs m)"
      using frameOk_stack by (simp add: op_simps opStop_def)
  qed (simp add: mkOp_def)
  show "gasGood ?op 0" by (simp add: gasGood_def mkOp_def constGasFunc_def goes_refl)
qed

lemmas good_mem = opGood_SHA3 opGood_CALLDATACOPY opGood_CODECOPY opGood_EXTCODECOPY opGood_MLOAD opGood_MSTORE opGood_MSTORE8
  opGood_RETURNDATACOPY opGood_RETURN opGood_REVERT opGood_BALANCE opGood_EXTCODESIZE opGood_SLOAD opGood_SSTORE
  opGood_SELFDESTRUCT opGood_JUMP opGood_JUMPI opGood_STOP

lemmas good_simps = goodEntry_def opGood_simple pure_table good_mem good_mem [unfolded params One_nat_def]
  callGood_ops callGood_ops [unfolded One_nat_def]
  params flatGas_table flatGas_exp opcodes

lemma good_arithmetic: "list_all goodEntry frontierArithmetic"
  by (simp add: frontierArithmetic_def good_simps)

lemma good_logic: "list_all goodEntry frontierLogic"
  by (simp add: frontierLogic_def good_simps)

lemma good_environment: "list_all goodEntry frontierEnvironment" "list_all goodEntry frontierBlock"
  by (simp_all add: frontierEnvironment_def frontierBlock_def good_simps)

lemma good_storage: "list_all goodEntry frontierStorage" "list_all goodEntry frontierSystem"
  by (simp_all add: frontierStorage_def frontierSystem_def good_simps)

lemma range_code: "0 < c \<Longrightarrow> c + n < 241 \<Longrightarrow> (of_nat c :: byte) + of_nat n \<noteq> 0 \<and> (of_nat c :: byte) + of_nat n \<noteq> 0xf1"
proof -
  assume n: "0 < c" "c + n < 241"
  have "unat (of_nat (c + n) :: byte) = c + n" using n by (simp add: unat_of_nat del: of_nat_add)
  moreover have "unat (0 :: byte) \<noteq> c + n" "unat (0xf1 :: byte) \<noteq> c + n" using n by auto
  ultimately show ?thesis by (metis of_nat_add)
qed

lemma good_map:
  assumes "\<And>n. n \<in> set ns \<Longrightarrow> opGood (f n)" "\<And>n. n \<in> set ns \<Longrightarrow> c n \<noteq> STOP \<and> c n \<noteq> CALL"
  shows "list_all goodEntry (map (\<lambda>n. (c n, f n)) ns)"
  using assms by (simp add: list_all_iff goodEntry_def)

lemma range_codes:
  "n < 33 \<Longrightarrow> PUSH1 + of_nat (n - 1) \<noteq> STOP \<and> PUSH1 + of_nat (n - 1) \<noteq> CALL"
  "n < 17 \<Longrightarrow> DUP1 + of_nat (n - 1) \<noteq> STOP \<and> DUP1 + of_nat (n - 1) \<noteq> CALL"
  "n < 17 \<Longrightarrow> SWAP1 + of_nat (n - 1) \<noteq> STOP \<and> SWAP1 + of_nat (n - 1) \<noteq> CALL"
  "n < 5 \<Longrightarrow> LOG0 + of_nat n \<noteq> STOP \<and> LOG0 + of_nat n \<noteq> CALL"
  unfolding opcodes
  using range_code [of "0x60" "n - 1"] range_code [of "0x80" "n - 1"] range_code [of "0x90" "n - 1"] range_code [of "0xa0" n]
  by simp_all

lemma good_push: "list_all goodEntry frontierPush" "list_all goodEntry frontierPushLong"
proof -
  have "opGood (mkOp (makePush k n) gasPush (makeStackFunc 0 1))" if "n < 33" for k n
    using that by (intro push_opGood [where n = k and k = n]) (simp_all add: mkOp_def flatGas_table)
  then show "list_all goodEntry frontierPush" "list_all goodEntry frontierPushLong"
    unfolding frontierPush_def frontierPushLong_def by (intro good_map range_codes; auto)+
qed

lemma good_dup: "list_all goodEntry frontierDup"
  unfolding frontierDup_def makeDupStackFunc_def
  by (intro good_map range_codes opGood_simple(2) pure_dup flatGas_table) simp_all

lemma good_swap: "list_all goodEntry frontierSwap"
  unfolding frontierSwap_def makeSwapStackFunc_def
  by (intro good_map range_codes opGood_simple(2) pure_swap flatGas_table) simp_all

lemma good_log: "list_all goodEntry frontierLog"
  unfolding frontierLog_def by (intro good_map range_codes opGood_LOG) simp_all

lemma good_tables:
  "list_all goodEntry NewFrontierInstructionSet" "list_all goodEntry NewHomesteadInstructionSet"
  "list_all goodEntry NewByzantiumInstructionSet" "list_all goodEntry NewConstantinopleInstructionSet"
proof -
  show f: "list_all goodEntry NewFrontierInstructionSet"
    by (simp only: NewFrontierInstructionSet_def list_all_append good_arithmetic good_logic good_environment good_storage good_push good_dup good_swap good_log simp_thms)
  show h: "list_all goodEntry NewHomesteadInstructionSet"
    using f by (simp add: NewHomesteadInstructionSet_def good_simps)
  show b: "list_all goodEntry NewByzantiumInstructionSet"
    using h by (simp add: NewByzantiumInstructionSet_def good_simps)
  show "list_all goodEntry NewConstantinopleInstructionSet"
    using b by (simp add: NewConstantinopleInstructionSet_def good_simps)
qed

lemma good_instruction:
  assumes "valid (lookupOp (instructionSet e) b)"
  shows "goodEntry (b, lookupOp (instructionSet e) b)"
proof -
  have "list_all goodEntry (instructionSet e)" by (simp add: instructionSet_def good_tables)
  moreover have "map_of (instructionSet e) b = Some (lookupOp (instructionSet e) b)"
    using assms by (auto simp: lookupOp_def invalidOp_def split: option.splits)
  ultimately show ?thesis by (metis list_all_iff map_of_SomeD)
qed

end
