(* ===== verification/EVMFuel.thy ===== *)
theory EVMFuel
  imports EVMTable
begin

text \<open>
  The fuel of the interpreter loop does not matter: once a run returns, more fuel gives the same result.
  Only the five calling instructions look at the entry points, and they do so monotonically.
\<close>

section \<open>More defined results\<close>

definition below :: "'a option \<Rightarrow> 'a option \<Rightarrow> bool" where
  "below x y \<longleftrightarrow> (\<forall>r. x = Some r \<longrightarrow> y = Some r)"

lemma below_refl [simp, intro]: "below x x"
  by (simp add: below_def)

lemma below_bind: "below x y \<Longrightarrow> (\<And>r. below (f r) (g r)) \<Longrightarrow> below (Option.bind x f) (Option.bind y g)"
  by (auto simp: below_def bind_eq_Some_conv)

lemma below_bind1 [intro]: "below x y \<Longrightarrow> below (Option.bind x f) (Option.bind y f)"
  by (rule below_bind) simp_all

lemma below_if [intro]: "(b \<Longrightarrow> below x y) \<Longrightarrow> (\<not> b \<Longrightarrow> below x' y') \<Longrightarrow> below (if b then x else x') (if b then y else y')"
  by simp

lemma below_prod [intro]: "(\<And>a b. below (f a b) (g a b)) \<Longrightarrow> below (case p of (a, b) \<Rightarrow> f a b) (case p of (a, b) \<Rightarrow> g a b)"
  by (cases p) simp

definition runBelow :: "(machine \<Rightarrow> frameResult option) \<Rightarrow> (machine \<Rightarrow> frameResult option) \<Rightarrow> bool" where
  "runBelow run run' \<longleftrightarrow> (\<forall>m. below (run m) (run' m))"

definition callsBelow :: "calls \<Rightarrow> calls \<Rightarrow> bool" where
  "callsBelow cs cs' \<longleftrightarrow>
     (\<forall>e r a i g v. below (CallFn cs e r a i g v) (CallFn cs' e r a i g v)) \<and>
     (\<forall>e r a i g v. below (CallCodeFn cs e r a i g v) (CallCodeFn cs' e r a i g v)) \<and>
     (\<forall>e r a i g. below (DelegateCallFn cs e r a i g) (DelegateCallFn cs' e r a i g)) \<and>
     (\<forall>e r a i g. below (StaticCallFn cs e r a i g) (StaticCallFn cs' e r a i g)) \<and>
     (\<forall>e r i g v. below (CreateFn cs e r i g v) (CreateFn cs' e r i g v))"

lemma runContract_below:
  assumes "runBelow run run'"
  shows "below (runContract run e c i) (runContract run' e c i)"
  using assms by (auto simp: runContract_def Run_def runBelow_def Let_def split: option.split)

lemma callsWith_below:
  assumes r: "runBelow run run'"
  shows "callsBelow (callsWith run) (callsWith run')"
proof -
  note rc = runContract_below [OF r]
  show ?thesis
    unfolding callsBelow_def callsWith_def calls.simps Call_def CallCode_def DelegateCall_def StaticCall_def Create_def Let_def case_prod_unfold
    by (intro conjI allI below_refl below_if below_bind rc)
qed

section \<open>Instructions\<close>

definition opBelow :: "operation \<Rightarrow> bool" where
  "opBelow oper \<longleftrightarrow> (\<forall>cs cs' m. callsBelow cs cs' \<longrightarrow> below (execute oper cs m) (execute oper cs' m))"

lemma callsBelowD:
  assumes "callsBelow cs cs'"
  shows "below (CallFn cs e r a i g v) (CallFn cs' e r a i g v)" "below (CallCodeFn cs e r a i g v) (CallCodeFn cs' e r a i g v)"
    "below (DelegateCallFn cs e r a i g) (DelegateCallFn cs' e r a i g)" "below (StaticCallFn cs e r a i g) (StaticCallFn cs' e r a i g)"
    "below (CreateFn cs e r i g v) (CreateFn cs' e r i g v)"
  using assms by (simp_all add: callsBelow_def)

lemma calls_below:
  assumes "callsBelow cs cs'"
  shows "below (opCreate cs m) (opCreate cs' m)" "below (opCall cs m) (opCall cs' m)" "below (opCallCode cs m) (opCallCode cs' m)"
    "below (opDelegateCall cs m) (opDelegateCall cs' m)" "below (opStaticCall cs m) (opStaticCall cs' m)"
  unfolding opCreate_def opCall_def opCallCode_def opDelegateCall_def opStaticCall_def Let_def case_prod_unfold
  by (intro below_refl below_bind callsBelowD [OF assms])+

definition constOp :: "executionFunc \<Rightarrow> bool" where
  "constOp ex \<longleftrightarrow> (\<forall>cs cs' m. ex cs m = ex cs' m)"

lemma constOp_ops:
  "constOp opAdd" "constOp opSub" "constOp opMul" "constOp opDiv" "constOp opSdiv" "constOp opMod"
  "constOp opSmod" "constOp opExp" "constOp opSignExtend" "constOp opNot" "constOp opLt" "constOp opGt"
  "constOp opSlt" "constOp opSgt" "constOp opEq" "constOp opIszero" "constOp opAnd" "constOp opOr"
  "constOp opXor" "constOp opByte" "constOp opAddmod" "constOp opMulmod" "constOp opSHL" "constOp opSHR"
  "constOp opSAR" "constOp opSha3" "constOp opAddress" "constOp opBalance" "constOp opOrigin"
  "constOp opCaller" "constOp opCallValue" "constOp opCallDataLoad" "constOp opCallDataSize"
  "constOp opCallDataCopy" "constOp opReturnDataSize" "constOp opReturnDataCopy" "constOp opExtCodeSize"
  "constOp opCodeSize" "constOp opCodeCopy" "constOp opExtCodeCopy" "constOp opGasprice"
  "constOp opBlockhash" "constOp opCoinbase" "constOp opTimestamp" "constOp opNumber" "constOp opDifficulty"
  "constOp opGasLimit" "constOp opPop" "constOp opMload" "constOp opMstore" "constOp opMstore8"
  "constOp opSload" "constOp opSstore" "constOp opJump" "constOp opJumpi" "constOp opJumpdest" "constOp opPc"
  "constOp opMsize" "constOp opGas" "constOp opReturn" "constOp opRevert" "constOp opStop"
  "constOp opSuicide"
  "constOp (makePush k n)" "constOp (makeDup n)" "constOp (makeSwap n)" "constOp (makeLog n)"
  by (simp_all add: constOp_def
      opAdd_def opSub_def opMul_def opDiv_def opSdiv_def opMod_def opSmod_def opExp_def opSignExtend_def
      opNot_def opLt_def opGt_def opSlt_def opSgt_def opEq_def opIszero_def opAnd_def opOr_def opXor_def
      opByte_def opAddmod_def opMulmod_def opSHL_def opSHR_def opSAR_def opSha3_def opAddress_def
      opBalance_def opOrigin_def opCaller_def opCallValue_def opCallDataLoad_def opCallDataSize_def
      opCallDataCopy_def opReturnDataSize_def opReturnDataCopy_def opExtCodeSize_def opCodeSize_def
      opCodeCopy_def opExtCodeCopy_def opGasprice_def opBlockhash_def opCoinbase_def opTimestamp_def
      opNumber_def opDifficulty_def opGasLimit_def opPop_def opMload_def opMstore_def opMstore8_def
      opSload_def opSstore_def opJump_def opJumpi_def opJumpdest_def opPc_def opMsize_def opGas_def
      opReturn_def opRevert_def opStop_def opSuicide_def makePush_def makeDup_def makeSwap_def makeLog_def)

lemma opBelow_const: "constOp (execute oper) \<Longrightarrow> opBelow oper"
  unfolding opBelow_def constOp_def by (metis below_refl)

lemma opBelow_mk: "opBelow (mkOp opCreate gc vs)" "opBelow (mkOp opCall gc vs)" "opBelow (mkOp opCallCode gc vs)"
    "opBelow (mkOp opDelegateCall gc vs)" "opBelow (mkOp opStaticCall gc vs)"
  by (simp_all add: opBelow_def mkOp_def calls_below)

lemma opBelow_mkConst: "constOp ex \<Longrightarrow> opBelow (mkOp ex gc vs)"
  by (rule opBelow_const) (simp add: mkOp_def)

lemma opBelow_update [simp]:
  "opBelow (oper\<lparr>memorySizeFn := f\<rparr>) = opBelow oper" "opBelow (oper\<lparr>halts := b\<rparr>) = opBelow oper"
  "opBelow (oper\<lparr>jumps := b\<rparr>) = opBelow oper" "opBelow (oper\<lparr>writes := b\<rparr>) = opBelow oper"
  "opBelow (oper\<lparr>valid := b\<rparr>) = opBelow oper" "opBelow (oper\<lparr>reverts := b\<rparr>) = opBelow oper"
  "opBelow (oper\<lparr>returns := b\<rparr>) = opBelow oper"
  by (simp_all add: opBelow_def)

lemma table_below:
  "list_all (\<lambda>(b, oper). opBelow oper) NewConstantinopleInstructionSet"
  "list_all (\<lambda>(b, oper). opBelow oper) NewByzantiumInstructionSet"
  "list_all (\<lambda>(b, oper). opBelow oper) NewHomesteadInstructionSet"
  "list_all (\<lambda>(b, oper). opBelow oper) NewFrontierInstructionSet"
  by (simp_all add: NewConstantinopleInstructionSet_def NewByzantiumInstructionSet_def NewHomesteadInstructionSet_def
      NewFrontierInstructionSet_def frontierArithmetic_def frontierLogic_def frontierEnvironment_def frontierBlock_def
      frontierStorage_def frontierPush_def frontierPushLong_def frontierDup_def frontierSwap_def frontierLog_def
      frontierSystem_def list.pred_map comp_def list.pred_True opBelow_mk opBelow_mkConst constOp_ops del: upt.simps upt_rec_numeral)

lemma lookup_below: "opBelow (lookupOp (instructionSet e) b)"
proof (cases "map_of (instructionSet e) b")
  case None
  then show ?thesis by (simp add: lookupOp_def invalidOp_def opBelow_mkConst constOp_ops)
next
  case (Some oper)
  have "list_all (\<lambda>(b, oper). opBelow oper) (instructionSet e)" by (simp add: instructionSet_def table_below)
  then show ?thesis using map_of_SomeD [OF Some] by (auto simp: lookupOp_def Some list_all_iff)
qed

section \<open>The loop\<close>

lemma step_below:
  assumes "callsBelow cs cs'"
  shows "below (step cs m) (step cs' m)"
proof -
  have x: "below (execute (lookupOp (instructionSet (evm m)) b) cs m') (execute (lookupOp (instructionSet (evm m)) b) cs' m')" for b m'
    using lookup_below assms by (simp add: opBelow_def)
  have "below (operate cs (lookupOp (instructionSet (evm m)) b) m) (operate cs' (lookupOp (instructionSet (evm m)) b) m)" for b
    unfolding operate_def Let_def case_prod_unfold
    by (intro below_bind below_refl) (auto split: sum.split intro!: below_bind x)
  then show ?thesis unfolding step_operate Let_def
    by (auto split: option.split intro!: below_bind)
qed

lemma loopBody_below: "runBelow run run' \<Longrightarrow> runBelow (loopBody run) (loopBody run')"
  unfolding runBelow_def [of "loopBody run"] loopBody_def Let_def
  using step_below [OF callsWith_below]
  by (auto simp: runBelow_def split: stepResult.split intro!: below_bind)

lemma runLoop_below: "runBelow (runLoop n) (runLoop (n + k))"
proof (induction n)
  case 0
  show ?case by (simp add: runBelow_def below_def)
next
  case (Suc n)
  then show ?case using loopBody_below by simp
qed

end
