(* ===== verification/EVMSafe.thy ===== *)
theory EVMSafe
  imports EVMTable EVMFuel
begin

text \<open>
  The interpreter as a whole: with more fuel than gas every frame returns, whatever the code does.
  From there the properties of the entry points of the machine.
\<close>

section \<open>The loop\<close>

lemma code_inCode: "GetOp c p \<noteq> STOP \<Longrightarrow> p < of_nat (length (Code c))"
  by (auto simp: GetOp_def GetByte_def opcodes split: if_splits)

lemma restrictions_ok:
  assumes "b = CALL \<Longrightarrow> 2 < length st"
  shows "enforceRestrictions e b oper st =
    Some (if protected e \<and> (writes oper \<or> b = CALL \<and> 0 < BitLen (st ! 2)) then Some errWriteProtection else None)"
  using assms by (auto simp: enforceRestrictions_def protected_def Back_ok)

lemma step_ok:
  assumes cs: "callsOk n cs" and m: "frameOk m" "unat (Gas (contract m)) \<le> n"
  shows "\<exists>r. step cs m = Some r \<and> stepOk m r"
proof -
  define b where "b = GetOp (contract m) (pc m)"
  define oper where "oper = lookupOp (instructionSet (evm m)) b"
  have fail: "stepOk m (Halt (evm m, contract m, [], Some err))" for err using m(1) by (simp add: stepOk_def)
  show ?thesis
  proof (cases "valid oper \<and> validateStack oper (stack m) = None")
    case False
    then show ?thesis using fail by (auto simp: step_operate Let_def b_def [symmetric] oper_def [symmetric])
  next
    case True
    then have v: "valid oper" "validateStack oper (stack m) = None" by simp_all
    then have good: "goodEntry (b, oper)" unfolding oper_def by (intro good_instruction)
    have "2 < length (stack m)" if "b = CALL" using good v(2) that by (auto simp: goodEntry_def makeStackFunc_None)
    then have R: "enforceRestrictions (evm m) b oper (stack m) = Some (if protected (evm m) \<and>
        (writes oper \<or> b = CALL \<and> 0 < BitLen (stack m ! 2)) then Some errWriteProtection else None)" (is "_ = Some (if ?bad then _ else _)")
      by (rule restrictions_ok)
    show ?thesis
    proof (cases ?bad)
      case True
      then show ?thesis using fail v by (simp add: R step_operate Let_def b_def [symmetric] oper_def [symmetric])
    next
      case False
      have "inCode m" if "b \<noteq> STOP" using that code_inCode by (simp add: inCode_def b_def)
      then have "\<exists>r. operate cs oper m = Some r \<and> stepOk m r"
        using good False opGood_operate [OF _ m(1) v(2)] callGood_operate [OF _ cs m v(2)] BitLen_pos
        unfolding goodEntry_def prod.case by (metis (full_types) gr0I)
      then show ?thesis using v by (simp add: step_operate Let_def b_def [symmetric] oper_def [symmetric] R if_not_P [OF False])
    qed
  qed
qed

lemma frameOk_loads: "frameOk m \<Longrightarrow> frameOk (m\<lparr>evm := (evm m)\<lparr>loads := k\<rparr>\<rparr>) \<and> goes (evm m) ((evm m)\<lparr>loads := k\<rparr>)"
  using goes_locals(3) by (auto simp: frameOk_def evmOk_def)

lemma loopBody_ok:
  assumes run: "runOk n run"
  shows "runOk (Suc n) (loopBody run)"
  unfolding runOk_def
proof (intro allI impI)
  fix m
  assume m: "frameOk m" "unat (Gas (contract m)) < Suc n"
  let ?m = "m\<lparr>evm := (evm m)\<lparr>loads := loads (evm m) + 1\<rparr>\<rparr>"
  have l: "frameOk ?m" "goes (evm m) (evm ?m)" using frameOk_loads [OF m(1)] by auto
  have "unat (Gas (contract ?m)) \<le> n" using m(2) by simp
  from step_ok [OF callsWith_ok [OF run] l(1) this] obtain r where r: "step (callsWith run) ?m = Some r" "stepOk ?m r" by blast
  show "\<exists>e c ret err. loopBody run m = Some (e, c, ret, err) \<and> goes (evm m) e \<and> unat (Gas c) \<le> unat (Gas (contract m)) \<and> small ret"
  proof (cases "aborts (evm m) (loads (evm m))")
    case True
    then show ?thesis using l(2) by (simp add: loopBody_def Let_def)
  next
    case False
    show ?thesis
    proof (cases r)
      case (Halt x)
      then show ?thesis using False r l(2) goes_trans by (cases x) (fastforce simp: loopBody_def Let_def stepOk_def)
    next
      case (Next m2)
      then have m2: "frameOk m2" "goes (evm ?m) (evm m2)" "unat (Gas (contract m2)) < unat (Gas (contract m))"
        using r(2) by (simp_all add: stepOk_def)
      have "unat (Gas (contract m2)) < n" using m2(3) m(2) by linarith
      then obtain e c ret err where x: "run m2 = Some (e, c, ret, err)" "goes (evm m2) e" "unat (Gas c) \<le> unat (Gas (contract m2))" "small ret"
        using run m2(1) unfolding runOk_def by blast
      have "loopBody run m = Some (e, c, ret, err)" using False r(1) Next x(1) by (simp add: loopBody_def Let_def)
      then show ?thesis using goes_trans [OF l(2) goes_trans [OF m2(2) x(2)]] x(3,4) m2(3) by auto
    qed
  qed
qed

lemma runLoop_ok: "runOk n (runLoop n)"
  by (induction n) (simp_all add: loopBody_ok, simp add: runOk_def)

lemma callRes_returns: "callRes e gas r \<Longrightarrow> \<exists>e' ret left err. r = Some (e', ret, left, err) \<and> unat left \<le> unat gas"
  by (auto simp: callRes_def)

lemma createRes_returns: "createRes e gas r \<Longrightarrow> \<exists>e' ret b left err. r = Some (e', ret, b, left, err) \<and> unat left \<le> unat gas"
  by (auto simp: createRes_def)

section \<open>An example machine\<close>

text \<open>A state in which account 7 holds 1000 units and account 2 the code PUSH1 1, STOP; the hash of a
  byte string is its length.\<close>

definition exampleExt :: externs where
  "exampleExt = \<lparr>keccak256 = (\<lambda>b. of_nat (length b)), trieRoot = (\<lambda>_. 0), createAddress = (\<lambda>a n. a + ucast n + 100)\<rparr>"

definition exampleDB :: statedb where
  "exampleDB = NewStateDB exampleExt \<lparr>storageTries = (\<lambda>_. Map.empty), contractCodes = (\<lambda>_. [])\<rparr> Map.empty"

definition exampleCrypto :: crypto where
  "exampleCrypto = \<lparr>sha256Sum = (\<lambda>_. replicate 32 0), ripemd160Sum = (\<lambda>_. replicate 20 0), Ecrecover = (\<lambda>_ _. None),
     unmarshalG1 = (\<lambda>_. None), unmarshalG2 = (\<lambda>_. None), addG1 = (\<lambda>_ _. replicate 64 0), mulG1 = (\<lambda>_ _. replicate 64 0),
     pairingCheck = (\<lambda>_ _. False)\<rparr>"

definition exampleConfig :: ChainConfig where
  "exampleConfig = \<lparr>ChainId = Some 1, HomesteadBlock = Some 0, DAOForkBlock = None, DAOForkSupport = False, EIP150Block = Some 0,
     EIP155Block = Some 0, EIP158Block = Some 0, ByzantiumBlock = Some 0, ConstantinopleBlock = None\<rparr>"

definition exampleContext :: Context where
  "exampleContext = \<lparr>CanTransferFn = CanTransfer, TransferFn = Transfer, GetHash = (\<lambda>_. 0), Origin = 7, GasPrice = 1, Coinbase = 9,
     GasLimit = 1000000, BlockNumber = 5, Time = 50, Difficulty = 1000\<rparr>"

definition exampleState :: statedb where
  "exampleState = SetCode (AddBalance exampleDB 7 1000) 2 [0x60, 0x01, 0x00]"

definition exampleEVM :: EVM where
  "exampleEVM = NewEVM exampleContext exampleState exampleConfig \<lparr>NoRecursion = False, EnablePreimageRecording = False\<rparr>
     exampleCrypto (\<lambda>_. False)"

lemma view_exampleDB: "accts (view exampleDB) = Map.empty"
  by (auto simp: accts_view liveObj_alt exampleDB_def NewStateDB_def)

lemma hashLengths_length: "hashLengths (\<lambda>b. of_nat (length b))"
  unfolding hashLengths_def
proof (intro allI impI)
  fix c d :: bytes
  assume "small c" "small d" and h: "(of_nat (length c) :: hash) = of_nat (length d)"
  then have "length c < 2 ^ 256" "length d < 2 ^ 256" by (simp_all add: small_def)
  then show "length c = length d" using arg_cong [OF h, of unat] by (simp add: unat_of_nat)
qed

lemma stateOk_example: "stateOk exampleState"
proof -
  have "dbInv exampleDB" by (simp add: exampleDB_def dbInv_NewStateDB)
  note A = AddBalance_spec [OF this, of 7 1000]
  have w: "worldOk exampleExt (view exampleDB)"
    by (simp add: worldOk_def totalSupply_def wBalance_def wCode_def view_exampleDB tt256_def)
  have "totalSupply (view exampleDB) = 0" "wBalance (view exampleDB) 7 = 0"
    by (simp_all add: totalSupply_def wBalance_def view_exampleDB)
  then have "worldOk exampleExt (view (AddBalance exampleDB 7 1000))"
    unfolding A(2) sAddBalance_def using w by (intro worldOk_put) (auto simp: worldOk_def tt256_def)
  then have "stateOk (AddBalance exampleDB 7 1000)"
    using hashLengths_length evolves_dbInv [OF A(1)] evolves_env [OF A(1)]
    by (simp add: stateOk_def) (simp add: exampleDB_def NewStateDB_def exampleExt_def)
  then show ?thesis unfolding exampleState_def by (intro moves_ok [OF moves_write(6)]) (simp_all add: small_def)
qed

lemma ext_example: "ext exampleState = exampleExt"
  using evolves_env(1) [OF SetCode_spec(1)] evolves_env(1) [OF AddBalance_spec(1)] evolves_dbInv [OF AddBalance_spec(1)]
  by (simp add: exampleState_def exampleDB_def dbInv_NewStateDB) (simp add: NewStateDB_def)

lemma view_example: "view exampleState = sSetCode (emptyCodeHash exampleDB) (sAddBalance (emptyCodeHash exampleDB) (view exampleDB) 7 1000) 2 3 [0x60, 0x01, 0x00]"
proof -
  have d: "dbInv exampleDB" by (simp add: exampleDB_def dbInv_NewStateDB)
  note A = AddBalance_spec [OF d, of 7 1000]
  have "keccak256 (ext (AddBalance exampleDB 7 1000)) [0x60, 0x01, 0x00] = 3"
    using evolves_env(1) [OF A(1)] by (simp add: exampleDB_def NewStateDB_def exampleExt_def)
  then show ?thesis unfolding exampleState_def SetCode_spec(2) [OF evolves_dbInv [OF A(1)]] A(2) evolves_env(3) [OF A(1)] by simp
qed

lemma example_fields:
  "wBalance (view exampleState) a = (if a = 7 then 1000 else 0)" "wNonce (view exampleState) a = 0" "a \<notin> {2, 7} \<Longrightarrow> wCodeHash (view exampleState) a = 0"
  "a \<noteq> 2 \<Longrightarrow> wCode (view exampleState) a = []"
  by (simp_all add: view_example sSetCode_def sAddBalance_def)
    (simp_all add: wBalance_def wNonce_def wCodeHash_def wCode_def view_exampleDB)

lemma evmOk_example: "evmOk exampleEVM"
  using stateOk_example
  by (simp add: evmOk_def exampleEVM_def NewEVM_def exampleContext_def cryptoOk_def exampleCrypto_def in256_def tt256_def)

lemma exampleEVM_simps [simp]:
  "depth exampleEVM = 0" "vmConfig exampleEVM = \<lparr>NoRecursion = False, EnablePreimageRecording = False\<rparr>"
  "RulesByzantium (chainRules exampleEVM)" "\<not> protected exampleEVM" "sdb exampleEVM = exampleState"
  by (simp_all add: exampleEVM_def NewEVM_def exampleContext_def exampleConfig_def RulesAt_def IsByzantium_def isForked_def protected_def)

definition exampleFrame :: machine where
  "exampleFrame = \<lparr>pc = 0, evm = exampleEVM, contract = SetCallCode (NewContract (AccountRef 7) 2 0 100) 2 3 [0x60, 0x01, 0x00],
     mem = NewMemory, stack = newstack\<rparr>"

lemma frameOk_example: "frameOk exampleFrame" "Gas (contract exampleFrame) = 100"
proof -
  show "frameOk exampleFrame" using evmOk_example
    by (simp add: ext_example exampleFrame_def frameOk_def contractOk_def SetCallCode_def NewContract_def small_def in256_def tt256_def
        exampleExt_def memOk_def NewMemory_def MemLen_def newstack_def)
  show "Gas (contract exampleFrame) = 100" by (simp add: exampleFrame_def SetCallCode_def NewContract_def)
qed

section \<open>Properties\<close>

text \<open>C1. Contract code always comes to an end without a panic: an interpreter loop with more fuel than
  the frame has gas returns, whatever the code is and however calls nest. Gas is never created, the
  machine is well-formed again, and the total supply has not grown.
  The frame is well-formed and has at most \<open>2^60\<close> gas.\<close>

theorem interpreter_returns:
  assumes "frameOk m" "unat (Gas (contract m)) < n"
  shows "\<exists>e c ret err. runLoop n m = Some (e, c, ret, err) \<and> unat (Gas c) \<le> unat (Gas (contract m)) \<and> evmOk e \<and>
    totalSupply (view (sdb e)) \<le> totalSupply (view (sdb (evm m)))"
proof -
  obtain e c ret err where r: "runLoop n m = Some (e, c, ret, err)" "goes (evm m) e" "unat (Gas c) \<le> unat (Gas (contract m))"
    using runLoop_ok assms unfolding runOk_def by blast
  have "evmOk e" using goes_evmOk [OF frameOk_parts(7) [OF assms(1)] r(2)] .
  then show ?thesis using r by (simp add: goes_def moves_def)
qed

theorem interpreter_returns_witness:
  "frameOk exampleFrame \<and> (\<exists>e c ret err. runLoop 101 exampleFrame = Some (e, c, ret, err) \<and> unat (Gas c) \<le> 100 \<and> evmOk e)"
  using interpreter_returns [OF frameOk_example(1), of 101] frameOk_example by auto

text \<open>C10. One iteration of the loop: it never panics; if it goes on, the frame is well-typed again (256-bit
  operands, at most 1024 of them, memory of whole words, code matching its hash, a legal state) and
  has strictly less gas; if it stops, the machine is well-formed and gas was not created.\<close>

theorem step_type:
  assumes "frameOk m" "unat (Gas (contract m)) \<le> n"
  shows "case step (callsWith (runLoop n)) m of
      None \<Rightarrow> False
    | Some (Next m') \<Rightarrow> frameOk m' \<and> unat (Gas (contract m')) < unat (Gas (contract m))
    | Some (Halt (e, c, ret, err)) \<Rightarrow> evmOk e \<and> unat (Gas c) \<le> unat (Gas (contract m))"
proof -
  obtain r where r: "step (callsWith (runLoop n)) m = Some r" "stepOk m r"
    using step_ok [OF callsWith_ok [OF runLoop_ok] assms] by blast
  then show ?thesis using goes_evmOk [OF frameOk_parts(7) [OF assms(1)]]
    by (auto simp: stepOk_def split: stepResult.splits)
qed

theorem step_type_witness:
  "frameOk exampleFrame \<and> step (callsWith (runLoop 100)) exampleFrame \<noteq> None"
  using step_type [OF frameOk_example(1), of 100] frameOk_example by (auto split: option.splits)

text \<open>C11. Each entry point of the machine returns on every well-formed state, for any code the callee
  holds, and gives back at most the gas it was given.
  They are called outside of a static context, with at most \<open>2^60\<close> gas and
  \<open>2^41\<close> bytes of input; the caller of \<open>DelegateCall\<close> is a running contract.\<close>

theorem entry_points_return:
  assumes "evmOk e" "small input" "unat gas < n" "unat gas \<le> 2 ^ 60" "in256 v" "\<not> protected e" "in256 (cValue p)"
  shows "(\<exists>e' ret left err. Call (runLoop n) e caller a input gas v = Some (e', ret, left, err) \<and> unat left \<le> unat gas) \<and>
    (\<exists>e' ret left err. CallCode (runLoop n) e caller a input gas v = Some (e', ret, left, err) \<and> unat left \<le> unat gas) \<and>
    (\<exists>e' ret left err. DelegateCall (runLoop n) e (RunningContract p) a input gas = Some (e', ret, left, err) \<and> unat left \<le> unat gas) \<and>
    (\<exists>e' ret left err. StaticCall (runLoop n) e caller a input gas = Some (e', ret, left, err) \<and> unat left \<le> unat gas) \<and>
    (\<exists>e' ret b left err. Create (runLoop n) e caller input gas v = Some (e', ret, b, left, err) \<and> unat left \<le> unat gas)"
  using assms(6) StaticCall_ok [OF runLoop_ok assms(1-4), of caller a]
  by (intro conjI callRes_returns [where e = e] createRes_returns [where e = e] Call_ok [OF runLoop_ok assms(1-5)] CallCode_ok [OF runLoop_ok assms(1-5)]
      DelegateCall_ok [OF runLoop_ok assms(1-4,7)] Create_ok [OF runLoop_ok assms(1,6,2-5)]) simp_all

theorem entry_points_return_witness:
  "evmOk exampleEVM \<and> \<not> protected exampleEVM \<and>
   (\<exists>e' ret left err. Call (runLoop 5001) exampleEVM (AccountRef 7) 2 [1] 5000 10 = Some (e', ret, left, err) \<and> unat left \<le> 5000) \<and>
   (\<exists>e' ret b left err. Create (runLoop 5001) exampleEVM (AccountRef 7) [1] 5000 10 = Some (e', ret, b, left, err) \<and> unat left \<le> 5000)"
  using entry_points_return [OF evmOk_example, of "[1]" 5000 5001 10 "NewContract (AccountRef 7) 2 0 0" "AccountRef 7" 2]
    evmOk_example by (simp add: small_def in256_def tt256_def)

text \<open>C3. A call that fails, for whatever reason, leaves the world exactly as it was before the call:
  balances, storage, code, nonces, logs, refunds. Unless it reverted or was refused at the start, it
  consumes all the gas it was given.
  The call is made outside of a static context, with at most \<open>2^60\<close> gas
  and \<open>2^41\<close> bytes of input.\<close>

theorem failed_call_restores:
  assumes "evmOk e" "small input" "unat gas < n" "unat gas \<le> 2 ^ 60" "in256 v" "\<not> protected e"
    and "Call (runLoop n) e caller a input gas v = Some (e', ret, left, Some err)"
  shows "view (sdb e') = view (sdb e) \<and>
    (err \<in> {errExecutionReverted, ErrDepth, ErrInsufficientBalance} \<or> left = 0)"
  using Call_ok [OF runLoop_ok assms(1-5), of caller a] assms(6,7) by (simp add: keepsGas_def)

text \<open>A call by an account without balance is refused.\<close>

lemma example_refused:
  "Call (runLoop 5001) exampleEVM (AccountRef 3) 2 [] 5000 10 =
     Some (exampleEVM\<lparr>sdb := snd (getStateObject exampleState 3)\<rparr>, [], 5000, Some ErrInsufficientBalance)"
  unfolding Call_cases [OF evmOk_example] by (simp add: RefAddress_def CallCreateDepth_def example_fields)

theorem failed_call_restores_witness:
  "\<exists>e'. Call (runLoop 5001) exampleEVM (AccountRef 3) 2 [] 5000 10 = Some (e', [], 5000, Some ErrInsufficientBalance) \<and>
     view (sdb e') = view (sdb exampleEVM)"
  using failed_call_restores [OF evmOk_example _ _ _ _ _ example_refused] example_refused
  by (simp add: small_def in256_def tt256_def)

text \<open>C4. Under Byzantium rules a static call changes nothing a contract can observe: no balance, nonce,
  code, storage slot, self-destruct mark, log or refund, however the callee is programmed and
  whatever it calls in turn.
  The call has at most \<open>2^60\<close> gas and \<open>2^41\<close> bytes of input.\<close>

theorem static_call_frozen:
  assumes "evmOk e" "small input" "unat gas < n" "unat gas \<le> 2 ^ 60" "RulesByzantium (chainRules e)"
    and "StaticCall (runLoop n) e caller a input gas = Some (e', r)"
  shows "frozen (view (sdb e)) (view (sdb e'))"
  using StaticCall_ok [OF runLoop_ok assms(1-4)] assms(5,6) by blast

theorem static_call_frozen_witness:
  "\<exists>e' r. StaticCall (runLoop 5001) exampleEVM (AccountRef 7) 2 [] 5000 = Some (e', r) \<and>
     frozen (view (sdb exampleEVM)) (view (sdb e'))"
proof -
  have g: "small ([] :: bytes)" "unat (5000 :: u64) < 5001" "unat (5000 :: u64) \<le> 2 ^ 60" by simp_all
  obtain e' r where c: "StaticCall (runLoop 5001) exampleEVM (AccountRef 7) 2 [] 5000 = Some (e', r)"
    using StaticCall_ok [OF runLoop_ok evmOk_example g] unfolding callRes_def by blast
  then show ?thesis using static_call_frozen [OF evmOk_example g _ c] c by fastforce
qed

text \<open>C7. Money is neither created nor overdrawn: after a call or a contract creation, successful or not, no
  balance is negative and the sum of all balances is at most what it was.
  They are made outside of a static context, with at most \<open>2^60\<close> gas
  and \<open>2^41\<close> bytes of input.\<close>

theorem supply_not_grown:
  assumes "evmOk e" "small input" "unat gas < n" "unat gas \<le> 2 ^ 60" "in256 v" "\<not> protected e"
    and "Call (runLoop n) e caller a input gas v = Some (e1, ret1, left1, err1)"
    and "Create (runLoop n) e caller input gas v = Some (e2, ret2, b, left2, err2)"
  shows "\<forall>e' \<in> {e1, e2}. totalSupply (view (sdb e')) \<le> totalSupply (view (sdb e)) \<and> (\<forall>x. 0 \<le> wBalance (view (sdb e')) x)"
proof -
  have "goes e e1" "goes e e2"
    using Call_ok [OF runLoop_ok assms(1-5), of caller a] Create_ok [OF runLoop_ok assms(1,6,2-5), of caller] assms(6-8) by simp_all
  then show ?thesis by (auto simp: goes_def moves_def stateOk_def worldOk_def)
qed

theorem supply_not_grown_witness:
  "\<exists>e1 r1 e2 r2. Call (runLoop 5001) exampleEVM (AccountRef 7) 2 [] 5000 10 = Some (e1, r1) \<and>
     Create (runLoop 5001) exampleEVM (AccountRef 7) [] 5000 10 = Some (e2, r2) \<and>
     totalSupply (view (sdb e1)) \<le> totalSupply (view exampleState) \<and> totalSupply (view (sdb e2)) \<le> totalSupply (view exampleState)"
proof -
  have g: "small ([] :: bytes)" "unat (5000 :: u64) < 5001" "unat (5000 :: u64) \<le> 2 ^ 60" "in256 10" "\<not> protected exampleEVM"
    by (simp_all add: in256_def tt256_def)
  obtain e1 a1 b1 c1 where c: "Call (runLoop 5001) exampleEVM (AccountRef 7) 2 [] 5000 10 = Some (e1, a1, b1, c1)"
    using Call_ok [OF runLoop_ok evmOk_example g(1-4)] g(5) unfolding callRes_def by blast
  obtain e2 a2 b2 c2 d2 where d: "Create (runLoop 5001) exampleEVM (AccountRef 7) [] 5000 10 = Some (e2, a2, b2, c2, d2)"
    using Create_ok [OF runLoop_ok evmOk_example g(5,1-4)] unfolding createRes_def by blast
  show ?thesis using supply_not_grown [OF evmOk_example g c d] c d by auto
qed

lemma example_create:
  "\<exists>e'. Create run exampleEVM (AccountRef 7) [] 5000 10 = Some (e', [], 107, 5000, None)"
proof -
  let ?s = "createState exampleEVM (AccountRef 7)"
  have c: "createdAddr exampleEVM (AccountRef 7) = 107" by (simp add: createdAddr_def ext_example exampleExt_def example_fields RefAddress_def)
  have n: "wNonce (view ?s) 107 = 0" "wCodeHash (view ?s) 107 = 0"
    by (simp_all add: createState_ok(4) [OF evmOk_example] sSetNonce_def example_fields RefAddress_def)
  have p: "precompiles e 107 = None" for e
    by (simp add: precompiles_def PrecompiledContractsByzantium_def PrecompiledContractsHomestead_def BytesToAddress_def be_nat_def)
  show ?thesis unfolding Create_cases [OF evmOk_example] c
    by (simp add: n example_fields RefAddress_def CallCreateDepth_def runContract_def SetCallCode_def p Run_def finishCreate_def UseGas_def NewContract_def)
qed

text \<open>C20. A contract creation that ends without an error has put the code the init code returned, with its
  hash, at the address derived from the creator and its nonce.
  The creation is made outside of a static context, with calls enabled, at most
  \<open>2^60\<close> gas and \<open>2^41\<close> bytes of code.\<close>

theorem create_deploys:
  assumes "evmOk e" "\<not> protected e" "small code" "unat gas < n" "unat gas \<le> 2 ^ 60" "in256 v" "\<not> NoRecursion (vmConfig e)"
    and "Create (runLoop n) e caller code gas v = Some (e', ret, a, left, None)"
  shows "a = createAddress (ext (sdb e)) (RefAddress caller) (wNonce (view (sdb e)) (RefAddress caller)) \<and>
    wCode (view (sdb e')) a = ret \<and> wCodeHash (view (sdb e')) a = keccak256 (ext (sdb e)) ret"
proof -
  have v: "v \<le> wBalance (view (sdb e)) (RefAddress caller)"
    using assms(8) unfolding Create_cases [OF assms(1)] by (auto split: if_splits)
  obtain e1 c1 ret1 err1 i where g: "goes (e\<lparr>sdb := snd (Snapshot (createState e caller))\<rparr>) e1"
    and f: "finishCreate i (createdAddr e caller) (e1, c1, ret1, err1) = Some (e', ret, a, left, None)"
    using Create_frame(3) [OF runLoop_ok assms(1-6) v] assms(7,8) unfolding Create_cases [OF assms(1)] by (fastforce split: if_splits)
  have s1: "stateOk (sdb e1)" "ext (sdb e1) = ext (createState e caller)"
    using g moves_ok goes_ext [OF g] by (auto simp: goes_def)
  note S = SetCode_spec(2) [OF stateOk_dbInv [OF s1(1)]]
  show ?thesis using finishCreate_success [OF f] createState_ok(2) [OF assms(1), of caller] s1(2)
    by (simp add: createdAddr_def S sSetCode_def)
qed

theorem create_deploys_witness:
  "\<exists>e'. Create (runLoop 5001) exampleEVM (AccountRef 7) [] 5000 10 = Some (e', [], 107, 5000, None) \<and> wCodeHash (view (sdb e')) 107 = 0"
proof -
  obtain e' where c: "Create (runLoop 5001) exampleEVM (AccountRef 7) [] 5000 10 = Some (e', [], 107, 5000, None)"
    using example_create by blast
  show ?thesis using create_deploys [OF evmOk_example _ _ _ _ _ _ c] c
    by (auto simp: in256_def tt256_def ext_example exampleExt_def)
qed

text \<open>C28. Refusals: at the depth limit, and when the caller cannot pay the value, a call returns all its gas
  and the matching error without running any code.\<close>

theorem call_refused:
  assumes "evmOk e" "\<not> NoRecursion (vmConfig e)"
  shows "(1024 < depth e \<longrightarrow> Call run e caller a input gas v = Some (e, [], gas, Some ErrDepth)) \<and>
    (depth e \<le> 1024 \<and> wBalance (view (sdb e)) (RefAddress caller) < v \<longrightarrow>
      (\<exists>s. Call run e caller a input gas v = Some (e\<lparr>sdb := s\<rparr>, [], gas, Some ErrInsufficientBalance) \<and> view s = view (sdb e)))"
  using assms(2) by (auto simp: Call_cases [OF assms(1)] CallCreateDepth_def intro!: exI [of _ "snd (getStateObject (sdb e) (RefAddress caller))"])

theorem call_refused_witness:
  "evmOk exampleEVM \<and> (\<exists>s. Call (\<lambda>m. None) exampleEVM (AccountRef 7) 2 [] 5000 10000 =
     Some (exampleEVM\<lparr>sdb := s\<rparr>, [], 5000, Some ErrInsufficientBalance) \<and> view s = view exampleState)"
  using call_refused [OF evmOk_example, of "\<lambda>m. None" "AccountRef 7" 2 "[]" 5000 10000] evmOk_example
  by (simp add: RefAddress_def example_fields)

text \<open>The fuel of the model is no observable: above the gas of the frame every fuel gives the same
  result, for the loop and for a call.\<close>

lemma fuel_irrelevant:
  assumes "frameOk m" "unat (Gas (contract m)) < n" "n \<le> k"
    and "evmOk e" "small input" "unat gas < n" "unat gas \<le> 2 ^ 60" "in256 v" "\<not> protected e"
  shows "runLoop k m = runLoop n m \<and> runLoop n m \<noteq> None \<and>
    Call (runLoop k) e caller a input gas v = Call (runLoop n) e caller a input gas v"
proof -
  have b: "runBelow (runLoop n) (runLoop k)" using runLoop_below [of n "k - n"] assms(3) by simp
  obtain r where r: "runLoop n m = Some r" using runLoop_ok assms(1,2) unfolding runOk_def by blast
  moreover have "runLoop k m = Some r" using b r by (metis runBelow_def below_def)
  moreover obtain r' where "Call (runLoop n) e caller a input gas v = Some r'"
    using callRes_returns [OF Call_ok [OF runLoop_ok assms(4-8), of caller a]] assms(9) by blast
  moreover have "below (Call (runLoop n) e caller a input gas v) (Call (runLoop k) e caller a input gas v)"
    using callsBelowD(1) [OF callsWith_below [OF b]] by (simp add: callsWith_def)
  ultimately show ?thesis by (simp add: below_def)
qed

text \<open>C27. No precompiled contract panics: whatever the input, its price is defined, and when the price is paid
  it returns; gas is never created. In particular the modular exponentiation, whose three operand
  lengths come from the input, only allocates what was paid for.
  The input has at most \<open>2^41\<close> bytes and the gas is at most \<open>2^60\<close>.\<close>

theorem precompiles_safe:
  assumes "cryptoOk (cryptoFns e)" "precompiles e a = Some p" "small input" "unat (Gas c) \<le> 2 ^ 60"
  shows "\<exists>ret err c'. RunPrecompiledContract p input c = Some (ret, err, c') \<and> unat (Gas c') \<le> unat (Gas c)"
proof -
  obtain g where g: "RequiredGas p input = Some g" "unat g \<le> 2 ^ 60 \<Longrightarrow> \<exists>ret err. PRun p input = Some (ret, err)"
    using precompiles_ok [OF assms(1,2)] assms(3) by (auto simp: precompileOk_def)
  then show ?thesis using UseGas_le [of c g] assms(4)
    by (auto simp: RunPrecompiledContract_def UseGas_cases not_less)
qed

theorem precompiles_safe_witness:
  "cryptoOk (cryptoFns exampleEVM) \<and> precompiles exampleEVM 5 \<noteq> None \<and>
   (\<exists>ret err c'. RunPrecompiledContract (the (precompiles exampleEVM 5)) [1, 2, 3] (NewContract (AccountRef 7) 5 0 9000) =
      Some (ret, err, c') \<and> unat (Gas c') \<le> 9000)"
proof -
  have c: "cryptoOk (cryptoFns exampleEVM)" using evmOk_example by (simp add: evmOk_def)
  have "precompiles exampleEVM 5 \<noteq> None"
    by (simp add: precompiles_def PrecompiledContractsByzantium_def isByzantium_def IsByzantium_def isForked_def exampleEVM_def
        NewEVM_def exampleContext_def exampleConfig_def BytesToAddress_def be_nat_def)
  then obtain p where p: "precompiles exampleEVM 5 = Some p" by blast
  show ?thesis using precompiles_safe [OF c p, of "[1, 2, 3]" "NewContract (AccountRef 7) 5 0 9000"] c p
    by (simp add: small_def)
qed

end
