(* ===== verification/Transition.thy ===== *)
theory Transition
  imports Interpreter
begin

text \<open>
  Applying a message to the state (\<open>core/state_transition.go\<close>) with the gas pool of the block
  (\<open>core/gaspool.go\<close>). The transition holds a pointer to the machine, whose state database it shares:
  the database is \<open>sdb\<close> of \<open>stEvm\<close>. The interpreter loop is the argument \<open>run\<close>, as in theory
  Interpreter. \<open>None\<close> is a panic.
\<close>

section \<open>Gas pool\<close>

datatype coreError =
    ErrGasLimitReached
  | ErrNonceTooHigh
  | ErrNonceTooLow
  | errInsufficientBalanceForGas
  | coreVMError vmError

definition AddGas :: "u64 \<Rightarrow> u64 \<Rightarrow> u64 option" where
  "AddGas gp amount = (if MaxUint64 - amount < gp then None else Some (gp + amount))"

definition SubGas :: "u64 \<Rightarrow> u64 \<Rightarrow> coreError + u64" where
  "SubGas gp amount = (if gp < amount then Inl ErrGasLimitReached else Inr (gp - amount))"

section \<open>Messages\<close>

record Message =
  msgFrom :: address
  msgTo :: "address option"
  msgGasPrice :: int
  msgGas :: u64
  msgValue :: int
  msgNonce :: u64
  msgCheckNonce :: bool
  msgData :: bytes

record StateTransition =
  stGp :: u64
  stMsg :: Message
  stGas :: u64
  stGasPrice :: int
  initialGas :: u64
  stValue :: int
  stData :: bytes
  stEvm :: EVM

definition IntrinsicGas :: "bytes \<Rightarrow> bool \<Rightarrow> bool \<Rightarrow> vmError + u64" where
  "IntrinsicGas data contractCreation homestead =
     (let gas = (if contractCreation \<and> homestead then TxGasContractCreation else TxGas)
      in if 0 < length data then
           let nz = fold (\<lambda>b n. if b \<noteq> 0 then n + 1 else n) data 0
           in if (MaxUint64 - gas) div TxDataNonZeroGas < nz then Inl ErrOutOfGas
              else
                let gas = gas + nz * TxDataNonZeroGas;
                    z = of_nat (length data) - nz
                in if (MaxUint64 - gas) div TxDataZeroGas < z then Inl ErrOutOfGas
                   else Inr (gas + z * TxDataZeroGas)
         else Inr gas)"

definition NewStateTransition :: "EVM \<Rightarrow> Message \<Rightarrow> u64 \<Rightarrow> StateTransition" where
  "NewStateTransition e msg gp =
     \<lparr>stGp = gp, stMsg = msg, stGas = 0, stGasPrice = msgGasPrice msg, initialGas = 0, stValue = msgValue msg,
      stData = msgData msg, stEvm = e\<rparr>"

definition stTo :: "StateTransition \<Rightarrow> address" where
  "stTo st = (case msgTo (stMsg st) of None \<Rightarrow> 0 | Some a \<Rightarrow> a)"

definition useGas :: "StateTransition \<Rightarrow> u64 \<Rightarrow> vmError + StateTransition" where
  "useGas st amount = (if stGas st < amount then Inl ErrOutOfGas else Inr (st\<lparr>stGas := stGas st - amount\<rparr>))"

section \<open>Paying for gas\<close>

definition setState :: "StateTransition \<Rightarrow> statedb \<Rightarrow> StateTransition" where
  "setState st s = st\<lparr>stEvm := (stEvm st)\<lparr>sdb := s\<rparr>\<rparr>"

definition buyGas :: "StateTransition \<Rightarrow> coreError option \<times> StateTransition" where
  "buyGas st =
     (let msg = stMsg st;
          mgval = uint (msgGas msg) * stGasPrice st;
          (b, s1) = GetBalance (sdb (stEvm st)) (msgFrom msg);
          st1 = setState st s1
      in if b < mgval then (Some errInsufficientBalanceForGas, st1)
         else case SubGas (stGp st1) (msgGas msg) of
           Inl err \<Rightarrow> (Some err, st1)
         | Inr gp \<Rightarrow>
             (None, setState (st1\<lparr>stGp := gp, stGas := stGas st1 + msgGas msg, initialGas := msgGas msg\<rparr>)
                      (SubBalance s1 (msgFrom msg) mgval)))"

definition preCheck :: "StateTransition \<Rightarrow> coreError option \<times> StateTransition" where
  "preCheck st =
     (let msg = stMsg st
      in if msgCheckNonce msg then
           let (nonce, s1) = GetNonce (sdb (stEvm st)) (msgFrom msg);
               st1 = setState st s1
           in if nonce < msgNonce msg then (Some ErrNonceTooHigh, st1)
              else if msgNonce msg < nonce then (Some ErrNonceTooLow, st1)
              else buyGas st1
         else buyGas st)"

definition gasUsed :: "StateTransition \<Rightarrow> u64" where
  "gasUsed st = initialGas st - stGas st"

definition refundGas :: "StateTransition \<Rightarrow> StateTransition option" where
  "refundGas st =
     (let s = sdb (stEvm st);
          refund = gasUsed st div 2;
          refund = (if GetRefund s < refund then GetRefund s else refund);
          st1 = st\<lparr>stGas := stGas st + refund\<rparr>;
          remaining = uint (stGas st1) * stGasPrice st1;
          st2 = setState st1 (AddBalance s (msgFrom (stMsg st1)) remaining)
      in do {
        gp \<leftarrow> AddGas (stGp st2) (stGas st2);
        Some (st2\<lparr>stGp := gp\<rparr>) })"

section \<open>The transition\<close>

text \<open>The outcome: the transition object, the returned data, the gas used, whether the machine failed, and
  a consensus error.\<close>

type_synonym transitionResult = "StateTransition \<times> bytes \<times> u64 \<times> bool \<times> coreError option"

text \<open>The tail, after the machine ran.\<close>

definition finishTransition :: "StateTransition \<Rightarrow> bytes \<Rightarrow> vmError option \<Rightarrow> transitionResult option" where
  "finishTransition st ret vmerr =
     (if vmerr = Some ErrInsufficientBalance then Some (st, [], 0, False, Some (coreVMError ErrInsufficientBalance))
      else do {
        st1 \<leftarrow> refundGas st;
        let st2 = setState st1 (AddBalance (sdb (stEvm st1)) (Coinbase (ctx (stEvm st1))) (uint (gasUsed st1) * stGasPrice st1));
        Some (st2, ret, gasUsed st2, vmerr \<noteq> None, None) })"

definition TransitionDb :: "(machine \<Rightarrow> frameResult option) \<Rightarrow> StateTransition \<Rightarrow> transitionResult option" where
  "TransitionDb run st =
     (case preCheck st of
        (Some err, st1) \<Rightarrow> Some (st1, [], 0, False, Some err)
      | (None, st1) \<Rightarrow>
          (let msg = stMsg st1;
               sender = AccountRef (msgFrom msg);
               homestead = IsHomestead (chainConfig (stEvm st1)) (BlockNumber (ctx (stEvm st1)));
               contractCreation = (msgTo msg = None)
           in case IntrinsicGas (stData st1) contractCreation homestead of
                Inl err \<Rightarrow> Some (st1, [], 0, False, Some (coreVMError err))
              | Inr gas \<Rightarrow>
                  (case useGas st1 gas of
                     Inl err \<Rightarrow> Some (st1, [], 0, False, Some (coreVMError err))
                   | Inr st2 \<Rightarrow>
                       if contractCreation then do {
                         (e, ret, _, left, vmerr) \<leftarrow> Create run (stEvm st2) sender (stData st2) (stGas st2) (stValue st2);
                         finishTransition (st2\<lparr>stEvm := e, stGas := left\<rparr>) ret vmerr }
                       else do {
                         let (nonce, s1) = GetNonce (sdb (stEvm st2)) (RefAddress sender);
                         let st3 = setState st2 (SetNonce s1 (msgFrom msg) (nonce + 1));
                         (e, ret, left, vmerr) \<leftarrow> Call run (stEvm st3) sender (stTo st3) (stData st3) (stGas st3) (stValue st3);
                         finishTransition (st3\<lparr>stEvm := e, stGas := left\<rparr>) ret vmerr })))"

definition ApplyMessage :: "(machine \<Rightarrow> frameResult option) \<Rightarrow> EVM \<Rightarrow> Message \<Rightarrow> u64 \<Rightarrow> transitionResult option" where
  "ApplyMessage run e msg gp = TransitionDb run (NewStateTransition e msg gp)"

end
