(* ===== verification/TransitionProps.thy ===== *)
theory TransitionProps
  imports EVMSafe Transition
begin

text \<open>
  Whole messages: applying one never panics, the gas of the block adds up, no money is created, and a
  message that fails its checks changes nothing.
\<close>

section \<open>Moving money in and out\<close>

lemma SubBalance_ok:
  assumes s: "stateOk s" and v: "0 \<le> v" "v \<le> wBalance (view s) a"
  shows "moves s (SubBalance s a v)" "totalSupply (view (SubBalance s a v)) = totalSupply (view s) - v"
proof -
  note S = SubBalance_spec [OF stateOk_dbInv [OF s], of a v]
  have w: "worldOk (ext s) (view s)" using s by (simp add: stateOk_def)
  show t: "totalSupply (view (SubBalance s a v)) = totalSupply (view s) - v"
    by (simp add: S(2) sAddBalance_def supply_putAcct)
  have "worldOk (ext s) (view (SubBalance s a v))" unfolding S(2) sAddBalance_def
    using w v by (intro worldOk_put) (auto simp: worldOk_def)
  then show "moves s (SubBalance s a v)" using t v by (intro moves_intro [OF s S(1)]) simp_all
qed

lemma AddBalance_ok:
  assumes s: "stateOk s" and v: "0 \<le> v" "totalSupply (view s) + v < tt256"
  shows "stateOk (AddBalance s a v)" "ext (AddBalance s a v) = ext s"
    "totalSupply (view (AddBalance s a v)) = totalSupply (view s) + v"
proof -
  note A = AddBalance_spec [OF stateOk_dbInv [OF s], of a v]
  have w: "worldOk (ext s) (view s)" using s by (simp add: stateOk_def)
  show "totalSupply (view (AddBalance s a v)) = totalSupply (view s) + v"
    by (simp add: A(2) sAddBalance_def supply_putAcct)
  show x: "ext (AddBalance s a v) = ext s" by (rule evolves_env(1) [OF A(1)])
  have "worldOk (ext s) (view (AddBalance s a v))" unfolding A(2) sAddBalance_def
    using w v by (intro worldOk_put) (auto simp: worldOk_def)
  then show "stateOk (AddBalance s a v)"
    using s x evolves_dbInv [OF A(1)] evolves_env [OF A(1)] by (simp add: stateOk_def)
qed

lemma evmOk_state: "evmOk e \<Longrightarrow> stateOk s \<Longrightarrow> ext s = ext (sdb e) \<Longrightarrow> evmOk (e\<lparr>sdb := s\<rparr>)"
  by (simp add: evmOk_def)

section \<open>The checks\<close>

lemma setState_simps [simp]:
  "stGp (setState st s) = stGp st" "stMsg (setState st s) = stMsg st" "stGas (setState st s) = stGas st"
  "stGasPrice (setState st s) = stGasPrice st" "initialGas (setState st s) = initialGas st"
  "stValue (setState st s) = stValue st" "stData (setState st s) = stData st" "stEvm (setState st s) = (stEvm st)\<lparr>sdb := s\<rparr>"
  by (simp_all add: setState_def)

text \<open>The state after the reads of the checks; the world is the same.\<close>

definition checkedState :: "StateTransition \<Rightarrow> statedb" where
  "checkedState st = (let s = sdb (stEvm st); a = msgFrom (stMsg st)
     in snd (getStateObject (if msgCheckNonce (stMsg st) then snd (getStateObject s a) else s) a))"

text \<open>\<open>preCheck\<close>, with its conditions on the world.\<close>

lemma preCheck_cases:
  fixes st :: StateTransition
  defines "w \<equiv> view (sdb (stEvm st))" and "msg \<equiv> stMsg st"
  defines "cost \<equiv> uint (msgGas msg) * stGasPrice st"
  shows "preCheck st =
    (if msgCheckNonce msg \<and> wNonce w (msgFrom msg) < msgNonce msg
     then (Some ErrNonceTooHigh, setState st (snd (getStateObject (sdb (stEvm st)) (msgFrom msg))))
     else if msgCheckNonce msg \<and> msgNonce msg < wNonce w (msgFrom msg)
     then (Some ErrNonceTooLow, setState st (snd (getStateObject (sdb (stEvm st)) (msgFrom msg))))
     else if wBalance w (msgFrom msg) < cost then (Some errInsufficientBalanceForGas, setState st (checkedState st))
     else if stGp st < msgGas msg then (Some ErrGasLimitReached, setState st (checkedState st))
     else (None, setState (st\<lparr>stGp := stGp st - msgGas msg, stGas := stGas st + msgGas msg, initialGas := msgGas msg\<rparr>)
            (SubBalance (checkedState st) (msgFrom msg) cost)))"
proof -
  have n: "GetNonce s x = (wNonce (view s) x, snd (getStateObject s x))" "GetBalance s x = (wBalance (view s) x, snd (getStateObject s x))" for s x
    by (simp_all add: prod_eq_iff query_values query_states)
  show ?thesis unfolding preCheck_def buyGas_def n SubGas_def checkedState_def w_def msg_def cost_def
    by (auto simp: Let_def setState_def)
qed

section \<open>Refund and fee\<close>

lemma AddGas_ok: "unat gp + unat a < 18446744073709551616 \<Longrightarrow> AddGas gp a = Some (gp + a)"
proof -
  assume a: "unat gp + unat a < 18446744073709551616"
  have "unat a \<le> 18446744073709551615" using unat_u64_less [of a] by linarith
  then have "a \<le> MaxUint64" by (simp add: MaxUint64_def word_le_nat_alt)
  then have "unat (MaxUint64 - a) = 18446744073709551615 - unat a" by (simp add: unat_sub) (simp add: MaxUint64_def)
  then show ?thesis using a by (simp add: AddGas_def word_less_nat_alt)
qed

text \<open>The gas given back, at most half of what was used.\<close>

definition refundOf :: "StateTransition \<Rightarrow> u64" where
  "refundOf st = (let r = gasUsed st div 2 in if GetRefund (sdb (stEvm st)) < r then GetRefund (sdb (stEvm st)) else r)"

lemma refundOf_bounds:
  assumes "unat (stGas st) \<le> unat (initialGas st)"
  shows "unat (stGas st + refundOf st) = unat (stGas st) + unat (refundOf st)"
    "2 * unat (refundOf st) \<le> unat (initialGas st) - unat (stGas st)"
proof -
  have u: "unat (gasUsed st) = unat (initialGas st) - unat (stGas st)"
    using assms by (simp add: gasUsed_def unat_sub word_le_nat_alt)
  have "unat (refundOf st) \<le> unat (gasUsed st) div 2"
    by (auto simp: refundOf_def Let_def word_less_nat_alt unat_div)
  then show r: "2 * unat (refundOf st) \<le> unat (initialGas st) - unat (stGas st)" using u by linarith
  have "unat (initialGas st) < 18446744073709551616" using unat_u64_less [of "initialGas st"] by simp
  then show "unat (stGas st + refundOf st) = unat (stGas st) + unat (refundOf st)"
    using r assms by (intro u64_add_unat) linarith
qed

lemma refundGas_ok:
  assumes g: "unat (stGas st) \<le> unat (initialGas st)" "unat (stGp st) + unat (initialGas st) < 18446744073709551616"
  shows "refundGas st = Some (setState (st\<lparr>stGas := stGas st + refundOf st, stGp := stGp st + (stGas st + refundOf st)\<rparr>)
    (AddBalance (sdb (stEvm st)) (msgFrom (stMsg st)) (uint (stGas st + refundOf st) * stGasPrice st)))"
proof -
  have "AddGas (stGp st) (stGas st + refundOf st) = Some (stGp st + (stGas st + refundOf st))"
    using refundOf_bounds [OF g(1)] g by (intro AddGas_ok) linarith
  then show ?thesis unfolding refundGas_def refundOf_def Let_def by (simp add: setState_def)
qed

text \<open>What is left after the machine ran: \<open>S\<close> is the supply before the sender paid for the gas.\<close>

lemma finishTransition_ok:
  assumes g: "unat (stGas st) \<le> unat (initialGas st)" "unat (stGp st) + unat (initialGas st) < 18446744073709551616"
    and e: "evmOk (stEvm st)" and p: "0 \<le> stGasPrice st"
    and S: "totalSupply (view (sdb (stEvm st))) + uint (initialGas st) * stGasPrice st \<le> S" "S < tt256"
  shows "\<exists>st' used err. finishTransition st ret vmerr = Some (st', (if err = None then ret else []), used, vmerr \<noteq> None \<and> err = None, err) \<and>
    (err = None \<longrightarrow> evmOk (stEvm st') \<and> totalSupply (view (sdb (stEvm st'))) \<le> S \<and>
      unat (stGp st') + unat used = unat (stGp st) + unat (initialGas st) \<and> unat used \<le> unat (initialGas st) \<and>
      unat (initialGas st) - unat (stGas st) \<le> 2 * unat used)"
proof (cases "vmerr = Some ErrInsufficientBalance")
  case True
  then show ?thesis by (simp add: finishTransition_def)
next
  case False
  define k where "k = stGas st + refundOf st"
  note R = refundOf_bounds [OF g(1), folded k_def]
  let ?s = "sdb (stEvm st)" and ?p = "stGasPrice st"
  let ?s1 = "AddBalance ?s (msgFrom (stMsg st)) (uint k * ?p)"
  let ?used = "initialGas st - k"
  let ?s2 = "AddBalance ?s1 (Coinbase (ctx (stEvm st))) (uint ?used * ?p)"
  have kle: "unat k \<le> unat (initialGas st)" using R g(1) by linarith
  then have u: "unat ?used = unat (initialGas st) - unat k" by (simp add: unat_sub word_le_nat_alt)
  have sum: "uint k * ?p + uint ?used * ?p = uint (initialGas st) * ?p"
  proof -
    have "int (unat k) + int (unat ?used) = int (unat (initialGas st))" using u kle by simp
    then have "uint k + uint ?used = uint (initialGas st)" by (simp only: uint_nat)
    then show ?thesis by (metis distrib_right)
  qed
  have pos: "0 \<le> uint k * ?p" "0 \<le> uint ?used * ?p" using p by simp_all
  have s: "stateOk ?s" using e by (simp add: evmOk_def)
  note A1 = AddBalance_ok [OF s pos(1), of "msgFrom (stMsg st)"]
  have l1: "totalSupply (view ?s) + uint k * ?p < tt256" using S sum pos by linarith
  note A2 = AddBalance_ok [OF A1(1) [OF l1] pos(2), of "Coinbase (ctx (stEvm st))"]
  have l2: "totalSupply (view ?s1) + uint ?used * ?p < tt256" using S sum A1(3) [OF l1] by linarith
  let ?st = "setState (st\<lparr>stGas := k, stGp := stGp st + k\<rparr>) ?s2"
  have "finishTransition st ret vmerr = Some (?st, ret, ?used, vmerr \<noteq> None, None)"
    using False refundGas_ok [OF g, folded k_def] by (simp add: finishTransition_def setState_def gasUsed_def)
  moreover have "evmOk (stEvm ?st)" using evmOk_state [OF e A2(1) [OF l2]] A1(2) [OF l1] A2(2) [OF l2] by simp
  moreover have "totalSupply (view (sdb (stEvm ?st))) \<le> S" using A1(3) [OF l1] A2(3) [OF l2] S(1) sum by simp
  moreover have "unat (stGp st + k) = unat (stGp st) + unat k" using g(2) kle by (intro u64_add_unat) linarith
  ultimately show ?thesis using u kle R by (intro exI [of _ ?st] exI [of _ ?used] exI [of _ None]) simp
qed

section \<open>Calls of accounts without code\<close>

lemma loadCode_eq:
  assumes "stateOk s"
  shows "loadCode c a s = (c\<lparr>Code := wCode (view s) a, cCodeHash := wCodeHash (view s) a, CodeAddr := Some a\<rparr>, snd (GetCode (snd (getStateObject s a)) a))"
proof -
  have t: "dbInv (snd (getStateObject s a))" using moves_ok [OF quiet_moves [OF quiet_reads(1) [OF assms]]] by (rule stateOk_dbInv)
  have "GetCodeHash s a = (wCodeHash (view s) a, snd (getStateObject s a))" by (simp add: prod_eq_iff query_values query_states)
  then show ?thesis using GetCode_spec(3) [OF t] by (simp add: loadCode_def SetCallCode_def case_prod_unfold)
qed

lemma Call_plain:
  assumes e: "evmOk e" "\<not> NoRecursion (vmConfig e)" "depth e \<le> 1024" and a: "wCode (view (sdb e)) a = []" "precompiles e a = None"
    and v: "0 \<le> v" "v \<le> wBalance (view (sdb e)) (RefAddress caller)"
  shows "\<exists>e'. Call run e caller a input gas v = Some (e', [], gas, None) \<and>
    (\<forall>b. wBalance (view (sdb e')) b = wBalance (view (sdb e)) b + (if b = a then v else 0) - (if b = RefAddress caller then v else 0))"
proof -
  let ?b = "RefAddress caller"
  define s2 where "s2 = snd (Snapshot (snd (getStateObject (sdb e) ?b)))"
  define s4 where "s4 = prepareAccount s2 a"
  define s5 where "s5 = Transfer s4 ?b a v"
  have s: "stateOk (sdb e)" using e(1) by (simp add: evmOk_def)
  have q2: "quiet (sdb e) s2" unfolding s2_def
    by (rule quiet_trans [OF quiet_reads(1) [OF s] quiet_reads(4) [OF moves_ok [OF quiet_moves [OF quiet_reads(1) [OF s]]]]])
  note o2 = moves_ok [OF quiet_moves [OF q2]]
  have q4: "quiet (sdb e) s4" unfolding s4_def by (rule quiet_trans [OF q2 prepare_quiet [OF o2]])
  note o4 = moves_ok [OF quiet_moves [OF q4]]
  have f4: "wBalance (view s4) b = wBalance (view (sdb e)) b" "wCode (view s4) b = wCode (view (sdb e)) b" for b
    using q4 by (simp_all add: quiet_def frozen_def)
  note T = view_Transfer [OF stateOk_dbInv [OF o4], of ?b a v, folded s5_def]
  have m5: "moves s4 s5" unfolding s5_def by (rule moves_Transfer(1) [OF o4 v(1)]) (use v(2) f4 in simp)
  have w5: "wCode (view s5) a = []"
      "wBalance (view s5) b = wBalance (view (sdb e)) b + (if b = a then v else 0) - (if b = ?b then v else 0)" for b
    using a(1) by (auto simp: T(2) sAddBalance_def f4)
  obtain c s6 where l: "loadCode (NewContract caller a v gas) a s5 = (c, s6)" by fastforce
  then have c: "Code c = []" "CodeAddr c = Some a" "Gas c = gas" and v6: "view s6 = view s5" and x6: "ext s6 = ext (sdb e)"
    using loadCode_eq [OF moves_ok [OF m5]] w5(1) loadCode_ok(1) [OF moves_ok [OF m5] l] moves_ext [OF quiet_moves [OF q4]] moves_ext [OF m5]
      GetCode_spec(2) [OF stateOk_dbInv [OF moves_ok [OF quiet_moves [OF quiet_reads(1) [OF moves_ok [OF m5]]]]], of a a]
    by (auto dest: moves_ext [OF quiet_moves])
  have "precompiles (shareTable caller (e\<lparr>sdb := s6\<rparr>)) a = None"
    using a(2) x6 by (cases caller) (simp_all add: precompiles_def isByzantium_def shareTable_def split: if_splits)
  then have "runContract run (shareTable caller (e\<lparr>sdb := s6\<rparr>)) c input = Some ((shareTable caller (e\<lparr>sdb := s6\<rparr>))\<lparr>returnData := []\<rparr>, c, [], None)"
    using c by (simp add: runContract_def Run_def)
  moreover have "sdb (shareTable caller (e\<lparr>sdb := s6\<rparr>)) = s6" by (cases caller) (simp_all add: shareTable_def)
  moreover have "v = 0 \<Longrightarrow> view (snd (getStateObject s2 a)) = view (sdb e)" by (simp add: s2_def)
  ultimately show ?thesis unfolding Call_cases [OF e(1)] s2_def [symmetric] s4_def [symmetric] s5_def [symmetric]
    using e(2,3) v c l w5(2) v6 by (auto simp: CallCreateDepth_def finishFrame_def not_less)
qed

section \<open>Whole messages\<close>

text \<open>A message the node can have received: 256-bit value, no negative price, a bounded payload and gas.\<close>

definition msgOk :: "Message \<Rightarrow> bool" where
  "msgOk msg \<longleftrightarrow> 0 \<le> msgGasPrice msg \<and> in256 (msgValue msg) \<and> small (msgData msg) \<and> unat (msgGas msg) \<le> 2 ^ 60"

definition intrinsic :: "EVM \<Rightarrow> Message \<Rightarrow> vmError + u64" where
  "intrinsic e msg = IntrinsicGas (msgData msg) (msgTo msg = None) (isHomestead e)"

text \<open>What a message applied without an error has done: \<open>w\<close> and \<open>gp\<close> are the world and the gas pool
  before.\<close>

definition accounted :: "EVM \<Rightarrow> Message \<Rightarrow> u64 \<Rightarrow> StateTransition \<Rightarrow> u64 \<Rightarrow> bool" where
  "accounted e msg gp st used \<longleftrightarrow> evmOk (stEvm st) \<and> totalSupply (view (sdb (stEvm st))) \<le> totalSupply (view (sdb e)) \<and>
     unat (stGp st) + unat used = unat gp \<and> unat used \<le> unat (msgGas msg) \<and>
     (\<exists>g. intrinsic e msg = Inr g \<and> unat g \<le> 2 * unat used)"

text \<open>The machine ran on the gas left after the intrinsic cost.\<close>

lemma machine_finish:
  assumes e: "evmOk e" and g: "goes e e'" "unat left \<le> unat gas" and s: "evmOk e0" "ext (sdb e) = ext (sdb e0)"
    and st: "stMsg st = msg" "initialGas st = msgGas msg" "stGasPrice st = msgGasPrice msg" "stGp st = gp - msgGas msg"
    and m: "msgOk msg" "\<not> gp < msgGas msg" and i: "intrinsic e0 msg = Inr ig" "unat gas + unat ig = unat (msgGas msg)"
    and S: "totalSupply (view (sdb e)) + uint (msgGas msg) * msgGasPrice msg \<le> totalSupply (view (sdb e0))"
  shows "\<exists>st' ret' used failed err. finishTransition (st\<lparr>stEvm := e', stGas := left\<rparr>) ret vmerr = Some (st', ret', used, failed, err) \<and>
    (err = None \<longrightarrow> accounted e0 msg gp st' used)"
proof -
  let ?st = "st\<lparr>stEvm := e', stGas := left\<rparr>"
  have gp: "unat (gp - msgGas msg) = unat gp - unat (msgGas msg)" "unat (msgGas msg) \<le> unat gp"
    using m(2) by (simp_all add: unat_sub word_le_nat_alt not_less)
  have S0: "totalSupply (view (sdb e0)) < tt256" using s(1) by (simp add: evmOk_def stateOk_def worldOk_def)
  have le: "totalSupply (view (sdb e')) \<le> totalSupply (view (sdb e))" using g(1) by (simp add: goes_def moves_def)
  have pre: "unat (stGas ?st) \<le> unat (initialGas ?st)" "unat (stGp ?st) + unat (initialGas ?st) < 18446744073709551616"
      "evmOk (stEvm ?st)" "0 \<le> stGasPrice ?st"
      "totalSupply (view (sdb (stEvm ?st))) + uint (initialGas ?st) * stGasPrice ?st \<le> totalSupply (view (sdb e0))"
    using g(2) i(2) st gp m(1) S le goes_evmOk [OF e g(1)] unat_u64_less [of gp] by (simp_all add: msgOk_def)
  obtain st' used err where f: "finishTransition ?st ret vmerr = Some (st', (if err = None then ret else []), used, vmerr \<noteq> None \<and> err = None, err)"
    "err = None \<longrightarrow> evmOk (stEvm st') \<and> totalSupply (view (sdb (stEvm st'))) \<le> totalSupply (view (sdb e0)) \<and>
      unat (stGp st') + unat used = unat (stGp ?st) + unat (initialGas ?st) \<and> unat used \<le> unat (initialGas ?st) \<and>
      unat (initialGas ?st) - unat (stGas ?st) \<le> 2 * unat used"
    using finishTransition_ok [OF pre S0, of ret vmerr] by blast
  have "unat ig \<le> 2 * unat used" if "err = None" using f(2) that i(2) g(2) st by auto
  then have "err = None \<longrightarrow> accounted e0 msg gp st' used" using f(2) i(1) st gp by (auto simp: accounted_def)
  then show ?thesis using f(1) by blast
qed

text \<open>The state after the checks passed and the gas was paid for.\<close>

lemma checkedState_quiet: "stateOk (sdb (stEvm st)) \<Longrightarrow> quiet (sdb (stEvm st)) (checkedState st)"
  using quiet_reads(1) quiet_trans_load by (simp add: checkedState_def Let_def)

lemma view_checkedState: "view (checkedState st) = view (sdb (stEvm st))"
  by (simp add: checkedState_def Let_def)

definition paidState :: "EVM \<Rightarrow> Message \<Rightarrow> statedb" where
  "paidState e msg = SubBalance (checkedState (NewStateTransition e msg 0)) (msgFrom msg) (uint (msgGas msg) * msgGasPrice msg)"

definition funded :: "EVM \<Rightarrow> Message \<Rightarrow> u64 \<Rightarrow> u64 \<Rightarrow> StateTransition" where
  "funded e msg gp gas = (NewStateTransition (e\<lparr>sdb := paidState e msg\<rparr>) msg (gp - msgGas msg))\<lparr>stGas := gas, initialGas := msgGas msg\<rparr>"

lemma funded_simps [simp]:
  "stEvm (funded e msg gp gas) = e\<lparr>sdb := paidState e msg\<rparr>" "stMsg (funded e msg gp gas) = msg"
  "initialGas (funded e msg gp gas) = msgGas msg" "stGas (funded e msg gp gas) = gas" "stGp (funded e msg gp gas) = gp - msgGas msg"
  "stGasPrice (funded e msg gp gas) = msgGasPrice msg" "stData (funded e msg gp gas) = msgData msg" "stValue (funded e msg gp gas) = msgValue msg"
  by (simp_all add: funded_def NewStateTransition_def)

lemma preCheck_funded:
  assumes "fst (preCheck (NewStateTransition e msg gp)) = None"
  shows "preCheck (NewStateTransition e msg gp) = (None, funded e msg gp (msgGas msg))"
    "uint (msgGas msg) * msgGasPrice msg \<le> wBalance (view (sdb e)) (msgFrom msg)" "\<not> gp < msgGas msg"
  using assms
  by (auto simp: preCheck_cases funded_def paidState_def checkedState_def NewStateTransition_def setState_def split: if_splits)

lemma paid_ok:
  assumes e: "evmOk e" "\<not> protected e" and p: "0 \<le> uint (msgGas msg) * msgGasPrice msg"
    "uint (msgGas msg) * msgGasPrice msg \<le> wBalance (view (sdb e)) (msgFrom msg)"
  shows "goes e (e\<lparr>sdb := paidState e msg\<rparr>)"
    "totalSupply (view (paidState e msg)) + uint (msgGas msg) * msgGasPrice msg = totalSupply (view (sdb e))"
proof -
  let ?st = "NewStateTransition e msg 0"
  have s: "stateOk (sdb e)" using e(1) by (simp add: evmOk_def)
  have q: "quiet (sdb e) (checkedState ?st)" using checkedState_quiet [of ?st] s by (simp add: NewStateTransition_def)
  have v: "view (checkedState ?st) = view (sdb e)" using view_checkedState [of ?st] by (simp add: NewStateTransition_def)
  note B = SubBalance_ok [OF moves_ok [OF quiet_moves [OF q]] p(1), of "msgFrom msg", unfolded v, OF p(2), folded paidState_def]
  show "goes e (e\<lparr>sdb := paidState e msg\<rparr>)" by (rule goes_moves [OF e(1) moves_trans [OF quiet_moves [OF q] B(1)] e(2)])
  show "totalSupply (view (paidState e msg)) + uint (msgGas msg) * msgGasPrice msg = totalSupply (view (sdb e))" by (simp add: B(2))
qed

text \<open>The transition once the gas is paid for.\<close>

lemma ApplyMessage_paid:
  assumes "fst (preCheck (NewStateTransition e msg gp)) = None"
  shows "ApplyMessage run e msg gp = (case intrinsic e msg of
        Inl err \<Rightarrow> Some (funded e msg gp (msgGas msg), [], 0, False, Some (coreVMError err))
      | Inr ig \<Rightarrow> if msgGas msg < ig then Some (funded e msg gp (msgGas msg), [], 0, False, Some (coreVMError ErrOutOfGas))
        else let st2 = funded e msg gp (msgGas msg - ig) in
          if msgTo msg = None then do {
               (e', ret, _, left, vmerr) \<leftarrow> Create run (stEvm st2) (AccountRef (msgFrom msg)) (stData st2) (stGas st2) (stValue st2);
               finishTransition (st2\<lparr>stEvm := e', stGas := left\<rparr>) ret vmerr }
             else do {
               let (nonce, s) = GetNonce (sdb (stEvm st2)) (msgFrom msg);
               let st3 = setState st2 (SetNonce s (msgFrom msg) (nonce + 1));
               (e', ret, left, vmerr) \<leftarrow> Call run (stEvm st3) (AccountRef (msgFrom msg)) (stTo st3) (stData st3) (stGas st3) (stValue st3);
               finishTransition (st3\<lparr>stEvm := e', stGas := left\<rparr>) ret vmerr })"
proof -
  have u: "useGas (funded e msg gp (msgGas msg)) ig = (if msgGas msg < ig then Inl ErrOutOfGas else Inr (funded e msg gp (msgGas msg - ig)))" for ig
    by (simp add: useGas_def funded_def)
  have h: "IsHomestead (chainConfig (e\<lparr>sdb := paidState e msg\<rparr>)) (BlockNumber (ctx (e\<lparr>sdb := paidState e msg\<rparr>))) = isHomestead e"
    by (simp add: isHomestead_def)
  show ?thesis
    unfolding ApplyMessage_def TransitionDb_def preCheck_funded(1) [OF assms] prod.case option.case Let_def funded_simps h
      intrinsic_def [symmetric] RefAddress_def ContractRef.case u
    by (cases "intrinsic e msg"; cases "msgTo msg") simp_all
qed

lemma create_branch:
  assumes e: "evmOk e" "\<not> protected e" and m: "msgOk msg" "unat (msgGas msg) < n"
    and p: "fst (preCheck (NewStateTransition e msg gp)) = None" and ig: "intrinsic e msg = Inr ig" "ig \<le> msgGas msg" and t: "msgTo msg = None"
  shows "\<exists>st ret used failed err. ApplyMessage (runLoop n) e msg gp = Some (st, ret, used, failed, err) \<and>
    (err = None \<longrightarrow> accounted e msg gp st used)"
proof -
  let ?e = "e\<lparr>sdb := paidState e msg\<rparr>" and ?g = "msgGas msg - ig"
  note pf = preCheck_funded [OF p]
  have cost: "0 \<le> uint (msgGas msg) * msgGasPrice msg" using m by (simp add: msgOk_def)
  note P = paid_ok [OF e cost pf(2)]
  note ok1 = goes_evmOk [OF e(1) P(1)]
  have np: "\<not> protected ?e" using e(2) by simp
  have gs: "unat ?g + unat ig = unat (msgGas msg)" using ig(2) by (simp add: unat_sub word_le_nat_alt)
  have mo: "small (msgData msg)" "unat ?g < n" "unat ?g \<le> 2 ^ 60" "in256 (msgValue msg)" using m gs by (simp_all add: msgOk_def)
  obtain e' ret a left err where c: "Create (runLoop n) ?e (AccountRef (msgFrom msg)) (msgData msg) ?g (msgValue msg) = Some (e', ret, a, left, err)"
    "goes ?e e'" "unat left \<le> unat ?g"
    using Create_ok [OF runLoop_ok ok1 np mo, of "AccountRef (msgFrom msg)"] by (auto simp: createRes_def)
  have "ApplyMessage (runLoop n) e msg gp = finishTransition ((funded e msg gp ?g)\<lparr>stEvm := e', stGas := left\<rparr>) ret err"
    unfolding ApplyMessage_paid [OF p] using t ig c(1) by (simp add: not_less [THEN iffD2])
  then show ?thesis
    using machine_finish [OF ok1 c(2,3) e(1) goes_ext [OF P(1)] _ _ _ _ m(1) pf(3) ig(1) gs, of "funded e msg gp ?g" ret err] P(2) by simp
qed

lemma call_branch:
  assumes e: "evmOk e" "\<not> protected e" and m: "msgOk msg" "unat (msgGas msg) < n"
    and p: "fst (preCheck (NewStateTransition e msg gp)) = None" and ig: "intrinsic e msg = Inr ig" "ig \<le> msgGas msg" and t: "msgTo msg \<noteq> None"
  shows "\<exists>st ret used failed err. ApplyMessage (runLoop n) e msg gp = Some (st, ret, used, failed, err) \<and>
    (err = None \<longrightarrow> accounted e msg gp st used)"
proof -
  let ?s = "paidState e msg" and ?e = "e\<lparr>sdb := paidState e msg\<rparr>" and ?g = "msgGas msg - ig" and ?from = "msgFrom msg"
  note pf = preCheck_funded [OF p]
  have cost: "0 \<le> uint (msgGas msg) * msgGasPrice msg" using m by (simp add: msgOk_def)
  note P = paid_ok [OF e cost pf(2)]
  note ok1 = goes_evmOk [OF e(1) P(1)]
  have np: "\<not> protected ?e" using e(2) by simp
  have gs: "unat ?g + unat ig = unat (msgGas msg)" using ig(2) by (simp add: unat_sub word_le_nat_alt)
  have mo: "small (msgData msg)" "unat ?g < n" "unat ?g \<le> 2 ^ 60" "in256 (msgValue msg)" using m gs by (simp_all add: msgOk_def)
  define s3 where "s3 = SetNonce (snd (getStateObject ?s ?from)) ?from (wNonce (view ?s) ?from + 1)"
  let ?st = "setState (funded e msg gp ?g) s3"
  have s: "stateOk ?s" using ok1 by (simp add: evmOk_def)
  have q: "moves ?s s3" unfolding s3_def
    by (rule moves_trans [OF quiet_moves [OF quiet_reads(1) [OF s]] moves_write(1) [OF moves_ok [OF quiet_moves [OF quiet_reads(1) [OF s]]]]])
  have g3: "goes ?e (e\<lparr>sdb := s3\<rparr>)" using goes_moves [OF ok1 _ np, of s3] q by simp
  note ok3 = goes_evmOk [OF ok1 g3]
  have N: "GetNonce ?s ?from = (wNonce (view ?s) ?from, snd (getStateObject ?s ?from))"
    by (simp add: prod_eq_iff query_values query_states)
  obtain e' ret left err where c: "Call (runLoop n) (e\<lparr>sdb := s3\<rparr>) (AccountRef ?from) (stTo ?st) (msgData msg) ?g (msgValue msg) = Some (e', ret, left, err)"
    "goes (e\<lparr>sdb := s3\<rparr>) e'" "unat left \<le> unat ?g"
    using Call_ok [OF runLoop_ok ok3 mo, of "AccountRef ?from" "stTo ?st"] np by (auto simp: callRes_def)
  have "ApplyMessage (runLoop n) e msg gp = finishTransition (?st\<lparr>stEvm := e', stGas := left\<rparr>) ret err"
    unfolding ApplyMessage_paid [OF p] using ig c(1) N by (simp add: not_less [THEN iffD2] Let_def if_not_P [OF t] s3_def [symmetric])
  moreover have "totalSupply (view s3) \<le> totalSupply (view ?s)" using q by (simp add: moves_def)
  ultimately show ?thesis
    using machine_finish [OF ok3 c(2,3) e(1) _ _ _ _ _ m(1) pf(3) ig(1) gs, of ?st ret err] P(2) goes_ext [OF P(1)] goes_ext [OF g3] by simp
qed

lemma ApplyMessage_ok:
  assumes e: "evmOk e" "\<not> protected e" and m: "msgOk msg" "unat (msgGas msg) < n"
  shows "\<exists>st ret used failed err. ApplyMessage (runLoop n) e msg gp = Some (st, ret, used, failed, err) \<and>
    (err = None \<longrightarrow> accounted e msg gp st used)"
proof (cases "fst (preCheck (NewStateTransition e msg gp))")
  case (Some err)
  then show ?thesis by (cases "preCheck (NewStateTransition e msg gp)") (auto simp: ApplyMessage_def TransitionDb_def)
next
  case None
  show ?thesis
  proof (cases "\<exists>ig. intrinsic e msg = Inr ig \<and> ig \<le> msgGas msg")
    case False
    then show ?thesis unfolding ApplyMessage_paid [OF None] by (auto simp: not_le split: sum.split)
  next
    case True
    then show ?thesis using create_branch [OF e m None] call_branch [OF e m None] by blast
  qed
qed

text \<open>The reason to refuse a message, in the order of the checks.\<close>

definition rejection :: "world \<Rightarrow> Message \<Rightarrow> u64 \<Rightarrow> coreError option" where
  "rejection w msg gp =
     (if msgCheckNonce msg \<and> wNonce w (msgFrom msg) < msgNonce msg then Some ErrNonceTooHigh
      else if msgCheckNonce msg \<and> msgNonce msg < wNonce w (msgFrom msg) then Some ErrNonceTooLow
      else if wBalance w (msgFrom msg) < uint (msgGas msg) * msgGasPrice msg then Some errInsufficientBalanceForGas
      else if gp < msgGas msg then Some ErrGasLimitReached
      else None)"

lemma preCheck_rejection: "rejection (view (sdb e)) msg gp = None \<Longrightarrow> fst (preCheck (NewStateTransition e msg gp)) = None"
  unfolding preCheck_cases rejection_def by (auto simp: NewStateTransition_def split: if_splits)

definition exampleMessage :: Message where
  "exampleMessage = \<lparr>msgFrom = 7, msgTo = Some 500, msgGasPrice = 0, msgGas = 30000, msgValue = 10, msgNonce = 0,
     msgCheckNonce = True, msgData = [1, 0]\<rparr>"

lemma msgOk_example: "msgOk exampleMessage"
  by (simp add: msgOk_def exampleMessage_def in256_def tt256_def small_def)

lemma finishTransition_None: "finishTransition st ret None = Some (st', ret', used, failed, err) \<Longrightarrow> err = None"
  by (auto simp: finishTransition_def bind_eq_Some_conv Let_def)

lemma view_paidState:
  assumes "evmOk e"
  shows "view (paidState e msg) = sAddBalance (emptyCodeHash (sdb e)) (view (sdb e)) (msgFrom msg) (- (uint (msgGas msg) * msgGasPrice msg))"
    "dbInv (paidState e msg)" "ext (paidState e msg) = ext (sdb e)"
proof -
  let ?st = "NewStateTransition e msg 0"
  have s: "stateOk (sdb e)" using assms by (simp add: evmOk_def)
  have q: "quiet (sdb e) (checkedState ?st)" using checkedState_quiet [of ?st] s by (simp add: NewStateTransition_def)
  note B = SubBalance_spec [OF stateOk_dbInv [OF moves_ok [OF quiet_moves [OF q]]], of "msgFrom msg" "uint (msgGas msg) * msgGasPrice msg"]
  have v: "view (checkedState ?st) = view (sdb e)" "emptyCodeHash (checkedState ?st) = emptyCodeHash (sdb e)"
    using view_checkedState [of ?st] by (simp_all add: checkedState_def Let_def NewStateTransition_def)
  show "view (paidState e msg) = sAddBalance (emptyCodeHash (sdb e)) (view (sdb e)) (msgFrom msg) (- (uint (msgGas msg) * msgGasPrice msg))"
    unfolding paidState_def B(2) v ..
  show "dbInv (paidState e msg)" unfolding paidState_def by (rule evolves_dbInv [OF B(1)])
  show "ext (paidState e msg) = ext (sdb e)" unfolding paidState_def using evolves_env(1) [OF B(1)] moves_ext [OF quiet_moves [OF q]] by simp
qed

lemma example_applied:
  "\<exists>st ret used failed. ApplyMessage (runLoop 30001) exampleEVM exampleMessage 50000 = Some (st, ret, used, failed, None)"
proof -
  let ?e = exampleEVM and ?m = exampleMessage
  have r: "rejection (view (sdb ?e)) ?m 50000 = None" by (simp add: rejection_def exampleMessage_def example_fields)
  note A = ApplyMessage_paid [OF preCheck_rejection [OF r], of "runLoop 30001"]
  have i: "intrinsic ?e ?m = Inr 21072" by (simp add: intrinsic_def exampleMessage_def IntrinsicGas_def params MaxUint64_def)
  let ?s = "paidState ?e ?m"
  note V = view_paidState [OF evmOk_example, of ?m]
  let ?t = "snd (getStateObject ?s 7)"
  let ?s3 = "SetNonce ?t 7 (wNonce (view ?s) 7 + 1)"
  have f: "msgFrom ?m = 7" "msgTo ?m = Some 500" "msgGas ?m = 30000" "msgGasPrice ?m = 0" "msgValue ?m = 10"
    by (simp_all add: exampleMessage_def)
  have g1: "goes ?e (?e\<lparr>sdb := ?s\<rparr>)" by (rule paid_ok(1) [OF evmOk_example]) (simp_all add: f example_fields)
  note o1 = goes_evmOk [OF evmOk_example g1]
  have s: "stateOk ?s" using o1 by (simp add: evmOk_def)
  note ot = moves_ok [OF quiet_moves [OF quiet_reads(1) [OF s, of 7]]]
  have "evmOk (?e\<lparr>sdb := ?s3\<rparr>)"
    using goes_evmOk [OF o1 goes_moves [OF o1, of ?s3]] moves_trans [OF quiet_moves [OF quiet_reads(1) [OF s, of 7]] moves_write(1) [OF ot]] by simp
  note N = SetNonce_spec(2) [OF stateOk_dbInv [OF ot], of 7 "wNonce (view ?s) 7 + 1"]
  have w: "wBalance (view ?s3) 7 = 1000" "wCode (view ?s3) 500 = []"
    using example_fields(1) [of 7] example_fields(4) [of 500] unfolding N by (simp_all add: V(1) sSetNonce_def sAddBalance_def f)
  have "precompiles (?e\<lparr>sdb := ?s3\<rparr>) 500 = None"
    by (simp add: precompiles_def PrecompiledContractsByzantium_def PrecompiledContractsHomestead_def BytesToAddress_def be_nat_def)
  from Call_plain [OF \<open>evmOk (?e\<lparr>sdb := ?s3\<rparr>)\<close> _ _ _ this, of 10 "AccountRef 7" "runLoop 30001" "msgData ?m" 8928] w
  obtain e' where c: "Call (runLoop 30001) (?e\<lparr>sdb := ?s3\<rparr>) (AccountRef 7) 500 (msgData ?m) 8928 10 = Some (e', [], 8928, None)"
    by (auto simp: RefAddress_def)
  have n: "GetNonce ?s 7 = (wNonce (view ?s) 7, ?t)" by (simp add: prod_eq_iff query_values query_states)
  have "\<exists>st. ApplyMessage (runLoop 30001) ?e ?m 50000 = finishTransition st [] None"
    unfolding A i using n c by (auto simp: f stTo_def)
  moreover have "\<exists>st ret used failed err. ApplyMessage (runLoop 30001) ?e ?m 50000 = Some (st, ret, used, failed, err)"
    using ApplyMessage_ok [OF evmOk_example _ msgOk_example, of 30001 50000] f(3) by auto
  ultimately show ?thesis using finishTransition_None by metis
qed

section \<open>Properties\<close>

text \<open>C9. Applying a message always returns: no code the message runs, no refund and no fee makes the node
  panic; in particular the gas pool is never pushed above its 64 bits.\<close>

theorem message_returns:
  assumes "evmOk e" "\<not> protected e" "msgOk msg" "unat (msgGas msg) < n"
  shows "\<exists>st ret used failed err. ApplyMessage (runLoop n) e msg gp = Some (st, ret, used, failed, err)"
  using ApplyMessage_ok [OF assms, of gp] by blast

theorem message_returns_witness:
  "evmOk exampleEVM \<and> msgOk exampleMessage \<and>
   (\<exists>st ret used failed err. ApplyMessage (runLoop 30001) exampleEVM exampleMessage 50000 = Some (st, ret, used, failed, err))"
  using message_returns [OF evmOk_example _ msgOk_example, of 30001 50000] evmOk_example msgOk_example
  by (simp add: exampleMessage_def)

text \<open>C8. The books balance: a message applied without a consensus error takes from the gas pool exactly the
  gas it is charged for, which is at most its limit and at least half its intrinsic cost, and after
  purchase, execution, refund and fee the total supply is at most what it was.\<close>

theorem message_accounts:
  assumes "evmOk e" "\<not> protected e" "msgOk msg" "unat (msgGas msg) < n"
    and "ApplyMessage (runLoop n) e msg gp = Some (st, ret, used, failed, None)"
  shows "unat (stGp st) + unat used = unat gp \<and> unat used \<le> unat (msgGas msg) \<and>
    (\<exists>g. IntrinsicGas (msgData msg) (msgTo msg = None) (isHomestead e) = Inr g \<and> unat g \<le> 2 * unat used) \<and>
    totalSupply (view (sdb (stEvm st))) \<le> totalSupply (view (sdb e)) \<and> (\<forall>a. 0 \<le> wBalance (view (sdb (stEvm st))) a)"
  using ApplyMessage_ok [OF assms(1-4), of gp] assms(5)
  by (auto simp: accounted_def intrinsic_def evmOk_def stateOk_def worldOk_def)

theorem message_accounts_witness:
  "\<exists>st ret used failed. ApplyMessage (runLoop 30001) exampleEVM exampleMessage 50000 = Some (st, ret, used, failed, None) \<and>
     unat (stGp st) + unat used = 50000 \<and> unat used \<le> 30000"
proof -
  obtain st ret used failed where a: "ApplyMessage (runLoop 30001) exampleEVM exampleMessage 50000 = Some (st, ret, used, failed, None)"
    using example_applied by blast
  show ?thesis using message_accounts [OF evmOk_example _ msgOk_example _ a] a by (auto simp: exampleMessage_def)
qed

text \<open>C29. Rejection: a message with the wrong nonce, without the money for its gas, or with more gas than is
  left in the block is refused with the matching error, in this order; the world and the gas pool
  stay as they were.\<close>

theorem message_rejected:
  assumes "rejection (view (sdb e)) msg gp = Some err"
  shows "\<exists>st. ApplyMessage run e msg gp = Some (st, [], 0, False, Some err) \<and> view (sdb (stEvm st)) = view (sdb e) \<and> stGp st = gp"
proof -
  let ?st = "NewStateTransition e msg gp"
  have "\<exists>s. preCheck ?st = (Some err, setState ?st s) \<and> view s = view (sdb e)"
    using assms view_checkedState [of ?st] unfolding preCheck_cases rejection_def
    by (auto simp: NewStateTransition_def split: if_splits)
  then show ?thesis by (auto simp: ApplyMessage_def TransitionDb_def NewStateTransition_def)
qed

theorem message_rejected_witness:
  "rejection (view (sdb exampleEVM)) (exampleMessage\<lparr>msgGas := 60000\<rparr>) 50000 = Some ErrGasLimitReached \<and>
   (\<exists>st. ApplyMessage (runLoop 9) exampleEVM (exampleMessage\<lparr>msgGas := 60000\<rparr>) 50000 = Some (st, [], 0, False, Some ErrGasLimitReached))"
proof -
  have r: "rejection (view (sdb exampleEVM)) (exampleMessage\<lparr>msgGas := 60000\<rparr>) 50000 = Some ErrGasLimitReached"
    by (simp add: rejection_def exampleMessage_def example_fields)
  show ?thesis using message_rejected [OF r, of "runLoop 9"] r by blast
qed

text \<open>C30. A plain payment: a call, at a depth of at most 1024 and with calls enabled, of an account that has no
  code and is not a precompiled contract, with a value between zero and the balance of the caller, succeeds. It moves
  exactly the value from the caller to the recipient, touches no other balance, returns all its gas and no data.\<close>

theorem plain_payment:
  assumes "evmOk e" "\<not> NoRecursion (vmConfig e)" "depth e \<le> 1024" "wCode (view (sdb e)) a = []" "precompiles e a = None"
    "0 \<le> v" "v \<le> wBalance (view (sdb e)) (RefAddress caller)"
  shows "\<exists>e'. Call run e caller a input gas v = Some (e', [], gas, None) \<and>
    (\<forall>b. wBalance (view (sdb e')) b = wBalance (view (sdb e)) b + (if b = a then v else 0) - (if b = RefAddress caller then v else 0))"
  by (rule Call_plain [OF assms])

theorem plain_payment_witness:
  "\<exists>e'. Call (\<lambda>m. None) exampleEVM (AccountRef 7) 500 [] 99 10 = Some (e', [], 99, None) \<and>
     wBalance (view (sdb e')) 7 = 990 \<and> wBalance (view (sdb e')) 500 = 10"
proof -
  have "precompiles exampleEVM 500 = None"
    by (simp add: precompiles_def PrecompiledContractsByzantium_def PrecompiledContractsHomestead_def BytesToAddress_def be_nat_def)
  from plain_payment [OF evmOk_example _ _ _ this, of 10 "AccountRef 7" "\<lambda>m. None" "[]" 99] show ?thesis
    by (auto simp: example_fields RefAddress_def)
qed

end
