(* ===== verification/Rlp.thy ===== *)
theory Rlp
  imports BigInt
begin

text \<open>
  Recursive length prefix encoding (package \<open>rlp\<close>). Go values of serialisable types are trees
  \<open>rval\<close>, their types \<open>rtype\<close>: what the package sees of them through reflection. Types with an encoder
  or decoder of their own are modelled where they are declared.

  The encoder (\<open>rlp/encode.go\<close>) appends string data to a buffer and keeps the list headers apart until
  the end, since the size of a list is known only after its elements. \<open>rlp/raw.go\<close> splits encoded
  values. The sizes kept in the buffer are lengths of slices and are natural numbers here.
\<close>

section \<open>Types, values and errors\<close>

datatype rlpError =
    EOL
  | ErrExpectedString
  | ErrExpectedList
  | ErrCanonInt
  | ErrCanonSize
  | ErrElemTooLarge
  | ErrValueTooLarge
  | ErrMoreThanOneValue
  | errNotInList
  | errNotAtEOL
  | errUintOverflow
  | ioEOF
  | ioErrUnexpectedEOF
  | errNegativeBigInt
  | errInvalidBool u64
  | decodeError string

datatype Kind = Byte | String | List

record tags =
  nilOK :: bool
  tail :: bool

datatype rtype =
    RawValueT
  | BigIntT
  | UintT nat
  | BoolT
  | StringT
  | ByteSliceT
  | ByteArrayT nat
  | SliceT rtype
  | ArrayT nat rtype
  | StructT "(tags \<times> rtype) list"
  | PtrT rtype
  | InterfaceT

text \<open>A list value has the tag of its field; a nil pointer has the type it could point to; an interface
  holds a value or nil.\<close>

datatype rval =
    RawV bytes
  | BigIntV "int option"
  | UintV u64
  | BoolV bool
  | StringV bytes
  | BytesV bytes
  | ListV bool "rval list"
  | StructV "rval list"
  | PtrV rval
  | NilPtrV rtype
  | InterfaceV "rval option"

section \<open>Headers\<close>

text \<open>\<open>putint\<close> and \<open>puthead\<close> return the bytes they write.\<close>

definition putint :: "u64 \<Rightarrow> bytes" where
  "putint i =
     (if i < 2 ^ 8 then [ucast i]
      else if i < 2 ^ 16 then [ucast (drop_bit 8 i), ucast i]
      else if i < 2 ^ 24 then [ucast (drop_bit 16 i), ucast (drop_bit 8 i), ucast i]
      else if i < 2 ^ 32 then [ucast (drop_bit 24 i), ucast (drop_bit 16 i), ucast (drop_bit 8 i), ucast i]
      else if i < 2 ^ 40 then
        [ucast (drop_bit 32 i), ucast (drop_bit 24 i), ucast (drop_bit 16 i), ucast (drop_bit 8 i), ucast i]
      else if i < 2 ^ 48 then
        [ucast (drop_bit 40 i), ucast (drop_bit 32 i), ucast (drop_bit 24 i), ucast (drop_bit 16 i),
         ucast (drop_bit 8 i), ucast i]
      else if i < 2 ^ 56 then
        [ucast (drop_bit 48 i), ucast (drop_bit 40 i), ucast (drop_bit 32 i), ucast (drop_bit 24 i),
         ucast (drop_bit 16 i), ucast (drop_bit 8 i), ucast i]
      else
        [ucast (drop_bit 56 i), ucast (drop_bit 48 i), ucast (drop_bit 40 i), ucast (drop_bit 32 i),
         ucast (drop_bit 24 i), ucast (drop_bit 16 i), ucast (drop_bit 8 i), ucast i])"

function intsizeFrom :: "nat \<Rightarrow> u64 \<Rightarrow> nat" where
  "intsizeFrom sz i = (let j = drop_bit 8 i in if j = 0 then sz else intsizeFrom (sz + 1) j)"
  by auto

termination
proof (relation "measure (\<lambda>(_, i). unat i)")
  fix n :: nat and i j :: u64
  assume "j = drop_bit 8 i" "j \<noteq> 0"
  then have "unat j = drop_bit 8 (unat i)" "0 < unat j" by (simp only: unat_drop_bit_eq, simp only: unat_gt_0 not_False_eq_True)
  then have "unat j = unat i div 256" "0 < unat j" by (simp_all add: drop_bit_eq_div)
  then show "((n + 1, j), (n, i)) \<in> measure (\<lambda>(_, i). unat i)" by auto
qed simp

declare intsizeFrom.simps [simp del]

definition intsize :: "u64 \<Rightarrow> nat" where
  "intsize i = intsizeFrom 1 i"

definition headsize :: "u64 \<Rightarrow> nat" where
  "headsize n = (if n < 56 then 1 else 1 + intsize n)"

definition puthead :: "byte \<Rightarrow> byte \<Rightarrow> u64 \<Rightarrow> bytes" where
  "puthead smalltag largetag n =
     (if n < 56 then [smalltag + ucast n]
      else let w = putint n in (largetag + of_nat (length w)) # w)"

section \<open>The encoding buffer\<close>

record listhead =
  lhOffset :: nat
  lhSize :: nat

record encbuf =
  str :: bytes
  lheads :: "listhead list"
  lhsize :: nat

definition emptyBuf :: encbuf where
  "emptyBuf = \<lparr>str = [], lheads = [], lhsize = 0\<rparr>"

definition headEncode :: "listhead \<Rightarrow> bytes" where
  "headEncode head = puthead 0xC0 0xF7 (of_nat (lhSize head))"

definition bufWrite :: "encbuf \<Rightarrow> bytes \<Rightarrow> encbuf" where
  "bufWrite w b = w\<lparr>str := str w @ b\<rparr>"

definition bufSize :: "encbuf \<Rightarrow> nat" where
  "bufSize w = length (str w) + lhsize w"

definition encodeStringHeader :: "encbuf \<Rightarrow> nat \<Rightarrow> encbuf" where
  "encodeStringHeader w n =
     (if n < 56 then bufWrite w [0x80 + of_nat n]
      else let s = putint (of_nat n) in bufWrite w ((0xB7 + of_nat (length s)) # s))"

definition encodeString :: "encbuf \<Rightarrow> bytes \<Rightarrow> encbuf" where
  "encodeString w b =
     (if length b = 1 \<and> b ! 0 \<le> 0x7F then bufWrite w [b ! 0]
      else bufWrite (encodeStringHeader w (length b)) b)"

text \<open>\<open>list\<close> returns the index of the new header, for the pointer of the source.\<close>

definition listStart :: "encbuf \<Rightarrow> nat \<times> encbuf" where
  "listStart w = (length (lheads w), w\<lparr>lheads := lheads w @ [\<lparr>lhOffset = length (str w), lhSize = lhsize w\<rparr>]\<rparr>)"

definition listEnd :: "encbuf \<Rightarrow> nat \<Rightarrow> encbuf" where
  "listEnd w i =
     (let lh = lheads w ! i;
          n = bufSize w - lhOffset lh - lhSize lh;
          w = w\<lparr>lheads := (lheads w)[i := lh\<lparr>lhSize := n\<rparr>]\<rparr>
      in if n < 56 then w\<lparr>lhsize := lhsize w + 1\<rparr> else w\<lparr>lhsize := lhsize w + (1 + intsize (of_nat n))\<rparr>)"

fun toBytesLoop :: "bytes \<Rightarrow> listhead list \<Rightarrow> bytes \<Rightarrow> nat \<Rightarrow> nat \<Rightarrow> bytes option" where
  "toBytesLoop s [] out pos strpos = do {
     rest \<leftarrow> slice s strpos (length s);
     Some (copy_at out pos rest) }"
| "toBytesLoop s (head # heads) out pos strpos = do {
     piece \<leftarrow> slice s strpos (lhOffset head);
     let out = copy_at out pos piece;
     let n = min (length out - pos) (length piece);
     let enc = headEncode head;
     if length out < pos + n + length enc then None
     else toBytesLoop s heads (copy_at out (pos + n) enc) (pos + n + length enc) (strpos + n) }"

definition toBytes :: "encbuf \<Rightarrow> bytes option" where
  "toBytes w = toBytesLoop (str w) (lheads w) (replicate (bufSize w) 0) 0 0"

text \<open>\<open>toWriter\<close> into a writer that accepts everything: the bytes written.\<close>

fun toWriterLoop :: "bytes \<Rightarrow> listhead list \<Rightarrow> nat \<Rightarrow> bytes option" where
  "toWriterLoop s [] strpos = (if strpos < length s then slice s strpos (length s) else Some [])"
| "toWriterLoop s (head # heads) strpos = do {
     (piece, strpos) \<leftarrow> (if strpos < lhOffset head
        then do { p \<leftarrow> slice s strpos (lhOffset head); Some (p, strpos + length p) } else Some ([], strpos));
     rest \<leftarrow> toWriterLoop s heads strpos;
     Some (piece @ headEncode head @ rest) }"

definition toWriter :: "encbuf \<Rightarrow> bytes option" where
  "toWriter w = toWriterLoop (str w) (lheads w) 0"

section \<open>Writers\<close>

definition writeUint :: "u64 \<Rightarrow> encbuf \<Rightarrow> encbuf" where
  "writeUint i w =
     (if i = 0 then bufWrite w [0x80]
      else if i < 128 then bufWrite w [ucast i]
      else let s = putint i in bufWrite w ((0x80 + of_nat (length s)) # s))"

definition writeBool :: "bool \<Rightarrow> encbuf \<Rightarrow> encbuf" where
  "writeBool b w = (if b then bufWrite w [0x01] else bufWrite w [0x80])"

definition writeBigInt :: "int \<Rightarrow> encbuf \<Rightarrow> rlpError + encbuf" where
  "writeBigInt i w =
     (if i < 0 then Inl errNegativeBigInt
      else if i = 0 then Inr (bufWrite w [0x80])
      else Inr (encodeString w (Bytes i)))"

definition writeBigIntPtr :: "int option \<Rightarrow> encbuf \<Rightarrow> rlpError + encbuf" where
  "writeBigIntPtr p w = (case p of None \<Rightarrow> Inr (bufWrite w [0x80]) | Some i \<Rightarrow> writeBigInt i w)"

definition writeString :: "bytes \<Rightarrow> encbuf \<Rightarrow> encbuf" where
  "writeString s w =
     (if length s = 1 \<and> s ! 0 \<le> 0x7F then bufWrite w [s ! 0]
      else bufWrite (encodeStringHeader w (length s)) s)"

text \<open>The writer of a nil pointer (\<open>nilfunc\<close> of \<open>makePtrWriter\<close>); the default case writes the zero
  value of the type.\<close>

fun writeNilPtr :: "rtype \<Rightarrow> encbuf \<Rightarrow> encbuf" where
  "writeNilPtr (ByteArrayT n) w = bufWrite w [0x80]"
| "writeNilPtr (StructT fs) w = (case listStart w of (i, w) \<Rightarrow> listEnd w i)"
| "writeNilPtr (ArrayT n t) w = (case listStart w of (i, w) \<Rightarrow> listEnd w i)"
| "writeNilPtr RawValueT w = bufWrite w []"
| "writeNilPtr BigIntT w = bufWrite w [0x80]"
| "writeNilPtr (UintT n) w = writeUint 0 w"
| "writeNilPtr BoolT w = writeBool False w"
| "writeNilPtr StringT w = writeString [] w"
| "writeNilPtr ByteSliceT w = encodeString w []"
| "writeNilPtr (SliceT t) w = (case listStart w of (i, w) \<Rightarrow> listEnd w i)"
| "writeNilPtr (PtrT t) w = writeNilPtr t w"
| "writeNilPtr InterfaceT w = bufWrite w [0xC0]"

fun writeVal :: "rval \<Rightarrow> encbuf \<Rightarrow> rlpError + encbuf"
  and writeVals :: "rval list \<Rightarrow> encbuf \<Rightarrow> rlpError + encbuf" where
  "writeVal (RawV b) w = Inr (bufWrite w b)"
| "writeVal (BigIntV p) w = writeBigIntPtr p w"
| "writeVal (UintV i) w = Inr (writeUint i w)"
| "writeVal (BoolV b) w = Inr (writeBool b w)"
| "writeVal (StringV s) w = Inr (writeString s w)"
| "writeVal (BytesV b) w = Inr (encodeString w b)"
| "writeVal (ListV isTail vs) w =
     (if isTail then writeVals vs w
      else case listStart w of (i, w1) \<Rightarrow>
        (case writeVals vs w1 of Inl err \<Rightarrow> Inl err | Inr w2 \<Rightarrow> Inr (listEnd w2 i)))"
| "writeVal (StructV vs) w =
     (case listStart w of (i, w1) \<Rightarrow>
        (case writeVals vs w1 of Inl err \<Rightarrow> Inl err | Inr w2 \<Rightarrow> Inr (listEnd w2 i)))"
| "writeVal (PtrV v) w = writeVal v w"
| "writeVal (NilPtrV t) w = Inr (writeNilPtr t w)"
| "writeVal (InterfaceV None) w = Inr (bufWrite w [0xC0])"
| "writeVal (InterfaceV (Some v)) w = writeVal v w"
| "writeVals [] w = Inr w"
| "writeVals (v # vs) w = (case writeVal v w of Inl err \<Rightarrow> Inl err | Inr w1 \<Rightarrow> writeVals vs w1)"

definition EncodeToBytes :: "rval \<Rightarrow> (rlpError + bytes) option" where
  "EncodeToBytes v =
     (case writeVal v emptyBuf of Inl err \<Rightarrow> Some (Inl err) | Inr w \<Rightarrow> do { b \<leftarrow> toBytes w; Some (Inr b) })"

text \<open>\<open>Encode\<close> with a writer that is not itself an encoding buffer.\<close>

definition Encode :: "rval \<Rightarrow> (rlpError + bytes) option" where
  "Encode v =
     (case writeVal v emptyBuf of Inl err \<Rightarrow> Some (Inl err) | Inr w \<Rightarrow> do { b \<leftarrow> toWriter w; Some (Inr b) })"

section \<open>Splitting encoded values\<close>

definition ListSize :: "u64 \<Rightarrow> u64" where
  "ListSize contentSize = of_nat (headsize contentSize) + contentSize"

text \<open>The big-endian sum of \<open>readSize\<close>, for one to eight bytes; other lengths leave \<open>s\<close> at zero and are
  never passed.\<close>

definition sizeBytes :: "bytes \<Rightarrow> byte \<Rightarrow> u64" where
  "sizeBytes b slen =
     (if 1 \<le> slen \<and> slen \<le> 8 then fold (\<lambda>x s. or (push_bit 8 s) (ucast x)) (take (unat slen) b) 0 else 0)"

definition readSize :: "bytes \<Rightarrow> byte \<Rightarrow> (rlpError + u64) option" where
  "readSize b slen =
     (if length b < unat slen then Some (Inl ioErrUnexpectedEOF)
      else let s = sizeBytes b slen
           in if s < 56 then Some (Inl ErrCanonSize)
              else do {
                b0 \<leftarrow> index b 0;
                Some (if b0 = 0 then Inl ErrCanonSize else Inr s) })"

definition readKind :: "bytes \<Rightarrow> (rlpError + Kind \<times> u64 \<times> u64) option" where
  "readKind buf =
     (if length buf = 0 then Some (Inl ioErrUnexpectedEOF)
      else let b = buf ! 0
           in do {
             r \<leftarrow> (if b < 0x80 then Some (Inr (Byte, 0, 1))
                  else if b < 0xB8 then
                    let contentsize = ucast (b - 0x80)
                    in if contentsize = 1 \<and> 1 < length buf \<and> buf ! 1 < 128 then Some (Inl ErrCanonSize)
                       else Some (Inr (String, 1, contentsize))
                  else if b < 0xC0 then do {
                    r \<leftarrow> readSize (drop 1 buf) (b - 0xB7);
                    Some (case r of Inl err \<Rightarrow> Inl err | Inr n \<Rightarrow> Inr (String, ucast (b - 0xB7) + 1, n)) }
                  else if b < 0xF8 then Some (Inr (List, 1, ucast (b - 0xC0)))
                  else do {
                    r \<leftarrow> readSize (drop 1 buf) (b - 0xF7);
                    Some (case r of Inl err \<Rightarrow> Inl err | Inr n \<Rightarrow> Inr (List, ucast (b - 0xF7) + 1, n)) });
             Some (case r of Inl err \<Rightarrow> Inl err
                   | Inr (k, tagsize, contentsize) \<Rightarrow>
                       if of_nat (length buf) - tagsize < contentsize then Inl ErrValueTooLarge
                       else Inr (k, tagsize, contentsize)) })"

definition Split :: "bytes \<Rightarrow> (rlpError + Kind \<times> bytes \<times> bytes) option" where
  "Split b = do {
     r \<leftarrow> readKind b;
     case r of Inl err \<Rightarrow> Some (Inl err)
     | Inr (k, ts, cs) \<Rightarrow> do {
         content \<leftarrow> slice b (unat ts) (unat (ts + cs));
         rest \<leftarrow> slice b (unat (ts + cs)) (length b);
         Some (Inr (k, content, rest)) } }"

definition SplitString :: "bytes \<Rightarrow> (rlpError + bytes \<times> bytes) option" where
  "SplitString b = do {
     r \<leftarrow> Split b;
     Some (case r of Inl err \<Rightarrow> Inl err
           | Inr (k, content, rest) \<Rightarrow> if k = List then Inl ErrExpectedString else Inr (content, rest)) }"

definition SplitList :: "bytes \<Rightarrow> (rlpError + bytes \<times> bytes) option" where
  "SplitList b = do {
     r \<leftarrow> Split b;
     Some (case r of Inl err \<Rightarrow> Inl err
           | Inr (k, content, rest) \<Rightarrow> if k \<noteq> List then Inl ErrExpectedList else Inr (content, rest)) }"

text \<open>The loop of \<open>CountValues\<close> consumes at least one byte per round, so the length of the input bounds
  its rounds.\<close>

fun countValues :: "nat \<Rightarrow> bytes \<Rightarrow> nat \<Rightarrow> (rlpError + nat) option" where
  "countValues 0 b i = (if length b = 0 then Some (Inr i) else None)"
| "countValues (Suc n) b i =
     (if length b = 0 then Some (Inr i)
      else do {
        r \<leftarrow> readKind b;
        case r of Inl err \<Rightarrow> Some (Inl err)
        | Inr (_, tagsize, contentsize) \<Rightarrow> do {
            b \<leftarrow> slice b (unat (tagsize + contentsize)) (length b);
            countValues n b (i + 1) } })"

definition CountValues :: "bytes \<Rightarrow> (rlpError + nat) option" where
  "CountValues b = countValues (length b) b 0"

end
