(* ===== verification/RlpEncode.thy ===== *)
theory RlpEncode
  imports Rlp
begin

text \<open>
  The encoder of package \<open>rlp\<close> against the definition of the format: the buffer with its delayed list
  headers gives the bytes that the recursive description \<open>encVal\<close> gives.
\<close>

section \<open>The format\<close>

definition refHead :: "byte \<Rightarrow> byte \<Rightarrow> nat \<Rightarrow> bytes" where
  "refHead small large n = (if n < 56 then [small + of_nat n] else (large + of_nat (length (nat_be n))) # nat_be n)"

definition encBytes :: "bytes \<Rightarrow> bytes" where
  "encBytes b = (if length b = 1 \<and> b ! 0 < 128 then b else refHead 0x80 0xB7 (length b) @ b)"

definition encList :: "bytes \<Rightarrow> bytes" where
  "encList c = refHead 0xC0 0xF7 (length c) @ c"

fun encNil :: "rtype \<Rightarrow> bytes" where
  "encNil (StructT fs) = [0xC0]"
| "encNil (ArrayT n t) = [0xC0]"
| "encNil (SliceT t) = [0xC0]"
| "encNil InterfaceT = [0xC0]"
| "encNil RawValueT = []"
| "encNil (PtrT t) = encNil t"
| "encNil t = [0x80]"

fun encVal :: "rval \<Rightarrow> bytes" and encVals :: "rval list \<Rightarrow> bytes" where
  "encVal (RawV b) = b"
| "encVal (BigIntV p) = encBytes (case p of None \<Rightarrow> [] | Some i \<Rightarrow> Bytes i)"
| "encVal (UintV i) = encBytes (nat_be (unat i))"
| "encVal (BoolV b) = encBytes (if b then [1] else [])"
| "encVal (StringV s) = encBytes s"
| "encVal (BytesV b) = encBytes b"
| "encVal (ListV isTail vs) = (if isTail then encVals vs else encList (encVals vs))"
| "encVal (StructV vs) = encList (encVals vs)"
| "encVal (PtrV v) = encVal v"
| "encVal (NilPtrV t) = encNil t"
| "encVal (InterfaceV None) = [0xC0]"
| "encVal (InterfaceV (Some v)) = encVal v"
| "encVals [] = []"
| "encVals (v # vs) = encVal v @ encVals vs"

fun encodable :: "rval \<Rightarrow> bool" and encodables :: "rval list \<Rightarrow> bool" where
  "encodable (BigIntV (Some i)) = (0 \<le> i)"
| "encodable (ListV isTail vs) = encodables vs"
| "encodable (StructV vs) = encodables vs"
| "encodable (PtrV v) = encodable v"
| "encodable (InterfaceV (Some v)) = encodable v"
| "encodable v = True"
| "encodables [] = True"
| "encodables (v # vs) = (encodable v \<and> encodables vs)"

section \<open>Integers and headers\<close>

lemma nat_be_digits:
  "n < 256 ^ Suc k \<Longrightarrow> 256 ^ k \<le> n \<Longrightarrow> nat_be n = map (\<lambda>j. of_nat (n div 256 ^ j)) (rev [0..<Suc k])"
proof (induction k arbitrary: n)
  case 0
  then show ?case by (subst nat_be.simps) simp
next
  case (Suc k)
  have "n div 256 < 256 ^ Suc k" "256 ^ k \<le> n div 256"
    using Suc.prems by (simp_all add: less_mult_imp_div_less mult.commute less_eq_div_iff_mult_less_eq)
  from Suc.IH [OF this] have IH: "nat_be (n div 256) = map (\<lambda>j. of_nat (n div 256 div 256 ^ j)) (rev [0..<Suc k])" .
  have "[0..<Suc (Suc k)] = 0 # map Suc [0..<Suc k]" by (simp add: map_Suc_upt upt_conv_Cons del: upt_Suc)
  then have "map (\<lambda>j. of_nat (n div 256 ^ j)) (rev [0..<Suc (Suc k)]) =
      map (\<lambda>j. of_nat (n div 256 div 256 ^ j)) (rev [0..<Suc k]) @ [of_nat n :: byte]"
    by (simp add: rev_map div_mult2_eq del: upt_Suc)
  moreover have "(of_nat (n mod 256) :: byte) = of_nat n"
    by (simp add: word_unat_eq_iff unat_of_nat)
  moreover have "n \<noteq> 0" using Suc.prems by (cases n) auto
  ultimately show ?case using IH by (subst nat_be.simps) simp
qed

lemma ucast_drop_bit_byte: "(ucast (drop_bit (8 * j) (i :: u64)) :: byte) = of_nat (unat i div 256 ^ j)"
proof -
  have "unat (drop_bit (8 * j) i) = drop_bit (8 * j) (unat i)" by (rule unat_drop_bit_eq)
  then have "unat (drop_bit (8 * j) i) = unat i div 256 ^ j" by (simp add: drop_bit_eq_div power_mult)
  then show ?thesis by (metis of_nat_unat)
qed

lemma nat_be_word:
  assumes "unat (i :: u64) < 256 ^ Suc k" "256 ^ k \<le> unat i"
  shows "nat_be (unat i) = map (\<lambda>j. ucast (drop_bit (8 * j) i)) (rev [0..<Suc k])"
  unfolding ucast_drop_bit_byte by (rule nat_be_digits [OF assms])

lemma putint_nat_be: "i \<noteq> 0 \<Longrightarrow> putint i = nat_be (unat i)"
  unfolding putint_def word_less_nat_alt
  using nat_be_word [of i 0] nat_be_word [of i 1] nat_be_word [of i 2] nat_be_word [of i 3] nat_be_word [of i 4]
    nat_be_word [of i 5] nat_be_word [of i 6] nat_be_word [of i 7] unat_u64_less [of i]
  by (simp add: upt_rec word_unat_eq_iff)

lemma intsizeFrom_nat_be: "intsizeFrom k i = k + length (nat_be (unat i div 256))"
proof (induction k i rule: intsizeFrom.induct)
  case (1 k i)
  have d: "unat (drop_bit 8 i) = unat i div 256"
    using unat_drop_bit_eq [of 8 i] by (simp add: drop_bit_eq_div)
  then have z: "drop_bit 8 i = 0 \<longleftrightarrow> unat i div 256 = 0" by (metis unat_eq_zero)
  show ?case
  proof (cases "drop_bit 8 i = 0")
    case True
    then show ?thesis using z by (subst intsizeFrom.simps) (simp add: Let_def)
  next
    case False
    then have "nat_be (unat i div 256) = nat_be (unat i div 256 div 256) @ [of_nat (unat i div 256 mod 256)]"
      using z by (subst nat_be.simps) simp
    then show ?thesis using False 1 [OF refl False] d by (subst intsizeFrom.simps) (simp add: Let_def)
  qed
qed

lemma intsize_nat_be: "i \<noteq> 0 \<Longrightarrow> intsize i = length (nat_be (unat i))"
  unfolding intsize_def intsizeFrom_nat_be by (subst (2) nat_be.simps) (simp add: unat_eq_zero)

lemma length_putint: "length (putint i) = intsize i"
proof (cases "i = 0")
  case True
  then show ?thesis by (simp add: putint_def intsize_def intsizeFrom_nat_be)
next
  case False
  then show ?thesis by (simp add: putint_nat_be intsize_nat_be)
qed

lemma puthead_refHead:
  assumes "n < 2 ^ 64"
  shows "puthead small large (of_nat n) = refHead small large n"
proof -
  have u: "unat (of_nat n :: u64) = n" using assms by (simp add: unat_of_nat)
  then have l: "(of_nat n :: u64) < 56 \<longleftrightarrow> n < 56" by (simp add: word_less_nat_alt)
  have c: "(ucast (of_nat n :: u64) :: byte) = of_nat n" by (metis of_nat_unat u)
  show ?thesis
  proof (cases "n < 56")
    case True
    then show ?thesis using l c by (simp add: puthead_def refHead_def)
  next
    case False
    then have "(of_nat n :: u64) \<noteq> 0" using u by (metis unat_0 less_numeral_simps(2) zero_less_numeral)
    from putint_nat_be [OF this] show ?thesis using False l u by (simp add: puthead_def refHead_def Let_def)
  qed
qed

lemma length_refHead: "length (refHead small large n) = (if n < 56 then 1 else 1 + length (nat_be n))"
  by (simp add: refHead_def)

lemma headsize_refHead:
  assumes "n < 2 ^ 64"
  shows "headsize (of_nat n) = length (refHead small large n)"
proof -
  have u: "unat (of_nat n :: u64) = n" using assms by (simp add: unat_of_nat)
  then have l: "(of_nat n :: u64) < 56 \<longleftrightarrow> n < 56" by (simp add: word_less_nat_alt)
  have "(of_nat n :: u64) \<noteq> 0" if "\<not> n < 56"
    using that u by (metis unat_0 less_numeral_simps(2) zero_less_numeral)
  then show ?thesis using l u intsize_nat_be [of "of_nat n"] by (auto simp: headsize_def length_refHead)
qed

section \<open>The buffer\<close>

text \<open>\<open>weave s p hs\<close> is the string data from \<open>p\<close> on with the headers put in at their offsets.\<close>

fun weave :: "bytes \<Rightarrow> nat \<Rightarrow> listhead list \<Rightarrow> bytes" where
  "weave s p [] = drop p s"
| "weave s p (h # hs) = take (lhOffset h - p) (drop p s) @ headEncode h @ weave s (lhOffset h) hs"

fun ordered :: "nat \<Rightarrow> nat \<Rightarrow> listhead list \<Rightarrow> bool" where
  "ordered p l [] = (p \<le> l)"
| "ordered p l (h # hs) = (p \<le> lhOffset h \<and> ordered (lhOffset h) l hs)"

definition shiftBy :: "nat \<Rightarrow> listhead \<Rightarrow> listhead" where
  "shiftBy d h = h\<lparr>lhOffset := lhOffset h + d\<rparr>"

definition headLen :: "listhead list \<Rightarrow> nat" where
  "headLen hs = sum_list (map (length \<circ> headEncode) hs)"

lemma shiftBy_simps [simp]:
  "lhOffset (shiftBy d h) = lhOffset h + d" "lhSize (shiftBy d h) = lhSize h" "headEncode (shiftBy d h) = headEncode h"
  by (simp_all add: shiftBy_def headEncode_def)

lemma headLen_simps [simp]:
  "headLen [] = 0" "headLen (h # hs) = length (headEncode h) + headLen hs" "headLen (hs @ hs') = headLen hs + headLen hs'"
  "headLen (map (shiftBy d) hs) = headLen hs"
  by (simp_all add: headLen_def comp_def)

lemma ordered_le: "ordered p l hs \<Longrightarrow> p \<le> l"
  by (induction hs arbitrary: p) fastforce+

lemma ordered_append:
  "ordered p l hs \<Longrightarrow> ordered 0 m hs' \<Longrightarrow> ordered p (l + m) (hs @ map (shiftBy l) hs')"
proof (induction hs arbitrary: p)
  case Nil
  have "ordered q m hs' \<Longrightarrow> p \<le> l + q \<Longrightarrow> ordered p (l + m) (map (shiftBy l) hs')" for q p
    by (induction hs' arbitrary: p q) (auto simp: add.commute)
  from this [of 0 p] Nil show ?case by simp
qed simp

lemma length_weave: "ordered p (length s) hs \<Longrightarrow> length (weave s p hs) = length s - p + headLen hs"
proof (induction hs arbitrary: p)
  case (Cons h hs)
  then have "lhOffset h \<le> length s" using ordered_le by auto
  with Cons show ?case by auto
qed simp

lemma weave_shift:
  "ordered p (length t) hs \<Longrightarrow> weave (s @ t) (length s + p) (map (shiftBy (length s)) hs) = weave t p hs"
proof (induction hs arbitrary: p)
  case (Cons h hs)
  from Cons.IH [of "lhOffset h"] Cons.prems show ?case by (simp add: add.commute)
qed simp

lemma weave_append:
  "ordered p (length s) hs \<Longrightarrow> ordered 0 (length t) hs' \<Longrightarrow>
   weave (s @ t) p (hs @ map (shiftBy (length s)) hs') = weave s p hs @ weave t 0 hs'"
proof (induction hs arbitrary: p)
  case Nil
  show ?case
  proof (cases hs')
    case Nil
    with \<open>ordered p (length s) []\<close> show ?thesis by simp
  next
    case (Cons h hs)
    with Nil weave_shift [of "lhOffset h" t hs s] show ?thesis by (simp add: add.commute take_drop)
  qed
next
  case (Cons h hs)
  from Cons.prems have "lhOffset h \<le> length s" using ordered_le by auto
  with Cons show ?case by simp
qed

text \<open>What writing a value does to the buffer: \<open>e\<close> is its encoding.\<close>

definition adds :: "encbuf \<Rightarrow> encbuf \<Rightarrow> bytes \<Rightarrow> bool" where
  "adds w w' e \<longleftrightarrow> (\<exists>s hs. str w' = str w @ s \<and> lheads w' = lheads w @ map (shiftBy (length (str w))) hs \<and>
     lhsize w' = lhsize w + headLen hs \<and> ordered 0 (length s) hs \<and> weave s 0 hs = e)"

lemma adds_refl: "adds w w []"
  unfolding adds_def by (rule exI [of _ "[]"], rule exI [of _ "[]"]) simp

lemma adds_write: "adds w (bufWrite w b) b"
  unfolding adds_def by (rule exI [of _ b], rule exI [of _ "[]"]) (simp add: bufWrite_def)

lemma adds_trans:
  assumes "adds w w1 e1" "adds w1 w2 e2"
  shows "adds w w2 (e1 @ e2)"
proof -
  from assms(1) obtain s hs where 1: "str w1 = str w @ s" "lheads w1 = lheads w @ map (shiftBy (length (str w))) hs"
    "lhsize w1 = lhsize w + headLen hs" "ordered 0 (length s) hs" "weave s 0 hs = e1" by (auto simp: adds_def)
  from assms(2) obtain t hs' where 2: "str w2 = str w1 @ t" "lheads w2 = lheads w1 @ map (shiftBy (length (str w1))) hs'"
    "lhsize w2 = lhsize w1 + headLen hs'" "ordered 0 (length t) hs'" "weave t 0 hs' = e2" by (auto simp: adds_def)
  have m: "map (shiftBy (length (str w) + length s)) hs' = map (shiftBy (length (str w))) (map (shiftBy (length s)) hs')"
    by (simp add: shiftBy_def add.assoc add.commute add.left_commute)
  show ?thesis
    unfolding adds_def
    by (rule exI [of _ "s @ t"], rule exI [of _ "hs @ map (shiftBy (length s)) hs'"])
      (use 1 2 m in \<open>simp add: weave_append ordered_append\<close>)
qed

lemma adds_list:
  assumes "adds w1 w2 e" "listStart w = (i, w1)" "length e < 2 ^ 64"
  shows "adds w (listEnd w2 i) (encList e)"
proof -
  have w1: "str w1 = str w" "lhsize w1 = lhsize w" "lheads w1 = lheads w @ [\<lparr>lhOffset = length (str w), lhSize = lhsize w\<rparr>]"
    and i: "i = length (lheads w)"
    using assms(2) by (auto simp: listStart_def)
  from assms(1) obtain s hs where s: "str w2 = str w @ s" "lheads w2 = lheads w1 @ map (shiftBy (length (str w))) hs"
    "lhsize w2 = lhsize w + headLen hs" "ordered 0 (length s) hs" "weave s 0 hs = e" by (auto simp: adds_def w1)
  let ?h = "\<lparr>lhOffset = 0, lhSize = length e\<rparr>"
  have l: "length e = length s + headLen hs" using length_weave [OF s(4)] s(5) by simp
  have nth: "lheads w2 ! i = \<lparr>lhOffset = length (str w), lhSize = lhsize w\<rparr>" using s(2) w1(3) i by (simp add: nth_append)
  have n: "bufSize w2 - lhOffset (lheads w2 ! i) - lhSize (lheads w2 ! i) = length e"
    unfolding nth bufSize_def using s l by simp
  have hd: "headEncode ?h = refHead 0xC0 0xF7 (length e)" using assms(3) by (simp add: headEncode_def puthead_refHead)
  have hl: "length (headEncode ?h) = (if length e < 56 then 1 else 1 + intsize (of_nat (length e)))"
    using assms(3) headsize_refHead [OF assms(3), of "0xC0" "0xF7"] hd
    by (simp add: headsize_def word_less_nat_alt unat_of_nat)
  have up: "(lheads w2)[i := (lheads w2 ! i)\<lparr>lhSize := length e\<rparr>] = lheads w @ map (shiftBy (length (str w))) (?h # hs)"
    using s(2) w1(3) i nth by (simp add: list_update_append shiftBy_def)
  show ?thesis
    unfolding adds_def
    by (rule exI [of _ s], rule exI [of _ "?h # hs"])
      (use s hd hl up n in \<open>simp add: listEnd_def Let_def encList_def\<close>)
qed

section \<open>Writers\<close>

lemma byte_le_127: "(b :: byte) \<le> 0x7F \<longleftrightarrow> b < 128"
  by (simp add: word_le_nat_alt word_less_nat_alt) linarith

lemma encodeStringHeader_write:
  assumes "n < 2 ^ 64"
  shows "encodeStringHeader w n = bufWrite w (refHead 0x80 0xB7 n)"
proof -
  have u: "unat (of_nat n :: u64) = n" using assms by (simp add: unat_of_nat)
  show ?thesis
  proof (cases "n < 56")
    case True
    then show ?thesis by (simp add: encodeStringHeader_def refHead_def)
  next
    case False
    then have "(of_nat n :: u64) \<noteq> 0" using u by (metis unat_0 less_numeral_simps(2) zero_less_numeral)
    from putint_nat_be [OF this] show ?thesis using False u by (simp add: encodeStringHeader_def refHead_def Let_def)
  qed
qed

lemma bufWrite_bufWrite [simp]: "bufWrite (bufWrite w a) b = bufWrite w (a @ b)"
  by (simp add: bufWrite_def)

lemma encodeString_write: "length b < 2 ^ 64 \<Longrightarrow> encodeString w b = bufWrite w (encBytes b)"
  by (auto simp: encodeString_def encBytes_def byte_le_127 encodeStringHeader_write length_Suc_conv)

lemma writeString_write: "length b < 2 ^ 64 \<Longrightarrow> writeString b w = bufWrite w (encBytes b)"
  using encodeString_write by (simp add: writeString_def encodeString_def)

lemma nat_be_small: "0 < n \<Longrightarrow> n < 256 \<Longrightarrow> nat_be n = [of_nat n]"
  by (subst nat_be.simps) simp

lemma encBytes_nat_be:
  "encBytes (nat_be n) = (if n = 0 then [0x80] else if n < 128 then [of_nat n] else refHead 0x80 0xB7 (length (nat_be n)) @ nat_be n)"
proof (cases "n < 256")
  case True
  have "(of_nat n :: byte) < 128 \<longleftrightarrow> n < 128" using True by (simp add: word_less_nat_alt unat_of_nat)
  with True nat_be_small [of n] show ?thesis by (simp add: encBytes_def refHead_def)
next
  case False
  then have "1 < length (nat_be n)" by (subst nat_be.simps) (simp add: div_eq_0_iff)
  with False show ?thesis by (simp add: encBytes_def)
qed

lemma length_nat_be_u64: "length (nat_be (unat (i :: u64))) \<le> 8"
  using nat_be_length_le [of "unat i" 8] unat_u64_less [of i] by simp

lemma writeUint_write: "writeUint i w = bufWrite w (encBytes (nat_be (unat i)))"
proof -
  have c: "(ucast i :: byte) = of_nat (unat i)" by simp
  have "refHead 0x80 0xB7 (length (nat_be (unat i))) = [0x80 + of_nat (length (nat_be (unat i)))]"
    using length_nat_be_u64 [of i] by (simp add: refHead_def)
  moreover have "i < 128 \<longleftrightarrow> unat i < 128" by (simp add: word_less_nat_alt)
  ultimately show ?thesis using putint_nat_be [of i] c
    by (simp add: writeUint_def encBytes_nat_be Let_def unat_eq_zero)
qed

lemma encBytes_Nil [simp]: "encBytes [] = [0x80]"
  by (simp add: encBytes_def refHead_def)

lemma writeBool_write: "writeBool b w = bufWrite w (encBytes (if b then [1] else []))"
  by (simp add: writeBool_def) (simp add: encBytes_def)

lemma length_encBytes: "length b \<le> length (encBytes b)"
  by (simp add: encBytes_def)

lemma length_encList: "length c \<le> length (encList c)"
  by (simp add: encList_def)

lemma Bytes_0 [simp]: "Bytes 0 = []"
  by (simp add: Bytes_def)

lemma writeBigInt_write:
  "0 \<le> i \<Longrightarrow> length (Bytes i) < 2 ^ 64 \<Longrightarrow> writeBigInt i w = Inr (bufWrite w (encBytes (Bytes i)))"
  by (auto simp: writeBigInt_def encodeString_write)

lemma emptyList_write: "listStart w = (i, w1) \<Longrightarrow> adds w (listEnd w1 i) [0xC0]"
  using adds_list [OF adds_refl, of w i w1] by (simp add: encList_def refHead_def)

lemma writeNilPtr_adds: "adds w (writeNilPtr t w) (encNil t)"
  by (induction t w rule: writeNilPtr.induct)
    (use adds_write emptyList_write in \<open>auto simp: writeUint_write writeBool_write writeString_write encodeString_write
       split: prod.split\<close>)

lemma writeVal_adds:
  "encodable v \<Longrightarrow> length (encVal v) < 2 ^ 64 \<Longrightarrow> \<exists>w'. writeVal v w = Inr w' \<and> adds w w' (encVal v)"
  "encodables vs \<Longrightarrow> length (encVals vs) < 2 ^ 64 \<Longrightarrow> \<exists>w'. writeVals vs w = Inr w' \<and> adds w w' (encVals vs)"
proof (induction v w and vs w rule: writeVal_writeVals.induct)
  case (2 p w)
  show ?case
  proof (cases p)
    case None
    then show ?thesis using adds_write by (auto simp: writeBigIntPtr_def)
  next
    case (Some i)
    then show ?thesis using 2 adds_write length_encBytes [of "Bytes i"] by (auto simp: writeBigIntPtr_def writeBigInt_write)
  qed
next
  case (5 s w)
  then show ?case using adds_write length_encBytes [of s] by (auto simp: writeString_write)
next
  case (6 s w)
  then show ?case using adds_write length_encBytes [of s] by (auto simp: encodeString_write)
next
  case (7 isTail vs w)
  show ?case
  proof (cases isTail)
    case True
    then show ?thesis using 7 by auto
  next
    case False
    obtain i w1 where w1: "listStart w = (i, w1)" by fastforce
    have l: "length (encVals vs) < 2 ^ 64" using 7(4) False length_encList [of "encVals vs"] by simp
    from 7(2) [OF False w1 [symmetric]] 7(3) l obtain w2 where "writeVals vs w1 = Inr w2" "adds w1 w2 (encVals vs)"
      by auto
    then show ?thesis using False w1 adds_list [OF _ w1 l] by auto
  qed
next
  case (8 vs w)
  obtain i w1 where w1: "listStart w = (i, w1)" by fastforce
  have l: "length (encVals vs) < 2 ^ 64" using 8(3) length_encList [of "encVals vs"] by simp
  from 8(1) [OF w1 [symmetric]] 8(2) l obtain w2 where "writeVals vs w1 = Inr w2" "adds w1 w2 (encVals vs)"
    by auto
  then show ?case using w1 adds_list [OF _ w1 l] by auto
next
  case (14 v vs w)
  then obtain w1 where w1: "writeVal v w = Inr w1" "adds w w1 (encVal v)" by auto
  from 14(2) [OF w1(1)] 14(3,4) obtain w2 where "writeVals vs w1 = Inr w2" "adds w1 w2 (encVals vs)" by auto
  then show ?case using w1 adds_trans by fastforce
qed (auto intro: adds_write adds_refl simp: writeUint_write writeBool_write writeNilPtr_adds)

lemma writeVal_error:
  "writeVal v w = Inl err \<longleftrightarrow> \<not> encodable v \<and> err = errNegativeBigInt"
  "writeVals vs w = Inl err \<longleftrightarrow> \<not> encodables vs \<and> err = errNegativeBigInt"
proof (induction v w and vs w arbitrary: err and err rule: writeVal_writeVals.induct)
  case (2 p w)
  then show ?case by (cases p) (auto simp: writeBigIntPtr_def writeBigInt_def)
next
  case (7 isTail vs w)
  then show ?case by (cases "listStart w") (auto split: sum.split)
next
  case (8 vs w)
  then show ?case by (cases "listStart w") (auto split: sum.split)
next
  case (14 v vs w)
  show ?case
  proof (cases "writeVal v w")
    case (Inl e)
    then show ?thesis using 14(1) [of e] by auto
  next
    case (Inr w1)
    then show ?thesis using 14(1) [of errNegativeBigInt] 14(2) [OF Inr] by auto
  qed
qed auto

lemma toBytesLoop_weave:
  "ordered p (length s) hs \<Longrightarrow> length out = pos + length (weave s p hs) \<Longrightarrow>
   toBytesLoop s hs out pos p = Some (take pos out @ weave s p hs)"
proof (induction hs arbitrary: out pos p)
  case Nil
  then show ?case by (simp add: slice_def copy_at_def)
next
  case (Cons h hs)
  let ?o = "lhOffset h"
  let ?piece = "take (?o - p) (drop p s)"
  have o: "p \<le> ?o" "?o \<le> length s" using Cons.prems ordered_le by auto
  then have sl: "slice s p ?o = Some ?piece" "length ?piece = ?o - p" by (simp_all add: slice_def)
  let ?out = "copy_at out pos ?piece"
  let ?out2 = "copy_at ?out (pos + (?o - p)) (headEncode h)"
  have l: "length out = pos + (?o - p) + length (headEncode h) + length (weave s ?o hs)"
    using Cons.prems(2) sl(2) by simp
  have l1: "length ?out = length out" "length ?out2 = length out" using l by simp_all
  have t: "take (pos + (?o - p) + length (headEncode h)) ?out2 = take pos out @ ?piece @ headEncode h"
    using l sl(2) by (simp add: copy_at_def)
  have m: "min (length ?out - pos) (length ?piece) = ?o - p" using l l1 sl(2) by simp
  have "toBytesLoop s hs ?out2 (pos + (?o - p) + length (headEncode h)) ?o =
      Some (take (pos + (?o - p) + length (headEncode h)) ?out2 @ weave s ?o hs)"
    using Cons.prems(1) l l1 by (intro Cons.IH) simp_all
  moreover have "\<not> length ?out < pos + (?o - p) + length (headEncode h)" "p + (?o - p) = ?o" using l l1 o by simp_all
  ultimately show ?case unfolding toBytesLoop.simps sl(1) bind.bind_lunit Let_def m using t by simp
qed

lemma toWriterLoop_weave:
  "ordered p (length s) hs \<Longrightarrow> toWriterLoop s hs p = Some (weave s p hs)"
proof (induction hs arbitrary: p)
  case Nil
  then show ?case by (auto simp: slice_def)
next
  case (Cons h hs)
  have o: "p \<le> lhOffset h" "lhOffset h \<le> length s" using Cons.prems ordered_le by auto
  from Cons.IH [of "lhOffset h"] Cons.prems have "toWriterLoop s hs (lhOffset h) = Some (weave s (lhOffset h) hs)" by simp
  then show ?case using o by (auto simp: slice_def)
qed

lemma adds_empty:
  assumes "adds emptyBuf w e"
  shows "toBytes w = Some e" "toWriter w = Some e"
proof -
  have sh: "shiftBy 0 = id" by (rule ext) (simp add: shiftBy_def)
  from assms obtain s hs where w: "str w = s" "lheads w = hs" "lhsize w = headLen hs" "ordered 0 (length s) hs" "weave s 0 hs = e"
    by (auto simp: adds_def emptyBuf_def sh)
  have "length e = bufSize w" using length_weave [OF w(4)] w by (simp add: bufSize_def)
  then show "toBytes w = Some e" using w toBytesLoop_weave [OF w(4)] by (simp add: toBytes_def)
  show "toWriter w = Some e" using w toWriterLoop_weave [OF w(4)] by (simp add: toWriter_def)
qed

lemma encode_ok:
  assumes "length (encVal v) < 2 ^ 64" "encodable v"
  shows "EncodeToBytes v = Some (Inr (encVal v))" "Encode v = Some (Inr (encVal v))"
  using writeVal_adds(1) [OF assms(2,1), of emptyBuf] adds_empty by (auto simp: EncodeToBytes_def Encode_def)

text \<open>C19. The encoder writes the format: for every value of the kinds that the code has a writer for, whatever the
  nesting, putting in the list headers at the end gives the recursive encoding with every length in front of its
  content, through a buffer or a writer; exactly the values with a negative integer are refused. Booleans
  are among these kinds: the code writes them as one and zero although the comment of \<open>Encode\<close> says that they are
  not supported.\<close>

theorem encode_format:
  assumes "length (encVal v) < 2 ^ 64"
  shows "EncodeToBytes v = Some (if encodable v then Inr (encVal v) else Inl errNegativeBigInt) \<and> Encode v = EncodeToBytes v"
proof (cases "encodable v")
  case True
  then show ?thesis using encode_ok [OF assms] by simp
next
  case False
  then have "writeVal v emptyBuf = Inl errNegativeBigInt" by (simp add: writeVal_error)
  then show ?thesis using False by (simp add: EncodeToBytes_def Encode_def)
qed

theorem encode_format_witness:
  "EncodeToBytes (StructV [UintV 1024, ListV False [BytesV [5], BigIntV (Some 300)]]) =
     Some (Inr [0xC8, 0x82, 4, 0, 0xC4, 5, 0x82, 1, 44])"
proof -
  let ?v = "StructV [UintV 1024, ListV False [BytesV [5], BigIntV (Some 300)]]"
  have "nat_be 1024 = [4, 0]" "nat_be 300 = [1, 44]" by (simp_all add: nat_be.simps)
  then have "encVal ?v = [0xC8, 0x82, 4, 0, 0xC4, 5, 0x82, 1, 44]"
    by (simp add: encBytes_def encList_def refHead_def Bytes_def)
  then show ?thesis using encode_format [of ?v] by simp
qed

end
