(* ===== verification/RlpStream.thy ===== *)
theory RlpStream
  imports Rlp
begin

text \<open>
  Decoding (\<open>rlp/decode.go\<close>) from a byte slice: \<open>inp\<close> is what the \<open>bytes.Reader\<close> has left. A decoding step
  takes the stream to an error or a value, and the stream after it; \<open>None\<close> is a panic or a loop that
  uses up its rounds. Decoding starts from zero values, so a decoder returns the value it stores. The
  innermost open list is the head of the stack.

  The decoders of lists loop until the end of the list; the argument \<open>n\<close> bounds the rounds of a loop and
  the depth of interface values. One more than the length of the input is enough for every type without
  arrays of one byte (theory \<open>RlpProps\<close>).
\<close>

section \<open>The stream\<close>

record Stream =
  inp :: bytes
  remaining :: u64
  limited :: bool
  sKind :: "Kind option"
  sSize :: u64
  byteval :: byte
  kinderr :: "rlpError option"
  sStack :: "(u64 \<times> u64) list"

type_synonym 'a dec = "Stream \<Rightarrow> ((rlpError + 'a) \<times> Stream) option"

definition bindD :: "'a dec \<Rightarrow> ('a \<Rightarrow> 'b dec) \<Rightarrow> 'b dec" where
  "bindD m f s = (case m s of None \<Rightarrow> None | Some (Inl err, s1) \<Rightarrow> Some (Inl err, s1) | Some (Inr x, s1) \<Rightarrow> f x s1)"

definition retD :: "'a \<Rightarrow> 'a dec" where
  "retD x s = Some (Inr x, s)"

definition failD :: "rlpError \<Rightarrow> 'a dec" where
  "failD err s = Some (Inl err, s)"

definition wrapD :: "(rlpError \<Rightarrow> rlpError) \<Rightarrow> 'a dec \<Rightarrow> 'a dec" where
  "wrapD g m s = (case m s of None \<Rightarrow> None | Some (Inl err, s1) \<Rightarrow> Some (Inl (g err), s1) | Some (Inr x, s1) \<Rightarrow> Some (Inr x, s1))"

definition NewStream :: "bytes \<Rightarrow> u64 \<Rightarrow> Stream" where
  "NewStream r inputLimit =
     \<lparr>inp = r, remaining = (if 0 < inputLimit then inputLimit else of_nat (length r)), limited = True,
      sKind = None, sSize = 0, byteval = 0, kinderr = None, sStack = []\<rparr>"

definition rearm :: "Stream \<Rightarrow> Stream" where
  "rearm s = s\<lparr>sKind := None\<rparr>"

definition willRead :: "u64 \<Rightarrow> unit dec" where
  "willRead n s =
     (let s = rearm s;
          limit = (\<lambda>s. if limited s
            then if remaining s < n then failD ErrValueTooLarge s
                 else retD () (s\<lparr>remaining := remaining s - n\<rparr>)
            else retD () s)
      in case sStack s of
           [] \<Rightarrow> limit s
         | (pos, sz) # st \<Rightarrow>
             if sz - pos < n then failD ErrElemTooLarge s
             else limit (s\<lparr>sStack := (pos + n, sz) # st\<rparr>))"

definition readByte :: "byte dec" where
  "readByte = bindD (willRead 1) (\<lambda>_ s.
     case inp s of [] \<Rightarrow> failD ioErrUnexpectedEOF s | b # bs \<Rightarrow> retD b (s\<lparr>inp := bs\<rparr>))"

definition readFull :: "nat \<Rightarrow> bytes dec" where
  "readFull n = bindD (willRead (of_nat n)) (\<lambda>_ s.
     if n \<le> length (inp s) then retD (take n (inp s)) (s\<lparr>inp := drop n (inp s)\<rparr>)
     else failD ioErrUnexpectedEOF (s\<lparr>inp := []\<rparr>))"

definition readUint :: "byte \<Rightarrow> u64 dec" where
  "readUint sz =
     (if sz = 0 then \<lambda>s. retD 0 (rearm s)
      else if sz = 1 then bindD readByte (\<lambda>b. retD (ucast b))
      else if 8 < sz then \<lambda>s. None
      else bindD (readFull (unat sz)) (\<lambda>b.
        if b ! 0 = 0 then failD ErrCanonSize else retD (of_nat (be_nat b))))"

text \<open>The error of the source's \<open>readKind\<close> is part of the result, next to the kind and the size.\<close>

definition longKind :: "Kind \<Rightarrow> byte \<Rightarrow> Stream \<Rightarrow> ((Kind \<times> u64 \<times> rlpError option) \<times> Stream) option" where
  "longKind k sz s = do {
     (r, s) \<leftarrow> readUint sz s;
     Some (case r of Inl err \<Rightarrow> (k, 0, Some err)
           | Inr n \<Rightarrow> (k, n, if n < 56 then Some ErrCanonSize else None), s) }"

definition streamReadKind :: "Stream \<Rightarrow> ((Kind \<times> u64 \<times> rlpError option) \<times> Stream) option" where
  "streamReadKind s = do {
     (r, s) \<leftarrow> readByte s;
     case r of
       Inl err \<Rightarrow> Some ((Byte, 0, Some (if sStack s = [] \<and> err \<in> {ioErrUnexpectedEOF, ErrValueTooLarge} then ioEOF else err)), s)
     | Inr b \<Rightarrow>
         let s = s\<lparr>byteval := 0\<rparr>
         in if b < 0x80 then Some ((Byte, 0, None), s\<lparr>byteval := b\<rparr>)
            else if b < 0xB8 then Some ((String, ucast (b - 0x80), None), s)
            else if b < 0xC0 then longKind String (b - 0xB7) s
            else if b < 0xF8 then Some ((List, ucast (b - 0xC0), None), s)
            else longKind List (b - 0xF7) s }"

definition kindResult :: "(Kind \<times> u64) dec" where
  "kindResult s = (case (sKind s, kinderr s) of
      (Some k, None) \<Rightarrow> retD (k, sSize s) s
    | (_, Some err) \<Rightarrow> failD err s
    | (None, None) \<Rightarrow> None)"

text \<open>The size check of \<open>Kind\<close>: against the input at top level, against the open list inside one.\<close>

definition checkSize :: "u64 \<Rightarrow> Stream \<Rightarrow> Stream" where
  "checkSize sz s = (case sStack s of
      [] \<Rightarrow> if limited s \<and> remaining s < sz then s\<lparr>kinderr := Some ErrValueTooLarge\<rparr> else s
    | (pos, lsz) # _ \<Rightarrow> if lsz - pos < sz then s\<lparr>kinderr := Some ErrElemTooLarge\<rparr> else s)"

definition streamKind :: "(Kind \<times> u64) dec" where
  "streamKind s =
     (if sKind s = None then
        let s = s\<lparr>kinderr := None\<rparr>
        in if sStack s \<noteq> [] \<and> fst (hd (sStack s)) = snd (hd (sStack s)) then failD EOL s
           else do {
             ((k, sz, err), s) \<leftarrow> streamReadKind s;
             let s = s\<lparr>sKind := Some k, sSize := sz, kinderr := err\<rparr>;
             let s = (if err = None then checkSize sz s else s);
             kindResult s }
      else kindResult s)"

text \<open>\<open>make([]byte, n)\<close>: a length that is no \<open>int\<close> panics.\<close>

definition makeLen :: "u64 \<Rightarrow> nat option" where
  "makeLen n = (if unat n < 2 ^ 63 then Some (unat n) else None)"

definition streamBytes :: "bytes dec" where
  "streamBytes = bindD streamKind (\<lambda>(kind, sz) s.
     case kind of
       Byte \<Rightarrow> retD [byteval s] (rearm s)
     | String \<Rightarrow> do {
         n \<leftarrow> makeLen sz;
         bindD (readFull n) (\<lambda>b. if sz = 1 \<and> b ! 0 < 128 then failD ErrCanonSize else retD b) s }
     | List \<Rightarrow> failD ErrExpectedString s)"

definition streamRaw :: "bytes dec" where
  "streamRaw = bindD streamKind (\<lambda>(kind, sz) s.
     if kind = Byte then retD [byteval s] (rearm s)
     else do {
       n \<leftarrow> makeLen (of_nat (headsize sz) + sz);
       if n < headsize sz then None
       else bindD (readFull (n - headsize sz)) (\<lambda>b.
         retD ((if kind = String then puthead 0x80 0xB7 sz else puthead 0xC0 0xF7 sz) @ b)) s })"

definition streamUint :: "nat \<Rightarrow> u64 dec" where
  "streamUint maxbits = bindD streamKind (\<lambda>(kind, sz) s.
     case kind of
       Byte \<Rightarrow> if byteval s = 0 then failD ErrCanonInt s else retD (ucast (byteval s)) (rearm s)
     | String \<Rightarrow>
         if of_nat (maxbits div 8) < sz then failD errUintOverflow s
         else bindD (wrapD (\<lambda>err. if err = ErrCanonSize then ErrCanonInt else err) (readUint (ucast sz)))
                (\<lambda>v. if 0 < sz \<and> v < 128 then failD ErrCanonSize else retD v) s
     | List \<Rightarrow> failD ErrExpectedString s)"

definition streamBool :: "bool dec" where
  "streamBool = bindD (streamUint 8) (\<lambda>num.
     if num = 0 then retD False else if num = 1 then retD True else failD (errInvalidBool num))"

definition streamList :: "u64 dec" where
  "streamList = bindD streamKind (\<lambda>(kind, sz) s.
     if kind \<noteq> List then failD ErrExpectedList s
     else retD sz (s\<lparr>sStack := (0, sz) # sStack s, sKind := None, sSize := 0\<rparr>))"

definition streamListEnd :: "unit dec" where
  "streamListEnd s =
     (case sStack s of
        [] \<Rightarrow> failD errNotInList s
      | (pos, sz) # st \<Rightarrow>
          if pos \<noteq> sz then failD errNotAtEOL s
          else let st = (case st of [] \<Rightarrow> [] | (pos', sz') # st' \<Rightarrow> (pos' + sz, sz') # st')
               in retD () (s\<lparr>sStack := st, sKind := None, sSize := 0\<rparr>))"

section \<open>Decoders\<close>

definition wrapStreamError :: "rlpError \<Rightarrow> rlpError" where
  "wrapStreamError err =
     (if err = ErrCanonInt then decodeError ''non-canonical integer (leading zero bytes)''
      else if err = ErrCanonSize then decodeError ''non-canonical size information''
      else if err = ErrExpectedList then decodeError ''expected input list''
      else if err = ErrExpectedString then decodeError ''expected input string or byte''
      else if err = errUintOverflow then decodeError ''input string too long''
      else if err = errNotAtEOL then decodeError ''input list has too many elements''
      else err)"

definition decodeRawValue :: "rval dec" where
  "decodeRawValue = bindD streamRaw (\<lambda>r. retD (RawV r))"

definition decodeUint :: "nat \<Rightarrow> rval dec" where
  "decodeUint bits = bindD (wrapD wrapStreamError (streamUint bits)) (\<lambda>n. retD (UintV n))"

definition decodeBool :: "rval dec" where
  "decodeBool = bindD (wrapD wrapStreamError streamBool) (\<lambda>b. retD (BoolV b))"

definition decodeString :: "rval dec" where
  "decodeString = bindD (wrapD wrapStreamError streamBytes) (\<lambda>b. retD (StringV b))"

definition decodeBigInt :: "rval dec" where
  "decodeBigInt = bindD (wrapD wrapStreamError streamBytes) (\<lambda>b.
     if 0 < length b \<and> b ! 0 = 0 then failD (wrapStreamError ErrCanonInt) else retD (BigIntV (Some (SetBytes b))))"

definition decodeByteSlice :: "rval dec" where
  "decodeByteSlice = bindD (wrapD wrapStreamError streamBytes) (\<lambda>b. retD (BytesV b))"

text \<open>The error of the inner \<open>Uint\<close> is dropped, as in the source.\<close>

definition decodeByteArray :: "nat \<Rightarrow> rval dec" where
  "decodeByteArray vlen = bindD streamKind (\<lambda>(kind, sz) s.
     case kind of
       Byte \<Rightarrow>
         if vlen = 0 then failD (decodeError ''input string too long'') s
         else if 1 < vlen then failD (decodeError ''input string too short'') s
         else do {
           (r, s) \<leftarrow> streamUint 64 s;
           retD (BytesV [case r of Inl _ \<Rightarrow> 0 | Inr bv \<Rightarrow> ucast bv]) s }
     | String \<Rightarrow>
         if of_nat vlen < sz then failD (decodeError ''input string too long'') s
         else if sz < of_nat vlen then failD (decodeError ''input string too short'') s
         else bindD (readFull vlen) (\<lambda>b.
                if sz = 1 \<and> b ! 0 < 128 then failD (wrapStreamError ErrCanonSize) else retD (BytesV b)) s
     | List \<Rightarrow> failD (wrapStreamError ErrExpectedString) s)"

fun decodeSliceElems :: "nat \<Rightarrow> rval dec \<Rightarrow> rval list dec" where
  "decodeSliceElems 0 elemdec s = None"
| "decodeSliceElems (Suc n) elemdec s = do {
     (r, s) \<leftarrow> elemdec s;
     case r of
       Inl err \<Rightarrow> if err = EOL then retD [] s else failD err s
     | Inr v \<Rightarrow> bindD (decodeSliceElems n elemdec) (\<lambda>vs. retD (v # vs)) s }"

definition decodeListSlice :: "nat \<Rightarrow> rval dec \<Rightarrow> rval dec" where
  "decodeListSlice n elemdec = bindD (wrapD wrapStreamError streamList) (\<lambda>sz.
     if sz = 0 then bindD streamListEnd (\<lambda>_. retD (ListV False []))
     else bindD (decodeSliceElems n elemdec) (\<lambda>vs. bindD streamListEnd (\<lambda>_. retD (ListV False vs))))"

fun decodeArrayElems :: "nat \<Rightarrow> rval dec \<Rightarrow> rval list dec" where
  "decodeArrayElems 0 elemdec s = retD [] s"
| "decodeArrayElems (Suc k) elemdec s = do {
     (r, s) \<leftarrow> elemdec s;
     case r of
       Inl err \<Rightarrow> if err = EOL then failD (decodeError ''input list has too few elements'') s else failD err s
     | Inr v \<Rightarrow> bindD (decodeArrayElems k elemdec) (\<lambda>vs. retD (v # vs)) s }"

definition decodeListArray :: "nat \<Rightarrow> rval dec \<Rightarrow> rval dec" where
  "decodeListArray vlen elemdec = bindD (wrapD wrapStreamError streamList) (\<lambda>_.
     bindD (decodeArrayElems vlen elemdec) (\<lambda>vs.
       bindD (wrapD wrapStreamError streamListEnd) (\<lambda>_. retD (ListV False vs))))"

fun decodeInterface :: "nat \<Rightarrow> rval dec" where
  "decodeInterface 0 s = None"
| "decodeInterface (Suc n) s =
     bindD streamKind (\<lambda>(kind, _).
       if kind = List then bindD (decodeListSlice (Suc n) (decodeInterface n)) (\<lambda>v. retD (InterfaceV (Some v)))
       else bindD streamBytes (\<lambda>b. retD (InterfaceV (Some (BytesV b))))) s"

definition decodeOptionalPtr :: "rtype \<Rightarrow> rval dec \<Rightarrow> rval dec" where
  "decodeOptionalPtr t elemdec s = do {
     (r, s) \<leftarrow> streamKind s;
     case r of
       Inl err \<Rightarrow> failD err (rearm s)
     | Inr (kind, sz) \<Rightarrow>
         if sz = 0 \<and> kind \<noteq> Byte then retD (NilPtrV t) (rearm s)
         else bindD elemdec (\<lambda>v. retD (PtrV v)) s }"

fun decoder :: "nat \<Rightarrow> tags \<Rightarrow> rtype \<Rightarrow> rval dec"
  and decodeFields :: "nat \<Rightarrow> (tags \<times> rtype) list \<Rightarrow> rval list dec" where
  "decoder n ts RawValueT = decodeRawValue"
| "decoder n ts BigIntT = decodeBigInt"
| "decoder n ts (UintT bits) = decodeUint bits"
| "decoder n ts BoolT = decodeBool"
| "decoder n ts StringT = decodeString"
| "decoder n ts ByteSliceT = decodeByteSlice"
| "decoder n ts (ByteArrayT k) = decodeByteArray k"
| "decoder n ts (SliceT t) =
     (if tail ts then bindD (decodeSliceElems n (decoder n \<lparr>nilOK = False, tail = False\<rparr> t)) (\<lambda>vs. retD (ListV True vs))
      else decodeListSlice n (decoder n \<lparr>nilOK = False, tail = False\<rparr> t))"
| "decoder n ts (ArrayT k t) = decodeListArray k (decoder n \<lparr>nilOK = False, tail = False\<rparr> t)"
| "decoder n ts (StructT fs) =
     bindD (wrapD wrapStreamError streamList) (\<lambda>_.
       bindD (decodeFields n fs) (\<lambda>vs.
         bindD (wrapD wrapStreamError streamListEnd) (\<lambda>_. retD (StructV vs))))"
| "decoder n ts (PtrT t) =
     (if nilOK ts then decodeOptionalPtr t (decoder n \<lparr>nilOK = False, tail = False\<rparr> t)
      else bindD (decoder n \<lparr>nilOK = False, tail = False\<rparr> t) (\<lambda>v. retD (PtrV v)))"
| "decoder n ts InterfaceT = decodeInterface n"
| "decodeFields n [] = retD []"
| "decodeFields n ((ts, t) # fs) =
     bindD (wrapD (\<lambda>err. if err = EOL then decodeError ''too few elements'' else err) (decoder n ts t)) (\<lambda>v.
       bindD (decodeFields n fs) (\<lambda>vs. retD (v # vs)))"

text \<open>\<open>DecodeBytes\<close> of a value of the given type.\<close>

definition DecodeBytes :: "nat \<Rightarrow> bytes \<Rightarrow> rtype \<Rightarrow> (rlpError + rval) option" where
  "DecodeBytes n b t = do {
     (r, s) \<leftarrow> decoder n \<lparr>nilOK = False, tail = False\<rparr> t (NewStream b (of_nat (length b)));
     Some (case r of Inl err \<Rightarrow> Inl err
           | Inr v \<Rightarrow> if 0 < length (inp s) then Inl ErrMoreThanOneValue else Inr v) }"

end
