(* ===== verification/RlpDecode.thy ===== *)
theory RlpDecode
  imports RlpEncode RlpStream
begin

text \<open>
  The decoder of package \<open>rlp\<close>: what every step keeps of the stream, how far it advances, and that what it
  accepts is exactly the encoding of what it returns.
\<close>

section \<open>The stream invariant\<close>

fun framesOk :: "(u64 \<times> u64) list \<Rightarrow> bool" where
  "framesOk [] = True"
| "framesOk [(p, z)] = (unat p \<le> unat z \<and> unat z < 2 ^ 62)"
| "framesOk ((p, z) # (p', z') # st) = (unat p \<le> unat z \<and> unat z + unat p' \<le> unat z' \<and> framesOk ((p', z') # st))"

fun bump :: "nat \<Rightarrow> (u64 \<times> u64) list \<Rightarrow> (u64 \<times> u64) list" where
  "bump k [] = []"
| "bump k ((p, z) # st) = (p + of_nat k, z) # st"

definition room :: "Stream \<Rightarrow> nat" where
  "room s = (case sStack s of [] \<Rightarrow> length (inp s) | (p, z) # _ \<Rightarrow> unat z - unat p)"

text \<open>The bytes of the header that is read but not used yet.\<close>

definition headOf :: "Kind \<Rightarrow> u64 \<Rightarrow> byte \<Rightarrow> bytes" where
  "headOf k sz bv = (case k of Byte \<Rightarrow> [bv] | String \<Rightarrow> refHead 0x80 0xB7 (unat sz) | List \<Rightarrow> refHead 0xC0 0xF7 (unat sz))"

definition src :: "Stream \<Rightarrow> bytes" where
  "src s = (case sKind s of None \<Rightarrow> inp s | Some k \<Rightarrow> headOf k (sSize s) (byteval s) @ inp s)"

definition baseOk :: "Stream \<Rightarrow> bool" where
  "baseOk s \<longleftrightarrow> limited s \<and> unat (remaining s) = length (inp s) \<and> length (inp s) < 2 ^ 62 \<and> framesOk (sStack s) \<and> kinderr s \<noteq> Some EOL"

definition pendingOk :: "Kind \<Rightarrow> Stream \<Rightarrow> bool" where
  "pendingOk k s \<longleftrightarrow> kinderr s = None \<longrightarrow> unat (sSize s) \<le> room s \<and> (k = Byte \<longrightarrow> sSize s = 0 \<and> byteval s < 128)"

definition streamOk :: "Stream \<Rightarrow> bool" where
  "streamOk s \<longleftrightarrow> baseOk s \<and> (\<forall>k. sKind s = Some k \<longrightarrow> pendingOk k s)"

definition weight :: "Stream \<Rightarrow> nat" where
  "weight s = length (inp s) + (if sKind s = None then 0 else 1)"

text \<open>A step that read \<open>k\<close> bytes of the input.\<close>

definition advances :: "nat \<Rightarrow> Stream \<Rightarrow> Stream \<Rightarrow> bool" where
  "advances k s s' \<longleftrightarrow> k \<le> length (inp s) \<and> inp s' = drop k (inp s) \<and> sStack s' = bump k (sStack s)"

lemma bump_bump [simp]: "bump a (bump b st) = bump (b + a) st"
  by (cases "(b, st)" rule: bump.cases) (simp_all add: add.assoc)

lemma bump_0 [simp]: "bump 0 st = st"
  by (cases "(0 :: nat, st)" rule: bump.cases) simp_all

lemma advances_refl [simp]: "advances 0 s s"
  by (simp add: advances_def)

lemma advances_update [simp]:
  "advances k (s\<lparr>kinderr := c\<rparr>) s' = advances k s s'" "advances k s (s'\<lparr>sKind := a, sSize := b, kinderr := c\<rparr>) = advances k s s'"
  "advances k s (s'\<lparr>byteval := d\<rparr>) = advances k s s'"
  by (simp_all add: advances_def)

lemma advances_trans: "advances a s s1 \<Longrightarrow> advances b s1 s2 \<Longrightarrow> advances (a + b) s s2"
  by (auto simp: advances_def add.commute)

lemma framesOk_bump:
  "framesOk st \<Longrightarrow> (\<And>p z st'. st = (p, z) # st' \<Longrightarrow> unat p + k \<le> unat z) \<Longrightarrow> framesOk (bump k st)"
proof (induction st rule: framesOk.induct)
  case (2 p z)
  then have "unat p + k \<le> unat z" by blast
  then have "unat p + k < 18446744073709551616" using unat_u64_less [of z] by linarith
  then have "unat (p + of_nat k) = unat p + k" by (simp add: unat_word_ariths unat_of_nat mod_simps)
  with 2 show ?case by simp
next
  case (3 p z p' z' st)
  have "unat p + k \<le> unat z" using 3 by simp
  then have "unat p + k < 18446744073709551616" using unat_u64_less [of z] by linarith
  then have "unat (p + of_nat k) = unat p + k" by (simp add: unat_word_ariths unat_of_nat mod_simps)
  with 3 show ?case by simp
qed simp

lemma framesOk_top: "framesOk ((p, z) # st) \<Longrightarrow> unat p \<le> unat z \<and> unat z < 2 ^ 62"
proof (induction st arbitrary: p z)
  case (Cons f st)
  then show ?case by (cases f) fastforce
qed simp

lemma rearm_simps [simp]:
  "inp (rearm s) = inp s" "remaining (rearm s) = remaining s" "limited (rearm s) = limited s" "sKind (rearm s) = None"
  "sSize (rearm s) = sSize s" "byteval (rearm s) = byteval s" "kinderr (rearm s) = kinderr s" "sStack (rearm s) = sStack s"
  by (simp_all add: rearm_def)

lemma baseOk_rearm [simp]: "baseOk (rearm s) = baseOk s"
  by (simp add: baseOk_def)

lemma streamOk_rearm [simp]: "baseOk s \<Longrightarrow> streamOk (rearm s)"
  by (simp add: streamOk_def)

lemma streamOkD: "streamOk s \<Longrightarrow> baseOk s"
  by (simp add: streamOk_def)

lemma streamOkI: "baseOk s \<Longrightarrow> sKind s = None \<Longrightarrow> streamOk s"
  by (simp add: streamOk_def)

section \<open>Reading\<close>

text \<open>\<open>frameRoom\<close> is the room of the innermost list.\<close>

definition fits :: "nat \<Rightarrow> (u64 \<times> u64) list \<Rightarrow> bool" where
  "fits n st \<longleftrightarrow> (case st of [] \<Rightarrow> True | (p, z) # _ \<Rightarrow> n \<le> unat z - unat p)"

text \<open>A read either fails, with nothing consumed and no header left, or goes through.\<close>

definition sameHead :: "Stream \<Rightarrow> Stream \<Rightarrow> bool" where
  "sameHead s s' \<longleftrightarrow> sSize s' = sSize s \<and> byteval s' = byteval s \<and> kinderr s' = kinderr s"

definition readFails :: "Stream \<Rightarrow> ((rlpError + 'a) \<times> Stream) option \<Rightarrow> bool" where
  "readFails s r \<longleftrightarrow> (\<exists>err s'. r = Some (Inl err, s') \<and> err \<in> {ErrElemTooLarge, ErrValueTooLarge} \<and> baseOk s' \<and>
     sKind s' = None \<and> inp s' = inp s \<and> sameHead s s')"

lemma willRead_spec:
  assumes s: "baseOk s" and n: "n < 2 ^ 64"
  shows "if fits n (sStack s) \<and> n \<le> length (inp s)
    then willRead (of_nat n) s = Some (Inr (), s\<lparr>sKind := None, sStack := bump n (sStack s), remaining := remaining s - of_nat n\<rparr>)
    else readFails s (willRead (of_nat n) s)"
proof -
  have u: "unat (of_nat n :: u64) = n" using n by (simp add: unat_of_nat)
  have lim: "remaining s < of_nat n \<longleftrightarrow> length (inp s) < n" using s u by (simp add: word_less_nat_alt baseOk_def)
  show ?thesis
  proof (cases "sStack s")
    case Nil
    with lim s show ?thesis
      by (auto simp: willRead_def Let_def fits_def readFails_def failD_def retD_def rearm_def sameHead_def baseOk_def)
  next
    case (Cons f st)
    obtain p z where f: "f = (p, z)" by fastforce
    have pz: "unat p \<le> unat z" using s Cons f framesOk_top [of p z st] by (simp add: baseOk_def)
    then have "z - p < of_nat n \<longleftrightarrow> unat z - unat p < n" using u by (simp add: word_less_nat_alt unat_sub word_le_nat_alt)
    moreover have "framesOk ((p + of_nat n, z) # st)" if "n \<le> unat z - unat p"
      using framesOk_bump [of "sStack s" n] that pz s Cons f by (simp add: baseOk_def)
    ultimately show ?thesis using lim s Cons f
      by (auto simp: willRead_def Let_def fits_def readFails_def failD_def retD_def rearm_def sameHead_def baseOk_def)
  qed
qed

lemma baseOk_advance:
  assumes "baseOk s" "fits n (sStack s)" "n \<le> length (inp s)"
  shows "baseOk (s\<lparr>sKind := None, sStack := bump n (sStack s), remaining := remaining s - of_nat n, inp := drop n (inp s)\<rparr>)"
proof -
  have "unat (of_nat n :: u64) = n" using assms by (simp add: unat_of_nat baseOk_def)
  then have "unat (remaining s - of_nat n) = length (inp s) - n"
    using assms by (simp add: unat_sub word_le_nat_alt baseOk_def)
  moreover have "framesOk (bump n (sStack s))"
  proof (rule framesOk_bump)
    fix p z st' assume st: "sStack s = (p, z) # st'"
    then have "unat p \<le> unat z" using assms(1) framesOk_top [of p z st'] by (simp add: baseOk_def)
    then show "unat p + n \<le> unat z" using assms(2) st by (simp add: fits_def)
  qed (use assms(1) in \<open>simp add: baseOk_def\<close>)
  moreover have "length (inp s) - n < 2 ^ 62" using assms(1) by (simp add: baseOk_def less_imp_diff_less)
  ultimately show ?thesis using assms by (simp add: baseOk_def)
qed

definition reads :: "nat \<Rightarrow> Stream \<Rightarrow> Stream \<Rightarrow> bool" where
  "reads n s s' \<longleftrightarrow> baseOk s' \<and> sKind s' = None \<and> advances n s s' \<and> sameHead s s'"

lemma readFull_spec:
  assumes s: "baseOk s" and n: "n < 2 ^ 64"
  shows "if fits n (sStack s) \<and> n \<le> length (inp s)
    then \<exists>s'. readFull n s = Some (Inr (take n (inp s)), s') \<and> reads n s s'
    else readFails s (readFull n s)"
  using willRead_spec [OF assms] baseOk_advance [OF s, of n]
  by (auto simp: readFull_def bindD_def retD_def reads_def advances_def sameHead_def readFails_def split: if_splits)

lemma readByte_spec:
  assumes s: "baseOk s"
  shows "if fits 1 (sStack s) \<and> inp s \<noteq> []
    then \<exists>s'. readByte s = Some (Inr (hd (inp s)), s') \<and> reads 1 s s'
    else readFails s (readByte s)"
proof (cases "inp s")
  case Nil
  then show ?thesis using willRead_spec [OF s, of 1] by (auto simp: readByte_def bindD_def readFails_def)
next
  case (Cons b bs)
  then show ?thesis using willRead_spec [OF s, of 1] baseOk_advance [OF s, of 1]
    by (auto simp: readByte_def bindD_def retD_def reads_def advances_def sameHead_def readFails_def split: if_splits)
qed

lemma be_nat_single [simp]: "be_nat [b] = unat b"
  by (simp add: be_nat_def)

text \<open>An integer of \<open>sz\<close> bytes.\<close>

lemma readUint_spec:
  assumes s: "baseOk s" and sz: "sz \<noteq> 0" "sz \<le> 8"
  shows "if fits (unat sz) (sStack s) \<and> unat sz \<le> length (inp s)
    then \<exists>s'. reads (unat sz) s s' \<and> readUint sz s =
      (if sz \<noteq> 1 \<and> hd (inp s) = 0 then Some (Inl ErrCanonSize, s') else Some (Inr (of_nat (be_nat (take (unat sz) (inp s)))), s'))
    else readFails s (readUint sz s)"
proof (cases "sz = 1")
  case True
  then show ?thesis using readByte_spec [OF s] by (cases "inp s") (auto simp: readUint_def bindD_def retD_def readFails_def)
next
  case False
  have l: "unat sz \<le> 8" using sz(2) by (simp add: word_le_nat_alt)
  have "0 < unat sz" using sz(1) by (simp add: unat_gt_0)
  then have hd: "take (unat sz) (inp s) ! 0 = hd (inp s)" if "unat sz \<le> length (inp s)"
    using that by (cases "inp s") auto
  have "readUint sz = bindD (readFull (unat sz)) (\<lambda>b. if b ! 0 = 0 then failD ErrCanonSize else retD (of_nat (be_nat b)))"
    using False sz leD [OF sz(2)] by (simp add: readUint_def)
  then show ?thesis using readFull_spec [OF s, of "unat sz"] l hd False
    by (auto simp: bindD_def retD_def failD_def readFails_def split: if_splits)
qed

section \<open>Headers\<close>

lemma byte_offset: "unat (c :: byte) \<le> unat b \<Longrightarrow> unat (b - c) = unat b - unat c"
  by (simp add: unat_sub word_le_nat_alt)

lemma unat_ucast_up: "unat (ucast (b :: byte) :: u64) = unat b"
  using less_trans [OF unat_byte_less [of b], of "2 ^ 64"] by (simp add: unsigned_ucast_eq take_bit_nat_eq_self)

lemma ucast_up_down [simp]: "(ucast (ucast (b :: byte) :: u64) :: byte) = b"
  by (simp add: word_unat_eq_iff unat_ucast_byte unat_ucast_up)

lemma refHead_small: "n < 56 \<Longrightarrow> refHead small large n = [small + of_nat n]"
  by (simp add: refHead_def)

lemma refHead_long:
  assumes "bs \<noteq> []" "hd bs \<noteq> 0" "56 \<le> be_nat bs" "length bs = unat (b - large)"
  shows "refHead small large (be_nat bs) = b # bs"
  using assms nat_be_be_nat [of bs] by (simp add: refHead_def)

lemma be_nat_u64:
  assumes "length bs \<le> 8"
  shows "unat (of_nat (be_nat bs) :: u64) = be_nat bs"
proof -
  have "be_nat bs < 256 ^ length bs" by (rule be_nat_bound)
  also have "\<dots> \<le> 256 ^ 8" using assms by (intro power_increasing) simp_all
  finally show ?thesis by (simp add: unat_of_nat)
qed

lemma longKind_spec:
  assumes s: "baseOk s" and sz: "sz \<noteq> 0" "sz \<le> 8"
  shows "\<exists>n err s'. longKind k sz s = Some ((k, n, err), s') \<and> baseOk s' \<and> sameHead s s' \<and> err \<noteq> Some EOL \<and>
    length (inp s') \<le> length (inp s) \<and>
    (err = None \<longleftrightarrow> fits (unat sz) (sStack s) \<and> unat sz \<le> length (inp s) \<and> hd (inp s) \<noteq> 0 \<and> 56 \<le> be_nat (take (unat sz) (inp s))) \<and>
    (err = None \<longrightarrow> advances (unat sz) s s' \<and> unat n = be_nat (take (unat sz) (inp s)))"
proof (cases "fits (unat sz) (sStack s) \<and> unat sz \<le> length (inp s)")
  case True
  let ?bs = "take (unat sz) (inp s)"
  have l: "unat sz \<le> 8" "0 < unat sz" using sz by (simp_all add: word_le_nat_alt unat_gt_0)
  have u: "unat (of_nat (be_nat ?bs) :: u64) = be_nat ?bs" using l by (intro be_nat_u64) simp
  have less: "(of_nat (be_nat ?bs) :: u64) < 56 \<longleftrightarrow> be_nat ?bs < 56" using u by (simp add: word_less_nat_alt)
  have one: "hd (inp s) \<noteq> 0" if "sz = 1" "56 \<le> be_nat ?bs"
    using that True by (cases "inp s") auto
  from readUint_spec [OF s sz] True obtain s' where s': "reads (unat sz) s s'"
    "readUint sz s = (if sz \<noteq> 1 \<and> hd (inp s) = 0 then Some (Inl ErrCanonSize, s') else Some (Inr (of_nat (be_nat ?bs)), s'))"
    by auto
  then have r: "baseOk s'" "sameHead s s'" "advances (unat sz) s s'" "length (inp s') \<le> length (inp s)"
    by (auto simp: reads_def advances_def)
  show ?thesis
  proof (cases "sz \<noteq> 1 \<and> hd (inp s) = 0")
    case True
    then show ?thesis using s'(2) r by (simp add: longKind_def)
  next
    case False
    then show ?thesis using s'(2) r True u less one by (auto simp: longKind_def)
  qed
next
  case False
  then have "readFails s (readUint sz s)" using readUint_spec [OF s sz] by auto
  then show ?thesis using False by (auto simp: longKind_def readFails_def)
qed

definition validHead :: "Kind \<Rightarrow> u64 \<Rightarrow> byte \<Rightarrow> bool" where
  "validHead k sz bv \<longleftrightarrow> (k = Byte \<longrightarrow> sz = 0 \<and> bv < 128)"

definition kindRead :: "Stream \<Rightarrow> Kind \<Rightarrow> u64 \<Rightarrow> rlpError option \<Rightarrow> Stream \<Rightarrow> bool" where
  "kindRead s k sz err s' \<longleftrightarrow> baseOk s' \<and> err \<noteq> Some EOL \<and> kinderr s' = kinderr s \<and> length (inp s') \<le> length (inp s) \<and>
     (err = None \<longrightarrow> advances (length (headOf k sz (byteval s'))) s s' \<and> inp s = headOf k sz (byteval s') @ inp s' \<and>
        validHead k sz (byteval s'))"

lemma headOf_long:
  assumes k: "k = String \<and> c = 0xB7 \<or> k = List \<and> c = 0xF7"
    and bs: "bs \<noteq> []" "hd bs \<noteq> 0" "56 \<le> be_nat bs" "length bs = unat (b - c)" "unat n = be_nat bs"
  shows "headOf k n bv = b # bs"
  using k refHead_long [OF bs(1-4)] bs(5) by (auto simp: headOf_def)

lemma longKind_read:
  assumes k: "k = String \<and> c = 0xB7 \<or> k = List \<and> c = 0xF7" and b: "b - c \<noteq> 0" "b - c \<le> 8"
    and s0: "baseOk s0" and s1: "reads 1 s0 s1" "inp s0 = b # bs"
  shows "\<exists>n err s'. longKind k (b - c) (s1\<lparr>byteval := 0\<rparr>) = Some ((k, n, err), s') \<and> kindRead s0 k n err s'"
proof -
  let ?s = "s1\<lparr>byteval := 0\<rparr>"
  have ok: "baseOk ?s" using s1(1) by (simp add: reads_def baseOk_def)
  have in1: "inp s1 = bs" "sStack s1 = bump 1 (sStack s0)" using s1 by (auto simp: reads_def advances_def)
  from longKind_spec [OF ok b, of k] obtain n err s' where r: "longKind k (b - c) ?s = Some ((k, n, err), s')" "baseOk s'"
    "sameHead ?s s'" "err \<noteq> Some EOL" "length (inp s') \<le> length bs"
    "err = None \<Longrightarrow> unat (b - c) \<le> length bs \<and> hd bs \<noteq> 0 \<and> 56 \<le> be_nat (take (unat (b - c)) bs)"
    "err = None \<Longrightarrow> advances (unat (b - c)) ?s s' \<and> unat n = be_nat (take (unat (b - c)) bs)"
    using in1 by auto
  have ke: "kinderr s' = kinderr s0" using r(3) s1(1) by (simp add: sameHead_def reads_def)
  have "advances (length (headOf k n (byteval s'))) s0 s' \<and> inp s0 = headOf k n (byteval s') @ inp s' \<and> validHead k n (byteval s')"
    if e: "err = None"
  proof -
    let ?bs = "take (unat (b - c)) bs"
    have "0 < unat (b - c)" using b by (simp only: unat_gt_0 not_False_eq_True)
    moreover have "hd bs \<noteq> 0" "unat (b - c) \<le> length bs" using r(6) [OF e] by auto
    ultimately have "?bs \<noteq> []" "hd ?bs \<noteq> 0" "length ?bs = unat (b - c)" by (cases bs; auto simp: hd_take)+
    then have h: "headOf k n (byteval s') = b # ?bs"
      using r(6,7) [OF e] by (intro headOf_long [OF k]) auto
    have a: "advances (unat (b - c)) s1 s'" using r(7) [OF e] by (simp add: advances_def)
    then have "inp s' = drop (unat (b - c)) bs" using in1 by (simp add: advances_def)
    moreover have "advances (1 + unat (b - c)) s0 s'" using advances_trans [OF _ a, of 1 s0] s1(1) by (simp add: reads_def)
    ultimately show ?thesis using h s1(2) k \<open>length ?bs = unat (b - c)\<close> by (auto simp: validHead_def)
  qed
  then show ?thesis using r(1,2,4,5) ke s1(2) by (auto simp: kindRead_def)
qed

lemma streamReadKind_spec:
  assumes s: "baseOk s"
  shows "\<exists>k sz err s'. streamReadKind s = Some ((k, sz, err), s') \<and> kindRead s k sz err s'"
proof (cases "fits 1 (sStack s) \<and> inp s \<noteq> []")
  case False
  then have "readFails s (readByte s)" using readByte_spec [OF s] by auto
  then show ?thesis by (auto simp: streamReadKind_def readFails_def kindRead_def sameHead_def)
next
  case True
  then obtain b bs where i: "inp s = b # bs" by (cases "inp s") auto
  from readByte_spec [OF s] True obtain s1 where s1: "readByte s = Some (Inr b, s1)" "reads 1 s s1" using i by auto
  have in1: "inp s1 = bs" "baseOk s1" "advances 1 s s1" "kinderr s1 = kinderr s"
    using s1(2) i by (auto simp: reads_def advances_def sameHead_def)
  have small: "kindRead s k (ucast (b - c)) None (s1\<lparr>byteval := 0\<rparr>)"
    if "k = String \<and> c = 0x80 \<or> k = List \<and> c = 0xC0" "c \<le> b" "unat b < unat c + 56" for k c
  proof -
    have "unat (b - c) = unat b - unat c" using that(2) by (intro byte_offset) (simp add: word_le_nat_alt)
    then have "unat (ucast (b - c) :: u64) < 56" using that(3) by (simp add: unat_ucast_up)
    then have "headOf k (ucast (b - c)) 0 = [b]" using that(1) by (auto simp: headOf_def refHead_small)
    then show ?thesis using in1 i that(1) by (auto simp: kindRead_def advances_def baseOk_def validHead_def)
  qed
  have long: "b - c \<noteq> 0 \<and> b - c \<le> 8" if "unat c < unat b" "unat b \<le> unat c + 8" for c :: byte
    using that byte_offset [of c b] by (auto simp: word_le_nat_alt word_less_nat_alt)
  have lt: "(b < 0x80) = (unat b < 128)" "(b < 0xB8) = (unat b < 184)" "(b < 0xC0) = (unat b < 192)" "(b < 0xF8) = (unat b < 248)"
    by (simp_all add: word_less_nat_alt)
  have red: "streamReadKind s = (let s = s1\<lparr>byteval := 0\<rparr>
      in if b < 0x80 then Some ((Byte, 0, None), s\<lparr>byteval := b\<rparr>)
         else if b < 0xB8 then Some ((String, ucast (b - 0x80), None), s)
         else if b < 0xC0 then longKind String (b - 0xB7) s
         else if b < 0xF8 then Some ((List, ucast (b - 0xC0), None), s)
         else longKind List (b - 0xF7) s)"
    by (simp only: streamReadKind_def s1(1) bind.bind_lunit prod.case sum.case)
  consider "unat b < 128" | "128 \<le> unat b" "unat b < 184" | "184 \<le> unat b" "unat b < 192" | "192 \<le> unat b" "unat b < 248"
    | "248 \<le> unat b" by linarith
  then show ?thesis
  proof cases
    case 1
    then have "kindRead s Byte 0 None (s1\<lparr>byteval := b\<rparr>)"
      using in1 i by (auto simp: kindRead_def advances_def baseOk_def validHead_def headOf_def word_less_nat_alt)
    then show ?thesis using 1 red lt by (auto simp: Let_def)
  next
    case 2
    then show ?thesis using small [of String "0x80"] red lt by (auto simp: Let_def word_le_nat_alt)
  next
    case 3
    then show ?thesis using longKind_read [OF _ _ _ s s1(2) i, of String "0xB7"] long [of "0xB7"] red lt by (auto simp: Let_def)
  next
    case 4
    then show ?thesis using small [of List "0xC0"] red lt by (auto simp: Let_def word_le_nat_alt)
  next
    case 5
    then show ?thesis using longKind_read [OF _ _ _ s s1(2) i, of List "0xF7"] long [of "0xF7"] red lt by (auto simp: Let_def)
  qed
qed

lemma headOf_nonempty [simp]: "headOf k sz bv \<noteq> []"
  by (cases k) (simp_all add: headOf_def refHead_def)

definition moved :: "Stream \<Rightarrow> Stream \<Rightarrow> bool" where
  "moved s s' \<longleftrightarrow> (\<exists>m. advances m s s')"

lemma moved_trans: "moved s s1 \<Longrightarrow> moved s1 s2 \<Longrightarrow> moved s s2"
  unfolding moved_def by (blast intro: advances_trans)

lemma moved_refl [simp]: "moved s s"
  unfolding moved_def by (blast intro: advances_refl)

lemma moved_rearm [simp]: "moved s (rearm s)"
  by (auto simp: moved_def advances_def intro: exI [of _ 0])

text \<open>The outcome of looking at the next value: the header is pending.\<close>

definition kindDone :: "Stream \<Rightarrow> Kind \<Rightarrow> u64 \<Rightarrow> Stream \<Rightarrow> bool" where
  "kindDone s k sz s' \<longleftrightarrow> sKind s' = Some k \<and> sSize s' = sz \<and> kinderr s' = None \<and> src s' = src s \<and> moved s s' \<and> weight s' \<le> weight s"

definition atEnd :: "Stream \<Rightarrow> rlpError \<Rightarrow> Stream \<Rightarrow> bool" where
  "atEnd s err s' \<longleftrightarrow> (err = EOL \<longrightarrow> sKind s = None \<and> s' = s\<lparr>kinderr := None\<rparr>)"

lemma atEnd_other [simp]: "err \<noteq> EOL \<Longrightarrow> atEnd s err s'"
  by (simp add: atEnd_def)

lemma kindResult_pending:
  assumes "streamOk s" "sKind s = Some k"
  shows "\<exists>r. kindResult s = Some (r, s) \<and> (case r of Inl err \<Rightarrow> err \<noteq> EOL | Inr kz \<Rightarrow> kz = (k, sSize s) \<and> kinderr s = None)"
  using assms by (cases "kinderr s") (auto simp: kindResult_def retD_def failD_def streamOk_def baseOk_def)

lemma checkSize_simps [simp]: "sKind (checkSize sz s) = sKind s" "sSize (checkSize sz s) = sSize s"
  by (simp_all add: checkSize_def split: list.split)

lemma checkSize_eq:
  assumes "baseOk s"
  shows "checkSize sz s = (if unat sz \<le> room s then s
    else s\<lparr>kinderr := Some (if sStack s = [] then ErrValueTooLarge else ErrElemTooLarge)\<rparr>)"
proof (cases "sStack s")
  case Nil
  then show ?thesis using assms by (auto simp: checkSize_def room_def baseOk_def word_less_nat_alt)
next
  case (Cons f st)
  obtain p z where f: "f = (p, z)" by fastforce
  have "unat p \<le> unat z" using assms Cons f framesOk_top [of p z st] by (simp add: baseOk_def)
  then have "unat (z - p) = unat z - unat p" by (simp add: unat_sub word_le_nat_alt)
  then show ?thesis using Cons f by (auto simp: checkSize_def room_def word_less_nat_alt)
qed

lemma streamKind_eq:
  "sKind s = None \<Longrightarrow> streamKind s =
     (if sStack s \<noteq> [] \<and> fst (hd (sStack s)) = snd (hd (sStack s)) then failD EOL (s\<lparr>kinderr := None\<rparr>)
      else do {
        ((k, sz, err), s1) \<leftarrow> streamReadKind (s\<lparr>kinderr := None\<rparr>);
        let s2 = s1\<lparr>sKind := Some k, sSize := sz, kinderr := err\<rparr>;
        kindResult (if err = None then checkSize sz s2 else s2) })"
  by (simp add: streamKind_def Let_def)

lemma room_update [simp]: "room (s\<lparr>sKind := a, sSize := b, kinderr := c\<rparr>) = room s" "room (s\<lparr>kinderr := c\<rparr>) = room s"
  by (simp_all add: room_def split: list.split)

lemma baseOk_update: "baseOk s \<Longrightarrow> c \<noteq> Some EOL \<Longrightarrow> baseOk (s\<lparr>sKind := a, sSize := b, kinderr := c\<rparr>)"
  "baseOk s \<Longrightarrow> c \<noteq> Some EOL \<Longrightarrow> baseOk (s\<lparr>kinderr := c\<rparr>)"
  by (simp_all add: baseOk_def)

lemma checkSize_ok:
  assumes "baseOk s" "validHead k sz (byteval s)" "sKind s = Some k" "sSize s = sz"
  shows "streamOk (checkSize sz s)" "kinderr (checkSize sz s) = None \<Longrightarrow> checkSize sz s = s"
proof -
  show "streamOk (checkSize sz s)"
  proof (cases "unat sz \<le> room s")
    case True
    then show ?thesis using assms by (simp add: checkSize_eq streamOk_def pendingOk_def validHead_def)
  next
    case False
    then show ?thesis using assms baseOk_update(2) [OF assms(1)] by (simp add: checkSize_eq streamOk_def pendingOk_def)
  qed
  show "kinderr (checkSize sz s) = None \<Longrightarrow> checkSize sz s = s"
    using checkSize_eq [OF assms(1), of sz] by (cases "unat sz \<le> room s") (metis, fastforce)
qed

lemma streamKind_spec:
  assumes s: "streamOk s"
  shows "\<exists>r s'. streamKind s = Some (r, s') \<and> streamOk s' \<and>
    (case r of Inl err \<Rightarrow> atEnd s err s' | Inr (k, sz) \<Rightarrow> kindDone s k sz s')"
proof (cases "sKind s")
  case (Some k)
  then have "streamKind s = kindResult s" by (simp add: streamKind_def)
  with kindResult_pending [OF s Some] obtain r where "streamKind s = Some (r, s)"
    "case r of Inl err \<Rightarrow> err \<noteq> EOL | Inr kz \<Rightarrow> kz = (k, sSize s) \<and> kinderr s = None" by auto
  then show ?thesis using s Some by (cases r) (auto simp: kindDone_def)
next
  case None
  let ?s = "s\<lparr>kinderr := None\<rparr>"
  have ok: "baseOk ?s" using s by (simp add: streamOk_def baseOk_def)
  show ?thesis
  proof (cases "sStack s \<noteq> [] \<and> fst (hd (sStack s)) = snd (hd (sStack s))")
    case True
    then show ?thesis using ok None by (auto simp: streamKind_eq [OF None] failD_def atEnd_def streamOk_def)
  next
    case False
    from streamReadKind_spec [OF ok] obtain k sz err s1 where r: "streamReadKind ?s = Some ((k, sz, err), s1)"
      "kindRead ?s k sz err s1" by auto
    let ?s2 = "s1\<lparr>sKind := Some k, sSize := sz, kinderr := err\<rparr>"
    have ok2: "baseOk ?s2" using r(2) by (simp add: kindRead_def baseOk_update)
    have eq: "streamKind s = kindResult (if err = None then checkSize sz ?s2 else ?s2)"
      unfolding streamKind_eq [OF None] if_not_P [OF False] r(1) bind.bind_lunit prod.case Let_def ..
    show ?thesis
    proof (cases err)
      case (Some e)
      then have "kindResult ?s2 = Some (Inl e, ?s2)" by (simp add: kindResult_def failD_def)
      moreover have "streamOk ?s2" using ok2 Some by (simp add: streamOk_def pendingOk_def)
      moreover have "e \<noteq> EOL" using r(2) Some by (simp add: kindRead_def)
      ultimately show ?thesis using eq Some by simp
    next
      case n: None
      let ?s3 = "checkSize sz ?s2"
      have v: "validHead k sz (byteval ?s2)" using r(2) n by (simp add: kindRead_def)
      have ok3: "streamOk ?s3" using checkSize_ok(1) [OF ok2 v] by simp
      have k3: "sKind ?s3 = Some k" "sSize ?s3 = sz" by simp_all
      have a: "advances (length (headOf k sz (byteval s1))) s s1" "inp s = headOf k sz (byteval s1) @ inp s1"
        using r(2) n by (simp_all add: kindRead_def)
      have "moved s ?s2" using a(1) by (auto simp: moved_def)
      moreover have "Suc 0 \<le> length (headOf k sz (byteval s1))" by (simp add: Suc_le_eq)
      then have "weight ?s2 \<le> weight s" using a(2) None by (simp add: weight_def)
      ultimately have "kindDone s k sz ?s2" using a(2) None n by (simp add: kindDone_def src_def)
      then have kd: "kindDone s k sz ?s3" if "kinderr ?s3 = None"
        using checkSize_ok(2) [OF ok2 v _ _ that] by simp
      from kindResult_pending [OF ok3 k3(1)] obtain r where r: "streamKind s = Some (r, ?s3)"
        "case r of Inl err \<Rightarrow> err \<noteq> EOL | Inr kz \<Rightarrow> kz = (k, sz) \<and> kinderr ?s3 = None"
        unfolding eq if_P [OF n] k3(2) by blast
      show ?thesis
      proof (cases r)
        case (Inl e)
        with r ok3 show ?thesis by simp
      next
        case (Inr kz)
        with r ok3 kd show ?thesis by simp
      qed
    qed
  qed
qed

section \<open>Values\<close>

text \<open>What a decoder does: it returns, keeps the invariant, reports the end of the list only where the list
  ends, and a value it returns has used up input: exactly its encoding \<open>E v\<close>, if \<open>P v\<close>.\<close>

definition took :: "bool \<Rightarrow> bytes \<Rightarrow> Stream \<Rightarrow> Stream \<Rightarrow> bool" where
  "took c e s s' \<longleftrightarrow> sKind s' = None \<and> moved s s' \<and> weight s' < weight s \<and> (c \<longrightarrow> src s = e @ inp s')"

definition result :: "('a \<Rightarrow> bool) \<Rightarrow> ('a \<Rightarrow> bytes) \<Rightarrow> Stream \<Rightarrow> rlpError + 'a \<Rightarrow> Stream \<Rightarrow> bool" where
  "result P E s r s' \<longleftrightarrow> streamOk s' \<and> (case r of Inl err \<Rightarrow> atEnd s err s' | Inr v \<Rightarrow> took (P v) (E v) s s')"

definition decodes :: "nat \<Rightarrow> ('a \<Rightarrow> bool) \<Rightarrow> ('a \<Rightarrow> bytes) \<Rightarrow> 'a dec \<Rightarrow> bool" where
  "decodes n P E m \<longleftrightarrow> (\<forall>s. streamOk s \<and> weight s < n \<longrightarrow> (\<exists>r s'. m s = Some (r, s') \<and> result P E s r s'))"

definition pend :: "Kind \<Rightarrow> u64 \<Rightarrow> Stream \<Rightarrow> bool" where
  "pend k sz s \<longleftrightarrow> streamOk s \<and> sKind s = Some k \<and> sSize s = sz \<and> kinderr s = None"

lemma decodesE:
  assumes "decodes n P E m" "streamOk s" "weight s < n"
  obtains r s' where "m s = Some (r, s')" "result P E s r s'"
  using assms by (auto simp: decodes_def)

lemma result_Inl: "streamOk s' \<Longrightarrow> err \<noteq> EOL \<Longrightarrow> result P E s (Inl err) s'"
  by (simp add: result_def)

lemma kind_bind:
  assumes "\<And>k sz s. pend k sz s \<Longrightarrow> weight s < n \<Longrightarrow> \<exists>r s'. f (k, sz) s = Some (r, s') \<and> result P E s r s'"
  shows "decodes n P E (bindD streamKind f)"
  unfolding decodes_def
proof (intro allI impI)
  fix s assume s: "streamOk s \<and> weight s < n"
  from streamKind_spec [of s] s obtain r s1 where r: "streamKind s = Some (r, s1)" "streamOk s1"
    "case r of Inl err \<Rightarrow> atEnd s err s1 | Inr (k, sz) \<Rightarrow> kindDone s k sz s1" by auto
  show "\<exists>r s'. bindD streamKind f s = Some (r, s') \<and> result P E s r s'"
  proof (cases r)
    case (Inl err)
    then show ?thesis using r by (simp add: bindD_def result_def)
  next
    case (Inr kz)
    obtain k sz where kz: "kz = (k, sz)" by fastforce
    then have d: "kindDone s k sz s1" using r(3) Inr by simp
    then have "pend k sz s1" "weight s1 < n" using r(2) s by (simp_all add: pend_def kindDone_def)
    from assms [OF this] obtain r' s' where f: "f kz s1 = Some (r', s')" "result P E s1 r' s'" using kz by auto
    have "result P E s r' s'"
    proof (cases r')
      case (Inl err)
      then show ?thesis using f(2) d by (auto simp: result_def atEnd_def kindDone_def)
    next
      case (Inr v)
      then show ?thesis using f(2) d moved_trans [of s s1 s'] by (auto simp: result_def took_def kindDone_def)
    qed
    then show ?thesis using r(1) Inr f(1) by (simp add: bindD_def)
  qed
qed

lemma wrap_decodes:
  assumes "decodes n P E m" "\<And>err. g err = EOL \<Longrightarrow> err = EOL"
  shows "decodes n P E (wrapD g m)"
  unfolding decodes_def
proof (intro allI impI)
  fix s assume "streamOk s \<and> weight s < n"
  with assms(1) obtain r s' where "m s = Some (r, s')" "result P E s r s'" by (auto simp: decodes_def)
  then show "\<exists>r s'. wrapD g m s = Some (r, s') \<and> result P E s r s'"
    using assms(2) by (cases r) (auto simp: wrapD_def result_def atEnd_def)
qed

lemma post_decodes:
  assumes "decodes n P E m"
    and "\<And>v s. (\<exists>w. f v s = Some (Inr w, s) \<and> (P' w \<longrightarrow> P v \<and> E' w = E v)) \<or> (\<exists>err. err \<noteq> EOL \<and> f v s = Some (Inl err, s))"
  shows "decodes n P' E' (bindD m f)"
  unfolding decodes_def
proof (intro allI impI)
  fix s assume "streamOk s \<and> weight s < n"
  with assms(1) obtain r s' where r: "m s = Some (r, s')" "result P E s r s'" by (auto simp: decodes_def)
  show "\<exists>r s'. bindD m f s = Some (r, s') \<and> result P' E' s r s'"
  proof (cases r)
    case (Inl err)
    then show ?thesis using r by (simp add: bindD_def result_def)
  next
    case (Inr v)
    then show ?thesis using r assms(2) [of v s'] by (auto simp: bindD_def result_def took_def)
  qed
qed

lemma map_decodes:
  assumes "decodes n P E m" "\<And>v. P' (h v) \<Longrightarrow> P v" "\<And>v. P' (h v) \<Longrightarrow> E' (h v) = E v"
  shows "decodes n P' E' (bindD m (\<lambda>v. retD (h v)))"
  using assms by (intro post_decodes [OF assms(1)]) (auto simp: retD_def)

lemma wrapStreamError_EOL: "wrapStreamError err = EOL \<Longrightarrow> err = EOL"
  by (auto simp: wrapStreamError_def split: if_splits)

text \<open>The content of a pending value.\<close>

lemma pend_fits:
  assumes "pend k sz s"
  shows "baseOk s" "fits (unat sz) (sStack s)" "unat sz < 2 ^ 62"
proof -
  show b: "baseOk s" using assms by (simp add: pend_def streamOk_def)
  have r: "unat sz \<le> room s" using assms by (auto simp: pend_def streamOk_def pendingOk_def)
  then show "fits (unat sz) (sStack s)" by (auto simp: fits_def room_def split: list.split)
  show "unat sz < 2 ^ 62"
  proof (cases "sStack s")
    case Nil
    then show ?thesis using b r by (simp add: room_def baseOk_def)
  next
    case (Cons f st)
    then obtain p z where "sStack s = (p, z) # st" by (cases f) auto
    then show ?thesis using b r framesOk_top [of p z st] by (auto simp: room_def baseOk_def)
  qed
qed

lemma pend_src: "pend k sz s \<Longrightarrow> src s = headOf k sz (byteval s) @ inp s"
  by (simp add: pend_def src_def)

lemma pend_Byte: "pend Byte sz s \<Longrightarrow> sz = 0 \<and> byteval s < 128"
  by (auto simp: pend_def streamOk_def pendingOk_def)

lemma pend_rearm:
  assumes "pend k sz s" "c \<Longrightarrow> headOf k sz (byteval s) = e"
  shows "streamOk (rearm s)" "took c e s (rearm s)"
  using assms pend_fits(1) [OF assms(1)] pend_src [OF assms(1)] by (auto simp: took_def weight_def pend_def)

lemma pend_reads:
  assumes "pend k sz s" "reads m s s'" "c \<Longrightarrow> headOf k sz (byteval s) @ take m (inp s) = e"
  shows "streamOk s'" "took c e s s'"
proof -
  have a: "advances m s s'" "sKind s' = None" "baseOk s'" using assms(2) by (simp_all add: reads_def)
  then show "streamOk s'" by (simp add: streamOkI)
  have "inp s = take m (inp s) @ inp s'" using a(1) by (simp add: advances_def)
  then have "c \<Longrightarrow> src s = e @ inp s'" using pend_src [OF assms(1)] assms(3) by (metis append.assoc)
  moreover have "weight s' < weight s" using a assms(1) by (auto simp: weight_def pend_def advances_def)
  ultimately show "took c e s s'" using a by (auto simp: took_def moved_def)
qed

lemma readFails_result: "readFails s q \<Longrightarrow> \<exists>err s'. q = Some (Inl err, s') \<and> err \<in> {ErrElemTooLarge, ErrValueTooLarge} \<and> streamOk s'"
  by (auto simp: readFails_def intro: streamOkI)

lemma encBytes_byte: "b < 128 \<Longrightarrow> encBytes [b] = [b]"
  by (simp add: encBytes_def)

lemma encBytes_head: "length b \<noteq> 1 \<or> \<not> b ! 0 < 128 \<Longrightarrow> encBytes b = refHead 0x80 0xB7 (length b) @ b"
  by (auto simp: encBytes_def)

lemma makeLen_pend: "pend k sz s \<Longrightarrow> makeLen sz = Some (unat sz)"
  using pend_fits(3) [of k sz s] by (simp add: makeLen_def)

lemma unat_eq_1_u64: "unat (x :: u64) = 1 \<longleftrightarrow> x = 1"
  by (metis unat_1 word_unat_eq_iff)

lemma streamBytes_decodes: "decodes n (\<lambda>_. True) encBytes streamBytes"
  unfolding streamBytes_def
proof (rule kind_bind, unfold prod.case)
  fix k sz s assume s: "pend k sz s"
  let ?f = "\<lambda>s. case k of Byte \<Rightarrow> retD [byteval s] (rearm s)
     | String \<Rightarrow> do { n \<leftarrow> makeLen sz; bindD (readFull n) (\<lambda>b. if sz = 1 \<and> b ! 0 < 128 then failD ErrCanonSize else retD b) s }
     | List \<Rightarrow> failD ErrExpectedString s"
  show "\<exists>r s'. ?f s = Some (r, s') \<and> result (\<lambda>_. True) encBytes s r s'"
  proof (cases k)
    case Byte
    then show ?thesis using pend_rearm [OF s, of True "encBytes [byteval s]"] pend_Byte s
      by (simp add: retD_def result_def headOf_def encBytes_byte)
  next
    case List
    then show ?thesis using s by (simp add: failD_def result_def pend_def)
  next
    case String
    note rf = readFull_spec [OF pend_fits(1) [OF s], of "unat sz"]
    show ?thesis
    proof (cases "fits (unat sz) (sStack s) \<and> unat sz \<le> length (inp s)")
      case True
      let ?b = "take (unat sz) (inp s)"
      from rf True pend_fits(3) [OF s] obtain s' where s': "readFull (unat sz) s = Some (Inr ?b, s')" "reads (unat sz) s s'" by auto
      have l: "length ?b = unat sz" using True by simp
      show ?thesis
      proof (cases "sz = 1 \<and> ?b ! 0 < 128")
        case True
        then show ?thesis using String s' makeLen_pend [OF s] pend_reads(1) [OF s s'(2), of False]
          by (auto simp: bindD_def failD_def result_Inl)
      next
        case False
        then have "headOf k sz (byteval s) @ ?b = encBytes ?b"
          using String l unat_eq_1_u64 [of sz] by (subst encBytes_head) (auto simp: headOf_def)
        then show ?thesis using False String s' makeLen_pend [OF s] pend_reads [OF s s'(2), of True "encBytes ?b"]
          by (auto simp: bindD_def retD_def result_def)
      qed
    next
      case False
      then have "readFails s (readFull (unat sz) s)" using rf pend_fits(3) [OF s] by auto
      from readFails_result [OF this] show ?thesis using String makeLen_pend [OF s] by (auto simp: bindD_def intro: result_Inl)
    qed
  qed
qed

lemma headsize_head: "k \<noteq> Byte \<Longrightarrow> headsize sz = length (headOf k sz bv)"
  using headsize_refHead [of "unat sz"] unat_u64_less [of sz] by (cases k) (simp_all add: headOf_def)

lemma puthead_head: "k \<noteq> Byte \<Longrightarrow> (if k = String then puthead 0x80 0xB7 sz else puthead 0xC0 0xF7 sz) = headOf k sz bv"
  using puthead_refHead [of "unat sz"] unat_u64_less [of sz] by (cases k) (simp_all add: headOf_def)

lemma makeLen_raw:
  assumes "pend k sz s"
  shows "makeLen (of_nat (headsize sz) + sz) = Some (headsize sz + unat sz)"
proof -
  have "headsize sz \<le> 9"
    using headsize_refHead [of "unat sz"] length_nat_be_u64 [of sz] unat_u64_less [of sz] by (simp add: length_refHead split: if_splits)
  then have "headsize sz + unat sz < 2 ^ 63" using pend_fits(3) [OF assms] by simp
  then have "unat (of_nat (headsize sz) + sz) = headsize sz + unat sz"
    by (simp add: unat_word_ariths unat_of_nat mod_simps)
  then show ?thesis using \<open>headsize sz + unat sz < 2 ^ 63\<close> by (simp add: makeLen_def)
qed

lemma streamRaw_decodes: "decodes n (\<lambda>_. True) (\<lambda>b. b) streamRaw"
  unfolding streamRaw_def
proof (rule kind_bind, unfold prod.case)
  fix k sz s assume s: "pend k sz s"
  let ?g = "\<lambda>b. retD ((if k = String then puthead 0x80 0xB7 sz else puthead 0xC0 0xF7 sz) @ b)"
  let ?f = "\<lambda>s. if k = Byte then retD [byteval s] (rearm s)
     else do { n \<leftarrow> makeLen (of_nat (headsize sz) + sz);
       if n < headsize sz then None else bindD (readFull (n - headsize sz)) ?g s }"
  show "\<exists>r s'. ?f s = Some (r, s') \<and> result (\<lambda>_. True) (\<lambda>b. b) s r s'"
  proof (cases "k = Byte")
    case True
    then show ?thesis using pend_rearm [OF s, of True "[byteval s]"] by (simp add: retD_def result_def headOf_def)
  next
    case False
    have red: "?f s = bindD (readFull (unat sz)) ?g s" using False makeLen_raw [OF s] by simp
    note rf = readFull_spec [OF pend_fits(1) [OF s], of "unat sz"]
    show ?thesis
    proof (cases "fits (unat sz) (sStack s) \<and> unat sz \<le> length (inp s)")
      case True
      with rf pend_fits(3) [OF s] obtain s' where s': "readFull (unat sz) s = Some (Inr (take (unat sz) (inp s)), s')"
        "reads (unat sz) s s'" by auto
      then show ?thesis using False red puthead_head [of k sz "byteval s"] pend_reads [OF s s'(2), of True "headOf k sz (byteval s) @ take (unat sz) (inp s)"]
        by (auto simp: bindD_def retD_def result_def)
    next
      case False
      then have "readFails s (readFull (unat sz) s)" using rf pend_fits(3) [OF s] by auto
      from readFails_result [OF this] show ?thesis using red by (auto simp: bindD_def intro: result_Inl)
    qed
  qed
qed

definition encUint :: "u64 \<Rightarrow> bytes" where
  "encUint i = encBytes (nat_be (unat i))"

lemma nat_be_byte: "b \<noteq> 0 \<Longrightarrow> nat_be (unat (b :: byte)) = [b]"
  using nat_be_small [of "unat b"] by (simp add: unat_gt_0)

lemma ucast_small:
  assumes "unat (sz :: u64) \<le> 8"
  shows "unat (ucast sz :: byte) = unat sz"
  using assms by (simp add: unat_ucast_byte)

lemma encUint_bytes:
  assumes "bs \<noteq> []" "length bs \<le> 8" "hd bs \<noteq> 0 \<or> length bs = 1" "128 \<le> be_nat bs"
  shows "encUint (of_nat (be_nat bs)) = refHead 0x80 0xB7 (length bs) @ bs"
proof -
  have one: "length bs = 1 \<Longrightarrow> hd bs \<noteq> 0 \<and> \<not> bs ! 0 < 128"
    using assms(4) by (auto simp: length_Suc_conv word_less_nat_alt)
  then have "nat_be (be_nat bs) = bs" using assms(3) nat_be_be_nat by blast
  then show ?thesis using one be_nat_u64 [OF assms(2)] by (auto simp: encUint_def intro: encBytes_head)
qed

lemma streamUint_decodes:
  assumes "maxbits \<le> 64"
  shows "decodes n (\<lambda>_. True) encUint (streamUint maxbits)"
  unfolding streamUint_def
proof (rule kind_bind, unfold prod.case)
  fix k sz s assume s: "pend k sz s"
  let ?w = "\<lambda>err. if err = ErrCanonSize then ErrCanonInt else err"
  let ?g = "\<lambda>v. if 0 < sz \<and> v < 128 then failD ErrCanonSize else retD v"
  let ?f = "\<lambda>s. case k of
       Byte \<Rightarrow> if byteval s = 0 then failD ErrCanonInt s else retD (ucast (byteval s)) (rearm s)
     | String \<Rightarrow> if of_nat (maxbits div 8) < sz then failD errUintOverflow s
         else bindD (wrapD ?w (readUint (ucast sz))) ?g s
     | List \<Rightarrow> failD ErrExpectedString s"
  show "\<exists>r s'. ?f s = Some (r, s') \<and> result (\<lambda>_. True) encUint s r s'"
  proof (cases k)
    case Byte
    have "encUint (ucast (byteval s)) = [byteval s]" if "byteval s \<noteq> 0"
      using that pend_Byte s Byte by (simp add: encUint_def unat_ucast_up nat_be_byte encBytes_byte)
    then show ?thesis using Byte s pend_rearm [OF s, of True "[byteval s]"]
      by (auto simp: retD_def failD_def result_def headOf_def pend_def)
  next
    case List
    then show ?thesis using s by (simp add: failD_def result_def pend_def)
  next
    case String
    show ?thesis
    proof (cases "of_nat (maxbits div 8) < sz")
      case True
      then show ?thesis using String s by (simp add: failD_def result_def pend_def)
    next
      case False
      have "unat (of_nat (maxbits div 8) :: u64) \<le> 8" using assms by (simp add: unat_of_nat)
      then have l: "unat sz \<le> 8" using False by (simp add: word_less_nat_alt)
      note u = ucast_small [OF l]
      have red: "?f s = bindD (wrapD ?w (readUint (ucast sz))) ?g s" using String False by simp
      show ?thesis
      proof (cases "sz = 0")
        case True
        then have "?f s = Some (Inr 0, rearm s)" unfolding red by (simp add: readUint_def wrapD_def bindD_def retD_def)
        then show ?thesis using pend_rearm [OF s, of True "[0x80]"] String True
          by (simp add: result_def headOf_def encUint_def refHead_def)
      next
        case nz: False
        then have z: "(ucast sz :: byte) \<noteq> 0" "(ucast sz :: byte) \<le> 8" using u l
          by (auto simp: word_le_nat_alt unat_eq_zero [symmetric])
        note ru = readUint_spec [OF pend_fits(1) [OF s] z, unfolded u]
        show ?thesis
        proof (cases "fits (unat sz) (sStack s) \<and> unat sz \<le> length (inp s)")
          case True
          let ?bs = "take (unat sz) (inp s)"
          have "0 < unat sz" using nz by (simp add: unat_gt_0)
          then have bs: "length ?bs = unat sz" "?bs \<noteq> []" "hd ?bs = hd (inp s)" using True by (auto simp: hd_take)
          from ru True obtain s' where s': "reads (unat sz) s s'" "readUint (ucast sz) s =
            (if ucast sz \<noteq> (1 :: byte) \<and> hd (inp s) = 0 then Some (Inl ErrCanonSize, s') else Some (Inr (of_nat (be_nat ?bs)), s'))" by auto
          note ok = pend_reads(1) [OF s s'(1), of False]
          show ?thesis
          proof (cases "ucast sz \<noteq> (1 :: byte) \<and> hd (inp s) = 0")
            case True
            then show ?thesis unfolding red using s' ok by (simp add: wrapD_def bindD_def result_Inl)
          next
            case False
            then have r: "readUint (ucast sz) s = Some (Inr (of_nat (be_nat ?bs)), s')" using s'(2) by auto
            have one: "(ucast sz :: byte) = 1 \<Longrightarrow> length ?bs = 1" using bs(1) u by simp
            show ?thesis
            proof (cases "(of_nat (be_nat ?bs) :: u64) < 128")
              case True
              then show ?thesis unfolding red using r ok nz by (simp add: wrapD_def bindD_def failD_def result_Inl word_neq_0_conv)
            next
              case big: False
              then have "128 \<le> be_nat ?bs" using be_nat_u64 [of ?bs] bs(1) l by (simp add: word_less_nat_alt)
              then have "headOf k sz (byteval s) @ ?bs = encUint (of_nat (be_nat ?bs))"
                using encUint_bytes [of ?bs] bs l False one String by (auto simp: headOf_def)
              then show ?thesis unfolding red using r big pend_reads [OF s s'(1), of True]
                by (simp add: wrapD_def bindD_def retD_def result_def)
            qed
          qed
        next
          case False
          then have "readFails s (readUint (ucast sz) s)" using ru by auto
          from readFails_result [OF this] show ?thesis unfolding red by (auto simp: wrapD_def bindD_def intro: result_Inl)
        qed
      qed
    qed
  qed
qed

lemma streamBool_decodes: "decodes n (\<lambda>_. True) (\<lambda>b. encBytes (if b then [1] else [])) streamBool"
proof -
  have "encUint 1 = encBytes [1]" "encUint 0 = encBytes []" by (simp_all add: encUint_def nat_be_small)
  then show ?thesis unfolding streamBool_def
    by (intro post_decodes [OF streamUint_decodes]) (auto simp: retD_def failD_def)
qed

lemma decodeBigInt_decodes: "decodes n (\<lambda>_. True) encVal decodeBigInt"
  unfolding decodeBigInt_def
proof (rule post_decodes [OF wrap_decodes [OF streamBytes_decodes wrapStreamError_EOL]], assumption)
  fix b s
  have "encVal (BigIntV (Some (SetBytes b))) = encBytes b" if "\<not> (0 < length b \<and> b ! 0 = 0)"
  proof -
    have "b = [] \<or> hd b \<noteq> 0" using that by (cases b) auto
    then show ?thesis by (simp add: Bytes_def SetBytes_def nat_be_be_nat)
  qed
  then show "(\<exists>w. (if 0 < length b \<and> b ! 0 = 0 then failD (wrapStreamError ErrCanonInt) else retD (BigIntV (Some (SetBytes b)))) s = Some (Inr w, s) \<and>
      (True \<longrightarrow> True \<and> encVal w = encBytes b)) \<or>
    (\<exists>err. err \<noteq> EOL \<and> (if 0 < length b \<and> b ! 0 = 0 then failD (wrapStreamError ErrCanonInt) else retD (BigIntV (Some (SetBytes b)))) s = Some (Inl err, s))"
    by (cases "0 < length b \<and> b ! 0 = 0") (auto simp: retD_def failD_def wrapStreamError_def)
qed

lemma decodeByteArray_decodes:
  assumes "vlen \<noteq> 1" "vlen < 2 ^ 63"
  shows "decodes n (\<lambda>_. True) encVal (decodeByteArray vlen)"
  unfolding decodeByteArray_def
proof (rule kind_bind, unfold prod.case)
  fix k sz s assume s: "pend k sz s"
  let ?g = "\<lambda>b. if sz = 1 \<and> b ! 0 < 128 then failD (wrapStreamError ErrCanonSize) else retD (BytesV b)"
  let ?f = "\<lambda>s. case k of
       Byte \<Rightarrow> if vlen = 0 then failD (decodeError ''input string too long'') s
         else if 1 < vlen then failD (decodeError ''input string too short'') s
         else do { (r, s) \<leftarrow> streamUint 64 s; retD (BytesV [case r of Inl _ \<Rightarrow> 0 | Inr bv \<Rightarrow> ucast bv]) s }
     | String \<Rightarrow> if of_nat vlen < sz then failD (decodeError ''input string too long'') s
         else if sz < of_nat vlen then failD (decodeError ''input string too short'') s
         else bindD (readFull vlen) ?g s
     | List \<Rightarrow> failD (wrapStreamError ErrExpectedString) s"
  have ok: "streamOk s" using s by (simp add: pend_def)
  show "\<exists>r s'. ?f s = Some (r, s') \<and> result (\<lambda>_. True) encVal s r s'"
  proof (cases "k = String \<and> sz = of_nat vlen")
    case False
    then have "\<exists>err. ?f s = Some (Inl err, s) \<and> err \<noteq> EOL"
      using assms by (cases k) (auto simp: failD_def wrapStreamError_def)
    then show ?thesis using result_Inl [OF ok] by blast
  next
    case True
    then have v: "vlen = unat sz" using assms by (simp add: unat_of_nat)
    then have n1: "sz \<noteq> 1" using assms by auto
    have red: "?f s = bindD (readFull (unat sz)) (\<lambda>b. retD (BytesV b)) s" using True v n1 by simp
    note rf = readFull_spec [OF pend_fits(1) [OF s], of "unat sz"]
    show ?thesis
    proof (cases "fits (unat sz) (sStack s) \<and> unat sz \<le> length (inp s)")
      case t: True
      let ?b = "take (unat sz) (inp s)"
      from rf t pend_fits(3) [OF s] obtain s' where s': "readFull (unat sz) s = Some (Inr ?b, s')" "reads (unat sz) s s'" by auto
      have "headOf k sz (byteval s) @ ?b = encBytes ?b"
        using True t n1 unat_eq_1_u64 [of sz] by (subst encBytes_head) (auto simp: headOf_def)
      then show ?thesis unfolding red using s' pend_reads [OF s s'(2), of True "encBytes ?b"]
        by (auto simp: bindD_def retD_def result_def)
    next
      case f: False
      then have "readFails s (readFull (unat sz) s)" using rf pend_fits(3) [OF s] by auto
      from readFails_result [OF this] show ?thesis unfolding red by (auto simp: bindD_def intro: result_Inl)
    qed
  qed
qed

end
