(* ===== verification/RlpProps.thy ===== *)
theory RlpProps
  imports RlpDecode
begin

text \<open>
  Decoding whole values of package \<open>rlp\<close>: lists, structures and interfaces. Decoding returns on every input,
  accepts only canonical encodings, and gives back what was encoded.
\<close>

section \<open>Lists\<close>

lemma streamList_spec:
  assumes "streamOk s"
  shows "\<exists>r s'. streamList s = Some (r, s') \<and> streamOk s' \<and> (case r of Inl err \<Rightarrow> atEnd s err s' | Inr sz \<Rightarrow>
    weight s' < weight s \<and> (\<exists>s1. pend List sz s1 \<and> src s1 = src s \<and> moved s s1 \<and>
       s' = s1\<lparr>sStack := (0, sz) # sStack s1, sKind := None, sSize := 0\<rparr>))"
proof -
  from streamKind_spec [OF assms] obtain r s1 where r: "streamKind s = Some (r, s1)" "streamOk s1"
    "case r of Inl err \<Rightarrow> atEnd s err s1 | Inr (k, sz) \<Rightarrow> kindDone s k sz s1" by auto
  show ?thesis
  proof (cases r)
    case (Inl err)
    then show ?thesis using r by (simp add: streamList_def bindD_def)
  next
    case (Inr kz)
    obtain k sz where kz: "kz = (k, sz)" by fastforce
    then have d: "kindDone s k sz s1" using r(3) Inr by simp
    show ?thesis
    proof (cases "k = List")
      case True
      let ?s = "s1\<lparr>sStack := (0, sz) # sStack s1, sKind := None, sSize := 0\<rparr>"
      have p: "pend List sz s1" using d r(2) True by (simp add: pend_def kindDone_def)
      have "framesOk ((0, sz) # sStack s1)"
      proof (cases "sStack s1")
        case Nil
        then show ?thesis using pend_fits(3) [OF p] by simp
      next
        case (Cons f st)
        then obtain q z where "sStack s1 = (q, z) # st" by (cases f) auto
        then show ?thesis using pend_fits [OF p] framesOk_top [of q z st] by (auto simp: fits_def baseOk_def)
      qed
      then have "streamOk ?s" using pend_fits(1) [OF p] by (intro streamOkI) (simp_all add: baseOk_def)
      moreover have "weight ?s < weight s" using d by (auto simp: weight_def kindDone_def)
      moreover have "streamList s = Some (Inr sz, ?s)" using r(1) Inr kz True by (simp add: streamList_def bindD_def retD_def)
      ultimately show ?thesis using p d by (auto simp: kindDone_def)
    next
      case False
      then have "streamList s = Some (Inl ErrExpectedList, s1)" using r(1) Inr kz by (simp add: streamList_def bindD_def failD_def)
      then show ?thesis using r(2) by simp
    qed
  qed
qed

text \<open>The elements of an open list: they use up input too, but may be none.\<close>

definition consumed :: "bool \<Rightarrow> bytes \<Rightarrow> Stream \<Rightarrow> Stream \<Rightarrow> bool" where
  "consumed c e s s' \<longleftrightarrow> sKind s' = None \<and> moved s s' \<and> weight s' \<le> weight s \<and> (c \<longrightarrow> src s = e @ inp s')"

definition body :: "nat \<Rightarrow> ('a \<Rightarrow> bool) \<Rightarrow> ('a \<Rightarrow> bytes) \<Rightarrow> 'a dec \<Rightarrow> bool" where
  "body n P E m \<longleftrightarrow> (\<forall>s. streamOk s \<and> sKind s = None \<and> weight s < n \<longrightarrow> (\<exists>r s'. m s = Some (r, s') \<and> streamOk s' \<and>
     (case r of Inl err \<Rightarrow> err \<noteq> EOL | Inr v \<Rightarrow> consumed (P v) (E v) s s')))"

lemma bodyE:
  assumes "body n P E m" "streamOk s" "sKind s = None" "weight s < n"
  obtains r s' where "m s = Some (r, s')" "streamOk s'" "case r of Inl err \<Rightarrow> err \<noteq> EOL | Inr v \<Rightarrow> consumed (P v) (E v) s s'"
  using assms unfolding body_def by blast

lemma consumed_refl [simp]: "sKind s = None \<Longrightarrow> consumed c [] s s"
  by (simp add: consumed_def src_def)

lemma consumed_trans:
  assumes "took c e s s1 \<or> consumed c e s s1" "consumed d f s1 s2"
  shows "consumed (c \<and> d) (e @ f) s s2"
  using assms moved_trans [of s s1 s2] by (auto simp: took_def consumed_def src_def)

lemma streamListEnd_spec:
  assumes s1: "pend List sz s1" and s': "s' = s1\<lparr>sStack := (0, sz) # sStack s1, sKind := None, sSize := 0\<rparr>"
    and s2: "streamOk s2" "consumed c e s' s2"
  shows "\<exists>r s3. streamListEnd s2 = Some (r, s3) \<and> streamOk s3 \<and> (case r of Inl err \<Rightarrow> err = errNotAtEOL | Inr _ \<Rightarrow>
    sKind s3 = None \<and> moved s1 s3 \<and> weight s3 \<le> weight s' \<and> (c \<longrightarrow> src s1 = encList e @ inp s3))"
proof -
  from s2(2) obtain m where m: "advances m s' s2" by (auto simp: consumed_def moved_def)
  have st: "sStack s2 = (of_nat m, sz) # sStack s1" and i: "inp s2 = drop m (inp s1)" "m \<le> length (inp s1)"
    using m s' by (auto simp: advances_def)
  have mu: "unat (of_nat m :: u64) = m" using i(2) pend_fits(1) [OF s1] by (simp add: unat_of_nat baseOk_def)
  show ?thesis
  proof (cases "of_nat m = sz")
    case False
    then show ?thesis using st s2(1) by (simp add: streamListEnd_def failD_def)
  next
    case True
    then have msz: "m = unat sz" using mu by simp
    let ?s3 = "s2\<lparr>sStack := bump m (sStack s1), sKind := None, sSize := 0\<rparr>"
    have "(case sStack s1 of [] \<Rightarrow> [] | (pos', sz') # st' \<Rightarrow> (pos' + sz, sz') # st') = bump m (sStack s1)"
      using True by (auto split: list.split)
    then have red: "streamListEnd s2 = Some (Inr (), ?s3)" using st True by (simp add: streamListEnd_def retD_def)
    have "framesOk (bump m (sStack s1))"
    proof (rule framesOk_bump)
      fix q z st' assume a: "sStack s1 = (q, z) # st'"
      then show "unat q + m \<le> unat z" using pend_fits(1,2) [OF s1] msz framesOk_top [of q z st'] by (auto simp: fits_def baseOk_def)
    qed (use pend_fits(1) [OF s1] in \<open>simp add: baseOk_def\<close>)
    then have "streamOk ?s3" using s2(1) by (intro streamOkI) (simp_all add: streamOk_def baseOk_def)
    moreover have "advances m s1 ?s3" using i by (simp add: advances_def)
    moreover have "weight ?s3 \<le> weight s'" using s2(2) by (simp add: consumed_def weight_def)
    moreover have "src s1 = encList e @ inp ?s3" if c
    proof -
      have "inp s1 = e @ inp s2" using s2(2) that s' by (simp add: consumed_def src_def)
      then have "length (inp s1) = length e + length (inp s2)" by simp
      then have "length e = m" using i by simp
      then show ?thesis using pend_src [OF s1] \<open>inp s1 = e @ inp s2\<close> msz by (simp add: headOf_def encList_def)
    qed
    ultimately show ?thesis using red by (auto simp: moved_def)
  qed
qed

lemma list_decodes:
  assumes b: "\<And>sz. body m P E (b sz)" and n: "n \<le> Suc m"
    and g: "\<And>err. g err = EOL \<Longrightarrow> err = EOL" "\<And>err. g' err = EOL \<Longrightarrow> err = EOL"
    and h: "\<And>x. P' (h x) \<Longrightarrow> P x" "\<And>x. P' (h x) \<Longrightarrow> E' (h x) = encList (E x)"
  shows "decodes n P' E' (bindD (wrapD g streamList) (\<lambda>sz. bindD (b sz) (\<lambda>x. bindD (wrapD g' streamListEnd) (\<lambda>_. retD (h x)))))"
    (is "decodes n P' E' ?m")
  unfolding decodes_def
proof (intro allI impI)
  fix s assume s: "streamOk s \<and> weight s < n"
  from streamList_spec [of s] s obtain r s' where r: "streamList s = Some (r, s')" "streamOk s'"
    "case r of Inl err \<Rightarrow> atEnd s err s' | Inr sz \<Rightarrow> weight s' < weight s \<and> (\<exists>s1. pend List sz s1 \<and> src s1 = src s \<and> moved s s1 \<and>
       s' = s1\<lparr>sStack := (0, sz) # sStack s1, sKind := None, sSize := 0\<rparr>)" by auto
  show "\<exists>r s'. ?m s = Some (r, s') \<and> result P' E' s r s'"
  proof (cases r)
    case (Inl err)
    then show ?thesis using r g(1) by (auto simp: bindD_def wrapD_def result_def atEnd_def)
  next
    case (Inr sz)
    then obtain s1 where s1: "pend List sz s1" "src s1 = src s" "moved s s1" "weight s' < weight s"
      "s' = s1\<lparr>sStack := (0, sz) # sStack s1, sKind := None, sSize := 0\<rparr>" using r(3) by auto
    have "sKind s' = None" "weight s' < m" using s1(4,5) s n by auto
    from bodyE [OF b r(2) this] obtain q s2 where q: "b sz s' = Some (q, s2)" "streamOk s2"
      "case q of Inl err \<Rightarrow> err \<noteq> EOL | Inr x \<Rightarrow> consumed (P x) (E x) s' s2" by metis
    show ?thesis
    proof (cases q)
      case (Inl err)
      then show ?thesis using r(1) Inr q by (simp add: bindD_def wrapD_def result_Inl)
    next
      case inr: (Inr x)
      from streamListEnd_spec [OF s1(1,5) q(2)] q(3) inr obtain t s3 where t: "streamListEnd s2 = Some (t, s3)" "streamOk s3"
        "case t of Inl err \<Rightarrow> err = errNotAtEOL | Inr _ \<Rightarrow>
           sKind s3 = None \<and> moved s1 s3 \<and> weight s3 \<le> weight s' \<and> (P x \<longrightarrow> src s1 = encList (E x) @ inp s3)" by fastforce
      show ?thesis
      proof (cases t)
        case (Inl err)
        then have "g' err \<noteq> EOL" using t(3) g(2) by auto
        then show ?thesis using r(1) Inr q(1) inr t Inl by (simp add: bindD_def wrapD_def result_Inl)
      next
        case (Inr u)
        then have "result P' E' s (Inr (h x)) s3"
          using t(2,3) s1 h moved_trans [OF s1(3), of s3] by (auto simp: result_def took_def)
        then show ?thesis using r(1) \<open>r = Inr sz\<close> q(1) inr t(1) Inr by (simp add: bindD_def wrapD_def retD_def)
      qed
    qed
  qed
qed

lemma wrapD_id [simp]: "wrapD (\<lambda>err. err) m = m"
  by (rule ext) (simp add: wrapD_def split: option.split prod.split sum.split)

section \<open>Elements\<close>

lemma body_ret: "body n P E (retD x)" if "E x = []"
  using that by (auto simp: body_def retD_def consumed_def src_def)

text \<open>One element in front of more.\<close>

lemma body_cons:
  assumes s: "streamOk s" "sKind s = None" and s1: "took (P v) (E v) s s1 \<or> consumed (P v) (E v) s s1" "streamOk s1"
    and m: "\<exists>r s'. m s1 = Some (r, s') \<and> streamOk s' \<and> (case r of Inl err \<Rightarrow> err \<noteq> EOL | Inr vs \<Rightarrow> consumed (list_all P vs) (concat (map E vs)) s1 s')"
  shows "\<exists>r s'. bindD m (\<lambda>vs. retD (v # vs)) s1 = Some (r, s') \<and> streamOk s' \<and>
    (case r of Inl err \<Rightarrow> err \<noteq> EOL | Inr vs \<Rightarrow> consumed (list_all P vs) (concat (map E vs)) s s')"
proof -
  from m obtain r s' where r: "m s1 = Some (r, s')" "streamOk s'"
    "case r of Inl err \<Rightarrow> err \<noteq> EOL | Inr vs \<Rightarrow> consumed (list_all P vs) (concat (map E vs)) s1 s'" by auto
  then show ?thesis using consumed_trans [OF s1(1)] by (cases r) (auto simp: bindD_def retD_def)
qed

lemma decodeSliceElems_body:
  assumes e: "decodes n P E elemdec" and s: "streamOk s" "sKind s = None" "weight s < fuel" "weight s < n"
  shows "\<exists>r s'. decodeSliceElems fuel elemdec s = Some (r, s') \<and> streamOk s' \<and>
    (case r of Inl err \<Rightarrow> err \<noteq> EOL | Inr vs \<Rightarrow> consumed (list_all P vs) (concat (map E vs)) s s')"
  using s
proof (induction fuel arbitrary: s)
  case (Suc fuel)
  from decodesE [OF e Suc.prems(1,4)] obtain r s1 where r: "elemdec s = Some (r, s1)" "result P E s r s1" .
  show ?case
  proof (cases r)
    case (Inl err)
    then have "streamOk s1" "err = EOL \<Longrightarrow> s1 = s\<lparr>kinderr := None\<rparr>" using r(2) by (auto simp: result_def atEnd_def)
    then show ?thesis using Inl r(1) Suc.prems(2)
      by (auto simp: retD_def failD_def consumed_def src_def moved_def advances_def weight_def intro: exI [of _ 0])
  next
    case (Inr v)
    then have s1: "streamOk s1" "took (P v) (E v) s s1" "sKind s1 = None" "weight s1 < fuel" "weight s1 < n"
      using r(2) Suc.prems by (auto simp: result_def took_def)
    from body_cons [where P = P and E = E and v = v and m = "decodeSliceElems fuel elemdec", OF Suc.prems(1,2) disjI1 [OF s1(2)] s1(1) Suc.IH [OF s1(1,3,4,5)]] show ?thesis
      using Inr r(1) by simp
  qed
qed simp

lemma decodeArrayElems_body:
  assumes e: "decodes n P E elemdec" and s: "streamOk s" "sKind s = None" "weight s < n"
  shows "\<exists>r s'. decodeArrayElems k elemdec s = Some (r, s') \<and> streamOk s' \<and>
    (case r of Inl err \<Rightarrow> err \<noteq> EOL | Inr vs \<Rightarrow> consumed (list_all P vs) (concat (map E vs)) s s')"
  using s
proof (induction k arbitrary: s)
  case 0
  then show ?case by (simp add: retD_def)
next
  case (Suc k)
  from decodesE [OF e Suc.prems(1,3)] obtain r s1 where r: "elemdec s = Some (r, s1)" "result P E s r s1" .
  show ?case
  proof (cases r)
    case (Inl err)
    then have "streamOk s1" using r(2) by (simp add: result_def)
    then show ?thesis using Inl r(1) by (simp add: failD_def)
  next
    case (Inr v)
    then have s1: "streamOk s1" "took (P v) (E v) s s1" "sKind s1 = None" "weight s1 < n"
      using r(2) Suc.prems by (auto simp: result_def took_def)
    from body_cons [where P = P and E = E and v = v and m = "decodeArrayElems k elemdec", OF Suc.prems(1,2) disjI1 [OF s1(2)] s1(1) Suc.IH [OF s1(1,3,4)]] show ?thesis
      using Inr r(1) by simp
  qed
qed

lemma sliceElems:
  assumes "decodes n P E d" "n \<le> fuel"
  shows "body n (list_all P) (\<lambda>vs. concat (map E vs)) (decodeSliceElems fuel d)"
  unfolding body_def
proof (intro allI impI)
  fix s assume "streamOk s \<and> sKind s = None \<and> weight s < n"
  with assms(2) show "\<exists>r s'. decodeSliceElems fuel d s = Some (r, s') \<and> streamOk s' \<and>
    (case r of Inl err \<Rightarrow> err \<noteq> EOL | Inr vs \<Rightarrow> consumed (list_all P vs) (concat (map E vs)) s s')"
    by (intro decodeSliceElems_body [OF assms(1)]) auto
qed

lemma arrayElems:
  assumes "decodes n P E d"
  shows "body n (list_all P) (\<lambda>vs. concat (map E vs)) (decodeArrayElems k d)"
  unfolding body_def using decodeArrayElems_body [OF assms] by blast

section \<open>Types\<close>

text \<open>The types the decoder handles: integers of at most 64 bits and no arrays of one byte.\<close>

fun typeOk :: "rtype \<Rightarrow> bool" where
  "typeOk (UintT bits) = (bits \<le> 64)"
| "typeOk (ByteArrayT k) = (k \<noteq> 1 \<and> k < 2 ^ 63)"
| "typeOk (SliceT t) = typeOk t"
| "typeOk (ArrayT k t) = typeOk t"
| "typeOk (StructT fs) = (\<forall>f \<in> set fs. typeOk (snd f))"
| "typeOk (PtrT t) = typeOk t"
| "typeOk t = True"

fun noNil :: "rval \<Rightarrow> bool" and noNils :: "rval list \<Rightarrow> bool" where
  "noNil (NilPtrV t) = False"
| "noNil (ListV isTail vs) = noNils vs"
| "noNil (StructV vs) = noNils vs"
| "noNil (PtrV v) = noNil v"
| "noNil (InterfaceV (Some v)) = noNil v"
| "noNil v = True"
| "noNils [] = True"
| "noNils (v # vs) = (noNil v \<and> noNils vs)"

lemma noNils_all: "noNils vs = list_all noNil vs"
  by (induction vs) simp_all

lemma encVals_concat: "encVals vs = concat (map encVal vs)"
  by (induction vs) simp_all

abbreviation decodesVal :: "nat \<Rightarrow> rval dec \<Rightarrow> bool" where
  "decodesVal n d \<equiv> decodes n noNil encVal d"

lemma decodes_weaken: "decodes n (\<lambda>_. True) E m \<Longrightarrow> decodes n P E m"
  unfolding decodes_def result_def took_def by (fastforce split: sum.splits)

lemma wrapped_bytes: "decodes n (\<lambda>_. True) encBytes (wrapD wrapStreamError streamBytes)"
  by (rule wrap_decodes [OF streamBytes_decodes wrapStreamError_EOL])

lemma base_decodes:
  "decodesVal n decodeRawValue" "decodesVal n decodeBigInt" "decodesVal n decodeBool" "decodesVal n decodeString"
  "decodesVal n decodeByteSlice" "bits \<le> 64 \<Longrightarrow> decodesVal n (decodeUint bits)"
  "k \<noteq> 1 \<Longrightarrow> k < 2 ^ 63 \<Longrightarrow> decodesVal n (decodeByteArray k)"
proof -
  show "decodesVal n decodeRawValue" unfolding decodeRawValue_def by (rule map_decodes [OF streamRaw_decodes]) simp_all
  show "decodesVal n decodeBigInt" by (rule decodes_weaken [OF decodeBigInt_decodes])
  show "decodesVal n decodeBool" unfolding decodeBool_def
    by (rule map_decodes [OF wrap_decodes [OF streamBool_decodes wrapStreamError_EOL]]) simp_all
  show "decodesVal n decodeString" unfolding decodeString_def by (rule map_decodes [OF wrapped_bytes]) simp_all
  show "decodesVal n decodeByteSlice" unfolding decodeByteSlice_def by (rule map_decodes [OF wrapped_bytes]) simp_all
  show "bits \<le> 64 \<Longrightarrow> decodesVal n (decodeUint bits)" unfolding decodeUint_def
    by (rule map_decodes [OF wrap_decodes [OF streamUint_decodes wrapStreamError_EOL]]) (simp_all add: encUint_def)
  show "k \<noteq> 1 \<Longrightarrow> k < 2 ^ 63 \<Longrightarrow> decodesVal n (decodeByteArray k)"
    by (rule decodes_weaken [OF decodeByteArray_decodes])
qed

lemma bindD_assoc_if:
  "(if c then bindD e (\<lambda>_. retD (f [])) else bindD d (\<lambda>vs. bindD e (\<lambda>_. retD (f vs)))) =
   bindD (if c then retD [] else d) (\<lambda>vs. bindD e (\<lambda>_. retD (f vs)))"
  by (rule ext) (simp add: bindD_def retD_def)

lemma decodeListSlice_decodes:
  assumes "decodesVal m d" "n \<le> Suc m" "m \<le> fuel"
  shows "decodesVal n (decodeListSlice fuel d)"
proof -
  have b: "body m (list_all noNil) (\<lambda>vs. concat (map encVal vs)) (if sz = 0 then retD [] else decodeSliceElems fuel d)" for sz :: u64
    using sliceElems [OF assms(1,3)] by (cases "sz = 0") (simp_all add: body_ret)
  show ?thesis
    unfolding decodeListSlice_def bindD_assoc_if
    using list_decodes [OF b assms(2) wrapStreamError_EOL, where g' = "\<lambda>err. err" and P' = noNil and E' = encVal and h = "ListV False"]
    by (simp add: noNils_all encVals_concat)
qed

lemma decodeListArray_decodes: "decodesVal n d \<Longrightarrow> decodesVal n (decodeListArray k d)"
  unfolding decodeListArray_def
  by (rule list_decodes [OF arrayElems]) (auto simp: noNils_all encVals_concat dest: wrapStreamError_EOL)

lemma decodeInterface_decodes: "decodesVal n (decodeInterface n)"
proof (induction n)
  case 0
  then show ?case by (simp add: decodes_def)
next
  case (Suc n)
  have l: "decodesVal (Suc n) (bindD (decodeListSlice (Suc n) (decodeInterface n)) (\<lambda>v. retD (InterfaceV (Some v))))"
    by (rule map_decodes [OF decodeListSlice_decodes [OF Suc.IH]]) simp_all
  have b: "decodesVal (Suc n) (bindD streamBytes (\<lambda>b. retD (InterfaceV (Some (BytesV b)))))"
    by (rule map_decodes [OF streamBytes_decodes]) simp_all
  have "decodesVal (Suc n) (bindD streamKind (\<lambda>(kind, _).
       if kind = List then bindD (decodeListSlice (Suc n) (decodeInterface n)) (\<lambda>v. retD (InterfaceV (Some v)))
       else bindD streamBytes (\<lambda>b. retD (InterfaceV (Some (BytesV b))))))"
    by (rule kind_bind) (use l b in \<open>auto simp: decodes_def pend_def\<close>)
  moreover have "decodeInterface (Suc n) = bindD streamKind (\<lambda>(kind, _).
       if kind = List then bindD (decodeListSlice (Suc n) (decodeInterface n)) (\<lambda>v. retD (InterfaceV (Some v)))
       else bindD streamBytes (\<lambda>b. retD (InterfaceV (Some (BytesV b)))))"
    by (rule ext) simp
  ultimately show ?case by metis
qed

lemma rearm_idle: "sKind s = None \<Longrightarrow> rearm s = s"
  by (simp add: rearm_def)

lemma decodeOptionalPtr_decodes:
  assumes "decodesVal n d"
  shows "decodesVal n (decodeOptionalPtr t d)"
  unfolding decodes_def
proof (intro allI impI)
  fix s assume s: "streamOk s \<and> weight s < n"
  from streamKind_spec [of s] s obtain r s1 where r: "streamKind s = Some (r, s1)" "streamOk s1"
    "case r of Inl err \<Rightarrow> atEnd s err s1 | Inr (k, sz) \<Rightarrow> kindDone s k sz s1" by auto
  note ok = streamOkD [OF r(2)]
  show "\<exists>r s'. decodeOptionalPtr t d s = Some (r, s') \<and> result noNil encVal s r s'"
  proof (cases r)
    case (Inl err)
    then show ?thesis using r ok by (auto simp: decodeOptionalPtr_def failD_def result_def atEnd_def rearm_idle)
  next
    case (Inr kz)
    obtain k sz where kz: "kz = (k, sz)" by fastforce
    then have kd: "kindDone s k sz s1" using r(3) Inr by simp
    show ?thesis
    proof (cases "sz = 0 \<and> k \<noteq> Byte")
      case True
      have "result noNil encVal s (Inr (NilPtrV t)) (rearm s1)"
        using kd ok moved_trans [OF _ moved_rearm, of s s1] by (auto simp: result_def took_def kindDone_def weight_def)
      then show ?thesis using True r(1) Inr kz by (simp add: decodeOptionalPtr_def retD_def)
    next
      case False
      have "decodesVal n (bindD d (\<lambda>v. retD (PtrV v)))" by (rule map_decodes [OF assms]) simp_all
      moreover have "weight s1 < n" using s kd by (simp add: kindDone_def)
      ultimately obtain q s' where q: "bindD d (\<lambda>v. retD (PtrV v)) s1 = Some (q, s')" "result noNil encVal s1 q s'"
        using r(2) by (auto simp: decodes_def)
      have "result noNil encVal s q s'"
        using q(2) kd moved_trans [of s s1 s'] by (cases q) (auto simp: result_def took_def kindDone_def atEnd_def)
      then show ?thesis using False r(1) Inr kz q(1) by (auto simp: decodeOptionalPtr_def)
    qed
  qed
qed

text \<open>A field of a structure, with or without the tail tag.\<close>

definition isTail :: "tags \<Rightarrow> rtype \<Rightarrow> bool" where
  "isTail ts t \<longleftrightarrow> tail ts \<and> (\<exists>u. t = SliceT u)"

definition fieldError :: "rlpError \<Rightarrow> rlpError" where
  "fieldError err = (if err = EOL then decodeError ''too few elements'' else err)"

lemma field_body:
  assumes "if isTail ts t then body n noNil encVal m else decodesVal n m"
  shows "body n noNil encVal (wrapD fieldError m)"
  unfolding body_def
proof (intro allI impI)
  fix s assume s: "streamOk s \<and> sKind s = None \<and> weight s < n"
  have "\<exists>r s'. m s = Some (r, s') \<and> streamOk s' \<and> (case r of Inl err \<Rightarrow> True | Inr v \<Rightarrow> consumed (noNil v) (encVal v) s s')"
  proof (cases "isTail ts t")
    case True
    then have "body n noNil encVal m" using assms by simp
    from bodyE [OF this] s obtain r s' where "m s = Some (r, s')" "streamOk s'"
      "case r of Inl err \<Rightarrow> err \<noteq> EOL | Inr v \<Rightarrow> consumed (noNil v) (encVal v) s s'" by metis
    then show ?thesis by (cases r) auto
  next
    case False
    then have "decodesVal n m" using assms by simp
    from decodesE [OF this] s obtain r s' where "m s = Some (r, s')" "result noNil encVal s r s'" by metis
    then show ?thesis by (cases r) (auto simp: result_def took_def consumed_def)
  qed
  then obtain r s' where r: "m s = Some (r, s')" "streamOk s'"
    "case r of Inl err \<Rightarrow> True | Inr v \<Rightarrow> consumed (noNil v) (encVal v) s s'" by auto
  then show "\<exists>r s'. wrapD fieldError m s = Some (r, s') \<and> streamOk s' \<and>
    (case r of Inl err \<Rightarrow> err \<noteq> EOL | Inr v \<Rightarrow> consumed (noNil v) (encVal v) s s')"
    by (cases r) (simp_all add: wrapD_def fieldError_def)
qed

lemma fields_cons:
  assumes f: "body n noNil encVal m" and fs: "body n noNils encVals ms"
  shows "body n noNils encVals (bindD m (\<lambda>v. bindD ms (\<lambda>vs. retD (v # vs))))"
  unfolding body_def
proof (intro allI impI)
  fix s assume s: "streamOk s \<and> sKind s = None \<and> weight s < n"
  with bodyE [OF f] obtain r s1 where r: "m s = Some (r, s1)" "streamOk s1"
    "case r of Inl err \<Rightarrow> err \<noteq> EOL | Inr v \<Rightarrow> consumed (noNil v) (encVal v) s s1" by metis
  show "\<exists>r s'. bindD m (\<lambda>v. bindD ms (\<lambda>vs. retD (v # vs))) s = Some (r, s') \<and> streamOk s' \<and>
    (case r of Inl err \<Rightarrow> err \<noteq> EOL | Inr vs \<Rightarrow> consumed (noNils vs) (encVals vs) s s')"
  proof (cases r)
    case (Inl err)
    then show ?thesis using r by (simp add: bindD_def)
  next
    case (Inr v)
    then have c: "consumed (noNil v) (encVal v) s s1" using r(3) by simp
    then have "sKind s1 = None" "weight s1 < n" using s by (auto simp: consumed_def)
    from bodyE [OF fs r(2) this] obtain q s' where q: "ms s1 = Some (q, s')" "streamOk s'"
      "case q of Inl err \<Rightarrow> err \<noteq> EOL | Inr vs \<Rightarrow> consumed (noNils vs) (encVals vs) s1 s'" by metis
    then show ?thesis using r(1) Inr consumed_trans [OF disjI2 [OF c]] by (cases q) (auto simp: bindD_def retD_def)
  qed
qed

lemma decoder_decodes:
  "typeOk t \<Longrightarrow> if isTail ts t then body n noNil encVal (decoder n ts t) else decodesVal n (decoder n ts t)"
  "\<forall>f \<in> set fs. typeOk (snd f) \<Longrightarrow> body n noNils encVals (decodeFields n fs)"
proof (induction n ts t and n fs rule: decoder_decodeFields.induct)
  case (8 n ts t)
  let ?d = "decoder n \<lparr>nilOK = False, tail = False\<rparr> t"
  have d: "decodesVal n ?d"
    using 8 by (cases "tail ts") (auto simp: isTail_def)
  show ?case
  proof (cases "tail ts")
    case True
    have "body n noNil encVal (bindD (decodeSliceElems n ?d) (\<lambda>vs. retD (ListV True vs)))"
      unfolding body_def
    proof (intro allI impI)
      fix s assume s: "streamOk s \<and> sKind s = None \<and> weight s < n"
      with decodeSliceElems_body [OF d, of s n] obtain r s' where "decodeSliceElems n ?d s = Some (r, s')" "streamOk s'"
        "case r of Inl err \<Rightarrow> err \<noteq> EOL | Inr vs \<Rightarrow> consumed (list_all noNil vs) (concat (map encVal vs)) s s'" by auto
      then show "\<exists>r s'. bindD (decodeSliceElems n ?d) (\<lambda>vs. retD (ListV True vs)) s = Some (r, s') \<and> streamOk s' \<and>
        (case r of Inl err \<Rightarrow> err \<noteq> EOL | Inr v \<Rightarrow> consumed (noNil v) (encVal v) s s')"
        by (cases r) (auto simp: bindD_def retD_def noNils_all encVals_concat)
    qed
    then show ?thesis using True by (simp add: isTail_def)
  next
    case False
    then show ?thesis using decodeListSlice_decodes [OF d] by (simp add: isTail_def)
  qed
next
  case (9 n ts k t)
  then show ?case using decodeListArray_decodes [of n "decoder n \<lparr>nilOK = False, tail = False\<rparr> t" k] by (simp add: isTail_def)
next
  case (10 n ts fs)
  then have "body n noNils encVals (decodeFields n fs)" by simp
  from list_decodes [OF this _ wrapStreamError_EOL wrapStreamError_EOL, where n = n and P' = noNil and h = StructV and E' = encVal] show ?case
    by (simp add: isTail_def)
next
  case (11 n ts t)
  have d: "decodesVal n (decoder n \<lparr>nilOK = False, tail = False\<rparr> t)"
    using 11 by (cases "nilOK ts") (auto simp: isTail_def)
  then have "decodesVal n (bindD (decoder n \<lparr>nilOK = False, tail = False\<rparr> t) (\<lambda>v. retD (PtrV v)))"
    by (rule map_decodes) simp_all
  then show ?case using decodeOptionalPtr_decodes [OF d] by (simp add: isTail_def)
next
  case (13 n)
  then show ?case by (simp add: body_ret)
next
  case (14 n ts t fs)
  from fields_cons [OF field_body [OF 14(1)] 14(2)] 14(3) show ?case by (simp add: fieldError_def [abs_def])
qed (simp_all add: isTail_def base_decodes decodeInterface_decodes)

section \<open>Whole inputs\<close>

lemma NewStream_ok:
  assumes "length b < 2 ^ 62"
  shows "streamOk (NewStream b (of_nat (length b)))" "weight (NewStream b (of_nat (length b))) = length b"
    "src (NewStream b (of_nat (length b))) = b"
proof -
  have "unat (of_nat (length b) :: u64) = length b" using assms by (simp add: unat_of_nat)
  then show "streamOk (NewStream b (of_nat (length b)))" using assms by (simp add: streamOk_def baseOk_def NewStream_def)
  show "weight (NewStream b (of_nat (length b))) = length b" by (simp add: weight_def NewStream_def)
  show "src (NewStream b (of_nat (length b))) = b" by (simp add: src_def NewStream_def)
qed

abbreviation noTags :: tags where
  "noTags \<equiv> \<lparr>nilOK = False, tail = False\<rparr>"

lemma decoder_top:
  assumes "typeOk t" "length b < 2 ^ 62" "length b < n"
  obtains r s' where "decoder n noTags t (NewStream b (of_nat (length b))) = Some (r, s')"
    "result noNil encVal (NewStream b (of_nat (length b))) r s'"
  using decodesE [of n noNil encVal "decoder n noTags t" "NewStream b (of_nat (length b))"] decoder_decodes(1) [OF assms(1), of noTags n]
    NewStream_ok [OF assms(2)] assms(3)
  by (auto simp: isTail_def)

text \<open>Decoded values can be encoded.\<close>

definition gives :: "('a \<Rightarrow> bool) \<Rightarrow> 'a dec \<Rightarrow> bool" where
  "gives Q m \<longleftrightarrow> (\<forall>s v s'. m s = Some (Inr v, s') \<longrightarrow> Q v)"

lemma gives_bind: "(\<And>x. gives Q (f x)) \<Longrightarrow> gives Q (bindD m f)"
  by (auto simp: gives_def bindD_def split: option.splits prod.splits sum.splits)

lemma gives_bind2: "gives R m \<Longrightarrow> (\<And>x. R x \<Longrightarrow> gives Q (f x)) \<Longrightarrow> gives Q (bindD m f)"
  by (fastforce simp: gives_def bindD_def split: option.splits prod.splits sum.splits)

lemma gives_ret: "Q v \<Longrightarrow> gives Q (retD v)"
  by (auto simp: gives_def retD_def)

lemma gives_fail: "gives Q (failD err)"
  by (auto simp: gives_def failD_def)

lemma gives_wrap: "gives Q m \<Longrightarrow> gives Q (wrapD g m)"
  by (fastforce simp: gives_def wrapD_def split: option.splits prod.splits sum.splits)

lemma encodables_all: "encodables vs = list_all encodable vs"
  by (induction vs) simp_all

lemma gives_step: "gives R d \<Longrightarrow> (\<And>x. R x \<Longrightarrow> gives Q (f (Inr x))) \<Longrightarrow> (\<And>err. gives Q (f (Inl err))) \<Longrightarrow> gives Q (\<lambda>s. d s \<bind> (\<lambda>(r, s). f r s))"
  unfolding gives_def by (auto simp: bind_eq_Some_conv) (metis sum.exhaust)

lemma gives_True: "gives (\<lambda>_. True) m"
  by (simp add: gives_def)

lemma gives_cons: "encodable v \<Longrightarrow> gives encodables m \<Longrightarrow> gives encodables (bindD m (\<lambda>vs. retD (v # vs)))"
  by (rule gives_bind2 [where R = encodables]) (simp_all add: gives_ret)

lemma gives_if: "gives Q f \<Longrightarrow> gives Q g \<Longrightarrow> gives Q (\<lambda>s. if c then f s else g s)"
  by (cases c) simp_all

lemma gives_elems:
  assumes d: "gives encodable d"
  shows "gives encodables (decodeSliceElems n d)" "gives encodables (decodeArrayElems k d)"
proof -
  have e: "gives encodables (\<lambda>s. d s \<bind> (\<lambda>(r, s). case r of Inl err \<Rightarrow> (if err = EOL then m1 s else failD err s)
      | Inr v \<Rightarrow> bindD m (\<lambda>vs. retD (v # vs)) s))" if "gives encodables m" "gives encodables m1" for m m1
    by (rule gives_step [OF d]) (simp_all add: that gives_cons gives_if gives_fail)
  show "gives encodables (decodeSliceElems n d)"
  proof (induction n)
    case (Suc n)
    then show ?case using e [of "decodeSliceElems n d" "retD []"] gives_ret [of encodables "[]"] by (simp add: gives_def)
  qed (simp add: gives_def)
  show "gives encodables (decodeArrayElems k d)"
  proof (induction k)
    case (Suc k)
    then show ?case using e [OF Suc gives_fail [of encodables "decodeError ''input list has too few elements''"]]
      by (simp add: gives_def)
  qed (simp add: gives_def retD_def)
qed

lemma gives_list:
  assumes "gives encodable d"
  shows "gives encodable (decodeListSlice n d)" "gives encodable (decodeListArray k d)"
proof -
  have "gives encodables (if sz = 0 then retD [] else decodeSliceElems n d)" for sz :: u64
    using gives_elems(1) [OF assms] by (auto intro: gives_ret)
  then show "gives encodable (decodeListSlice n d)"
    unfolding decodeListSlice_def bindD_assoc_if by (intro gives_bind gives_bind2 gives_ret) auto
  show "gives encodable (decodeListArray k d)"
    unfolding decodeListArray_def by (intro gives_bind gives_bind2 [OF gives_elems(2) [OF assms]] gives_ret) simp
qed

lemma gives_interface: "gives encodable (decodeInterface n)"
proof (induction n)
  case (Suc n)
  have "gives encodable (bindD streamKind (\<lambda>(kind, _).
       if kind = List then bindD (decodeListSlice (Suc n) (decodeInterface n)) (\<lambda>v. retD (InterfaceV (Some v)))
       else bindD streamBytes (\<lambda>b. retD (InterfaceV (Some (BytesV b))))))"
    by (intro gives_bind) (auto intro!: gives_bind2 [OF gives_list(1) [OF Suc]] gives_ret intro: gives_bind split: prod.split)
  then show ?case by (simp add: gives_def)
qed (simp add: gives_def)

lemma gives_optional:
  assumes "gives encodable d"
  shows "gives encodable (decodeOptionalPtr t d)"
proof -
  have p: "gives encodable (bindD d (\<lambda>v. retD (PtrV v)))" by (rule gives_bind2 [OF assms]) (simp add: gives_ret)
  have "gives encodable (\<lambda>s. streamKind s \<bind> (\<lambda>(r, s). case r of Inl err \<Rightarrow> failD err (rearm s)
     | Inr (kind, sz) \<Rightarrow> if sz = 0 \<and> kind \<noteq> Byte then retD (NilPtrV t) (rearm s) else bindD d (\<lambda>v. retD (PtrV v)) s))"
    by (rule gives_step [OF gives_True])
      (auto simp: retD_def failD_def split: prod.split intro!: gives_if p, auto simp: gives_def)
  then show ?thesis by (simp add: gives_def decodeOptionalPtr_def)
qed

lemma gives_byteArray: "gives encodable (decodeByteArray k)"
  unfolding decodeByteArray_def
proof (intro gives_bind, unfold split_beta)
  fix x :: "Kind \<times> u64"
  have u: "gives encodable (\<lambda>s. streamUint 64 s \<bind> (\<lambda>xa. retD (BytesV [case fst xa of Inl _ \<Rightarrow> 0 | Inr bv \<Rightarrow> ucast bv]) (snd xa)))"
    by (auto simp: gives_def retD_def bind_eq_Some_conv)
  have b: "gives encodable (bindD (readFull k) (\<lambda>b. if c \<and> b ! 0 < 128 then failD err else retD (BytesV b)))" for c err
    by (intro gives_bind) (auto intro: gives_ret gives_fail)
  show "gives encodable (\<lambda>s. case fst x of
       Byte \<Rightarrow> if k = 0 then failD (decodeError ''input string too long'') s
         else if 1 < k then failD (decodeError ''input string too short'') s
         else streamUint 64 s \<bind> (\<lambda>xa. retD (BytesV [case fst xa of Inl _ \<Rightarrow> 0 | Inr bv \<Rightarrow> ucast bv]) (snd xa))
     | String \<Rightarrow> if of_nat k < snd x then failD (decodeError ''input string too long'') s
         else if snd x < of_nat k then failD (decodeError ''input string too short'') s
         else bindD (readFull k) (\<lambda>b. if snd x = 1 \<and> b ! 0 < 128 then failD (wrapStreamError ErrCanonSize) else retD (BytesV b)) s
     | List \<Rightarrow> failD (wrapStreamError ErrExpectedString) s)"
    by (cases "fst x") (simp_all only: Kind.case, intro gives_if gives_fail u b, intro gives_if gives_fail u b, rule gives_fail)
qed

lemma gives_decoder: "gives encodable (decoder n ts t)" "gives encodables (decodeFields n fs)"
proof (induction n ts t and n fs rule: decoder_decodeFields.induct)
  case (2 n ts)
  then show ?case by (auto simp: decodeBigInt_def intro!: gives_bind gives_fail gives_ret)
next
  case (8 n ts t)
  then show ?case using gives_list(1) by (auto intro!: gives_bind2 [OF gives_elems(1)] gives_ret)
next
  case (10 n ts fs)
  show ?case unfolding decoder.simps by (intro gives_bind gives_bind2 [OF 10] gives_ret) simp
next
  case (11 n ts t)
  then show ?case by (auto intro!: gives_ret intro: gives_optional gives_bind2)
next
  case (14 n ts t fs)
  show ?case unfolding decodeFields.simps by (intro gives_bind2 [OF gives_wrap [OF 14(1)]] gives_bind2 [OF 14(2)] gives_ret) simp
qed (auto simp: decodeRawValue_def decodeUint_def decodeBool_def decodeString_def decodeByteSlice_def gives_list gives_interface gives_byteArray
      intro!: gives_bind gives_ret)

text \<open>C18. Decoding always returns: for every input and every type without arrays of one byte, the stream, the
  element loops and the nesting of interfaces end, and no allocation or slice expression panics.\<close>

theorem decode_returns:
  assumes "typeOk t" "length b < 2 ^ 62" "length b < n"
  shows "\<exists>r. DecodeBytes n b t = Some r"
proof -
  from decoder_top [OF assms] obtain r s' where "decoder n noTags t (NewStream b (of_nat (length b))) = Some (r, s')" .
  then show ?thesis by (simp add: DecodeBytes_def)
qed

theorem decode_returns_witness:
  "typeOk (StructT [(noTags, UintT 64), (\<lparr>nilOK = False, tail = True\<rparr>, SliceT ByteSliceT)]) \<and>
   (\<exists>r. DecodeBytes 4 [0xC2, 5, 6] (StructT [(noTags, UintT 64), (\<lparr>nilOK = False, tail = True\<rparr>, SliceT ByteSliceT)]) = Some r)"
  using decode_returns [of "StructT [(noTags, UintT 64), (\<lparr>nilOK = False, tail = True\<rparr>, SliceT ByteSliceT)]" "[0xC2, 5, 6]" 4]
  by simp

text \<open>C16. No malleability: for every type without arrays of one byte, the decoder accepts an input below
  \<open>2 ^ 62\<close> bytes only if it is the encoding of the value it returns, so every value without nil pointers has exactly
  one accepted encoding. The two exceptions are real: an empty string and an empty list both decode to a nil pointer,
  and arrays of one byte are malleable (\<open>one_byte_arrays_malleable\<close>).\<close>

theorem decode_canonical:
  assumes "typeOk t" "length b < 2 ^ 62" "length b < n"
    and "DecodeBytes n b t = Some (Inr v)" "noNil v"
  shows "EncodeToBytes v = Some (Inr b)"
proof -
  let ?s = "NewStream b (of_nat (length b))"
  from decoder_top [OF assms(1-3)] obtain r s' where r: "decoder n noTags t ?s = Some (r, s')" "result noNil encVal ?s r s'" .
  with assms(4) have v: "r = Inr v" "inp s' = []" by (auto simp: DecodeBytes_def split: sum.splits if_splits)
  then have "encVal v = b" using r(2) assms(5) NewStream_ok(3) [OF assms(2)] by (simp add: result_def took_def)
  moreover have "encodable v" using gives_decoder(1) [of n noTags t] r(1) v(1) by (auto simp: gives_def)
  ultimately show ?thesis using encode_ok(1) [of v] assms(2) by simp
qed

theorem decode_canonical_witness:
  "EncodeToBytes (StructV [UintV 5, ListV True [BytesV [6]]]) = Some (Inr [0xC2, 5, 6])"
proof -
  let ?t = "StructT [(noTags, UintT 64), (\<lparr>nilOK = False, tail = True\<rparr>, SliceT ByteSliceT)]"
  have "DecodeBytes 4 [0xC2, 5, 6] ?t = Some (Inr (StructV [UintV 5, ListV True [BytesV [6]]]))" by code_simp
  from decode_canonical [OF _ _ _ this] show ?thesis by simp
qed

text \<open>Arrays of one byte are outside of the theorem above for a reason. A zero byte read into such an array stays
  pending, because the error of \<open>Uint\<close> is dropped, and fills the next field as well: the value that comes out of
  \<open>C1 00\<close> encodes as \<open>C2 00 00\<close>.\<close>

lemma one_byte_arrays_malleable:
  "DecodeBytes 10 [0xC1, 0x00] (StructT [(noTags, ByteArrayT 1), (noTags, ByteSliceT)]) = Some (Inr (StructV [BytesV [0], BytesV [0]])) \<and>
   EncodeToBytes (StructV [BytesV [0], BytesV [0]]) = Some (Inr [0xC2, 0x00, 0x00])"
  by code_simp

text \<open>C38. A slice of arrays of one byte: decoding the two bytes of an encoded list with one zero byte never
  ends. The dropped error of \<open>Uint\<close> leaves the zero byte pending, and it is decoded again and again.\<close>

theorem one_byte_arrays_loop: "DecodeBytes n [0xC1, 0x00] (SliceT (ByteArrayT 1)) = None"
proof -
  let ?s = "\<lparr>inp = [], remaining = 0, limited = True, sKind = Some Byte, sSize = 0, byteval = 0, kinderr = None, sStack = [(1, 1)]\<rparr>"
  have k: "streamKind ?s = Some (Inr (Byte, 0), ?s)" by (simp add: streamKind_def kindResult_def retD_def)
  have e: "decodeByteArray 1 ?s = Some (Inr (BytesV [0]), ?s)"
    by (simp add: decodeByteArray_def streamUint_def bindD_def k failD_def retD_def)
  have loop: "decodeSliceElems m (decodeByteArray 1) ?s = None" for m
    by (induction m) (simp_all add: e [simplified] bindD_def)
  let ?s1 = "\<lparr>inp = [0], remaining = 1, limited = True, sKind = None, sSize = 0, byteval = 0, kinderr = None, sStack = [(0, 1)]\<rparr>"
  have l: "streamList (NewStream [0xC1, 0x00] 2) = Some (Inr 1, ?s1)" by code_simp
  have f: "decodeByteArray 1 ?s1 = Some (Inr (BytesV [0]), ?s)" by code_simp
  have "decodeSliceElems n (decodeByteArray 1) ?s1 = None"
    by (cases n) (simp_all add: f [simplified] loop [simplified] bindD_def)
  then show ?thesis using l by (simp add: DecodeBytes_def decodeListSlice_def bindD_def wrapD_def)
qed

end
