(* ===== verification/RlpRound.thy ===== *)
theory RlpRound
  imports RlpProps
begin

text \<open>
  The decoder of package \<open>rlp\<close> accepts what the encoder wrote: decoding an encoded value of a type with
  that type gives the value back. The header readers of \<open>rlp/raw.go\<close> take the same encodings apart.
\<close>

section \<open>Headers are prefix free\<close>

lemma refHead_first:
  assumes "n < 2 ^ 64"
  shows "hd (refHead small large n) = (if n < 56 then small + of_nat n else large + of_nat (length (nat_be n)))"
    "n \<ge> 56 \<Longrightarrow> 1 \<le> length (nat_be n) \<and> length (nat_be n) \<le> 8"
proof -
  show "hd (refHead small large n) = (if n < 56 then small + of_nat n else large + of_nat (length (nat_be n)))"
    by (simp add: refHead_def)
  show "n \<ge> 56 \<Longrightarrow> 1 \<le> length (nat_be n) \<and> length (nat_be n) \<le> 8"
    using nat_be_length_le [of n 8] nat_be_eq_Nil [of n] assms by (cases "nat_be n") auto
qed

definition firstByte :: "Kind \<Rightarrow> u64 \<Rightarrow> byte \<Rightarrow> nat" where
  "firstByte k sz bv = (case k of Byte \<Rightarrow> unat bv
     | String \<Rightarrow> (if unat sz < 56 then 128 + unat sz else 183 + length (nat_be (unat sz)))
     | List \<Rightarrow> (if unat sz < 56 then 192 + unat sz else 247 + length (nat_be (unat sz))))"

lemma length_nat_be_ge: "unat (sz :: u64) \<ge> 56 \<Longrightarrow> 1 \<le> length (nat_be (unat sz)) \<and> length (nat_be (unat sz)) \<le> 8"
  using refHead_first(2) [of "unat sz"] unat_u64_less [of sz] by simp

lemma unat_tag: "unat (c :: byte) + n < 256 \<Longrightarrow> unat (c + of_nat n) = unat c + n"
  by (simp add: unat_word_ariths unat_of_nat mod_simps)

lemma headOf_Cons:
  "\<exists>b. headOf k sz bv = b # (if k \<noteq> Byte \<and> 56 \<le> unat sz then nat_be (unat sz) else []) \<and> unat b = firstByte k sz bv"
proof (cases "unat sz < 56")
  case True
  then show ?thesis using unat_tag [of "0x80" "unat sz"] unat_tag [of "0xC0" "unat sz"]
    by (cases k) (simp_all add: headOf_def refHead_def firstByte_def)
next
  case False
  then show ?thesis using length_nat_be_ge [of sz]
    by (cases k) (simp_all add: headOf_def refHead_def firstByte_def unat_tag)
qed

lemma headOf_inj:
  assumes "headOf k sz bv @ r = headOf k' sz' bv' @ r'" "validHead k sz bv" "validHead k' sz' bv'"
  shows "k = k' \<and> sz = sz' \<and> (k = Byte \<longrightarrow> bv = bv') \<and> r = r'"
proof -
  from headOf_Cons [of k sz bv] obtain b where b: "headOf k sz bv = b # (if k \<noteq> Byte \<and> 56 \<le> unat sz then nat_be (unat sz) else [])"
    "unat b = firstByte k sz bv" by auto
  from headOf_Cons [of k' sz' bv'] obtain b' where b': "headOf k' sz' bv' = b' # (if k' \<noteq> Byte \<and> 56 \<le> unat sz' then nat_be (unat sz') else [])"
    "unat b' = firstByte k' sz' bv'" by auto
  have e: "firstByte k sz bv = firstByte k' sz' bv'" using assms(1) b b' by auto
  note v = assms(2,3) [unfolded validHead_def] length_nat_be_ge [of sz] length_nat_be_ge [of sz']
  have k: "k = k' \<and> (56 \<le> unat sz \<longleftrightarrow> 56 \<le> unat sz')"
    using e v by (cases k; cases k'; cases "56 \<le> unat sz"; cases "56 \<le> unat sz'") (auto simp: firstByte_def word_less_nat_alt)
  show ?thesis
  proof (cases "k \<noteq> Byte \<and> 56 \<le> unat sz")
    case True
    have "length (nat_be (unat sz)) = length (nat_be (unat sz'))"
      using e k True by (cases k) (auto simp: firstByte_def)
    then have "nat_be (unat sz) = nat_be (unat sz')" "r = r'" using assms(1) b(1) b'(1) k True by auto
    then have "unat sz = unat sz'" by (metis be_nat_nat_be)
    then show ?thesis using k True \<open>r = r'\<close> by (simp add: word_unat_eq_iff)
  next
    case False
    then have "r = r'" using assms(1) b(1) b'(1) k by auto
    moreover have "sz = sz' \<and> (k = Byte \<longrightarrow> bv = bv')"
      using e k False v by (cases k) (auto simp: firstByte_def word_unat_eq_iff)
    ultimately show ?thesis using k by simp
  qed
qed

section \<open>Accepting a header\<close>

lemma fits_bump:
  assumes "baseOk s" "fits (a + b) (sStack s)"
  shows "fits a (sStack s)" "fits b (bump a (sStack s))"
proof -
  show "fits a (sStack s)" using assms(2) by (auto simp: fits_def split: list.splits)
  show "fits b (bump a (sStack s))"
  proof (cases "sStack s")
    case (Cons f st)
    then obtain p z where f: "sStack s = (p, z) # st" by (cases f) auto
    then have "unat p \<le> unat z \<and> unat z < 2 ^ 62" "a + b \<le> unat z - unat p"
      using assms framesOk_top [of p z st] by (auto simp: baseOk_def fits_def)
    then have "unat p + a < 2 ^ 64" "a + b + unat p \<le> unat z" by auto
    then have "unat (p + of_nat a) = unat p + a" by (simp add: unat_word_ariths unat_of_nat mod_simps)
    then show ?thesis using f \<open>a + b + unat p \<le> unat z\<close> by (simp add: fits_def)
  qed (simp add: fits_def)
qed

lemma streamReadKind_accepts:
  assumes s: "baseOk s" and i: "inp s = headOf k sz bv @ rest" and v: "validHead k sz bv" and f: "fits (length (headOf k sz bv)) (sStack s)"
  shows "\<exists>s'. streamReadKind s = Some ((k, sz, None), s')"
proof -
  let ?tl = "if k \<noteq> Byte \<and> 56 \<le> unat sz then nat_be (unat sz) else []"
  from headOf_Cons [of k sz bv] obtain b where b: "headOf k sz bv = b # ?tl" "unat b = firstByte k sz bv" by auto
  have f1: "fits (1 + length ?tl) (sStack s)" using f b(1) by simp
  from readByte_spec [OF s] fits_bump(1) [OF s f1] i b(1) obtain s1 where s1: "readByte s = Some (Inr b, s1)" "reads 1 s s1" by auto
  have s1': "baseOk (s1\<lparr>byteval := 0\<rparr>)" "inp s1 = ?tl @ rest" "sStack s1 = bump 1 (sStack s)"
    using s1(2) i b(1) by (auto simp: reads_def advances_def baseOk_def)
  have red: "streamReadKind s = (let s = s1\<lparr>byteval := 0\<rparr>
      in if b < 0x80 then Some ((Byte, 0, None), s\<lparr>byteval := b\<rparr>)
         else if b < 0xB8 then Some ((String, ucast (b - 0x80), None), s)
         else if b < 0xC0 then longKind String (b - 0xB7) s
         else if b < 0xF8 then Some ((List, ucast (b - 0xC0), None), s)
         else longKind List (b - 0xF7) s)"
    by (simp only: streamReadKind_def s1(1) bind.bind_lunit prod.case sum.case)
  have lt: "(b < 0x80) = (unat b < 128)" "(b < 0xB8) = (unat b < 184)" "(b < 0xC0) = (unat b < 192)" "(b < 0xF8) = (unat b < 248)"
    by (simp_all add: word_less_nat_alt)
  have short: "ucast (b - c) = sz" if "unat b = unat c + unat sz" for c :: byte
    using that byte_offset [of c b] by (simp add: word_unat_eq_iff unat_ucast_up)
  have long: "\<exists>s'. longKind k (b - c) (s1\<lparr>byteval := 0\<rparr>) = Some ((k, sz, None), s')"
    if "unat b = unat c + length (nat_be (unat sz))" "56 \<le> unat sz" "k \<noteq> Byte" for c :: byte
  proof -
    have l: "unat (b - c) = length (nat_be (unat sz))" "1 \<le> length (nat_be (unat sz))" "length (nat_be (unat sz)) \<le> 8"
      using that byte_offset [of c b] length_nat_be_ge [of sz] by auto
    have bc: "b - c \<noteq> 0" using l(1,2) by (metis unat_0 not_one_le_zero)
    have bc8: "b - c \<le> 8" using l(1,3) by (simp add: word_le_nat_alt)
    have h: "hd (inp s1) \<noteq> 0" using s1'(2) that nat_be_hd_nonzero [of "unat sz"] l(2) by (cases "nat_be (unat sz)") auto
    have t: "take (unat (b - c)) (inp s1) = nat_be (unat sz)" using s1'(2) that l(1) by simp
    have "fits (unat (b - c)) (sStack s1)" using fits_bump(2) [OF s f1] that l(1) s1'(3) by simp
    moreover have "unat (b - c) \<le> length (inp s1)" using s1'(2) that l(1) by simp
    ultimately have "fits (unat (b - c)) (sStack (s1\<lparr>byteval := 0\<rparr>)) \<and> unat (b - c) \<le> length (inp (s1\<lparr>byteval := 0\<rparr>)) \<and>
        hd (inp (s1\<lparr>byteval := 0\<rparr>)) \<noteq> 0 \<and> 56 \<le> be_nat (take (unat (b - c)) (inp (s1\<lparr>byteval := 0\<rparr>)))"
      using h t that(2) by simp
    with longKind_spec [OF s1'(1) bc bc8, of k] t obtain n s' where
      "longKind k (b - c) (s1\<lparr>byteval := 0\<rparr>) = Some ((k, n, None), s')" "unat n = unat sz" by auto
    then show ?thesis by (simp add: word_unat_eq_iff)
  qed
  show ?thesis
  proof (cases "56 \<le> unat sz")
    case True
    then show ?thesis using red lt b(2) v long [of "0xB7"] long [of "0xF7"] length_nat_be_ge [of sz]
      by (cases k) (auto simp: firstByte_def Let_def validHead_def)
  next
    case False
    then show ?thesis using red lt b(2) v short [of "0x80"] short [of "0xC0"]
      by (cases k) (auto simp: firstByte_def Let_def validHead_def word_less_nat_alt)
  qed
qed

text \<open>The room for the value ahead: its header counts even when it is read already.\<close>

definition avail :: "Stream \<Rightarrow> nat" where
  "avail s = (case sStack s of [] \<Rightarrow> length (src s) | (p, z) # _ \<Rightarrow> unat z - unat p + (length (src s) - length (inp s)))"

text \<open>A stream in front of \<open>e\<close>, with nothing wrong so far.\<close>

definition ahead :: "bytes \<Rightarrow> bytes \<Rightarrow> Stream \<Rightarrow> bool" where
  "ahead e rest s \<longleftrightarrow> streamOk s \<and> (sKind s \<noteq> None \<longrightarrow> kinderr s = None) \<and> src s = e @ rest \<and> length e \<le> avail s"

lemma avail_moved:
  assumes s: "streamOk s" "streamOk s'" and m: "moved s s'" "src s = e @ src s'"
  shows "sStack s' = [] \<longleftrightarrow> sStack s = []" "sStack s \<noteq> [] \<Longrightarrow> avail s' + length e = avail s" "sStack s = [] \<Longrightarrow> avail s' = length (src s')"
proof -
  from m(1) obtain k where k: "k \<le> length (inp s)" "inp s' = drop k (inp s)" "sStack s' = bump k (sStack s)"
    by (auto simp: moved_def advances_def)
  show "sStack s' = [] \<longleftrightarrow> sStack s = []" using k(3) by (cases "(k, sStack s)" rule: bump.cases) auto
  show "sStack s = [] \<Longrightarrow> avail s' = length (src s')" using k(3) by (simp add: avail_def)
  assume "sStack s \<noteq> []"
  then obtain p z st where st: "sStack s = (p, z) # st" by (cases "sStack s") auto
  then have f: "framesOk ((p, z) # st)" "framesOk ((p + of_nat k, z) # st)" using s k(3) by (auto simp: streamOk_def baseOk_def)
  have pz: "unat p \<le> unat z" "unat z < 2 ^ 62" "unat (p + of_nat k) \<le> unat z" using framesOk_top [OF f(1)] framesOk_top [OF f(2)] by auto
  have "k < 2 ^ 62" using k(1) s(1) by (simp add: streamOk_def baseOk_def)
  then have u: "unat (p + of_nat k) = unat p + k" using pz by (simp add: unat_word_ariths unat_of_nat mod_simps)
  have l: "length (src s) = length e + length (src s')" "length (inp s) = k + length (inp s')" using m(2) k by auto
  have g: "length (inp s) \<le> length (src s)" "length (inp s') \<le> length (src s')" by (simp_all add: src_def split: option.split)
  show "avail s' + length e = avail s" using st k(3) u pz l g by (simp add: avail_def)
qed

lemma room_head [simp]: "room (s\<lparr>sKind := a\<rparr>) = room s" "room (s\<lparr>sSize := b\<rparr>) = room s"
  by (simp_all add: room_def split: list.split)

lemma headOf_length: "0 < length (headOf k sz bv)"
  by simp

lemma streamKind_accepts:
  assumes a: "ahead (headOf k sz bv @ c) rest s" and v: "validHead k sz bv" and c: "length c = unat sz"
  shows "\<exists>s'. streamKind s = Some (Inr (k, sz), s') \<and> pend k sz s' \<and> ahead (headOf k sz bv @ c) rest s' \<and>
    inp s' = c @ rest \<and> (k = Byte \<longrightarrow> byteval s' = bv) \<and> moved s s' \<and> weight s' \<le> weight s"
proof -
  have ok: "streamOk s" and sr: "src s = headOf k sz bv @ c @ rest" and av: "length (headOf k sz bv) + length c \<le> avail s"
    using a by (auto simp: ahead_def)
  have "\<exists>s'. streamKind s = Some (Inr (k, sz), s')"
  proof (cases "sKind s")
    case (Some k')
    then have "src s = headOf k' (sSize s) (byteval s) @ inp s" "kinderr s = None" using a by (auto simp: src_def ahead_def)
    moreover have "validHead k' (sSize s) (byteval s)" using ok Some calculation(2) by (auto simp: streamOk_def pendingOk_def validHead_def)
    ultimately have "k = k' \<and> sz = sSize s" using headOf_inj [OF _ v, of "c @ rest" k' "sSize s" "byteval s" "inp s"] sr by auto
    then show ?thesis using Some \<open>kinderr s = None\<close> by (simp add: streamKind_def kindResult_def retD_def)
  next
    case None
    let ?s = "s\<lparr>kinderr := None\<rparr>"
    have i: "inp s = headOf k sz bv @ c @ rest" using sr None by (simp add: src_def)
    have ok': "baseOk ?s" using ok by (simp add: streamOk_def baseOk_def)
    have fit: "fits (length (headOf k sz bv) + unat sz) (sStack s)"
      using av c None by (auto simp: fits_def avail_def src_def split: list.split)
    have nz: "\<not> (sStack s \<noteq> [] \<and> fst (hd (sStack s)) = snd (hd (sStack s)))"
      using fit headOf_length [of k sz bv] by (cases "sStack s") (auto simp: fits_def)
    have fit1: "fits (length (headOf k sz bv)) (sStack ?s)" using fit fits_bump(1) [OF ok'] by simp
    from streamReadKind_accepts [OF ok' _ v fit1, of "c @ rest"] i obtain s1 where s1: "streamReadKind ?s = Some ((k, sz, None), s1)" by auto
    from streamReadKind_spec [OF ok'] s1 have kr: "kindRead ?s k sz None s1" by auto
    then have in1: "inp s = headOf k sz (byteval s1) @ inp s1" "validHead k sz (byteval s1)" "baseOk s1"
      "advances (length (headOf k sz (byteval s1))) s s1"
      by (simp_all add: kindRead_def)
    have "headOf k sz bv @ c @ rest = headOf k sz (byteval s1) @ inp s1" using in1(1) i by simp
    from headOf_inj [OF this v in1(2)] have i1: "inp s1 = c @ rest" by simp
    have i2: "length (headOf k sz (byteval s1)) = length (headOf k sz bv)" by (cases k) (simp_all add: headOf_def)
    let ?s2 = "s1\<lparr>sKind := Some k, sSize := sz, kinderr := None\<rparr>"
    have "unat sz \<le> room s1"
    proof (cases "sStack s")
      case Nil
      then have "sStack s1 = []" using in1(4) by (simp add: advances_def)
      then show ?thesis using i1 c by (simp add: room_def)
    next
      case (Cons g st)
      then have "fits (unat sz) (bump (length (headOf k sz bv)) (sStack s))" using fits_bump(2) [OF ok', of "length (headOf k sz bv)" "unat sz"] fit by simp
      then show ?thesis using in1(4) i2 Cons by (cases g) (simp add: room_def advances_def fits_def)
    qed
    moreover have "baseOk ?s2" by (rule baseOk_update(1) [OF in1(3)]) simp
    ultimately have "checkSize sz ?s2 = ?s2" by (simp add: checkSize_eq)
    then show ?thesis unfolding streamKind_eq [OF None] if_not_P [OF nz] s1 bind.bind_lunit prod.case Let_def
      by (simp add: kindResult_def retD_def)
  qed
  then obtain s' where s': "streamKind s = Some (Inr (k, sz), s')" by auto
  from streamKind_spec [OF ok] s' have d: "streamOk s'" "kindDone s k sz s'" by auto
  then have p: "pend k sz s'" by (simp add: pend_def kindDone_def)
  have src': "src s' = headOf k sz bv @ c @ rest" using d(2) sr by (simp add: kindDone_def)
  have v': "validHead k sz (byteval s')" using pend_Byte [of sz s'] p by (auto simp: validHead_def)
  have "headOf k sz bv @ c @ rest = headOf k sz (byteval s') @ inp s'" using pend_src [OF p] src' by simp
  from headOf_inj [OF this v v'] have i': "inp s' = c @ rest" "k = Byte \<longrightarrow> byteval s' = bv" by auto
  have "moved s s'" "src s = [] @ src s'" using d(2) by (auto simp: kindDone_def)
  from avail_moved [OF ok d(1) this] have "avail s' = avail s" using sr src' by (cases "sStack s = []") (auto simp: avail_def)
  then have "ahead (headOf k sz bv @ c) rest s'" using d src' av by (simp add: ahead_def kindDone_def)
  then show ?thesis using s' p i' d(2) by (auto simp: kindDone_def)
qed

section \<open>Accepting strings and integers\<close>

definition accepts :: "nat \<Rightarrow> 'a dec \<Rightarrow> 'a \<Rightarrow> bytes \<Rightarrow> bool" where
  "accepts n d v e \<longleftrightarrow> (\<forall>s rest. ahead e rest s \<and> weight s < n \<longrightarrow> (\<exists>s'. d s = Some (Inr v, s') \<and> inp s' = rest))"

lemma src_length:
  assumes "streamOk s"
  shows "length (src s) < 2 ^ 63"
proof -
  have "length (headOf k sz bv) \<le> 9" for k sz bv
    using length_nat_be_u64 [of sz] by (cases k) (simp_all add: headOf_def length_refHead)
  then show ?thesis using assms by (auto simp: src_def streamOk_def baseOk_def split: option.split intro: order_le_less_trans [of _ "9 + length (inp s)"])
qed

lemma ahead_length: "ahead e rest s \<Longrightarrow> length e < 2 ^ 63"
  using src_length [of s] by (auto simp: ahead_def)

lemma readFull_accepts:
  assumes p: "pend k sz s" and i: "inp s = c @ rest" "length c = unat sz"
  shows "\<exists>s'. readFull (unat sz) s = Some (Inr c, s') \<and> inp s' = rest"
  using readFull_spec [OF pend_fits(1) [OF p], of "unat sz"] pend_fits(2,3) [OF p] i by (auto simp: reads_def advances_def)

lemma kind_accepts:
  assumes "\<And>s rest. pend k sz s \<Longrightarrow> inp s = c @ rest \<Longrightarrow> (k = Byte \<longrightarrow> byteval s = bv) \<Longrightarrow> ahead (headOf k sz bv @ c) rest s \<Longrightarrow>
      weight s < n \<Longrightarrow> \<exists>s'. f (k, sz) s = Some (Inr v, s') \<and> inp s' = rest"
    and "validHead k sz bv" "length c = unat sz"
  shows "accepts n (bindD streamKind f) v (headOf k sz bv @ c)"
  unfolding accepts_def
proof (intro allI impI)
  fix s rest assume s: "ahead (headOf k sz bv @ c) rest s \<and> weight s < n"
  from streamKind_accepts [OF _ assms(2,3)] s obtain s1 where s1: "streamKind s = Some (Inr (k, sz), s1)" "pend k sz s1"
    "ahead (headOf k sz bv @ c) rest s1" "inp s1 = c @ rest" "k = Byte \<longrightarrow> byteval s1 = bv" "weight s1 \<le> weight s" by blast
  moreover have "weight s1 < n" using s s1(6) by simp
  ultimately show "\<exists>s'. bindD streamKind f s = Some (Inr v, s') \<and> inp s' = rest"
    using assms(1) [OF s1(2,4,5,3)] by (simp add: bindD_def)
qed

lemma accepts_short: "accepts n d v e" if "length e < 2 ^ 63 \<Longrightarrow> accepts n d v e"
  using that ahead_length unfolding accepts_def by blast

lemma headOf_String: "n < 2 ^ 64 \<Longrightarrow> headOf String (of_nat n) bv = refHead 0x80 0xB7 n"
  by (simp add: headOf_def unat_of_nat)

lemma headOf_List: "n < 2 ^ 64 \<Longrightarrow> headOf List (of_nat n) bv = refHead 0xC0 0xF7 n"
  by (simp add: headOf_def unat_of_nat)

lemma streamBytes_accepts: "accepts n streamBytes b (encBytes b)"
proof (rule accepts_short)
  assume l: "length (encBytes b) < 2 ^ 63"
  then have lb: "length b < 2 ^ 63" using length_encBytes [of b] by simp
  show ?thesis
  proof (cases "length b = 1 \<and> b ! 0 < 128")
    case True
    then obtain x where x: "b = [x]" "x < 128" by (auto simp: length_Suc_conv)
    have "accepts n (bindD streamKind (\<lambda>(kind, sz) s. case kind of
         Byte \<Rightarrow> retD [byteval s] (rearm s)
       | String \<Rightarrow> do { n \<leftarrow> makeLen sz; bindD (readFull n) (\<lambda>b. if sz = 1 \<and> b ! 0 < 128 then failD ErrCanonSize else retD b) s }
       | List \<Rightarrow> failD ErrExpectedString s)) [x] (headOf Byte 0 x @ [])"
      by (rule kind_accepts) (simp_all add: retD_def validHead_def x)
    then show ?thesis using x by (simp add: streamBytes_def headOf_def encBytes_byte)
  next
    case False
    let ?sz = "of_nat (length b) :: u64"
    have u: "unat ?sz = length b" using lb by (simp add: unat_of_nat)
    have one: "?sz = 1 \<longleftrightarrow> length b = 1" using u unat_eq_1_u64 [of ?sz] by simp
    have "accepts n (bindD streamKind (\<lambda>(kind, sz) s. case kind of
         Byte \<Rightarrow> retD [byteval s] (rearm s)
       | String \<Rightarrow> do { n \<leftarrow> makeLen sz; bindD (readFull n) (\<lambda>b. if sz = 1 \<and> b ! 0 < 128 then failD ErrCanonSize else retD b) s }
       | List \<Rightarrow> failD ErrExpectedString s)) b (headOf String ?sz 0 @ b)"
    proof (rule kind_accepts)
      fix s rest assume p: "pend String ?sz s" "inp s = b @ rest"
      from readFull_accepts [OF p u [symmetric]] obtain s' where "readFull (unat ?sz) s = Some (Inr b, s')" "inp s' = rest" by auto
      then show "\<exists>s'. (case (String, ?sz) of (kind, sz) \<Rightarrow> \<lambda>s. case kind of
         Byte \<Rightarrow> retD [byteval s] (rearm s)
       | String \<Rightarrow> do { n \<leftarrow> makeLen sz; bindD (readFull n) (\<lambda>b. if sz = 1 \<and> b ! 0 < 128 then failD ErrCanonSize else retD b) s }
       | List \<Rightarrow> failD ErrExpectedString s) s = Some (Inr b, s') \<and> inp s' = rest"
        using makeLen_pend [OF p(1)] one False by (auto simp: bindD_def retD_def)
    qed (simp_all add: validHead_def u)
    then show ?thesis using False lb by (simp add: streamBytes_def headOf_String encBytes_head)
  qed
qed

lemma accepts_ret: "accepts n m v e \<Longrightarrow> (\<And>s. f v s = Some (Inr w, s)) \<Longrightarrow> accepts n (bindD m f) w e"
  by (fastforce simp: accepts_def bindD_def)

lemma accepts_wrap: "accepts n m v e \<Longrightarrow> accepts n (wrapD g m) v e"
  by (fastforce simp: accepts_def wrapD_def)

text \<open>The three forms of an encoded integer.\<close>

lemma encUint_cases:
  "encUint i = (if i = 0 then headOf String 0 0 else if unat i < 128 then headOf Byte 0 (ucast i)
     else headOf String (of_nat (length (nat_be (unat i)))) 0 @ nat_be (unat i))"
proof -
  have "length (nat_be (unat i)) < 2 ^ 64" using length_nat_be_u64 [of i] by simp
  then show ?thesis
    by (simp add: encUint_def encBytes_nat_be headOf_String unat_eq_zero) (simp add: headOf_def refHead_def)
qed

lemma streamUint_accepts:
  assumes b: "maxbits \<le> 64" "8 dvd maxbits" and i: "unat i < 2 ^ maxbits"
  shows "accepts n (streamUint maxbits) i (encUint i)"
proof -
  let ?w = "\<lambda>err. if err = ErrCanonSize then ErrCanonInt else err"
  define f where "f = (\<lambda>(kind, sz :: u64) s. case kind of
       Byte \<Rightarrow> if byteval s = 0 then failD ErrCanonInt s else retD (ucast (byteval s)) (rearm s)
     | String \<Rightarrow> if of_nat (maxbits div 8) < sz then failD errUintOverflow s
         else bindD (wrapD ?w (readUint (ucast sz))) (\<lambda>v. if 0 < sz \<and> v < 128 then failD ErrCanonSize else retD v) s
     | List \<Rightarrow> failD ErrExpectedString s)"
  have eq: "streamUint maxbits = bindD streamKind f" by (simp add: streamUint_def f_def)
  consider "i = 0" | "i \<noteq> 0" "unat i < 128" | "128 \<le> unat i" by force
  then show ?thesis
  proof cases
    case 1
    have "accepts n (bindD streamKind f) i (headOf String 0 0 @ [])"
      by (rule kind_accepts) (simp_all add: f_def 1 readUint_def bindD_def wrapD_def retD_def validHead_def)
    then show ?thesis using 1 eq by (simp add: encUint_cases)
  next
    case 2
    have u: "(ucast (ucast i :: byte) :: u64) = i" "(ucast i :: byte) \<noteq> 0" "(ucast i :: byte) < 128"
      using 2 by (auto simp: word_unat_eq_iff unat_ucast_up unat_ucast_byte word_less_nat_alt)
    have "accepts n (bindD streamKind f) i (headOf Byte 0 (ucast i) @ [])"
      by (rule kind_accepts) (simp_all add: f_def u retD_def validHead_def)
    then show ?thesis using 2 eq by (simp add: encUint_cases)
  next
    case 3
    let ?b = "nat_be (unat i)"
    let ?sz = "of_nat (length ?b) :: u64"
    have l8: "length ?b \<le> 8" by (rule length_nat_be_u64)
    have u: "unat ?sz = length ?b" using l8 by (simp add: unat_of_nat)
    obtain k where k: "maxbits = 8 * k" using b(2) by auto
    have "unat i < 256 ^ k" using i k by (simp add: power_mult)
    then have "length ?b \<le> k" by (rule nat_be_length_le)
    then have "\<not> of_nat (maxbits div 8) < ?sz" using u k b(1) by (simp add: word_less_nat_alt unat_of_nat)
    moreover have "unat (ucast ?sz :: byte) = length ?b" using ucast_small [of ?sz] u l8 by simp
    moreover have nz: "0 < length ?b" "hd ?b \<noteq> 0" using 3 nat_be_hd_nonzero [of "unat i"] by auto
    moreover have c: "(ucast ?sz :: byte) \<noteq> 0" "(ucast ?sz :: byte) \<le> 8"
      using calculation(2) nz(1) l8 by (auto simp: word_le_nat_alt simp flip: unat_eq_zero)
    moreover have "\<not> i < 128" using 3 by (simp add: word_less_nat_alt)
    ultimately have "accepts n (bindD streamKind f) i (headOf String ?sz 0 @ ?b)"
    proof (intro kind_accepts)
      fix s rest assume p: "pend String ?sz s" "inp s = ?b @ rest"
      have "hd (inp s) \<noteq> 0" "take (length ?b) (inp s) = ?b" using nz p(2) by (cases ?b; simp)+
      then obtain s' where "readUint (ucast ?sz) s = Some (Inr i, s')" "inp s' = rest"
        using readUint_spec [OF pend_fits(1) [OF p(1)] c] pend_fits(2) [OF p(1)] u \<open>unat (ucast ?sz :: byte) = length ?b\<close> p(2)
        by (auto simp: reads_def advances_def)
      then show "\<exists>s'. f (String, ?sz) s = Some (Inr i, s') \<and> inp s' = rest"
        using \<open>\<not> of_nat (maxbits div 8) < ?sz\<close> \<open>\<not> i < 128\<close> by (simp add: f_def bindD_def wrapD_def retD_def)
    qed (simp_all add: validHead_def u)
    then show ?thesis using 3 eq by (auto simp: encUint_cases)
  qed
qed

lemma decodeByteArray_accepts:
  assumes "k \<noteq> 1" "k < 2 ^ 63" "length b = k"
  shows "accepts n (decodeByteArray k) (BytesV b) (encBytes b)"
proof -
  let ?sz = "of_nat k :: u64"
  have u: "unat ?sz = k" using assms(2) by (simp add: unat_of_nat)
  then have n1: "?sz \<noteq> 1" using assms(1) unat_eq_1_u64 [of ?sz] by simp
  have "accepts n (decodeByteArray k) (BytesV b) (headOf String ?sz 0 @ b)"
    unfolding decodeByteArray_def
  proof (rule kind_accepts, unfold prod.case Kind.case)
    fix s rest assume p: "pend String ?sz s" "inp s = b @ rest"
    from readFull_accepts [OF p] u assms(3) obtain s' where "readFull k s = Some (Inr b, s')" "inp s' = rest" by auto
    then show "\<exists>s'. (if of_nat k < ?sz then failD (decodeError ''input string too long'') s
         else if ?sz < of_nat k then failD (decodeError ''input string too short'') s
         else bindD (readFull k) (\<lambda>b. if ?sz = 1 \<and> b ! 0 < 128 then failD (wrapStreamError ErrCanonSize) else retD (BytesV b)) s) =
       Some (Inr (BytesV b), s') \<and> inp s' = rest"
      using n1 by (simp add: bindD_def retD_def)
  qed (simp_all add: validHead_def u assms(3))
  then show ?thesis using assms by (simp add: headOf_String encBytes_head)
qed

section \<open>Accepting lists\<close>

text \<open>Inside a list whose remaining elements are \<open>e\<close>.\<close>

definition inside :: "bytes \<Rightarrow> bytes \<Rightarrow> Stream \<Rightarrow> bool" where
  "inside e rest s \<longleftrightarrow> streamOk s \<and> sKind s = None \<and> inp s = e @ rest \<and> sStack s \<noteq> [] \<and> avail s = length e"

lemma inside_ahead: "inside (e @ f) rest s \<Longrightarrow> ahead e (f @ rest) s"
  by (simp add: inside_def ahead_def src_def)

lemma inside_step:
  assumes "inside (e @ f) rest s" "streamOk s1" "sKind s1 = None" "moved s s1" "inp s1 = f @ rest"
  shows "inside f rest s1"
proof -
  have "src s = e @ src s1" using assms(1,3,5) by (simp add: inside_def src_def)
  from avail_moved [OF _ assms(2,4) this] assms show ?thesis by (auto simp: inside_def)
qed

lemma inside_end:
  assumes "inside [] rest s"
  obtains p st where "sStack s = (p, p) # st"
proof -
  from assms obtain p z st where st: "sStack s = (p, z) # st" by (cases "sStack s") (auto simp: inside_def)
  moreover have "unat z - unat p = 0" using assms st by (simp add: inside_def avail_def src_def)
  moreover have "unat p \<le> unat z" using framesOk_top [of p z st] assms st by (simp add: inside_def streamOk_def baseOk_def)
  ultimately have "p = z" by (simp add: word_unat_eq_iff)
  then show thesis using st that by simp
qed

definition ends :: "'a dec \<Rightarrow> bool" where
  "ends d \<longleftrightarrow> (\<forall>s rest. inside [] rest s \<longrightarrow> d s = Some (Inl EOL, s\<lparr>kinderr := None\<rparr>))"

lemma streamKind_ends: "ends streamKind"
  unfolding ends_def
proof (intro allI impI)
  fix s rest assume s: "inside [] rest s"
  then show "streamKind s = Some (Inl EOL, s\<lparr>kinderr := None\<rparr>)"
    by (rule inside_end) (use s in \<open>simp add: streamKind_def inside_def failD_def\<close>)
qed

lemma ends_bind: "ends m \<Longrightarrow> ends (bindD m f)"
  by (simp add: ends_def bindD_def)

lemma ends_wrap: "ends m \<Longrightarrow> g EOL = EOL \<Longrightarrow> ends (wrapD g m)"
  by (simp add: ends_def wrapD_def)

lemma wrapStreamError_EOL_id [simp]: "wrapStreamError EOL = EOL"
  by (simp add: wrapStreamError_def)

lemma list_accepts:
  assumes b: "\<And>s rest. inside c rest s \<Longrightarrow> weight s < m \<Longrightarrow> \<exists>s'. b (of_nat (length c)) s = Some (Inr x, s') \<and> inside [] rest s'"
    and n: "n \<le> Suc m"
  shows "accepts n (bindD (wrapD g streamList) (\<lambda>sz. bindD (b sz) (\<lambda>x. bindD (wrapD g' streamListEnd) (\<lambda>_. retD (h x))))) (h x) (encList c)"
    (is "accepts n ?m (h x) (encList c)")
  unfolding accepts_def
proof (intro allI impI)
  fix s rest assume s: "ahead (encList c) rest s \<and> weight s < n"
  let ?sz = "of_nat (length c) :: u64"
  have lc: "length c < 2 ^ 63" using ahead_length [of "encList c" rest s] s length_encList [of c] by simp
  then have u: "unat ?sz = length c" by (simp add: unat_of_nat)
  have a: "ahead (headOf List ?sz 0 @ c) rest s" using s lc by (simp add: encList_def headOf_List)
  from streamKind_accepts [OF a _ u [symmetric]] obtain s1 where s1: "streamKind s = Some (Inr (List, ?sz), s1)" "inp s1 = c @ rest"
    by (auto simp: validHead_def)
  let ?s = "s1\<lparr>sStack := (0, ?sz) # sStack s1, sKind := None, sSize := 0\<rparr>"
  have l: "streamList s = Some (Inr ?sz, ?s)" using s1(1) by (simp add: streamList_def bindD_def retD_def)
  from streamList_spec [of s] l s have ok: "streamOk ?s" "weight ?s < weight s" by (auto simp: ahead_def)
  then have "inside c rest ?s" "weight ?s < m" using s1(2) u s n by (auto simp: inside_def avail_def src_def)
  from b [OF this] obtain s2 where s2: "b ?sz ?s = Some (Inr x, s2)" "inside [] rest s2" by auto
  obtain p st where "sStack s2 = (p, p) # st" by (rule inside_end [OF s2(2)])
  then show "\<exists>s'. ?m s = Some (Inr (h x), s') \<and> inp s' = rest"
    using l s2 by (simp add: bindD_def wrapD_def streamListEnd_def retD_def inside_def)
qed

text \<open>A decoder that is sound and accepts \<open>e\<close> takes it off the front of a list.\<close>

lemma take_elem:
  assumes "decodes n P E d" "accepts n d v e" "inside (e @ f) rest s" "weight s < n"
  obtains s1 where "d s = Some (Inr v, s1)" "inside f rest s1" "weight s1 < weight s"
proof -
  have ok: "streamOk s" using assms(3) by (simp add: inside_def)
  from assms(2) inside_ahead [OF assms(3)] assms(4) obtain s1 where s1: "d s = Some (Inr v, s1)" "inp s1 = f @ rest"
    by (auto simp: accepts_def)
  from decodesE [OF assms(1) ok assms(4)] s1(1) have "result P E s (Inr v) s1" by auto
  then have r: "streamOk s1" "sKind s1 = None" "moved s s1" "weight s1 < weight s" by (auto simp: result_def took_def)
  then show thesis using that s1 inside_step [OF assms(3) r(1-3) s1(2)] by simp
qed

lemma decodeSliceElems_accepts:
  assumes d: "decodes n P E d" and e: "ends d" and a: "\<And>v. v \<in> set vs \<Longrightarrow> accepts n d v (encVal v)"
    and s: "inside (encVals vs) rest s" "weight s < fuel" "weight s < n"
  shows "\<exists>s'. decodeSliceElems fuel d s = Some (Inr vs, s') \<and> inside [] rest s'"
  using a s
proof (induction vs arbitrary: fuel s)
  case Nil
  then obtain k where k: "fuel = Suc k" by (cases fuel) auto
  have i: "inside [] rest s" using Nil.prems(2) by simp
  then have "inside [] rest (s\<lparr>kinderr := None\<rparr>)"
    by (auto simp: inside_def streamOk_def baseOk_def avail_def src_def split: list.splits)
  moreover have "d s = Some (Inl EOL, s\<lparr>kinderr := None\<rparr>)" using e i unfolding ends_def by blast
  ultimately show ?case using k by (simp add: retD_def)
next
  case (Cons v vs)
  then obtain k where k: "fuel = Suc k" by (cases fuel) auto
  have i: "inside (encVal v @ encVals vs) rest s" using Cons.prems(2) by simp
  from take_elem [OF d Cons.prems(1) i Cons.prems(4)] obtain s1 where
    s1: "d s = Some (Inr v, s1)" "inside (encVals vs) rest s1" "weight s1 < weight s" by auto
  have "\<exists>s'. decodeSliceElems k d s1 = Some (Inr vs, s') \<and> inside [] rest s'"
    using Cons.prems s1 k by (intro Cons.IH) auto
  then show ?case using k s1(1) by (auto simp: bindD_def retD_def)
qed

lemma decodeArrayElems_accepts:
  assumes d: "decodes n P E d" and a: "\<And>v. v \<in> set vs \<Longrightarrow> accepts n d v (encVal v)"
    and s: "inside (encVals vs) rest s" "weight s < n"
  shows "\<exists>s'. decodeArrayElems (length vs) d s = Some (Inr vs, s') \<and> inside [] rest s'"
  using a s
proof (induction vs arbitrary: s)
  case Nil
  then show ?case by (simp add: retD_def)
next
  case (Cons v vs)
  have i: "inside (encVal v @ encVals vs) rest s" using Cons.prems(2) by simp
  from take_elem [OF d Cons.prems(1) i Cons.prems(3)] obtain s1 where
    s1: "d s = Some (Inr v, s1)" "inside (encVals vs) rest s1" "weight s1 < weight s" by auto
  have "\<exists>s'. decodeArrayElems (length vs) d s1 = Some (Inr vs, s') \<and> inside [] rest s'"
    using Cons.prems s1 by (intro Cons.IH) auto
  then show ?case using s1(1) by (auto simp: bindD_def retD_def)
qed

section \<open>Values of a type\<close>

fun ifaceOk :: "rval \<Rightarrow> bool" where
  "ifaceOk (InterfaceV (Some (BytesV b))) = True"
| "ifaceOk (InterfaceV (Some (ListV c vs))) = (\<not> c \<and> (\<forall>v \<in> set vs. ifaceOk v))"
| "ifaceOk v = False"

text \<open>The values of a type that have an encoding of their own: no nil pointer without the tag for it, no
  pointer with that tag to an empty value, a tail only at the end, no raw values and no arrays of one byte.\<close>

fun hasType :: "tags \<Rightarrow> rtype \<Rightarrow> rval \<Rightarrow> bool" and hasTypes :: "(tags \<times> rtype) list \<Rightarrow> rval list \<Rightarrow> bool" where
  "hasType ts RawValueT v = (case v of RawV b \<Rightarrow> \<exists>c. b = encBytes c \<or> b = encList c | _ \<Rightarrow> False)"
| "hasType ts BigIntT v = (case v of BigIntV (Some i) \<Rightarrow> 0 \<le> i | _ \<Rightarrow> False)"
| "hasType ts (UintT bits) v = (case v of UintV i \<Rightarrow> bits \<le> 64 \<and> 8 dvd bits \<and> unat i < 2 ^ bits | _ \<Rightarrow> False)"
| "hasType ts BoolT v = (case v of BoolV b \<Rightarrow> True | _ \<Rightarrow> False)"
| "hasType ts StringT v = (case v of StringV b \<Rightarrow> True | _ \<Rightarrow> False)"
| "hasType ts ByteSliceT v = (case v of BytesV b \<Rightarrow> True | _ \<Rightarrow> False)"
| "hasType ts (ByteArrayT k) v = (case v of BytesV b \<Rightarrow> k \<noteq> 1 \<and> k < 2 ^ 63 \<and> length b = k | _ \<Rightarrow> False)"
| "hasType ts (SliceT t) v = (case v of ListV c vs \<Rightarrow> c = tail ts \<and> (\<forall>v \<in> set vs. hasType noTags t v) | _ \<Rightarrow> False)"
| "hasType ts (ArrayT k t) v = (case v of ListV c vs \<Rightarrow> \<not> c \<and> length vs = k \<and> (\<forall>v \<in> set vs. hasType noTags t v) | _ \<Rightarrow> False)"
| "hasType ts (StructT fs) v = (case v of StructV vs \<Rightarrow> hasTypes fs vs | _ \<Rightarrow> False)"
| "hasType ts (PtrT t) v = (case v of
     PtrV v \<Rightarrow> hasType noTags t v \<and> (nilOK ts \<longrightarrow> encVal v \<noteq> [0x80] \<and> encVal v \<noteq> [0xC0])
   | NilPtrV u \<Rightarrow> u = t \<and> nilOK ts \<and> encNil t \<noteq> [] | _ \<Rightarrow> False)"
| "hasType ts InterfaceT v = ifaceOk v"
| "hasTypes [] vs = (vs = [])"
| "hasTypes (f # fs) vs = (case vs of v # us \<Rightarrow> hasType (fst f) (snd f) v \<and> (tail (fst f) \<longrightarrow> fs = []) \<and> hasTypes fs us | [] \<Rightarrow> False)"

lemma ends_decodeInterface: "0 < n \<Longrightarrow> ends (decodeInterface n)"
proof (cases n)
  case (Suc m)
  have "decodeInterface n = bindD streamKind (\<lambda>(kind, _).
       if kind = List then bindD (decodeListSlice (Suc m) (decodeInterface m)) (\<lambda>v. retD (InterfaceV (Some v)))
       else bindD streamBytes (\<lambda>b. retD (InterfaceV (Some (BytesV b)))))"
    by (rule ext) (simp add: Suc)
  then show ?thesis using ends_bind [OF streamKind_ends] by metis
qed simp

lemma ends_list: "ends (decodeListSlice n d)" "ends (decodeListArray k d)"
  unfolding decodeListSlice_def decodeListArray_def streamList_def
  by (intro ends_bind ends_wrap streamKind_ends wrapStreamError_EOL_id)+

lemma decoder_ends: "0 < n \<Longrightarrow> \<not> tail ts \<Longrightarrow> \<not> nilOK ts \<Longrightarrow> ends (decoder n ts t)"
proof (induction t arbitrary: ts)
  case (PtrT t)
  then show ?case by (simp add: ends_bind)
qed (simp_all add: decodeRawValue_def decodeBigInt_def decodeUint_def decodeBool_def decodeString_def decodeByteSlice_def decodeByteArray_def
    streamRaw_def streamUint_def streamBool_def streamBytes_def streamList_def ends_bind ends_wrap streamKind_ends ends_list ends_decodeInterface)

lemma decodeListSlice_accepts:
  assumes d: "decodes m P E d" and e: "ends d" and a: "\<And>v. v \<in> set vs \<Longrightarrow> accepts m d v (encVal v)" and n: "n \<le> Suc m" "m \<le> fuel"
  shows "accepts n (decodeListSlice fuel d) (ListV False vs) (encVal (ListV False vs))"
proof -
  have "\<exists>s'. (if (of_nat (length (encVals vs)) :: u64) = 0 then retD [] else decodeSliceElems fuel d) s = Some (Inr vs, s') \<and> inside [] rest s'"
    if s: "inside (encVals vs) rest s" "weight s < m" for s rest
  proof (cases "encVals vs = []")
    case True
    have "vs = []"
    proof (cases vs)
      case (Cons v us)
      then have i: "inside (encVal v @ encVals us) rest s" using s(1) by simp
      from take_elem [OF d a i s(2)] Cons obtain s1 where s1: "inside (encVals us) rest s1" "weight s1 < weight s" by auto
      have "length (inp s1) = length (inp s)" using s1(1) s(1) True Cons by (simp add: inside_def)
      then show ?thesis using s1 s by (simp add: weight_def inside_def)
    qed
    then show ?thesis using s by (simp add: retD_def)
  next
    case False
    have "length (encVals vs) < 2 ^ 63" using ahead_length [OF inside_ahead [of "encVals vs" "[]"]] s(1) by simp
    then have "unat (of_nat (length (encVals vs)) :: u64) = length (encVals vs)" by (simp add: unat_of_nat)
    then have "(of_nat (length (encVals vs)) :: u64) \<noteq> 0" using False by (metis length_0_conv unat_0)
    then show ?thesis using decodeSliceElems_accepts [OF d e a s(1), of fuel] s(2) n(2) by simp
  qed
  from list_accepts [where c = "encVals vs" and b = "\<lambda>sz. if sz = 0 then retD [] else decodeSliceElems fuel d" and x = vs
      and g = wrapStreamError and g' = "\<lambda>err. err" and h = "ListV False", OF this n(1)]
  show ?thesis unfolding decodeListSlice_def bindD_assoc_if by simp
qed

text \<open>An encoding with its header.\<close>

definition headed :: "Kind \<Rightarrow> bytes \<Rightarrow> bool" where
  "headed k e \<longleftrightarrow> (\<exists>sz bv c. e = headOf k sz bv @ c \<and> validHead k sz bv \<and> length c = unat sz)"

lemma headed_bytes:
  assumes "length b < 2 ^ 63"
  shows "\<exists>k. k \<noteq> List \<and> headed k (encBytes b)"
proof (cases "length b = 1 \<and> b ! 0 < 128")
  case True
  then obtain x where "b = [x]" "x < 128" by (auto simp: length_Suc_conv)
  then have "encBytes b = headOf Byte 0 x @ [] \<and> validHead Byte 0 x \<and> length ([] :: bytes) = unat (0 :: u64)"
    by (simp add: encBytes_byte headOf_def validHead_def)
  then have "headed Byte (encBytes b)" unfolding headed_def by blast
  then show ?thesis by blast
next
  case False
  have u: "unat (of_nat (length b) :: u64) = length b" using assms by (simp add: unat_of_nat)
  have "encBytes b = headOf String (of_nat (length b)) 0 @ b \<and> validHead String (of_nat (length b)) 0 \<and> length b = unat (of_nat (length b) :: u64)"
    using False u assms by (simp add: encBytes_head headOf_String validHead_def)
  then have "headed String (encBytes b)" unfolding headed_def by blast
  then show ?thesis by blast
qed

lemma headed_list:
  assumes "length c < 2 ^ 63"
  shows "headed List (encList c)"
proof -
  have u: "unat (of_nat (length c) :: u64) = length c" using assms by (simp add: unat_of_nat)
  have "encList c = headOf List (of_nat (length c)) 0 @ c \<and> validHead List (of_nat (length c)) 0 \<and> length c = unat (of_nat (length c) :: u64)"
    using u assms by (simp add: encList_def headOf_List validHead_def)
  then show ?thesis unfolding headed_def by blast
qed

lemma kind_then:
  assumes "headed k e" "\<And>sz. accepts n (f (k, sz)) v e"
  shows "accepts n (bindD streamKind f) v e"
proof -
  from assms(1) obtain sz bv c where e: "e = headOf k sz bv @ c" "validHead k sz bv" "length c = unat sz" by (auto simp: headed_def)
  show ?thesis
    unfolding e(1) by (rule kind_accepts [OF _ e(2,3)]) (use assms(2) e(1) in \<open>simp add: accepts_def\<close>)
qed

lemma streamRaw_accepts:
  assumes "headed k e"
  shows "accepts n streamRaw e e"
proof -
  from assms obtain sz bv c where e: "e = headOf k sz bv @ c" "validHead k sz bv" "length c = unat sz" by (auto simp: headed_def)
  show ?thesis
    unfolding e(1) streamRaw_def
  proof (rule kind_accepts [OF _ e(2,3)], unfold prod.case)
    fix s rest assume s: "pend k sz s" "inp s = c @ rest" "k = Byte \<longrightarrow> byteval s = bv"
    show "\<exists>s'. (if k = Byte then retD [byteval s] (rearm s)
      else do { n \<leftarrow> makeLen (of_nat (headsize sz) + sz);
        if n < headsize sz then None
        else bindD (readFull (n - headsize sz)) (\<lambda>b. retD ((if k = String then puthead 0x80 0xB7 sz else puthead 0xC0 0xF7 sz) @ b)) s }) =
      Some (Inr (headOf k sz bv @ c), s') \<and> inp s' = rest"
    proof (cases "k = Byte")
      case True
      then show ?thesis using s e(2,3) by (auto simp: retD_def headOf_def validHead_def)
    next
      case False
      from readFull_accepts [OF s(1,2) e(3)] obtain s' where "readFull (unat sz) s = Some (Inr c, s')" "inp s' = rest" by blast
      then show ?thesis using False makeLen_raw [OF s(1)] puthead_head [of k sz bv] by (auto simp: bindD_def retD_def)
    qed
  qed
qed

lemma decodeInterface_accepts: "ifaceOk v \<Longrightarrow> accepts n (decodeInterface n) v (encVal v)"
proof (induction n arbitrary: v)
  case 0
  then show ?case by (simp add: accepts_def)
next
  case (Suc n)
  let ?f = "\<lambda>(kind, sz :: u64). if kind = List then bindD (decodeListSlice (Suc n) (decodeInterface n)) (\<lambda>v. retD (InterfaceV (Some v)))
       else bindD streamBytes (\<lambda>b. retD (InterfaceV (Some (BytesV b))))"
  have eq: "decodeInterface (Suc n) = bindD streamKind ?f" by (rule ext) simp
  from Suc.prems consider b where "v = InterfaceV (Some (BytesV b))" | vs where "v = InterfaceV (Some (ListV False vs))" "\<And>u. u \<in> set vs \<Longrightarrow> ifaceOk u"
    by (cases v rule: ifaceOk.cases) auto
  then show ?case unfolding eq
  proof cases
    case 1
    have a: "accepts (Suc n) (bindD streamBytes (\<lambda>b. retD (InterfaceV (Some (BytesV b))))) v (encVal v)"
      using 1 by (auto intro!: accepts_ret [OF streamBytes_accepts] simp: retD_def)
    show "accepts (Suc n) (bindD streamKind ?f) v (encVal v)"
    proof (rule accepts_short)
      assume "length (encVal v) < 2 ^ 63"
      then have "length b < 2 ^ 63" using 1 length_encBytes [of b] by simp
      from headed_bytes [OF this] obtain k where "k \<noteq> List" "headed k (encVal v)" using 1 by auto
      then show "accepts (Suc n) (bindD streamKind ?f) v (encVal v)" using a by (auto intro: kind_then)
    qed
  next
    case 2
    have "0 < n \<or> n = 0" by auto
    then have l: "accepts (Suc n) (decodeListSlice (Suc n) (decodeInterface n)) (ListV False vs) (encVal (ListV False vs))"
    proof
      assume "0 < n"
      then show ?thesis
        by (intro decodeListSlice_accepts [OF decodeInterface_decodes ends_decodeInterface Suc.IH]) (use 2 in simp_all)
    next
      assume "n = 0"
      then show ?thesis by (auto simp: accepts_def ahead_def weight_def src_def encList_def refHead_def split: if_splits)
    qed
    then have a: "accepts (Suc n) (bindD (decodeListSlice (Suc n) (decodeInterface n)) (\<lambda>v. retD (InterfaceV (Some v)))) v (encVal v)"
      using 2 accepts_ret [OF l, of "\<lambda>v. retD (InterfaceV (Some v))" "InterfaceV (Some (ListV False vs))"] by (simp add: retD_def)
    show "accepts (Suc n) (bindD streamKind ?f) v (encVal v)"
    proof (rule accepts_short)
      assume "length (encVal v) < 2 ^ 63"
      then have "length (encVals vs) < 2 ^ 63" using 2 length_encList [of "encVals vs"] by simp
      from headed_list [OF this] show "accepts (Suc n) (bindD streamKind ?f) v (encVal v)" using a 2 by (auto intro: kind_then)
    qed
  qed
qed

lemma headed_enc:
  "length (encBytes b) < 9223372036854775808 \<Longrightarrow> \<exists>k. headed k (encBytes b)"
  "length (encList c) < 9223372036854775808 \<Longrightarrow> \<exists>k. headed k (encList c)"
  using headed_bytes [of b] length_encBytes [of b] headed_list [of c] length_encList [of c] by auto

lemma hasType_headed: "hasType noTags t v \<Longrightarrow> length (encVal v) < 2 ^ 63 \<Longrightarrow> \<exists>k. headed k (encVal v)"
proof (induction t arbitrary: v)
  case (PtrT t)
  then show ?case by (auto split: rval.splits)
next
  case InterfaceT
  then show ?case by (cases v rule: ifaceOk.cases) (auto intro: headed_enc)
qed (auto split: rval.splits option.splits intro: headed_enc headed_enc(1) [of "[]", simplified])

lemma nil_headed: "encNil t \<noteq> [] \<Longrightarrow> encNil t = headOf String 0 0 \<or> encNil t = headOf List 0 0"
  by (induction t rule: encNil.induct) (simp_all add: headOf_def refHead_def)

lemma decodeOptionalPtr_accepts:
  assumes d: "accepts n d v (encVal v)" and v: "hasType noTags t v" "encVal v \<noteq> [0x80]" "encVal v \<noteq> [0xC0]"
  shows "accepts n (decodeOptionalPtr t d) (PtrV v) (encVal v)"
proof (rule accepts_short)
  assume "length (encVal v) < 2 ^ 63"
  from hasType_headed [OF v(1) this] obtain k sz bv c where
    e: "encVal v = headOf k sz bv @ c" "validHead k sz bv" "length c = unat sz" by (auto simp: headed_def)
  have nz: "\<not> (sz = 0 \<and> k \<noteq> Byte)"
  proof
    assume "sz = 0 \<and> k \<noteq> Byte"
    then show False using v(2,3) e by (cases k) (auto simp: headOf_def refHead_def)
  qed
  let ?m = "bindD streamKind (\<lambda>(kind, sz) s. if sz = 0 \<and> kind \<noteq> Byte then retD (NilPtrV t) (rearm s)
      else bindD d (\<lambda>v. retD (PtrV v)) s)"
  have eq: "decodeOptionalPtr t d s = ?m s" if "ahead (encVal v) rest s" for s rest
    using streamKind_accepts [of k sz bv c rest s, OF _ e(2,3)] that e(1) by (auto simp: decodeOptionalPtr_def bindD_def)
  have a: "accepts n (bindD streamKind (\<lambda>(kind, sz) s. if sz = 0 \<and> kind \<noteq> Byte then retD (NilPtrV t) (rearm s)
      else bindD d (\<lambda>v. retD (PtrV v)) s)) (PtrV v) (encVal v)"
    unfolding e(1)
  proof (rule kind_accepts [OF _ e(2,3)])
    fix s rest assume "ahead (headOf k sz bv @ c) rest s" "weight s < n"
    then obtain s' where "d s = Some (Inr v, s')" "inp s' = rest" using d e(1) by (auto simp: accepts_def)
    then show "\<exists>s'. (case (k, sz) of (kind, sz) \<Rightarrow> \<lambda>s. if sz = 0 \<and> kind \<noteq> Byte then retD (NilPtrV t) (rearm s)
      else bindD d (\<lambda>v. retD (PtrV v)) s) s = Some (Inr (PtrV v), s') \<and> inp s' = rest"
      using nz by (auto simp: bindD_def retD_def)
  qed
  show "accepts n (decodeOptionalPtr t d) (PtrV v) (encVal v)"
    unfolding accepts_def
  proof (intro allI impI)
    fix s rest assume s: "ahead (encVal v) rest s \<and> weight s < n"
    then show "\<exists>s'. decodeOptionalPtr t d s = Some (Inr (PtrV v), s') \<and> inp s' = rest"
      using a eq [of rest s] by (simp add: accepts_def)
  qed
qed

lemma decodeOptionalPtr_nil:
  assumes "encNil t \<noteq> []"
  shows "accepts n (decodeOptionalPtr t d) (NilPtrV t) (encNil t)"
  unfolding accepts_def
proof (intro allI impI)
  fix s rest assume s: "ahead (encNil t) rest s \<and> weight s < n"
  from nil_headed [OF assms] obtain k where k: "encNil t = headOf k 0 0 @ []" "k \<noteq> Byte" by force
  from streamKind_accepts [of k 0 0 "[]" rest s] s k obtain s1 where "streamKind s = Some (Inr (k, 0), s1)" "inp s1 = rest"
    by (auto simp: validHead_def)
  then show "\<exists>s'. decodeOptionalPtr t d s = Some (Inr (NilPtrV t), s') \<and> inp s' = rest"
    using k(2) by (simp add: decodeOptionalPtr_def retD_def)
qed

text \<open>The whole decoder. A tail takes the rest of its list.\<close>

definition takesAll :: "nat \<Rightarrow> 'a dec \<Rightarrow> 'a \<Rightarrow> bytes \<Rightarrow> bool" where
  "takesAll n d v e \<longleftrightarrow> (\<forall>s rest. inside e rest s \<and> weight s < n \<longrightarrow> (\<exists>s'. d s = Some (Inr v, s') \<and> inside [] rest s'))"

lemma accepts_positive:
  assumes "0 < n \<Longrightarrow> accepts n d v e"
  shows "accepts n d v e"
  using assms by (cases "n = 0") (auto simp: accepts_def)

lemma base_accepts:
  "hasType ts RawValueT v \<Longrightarrow> accepts n decodeRawValue v (encVal v)"
  "hasType ts BigIntT v \<Longrightarrow> accepts n decodeBigInt v (encVal v)"
  "hasType ts (UintT bits) v \<Longrightarrow> accepts n (decodeUint bits) v (encVal v)"
  "hasType ts BoolT v \<Longrightarrow> accepts n decodeBool v (encVal v)"
  "hasType ts StringT v \<Longrightarrow> accepts n decodeString v (encVal v)"
  "hasType ts ByteSliceT v \<Longrightarrow> accepts n decodeByteSlice v (encVal v)"
  "hasType ts (ByteArrayT k) v \<Longrightarrow> accepts n (decodeByteArray k) v (encVal v)"
proof -
  have bytes: "accepts n (wrapD wrapStreamError streamBytes) b (encBytes b)" for b by (rule accepts_wrap [OF streamBytes_accepts])
  show "hasType ts RawValueT v \<Longrightarrow> accepts n decodeRawValue v (encVal v)"
  proof (rule accepts_short)
    assume "hasType ts RawValueT v" and l: "length (encVal v) < 2 ^ 63"
    then obtain b c where v: "v = RawV b" "b = encBytes c \<or> b = encList c" by (auto split: rval.splits)
    then obtain k where "headed k b" using l headed_enc [of c] by auto
    from streamRaw_accepts [OF this] show "accepts n decodeRawValue v (encVal v)"
      unfolding v(1) encVal.simps decodeRawValue_def by (rule accepts_ret) (simp add: retD_def)
  qed
  show "hasType ts BigIntT v \<Longrightarrow> accepts n decodeBigInt v (encVal v)"
  proof -
    assume "hasType ts BigIntT v"
    then obtain i where v: "v = BigIntV (Some i)" "0 \<le> i" by (auto split: rval.splits option.splits)
    have "\<not> (0 < length (Bytes i) \<and> Bytes i ! 0 = 0)"
      using nat_be_hd_nonzero [of "nat i"] v(2) by (cases "i = 0"; cases "Bytes i") (auto simp: Bytes_def)
    then show ?thesis unfolding decodeBigInt_def v(1) encVal.simps option.case
      by (intro accepts_ret [OF bytes]) (use v(2) in \<open>auto simp: retD_def SetBytes_Bytes\<close>)
  qed
  show "hasType ts (UintT bits) v \<Longrightarrow> accepts n (decodeUint bits) v (encVal v)"
  proof -
    assume "hasType ts (UintT bits) v"
    then obtain i where v: "v = UintV i" "bits \<le> 64" "8 dvd bits" "unat i < 2 ^ bits" by (auto split: rval.splits)
    show ?thesis unfolding decodeUint_def v(1) encVal.simps encUint_def [symmetric]
      by (intro accepts_ret [OF accepts_wrap [OF streamUint_accepts [OF v(2-4)]]]) (simp add: retD_def)
  qed
  show "hasType ts BoolT v \<Longrightarrow> accepts n decodeBool v (encVal v)"
  proof -
    assume "hasType ts BoolT v"
    then obtain b where v: "v = BoolV b" by (auto split: rval.splits)
    have "accepts n (streamUint 8) (if b then 1 else 0) (encUint (if b then 1 else 0))" by (rule streamUint_accepts) auto
    then have "accepts n streamBool b (encUint (if b then 1 else 0))"
      unfolding streamBool_def by (rule accepts_ret) (simp add: retD_def)
    moreover have "encUint (if b then 1 else 0) = encVal v" using v by (simp add: encUint_def nat_be_small)
    ultimately show ?thesis using v unfolding decodeBool_def by (auto intro!: accepts_ret [OF accepts_wrap] simp: retD_def)
  qed
  show "hasType ts StringT v \<Longrightarrow> accepts n decodeString v (encVal v)"
    by (auto simp: decodeString_def retD_def split: rval.splits intro!: accepts_ret [OF bytes])
  show "hasType ts ByteSliceT v \<Longrightarrow> accepts n decodeByteSlice v (encVal v)"
    by (auto simp: decodeByteSlice_def retD_def split: rval.splits intro!: accepts_ret [OF bytes])
  show "hasType ts (ByteArrayT k) v \<Longrightarrow> accepts n (decodeByteArray k) v (encVal v)"
    using decodeByteArray_accepts by (auto split: rval.splits)
qed

lemma decoder_accepts:
  "typeOk t \<Longrightarrow> hasType ts t v \<Longrightarrow> if isTail ts t then takesAll n (decoder n ts t) v (encVal v) else accepts n (decoder n ts t) v (encVal v)"
  "\<forall>f \<in> set fs. typeOk (snd f) \<Longrightarrow> hasTypes fs vs \<Longrightarrow> takesAll n (decodeFields n fs) vs (encVals vs)"
proof (induction n ts t and n fs arbitrary: v and vs rule: decoder_decodeFields.induct)
  case (8 n ts t)
  let ?d = "decoder n noTags t"
  from 8(4) obtain us where v: "v = ListV (tail ts) us" "\<And>u. u \<in> set us \<Longrightarrow> hasType noTags t u" by (auto split: rval.splits)
  have a: "accepts n ?d u (encVal u)" if "u \<in> set us" for u
    using 8(1,2) [of u] 8(3) v(2) [OF that] by (cases "tail ts") (auto simp: isTail_def)
  have d: "decodesVal n ?d" using decoder_decodes(1) [of t noTags n] 8(3) by (simp add: isTail_def)
  have e: "0 < n \<Longrightarrow> ends ?d" by (rule decoder_ends) simp_all
  show ?case
  proof (cases "tail ts")
    case True
    have "takesAll n (bindD (decodeSliceElems n ?d) (\<lambda>vs. retD (ListV True vs))) v (encVal v)"
      unfolding takesAll_def
    proof (intro allI impI)
      fix s rest assume s: "inside (encVal v) rest s \<and> weight s < n"
      then have "\<exists>s'. decodeSliceElems n ?d s = Some (Inr us, s') \<and> inside [] rest s'"
        using v(1) True by (intro decodeSliceElems_accepts [OF d e a]) auto
      then show "\<exists>s'. bindD (decodeSliceElems n ?d) (\<lambda>vs. retD (ListV True vs)) s = Some (Inr v, s') \<and> inside [] rest s'"
        using v(1) True by (auto simp: bindD_def retD_def)
    qed
    then show ?thesis using True by (simp add: isTail_def)
  next
    case False
    then have v': "v = ListV False us" using v(1) by simp
    have "accepts n (decodeListSlice n ?d) v (encVal v)"
      unfolding v'
    proof (rule accepts_positive)
      assume "0 < n"
      then show "accepts n (decodeListSlice n ?d) (ListV False us) (encVal (ListV False us))"
        by (rule decodeListSlice_accepts [OF d e a]) simp_all
    qed
    then show ?thesis using False by (simp add: isTail_def)
  qed
next
  case (9 n ts k t)
  let ?d = "decoder n noTags t"
  from 9(3) obtain us where v: "v = ListV False us" "length us = k" "\<And>u. u \<in> set us \<Longrightarrow> hasType noTags t u" by (auto split: rval.splits)
  have a: "accepts n ?d u (encVal u)" if "u \<in> set us" for u
    using 9(1) [of u] 9(2) v(3) [OF that] by (auto simp: isTail_def)
  have d: "decodesVal n ?d" using decoder_decodes(1) [of t noTags n] 9(2) by (simp add: isTail_def)
  have "accepts n (decodeListArray k ?d) v (encVal v)"
    unfolding v(1) decodeListArray_def encVal.simps if_False
  proof (rule list_accepts [where m = n])
    fix s rest assume "inside (encVals us) rest s" "weight s < n"
    then show "\<exists>s'. decodeArrayElems k ?d s = Some (Inr us, s') \<and> inside [] rest s'"
      unfolding v(2) [symmetric] by (intro decodeArrayElems_accepts [OF d]) (simp_all add: a)
  qed simp
  then show ?case by (simp add: isTail_def)
next
  case (10 n ts fs)
  from 10(3) obtain us where v: "v = StructV us" "hasTypes fs us" by (auto split: rval.splits)
  have "takesAll n (decodeFields n fs) us (encVals us)" using 10 v by simp
  then have "accepts n (decoder n ts (StructT fs)) v (encVal v)"
    unfolding v(1) decoder.simps encVal.simps by (intro list_accepts [where m = n]) (auto simp: takesAll_def)
  then show ?case by (simp add: isTail_def)
next
  case (11 n ts t)
  have a: "accepts n (decoder n noTags t) u (encVal u)" if "hasType noTags t u" for u
    using 11(1,2) [of u] 11(3) that by (cases "nilOK ts") (auto simp: isTail_def)
  from 11(4) consider u where "v = PtrV u" "hasType noTags t u" "nilOK ts \<longrightarrow> encVal u \<noteq> [0x80] \<and> encVal u \<noteq> [0xC0]"
    | "v = NilPtrV t" "nilOK ts" "encNil t \<noteq> []" by (auto split: rval.splits)
  then show ?case
  proof cases
    case 1
    have "accepts n (bindD (decoder n noTags t) (\<lambda>v. retD (PtrV v))) v (encVal v)"
      unfolding 1(1) encVal.simps by (rule accepts_ret [OF a [OF 1(2)]]) (simp add: retD_def)
    then show ?thesis using decodeOptionalPtr_accepts [OF a [OF 1(2)] 1(2)] 1 by (simp add: isTail_def)
  next
    case 2
    then show ?thesis using decodeOptionalPtr_nil by (simp add: isTail_def)
  qed
next
  case (13 n)
  then show ?case by (simp add: takesAll_def retD_def)
next
  case (14 n ts t fs)
  then obtain v us where vs: "vs = v # us" "hasType ts t v" "tail ts \<longrightarrow> fs = []" "hasTypes fs us" by (auto split: list.splits)
  have t: "typeOk t" "\<forall>f \<in> set fs. typeOk (snd f)" using 14(3) by auto
  note v = 14(1) [OF t(1) vs(2)]
  have us: "takesAll n (decodeFields n fs) us (encVals us)" by (rule 14(2) [OF t(2) vs(4)])
  show ?case unfolding takesAll_def
  proof (intro allI impI)
    fix s rest assume s: "inside (encVals vs) rest s \<and> weight s < n"
    then have i: "inside (encVal v @ encVals us) rest s" using vs(1) by simp
    show "\<exists>s'. decodeFields n ((ts, t) # fs) s = Some (Inr vs, s') \<and> inside [] rest s'"
    proof (cases "isTail ts t")
      case True
      then have e: "fs = []" "us = []" using vs(3,4) by (auto simp: isTail_def)
      from v True s i e obtain s1 where "decoder n ts t s = Some (Inr v, s1)" "inside [] rest s1" by (auto simp: takesAll_def)
      then show ?thesis using e vs(1) by (simp add: bindD_def wrapD_def retD_def)
    next
      case False
      then have "decodesVal n (decoder n ts t)" "accepts n (decoder n ts t) v (encVal v)" using decoder_decodes(1) [OF t(1), of ts n] v by auto
      from take_elem [OF this i] s obtain s1 where s1: "decoder n ts t s = Some (Inr v, s1)" "inside (encVals us) rest s1" "weight s1 < weight s" by auto
      then have "weight s1 < n" using s by simp
      then obtain s2 where "decodeFields n fs s1 = Some (Inr us, s2)" "inside [] rest s2" using us s1(2) unfolding takesAll_def by blast
      then show ?thesis using s1(1) vs(1) by (simp add: bindD_def wrapD_def retD_def)
    qed
  qed
qed (simp_all add: isTail_def base_accepts decodeInterface_accepts)

section \<open>Nil values\<close>

text \<open>Go values with nil pointers, nil big integers and nil interfaces encode like empty ones. \<open>typed\<close> describes
  the values whose encoding the decoder takes back, \<open>readBack\<close> the value that it gives: nil big integers come back
  as zero, nil interfaces as empty lists, nil pointers without the \<open>nil\<close> tag as pointers to the empty value, and
  pointers with the tag to an empty value as nil.\<close>

fun zeroVal :: "rtype \<Rightarrow> rval option" where
  "zeroVal BigIntT = Some (BigIntV (Some 0))"
| "zeroVal (UintT bits) = (if bits \<le> 64 \<and> 8 dvd bits then Some (UintV 0) else None)"
| "zeroVal BoolT = Some (BoolV False)"
| "zeroVal StringT = Some (StringV [])"
| "zeroVal ByteSliceT = Some (BytesV [])"
| "zeroVal (ByteArrayT k) = (if k = 0 then Some (BytesV []) else None)"
| "zeroVal (SliceT t) = Some (ListV False [])"
| "zeroVal (ArrayT k t) = (if k = 0 then Some (ListV False []) else None)"
| "zeroVal (StructT fs) = (if fs = [] then Some (StructV []) else None)"
| "zeroVal (PtrT t) = map_option PtrV (zeroVal t)"
| "zeroVal InterfaceT = Some (InterfaceV (Some (ListV False [])))"
| "zeroVal RawValueT = None"

fun ifaceBack :: "rval \<Rightarrow> rval" where
  "ifaceBack (InterfaceV None) = InterfaceV (Some (ListV False []))"
| "ifaceBack (InterfaceV (Some (ListV c vs))) = InterfaceV (Some (ListV c (map ifaceBack vs)))"
| "ifaceBack v = v"

fun ifaceTyped :: "rval \<Rightarrow> bool" where
  "ifaceTyped (InterfaceV None) = True"
| "ifaceTyped (InterfaceV (Some (BytesV b))) = True"
| "ifaceTyped (InterfaceV (Some (ListV c vs))) = (\<not> c \<and> (\<forall>v \<in> set vs. ifaceTyped v))"
| "ifaceTyped v = False"

fun typed :: "tags \<Rightarrow> rtype \<Rightarrow> rval \<Rightarrow> bool" and typeds :: "(tags \<times> rtype) list \<Rightarrow> rval list \<Rightarrow> bool" where
  "typed ts BigIntT v = (case v of BigIntV p \<Rightarrow> (case p of None \<Rightarrow> True | Some i \<Rightarrow> 0 \<le> i) | _ \<Rightarrow> False)"
| "typed ts (SliceT t) v = (case v of ListV c vs \<Rightarrow> c = tail ts \<and> (\<forall>v \<in> set vs. typed noTags t v) | _ \<Rightarrow> False)"
| "typed ts (ArrayT k t) v = (case v of ListV c vs \<Rightarrow> \<not> c \<and> length vs = k \<and> (\<forall>v \<in> set vs. typed noTags t v) | _ \<Rightarrow> False)"
| "typed ts (StructT fs) v = (case v of StructV vs \<Rightarrow> typeds fs vs | _ \<Rightarrow> False)"
| "typed ts (PtrT t) v = (case v of
     PtrV v \<Rightarrow> typed noTags t v \<and> (nilOK ts \<longrightarrow> encVal v = [0x80] \<or> encVal v = [0xC0] \<longrightarrow> encVal v = encNil t)
   | NilPtrV u \<Rightarrow> u = t \<and> (if nilOK ts then encNil t \<noteq> [] else zeroVal t \<noteq> None) | _ \<Rightarrow> False)"
| "typed ts InterfaceT v = ifaceTyped v"
| "typed ts t v = hasType ts t v"
| "typeds [] vs = (vs = [])"
| "typeds (f # fs) vs = (case vs of v # us \<Rightarrow> typed (fst f) (snd f) v \<and> (tail (fst f) \<longrightarrow> fs = []) \<and> typeds fs us | [] \<Rightarrow> False)"

fun readBack :: "tags \<Rightarrow> rtype \<Rightarrow> rval \<Rightarrow> rval" and readBacks :: "(tags \<times> rtype) list \<Rightarrow> rval list \<Rightarrow> rval list" where
  "readBack ts BigIntT v = (if v = BigIntV None then BigIntV (Some 0) else v)"
| "readBack ts (SliceT t) v = (case v of ListV c vs \<Rightarrow> ListV c (map (readBack noTags t) vs) | _ \<Rightarrow> v)"
| "readBack ts (ArrayT k t) v = (case v of ListV c vs \<Rightarrow> ListV c (map (readBack noTags t) vs) | _ \<Rightarrow> v)"
| "readBack ts (StructT fs) v = (case v of StructV vs \<Rightarrow> StructV (readBacks fs vs) | _ \<Rightarrow> v)"
| "readBack ts (PtrT t) v = (case v of
     PtrV u \<Rightarrow> if nilOK ts \<and> (encVal u = [0x80] \<or> encVal u = [0xC0]) then NilPtrV t else PtrV (readBack noTags t u)
   | NilPtrV u \<Rightarrow> if nilOK ts then v else (case zeroVal t of Some z \<Rightarrow> PtrV z | None \<Rightarrow> v)
   | _ \<Rightarrow> v)"
| "readBack ts InterfaceT v = ifaceBack v"
| "readBack ts t v = v"
| "readBacks [] vs = []"
| "readBacks (f # fs) vs = (case vs of v # us \<Rightarrow> readBack (fst f) (snd f) v # readBacks fs us | [] \<Rightarrow> [])"

lemma zeroVal_ok: "zeroVal t = Some z \<Longrightarrow> hasType noTags t z \<and> encVal z = encNil t"
  by (induction t arbitrary: z rule: zeroVal.induct) (auto simp: Bytes_def encList_def refHead_def split: if_splits)

lemma ifaceBack_ok: "ifaceTyped v \<Longrightarrow> ifaceOk (ifaceBack v) \<and> encVal (ifaceBack v) = encVal v"
proof (induction v rule: ifaceTyped.induct)
  case (3 c vs)
  then have "encVals (map ifaceBack vs) = encVals vs" by (induction vs) auto
  then show ?case using 3 by auto
qed (auto simp: encList_def refHead_def)

lemma encVals_map: "(\<And>v. v \<in> set vs \<Longrightarrow> encVal (f v) = encVal v) \<Longrightarrow> encVals (map f vs) = encVals vs"
  by (induction vs) auto

lemma readBack_ok:
  "typed ts t v \<Longrightarrow> hasType ts t (readBack ts t v) \<and> encVal (readBack ts t v) = encVal v"
  "typeds fs vs \<Longrightarrow> hasTypes fs (readBacks fs vs) \<and> encVals (readBacks fs vs) = encVals vs"
proof (induction ts t v and fs vs rule: typed_typeds.induct)
  case (2 ts t v)
  then show ?case by (auto simp: encVals_map split: rval.splits)
next
  case (3 ts k t v)
  then show ?case by (auto simp: encVals_map split: rval.splits)
next
  case (5 ts t v)
  from 5(2) consider u where "v = PtrV u" "typed noTags t u" "nilOK ts \<longrightarrow> encVal u = [0x80] \<or> encVal u = [0xC0] \<longrightarrow> encVal u = encNil t"
    | "v = NilPtrV t" "nilOK ts" "encNil t \<noteq> []" | z where "v = NilPtrV t" "\<not> nilOK ts" "zeroVal t = Some z" by (auto split: rval.splits if_splits)
  then show ?case
  proof cases
    case 1
    then show ?thesis using 5(1) [OF 1(1)] by auto
  next
    case 3
    then show ?thesis using zeroVal_ok [OF 3(3)] by simp
  qed simp
qed (auto simp: ifaceBack_ok Bytes_def split: rval.splits option.splits list.splits)

lemma ifaceOk_back: "ifaceOk v \<Longrightarrow> ifaceBack v = v"
  by (induction v rule: ifaceOk.induct) (auto intro: map_idI)

lemma hasType_readBack:
  "hasType ts t v \<Longrightarrow> readBack ts t v = v" "hasTypes fs vs \<Longrightarrow> readBacks fs vs = vs"
  by (induction ts t v and fs vs rule: hasType_hasTypes.induct)
    (auto simp: ifaceOk_back intro: map_idI split: rval.splits option.splits list.splits)

lemma ifaceTyped_encodable: "ifaceTyped v \<Longrightarrow> encodable v"
proof (induction v rule: ifaceTyped.induct)
  case (3 c vs)
  then show ?case by (auto simp: encodables_all list_all_iff)
qed simp_all

lemma typed_encodable: "typed ts t v \<Longrightarrow> encodable v" "typeds fs vs \<Longrightarrow> encodables vs"
proof (induction ts t v and fs vs rule: typed_typeds.induct)
  case (2 ts t v)
  then show ?case by (auto simp: encodables_all list_all_iff split: rval.splits)
next
  case (3 ts k t v)
  then show ?case by (auto simp: encodables_all list_all_iff split: rval.splits)
qed (auto simp: ifaceTyped_encodable split: rval.splits option.splits list.splits)

lemma decode_hasType:
  assumes "typeOk t" "hasType noTags t v" "length (encVal v) < 2 ^ 62" "length (encVal v) < n"
  shows "DecodeBytes n (encVal v) t = Some (Inr v)"
proof -
  let ?b = "encVal v"
  let ?s = "NewStream ?b (of_nat (length ?b))"
  have a: "accepts n (decoder n noTags t) v ?b" using decoder_accepts(1) [OF assms(1,2), of n] by (simp add: isTail_def)
  have "ahead ?b [] ?s" using NewStream_ok [OF assms(3)] by (simp add: ahead_def avail_def) (simp add: NewStream_def)
  moreover have "weight ?s < n" using NewStream_ok(2) [OF assms(3)] assms(4) by simp
  ultimately obtain s' where "decoder n noTags t ?s = Some (Inr v, s')" "inp s' = []" using a by (auto simp: accepts_def)
  then show ?thesis by (simp add: DecodeBytes_def)
qed

text \<open>C17. Round trip. Take a type without arrays of one byte and a value of that type, with any mix of raw
  values, unsigned integers, booleans, strings, byte slices and arrays, slices, arrays, structures with optional
  and tail fields, pointers, and interfaces that hold byte slices, lists or nil. A raw value has to be one
  encoded value, and a nil pointer that is not tagged \<open>nil\<close> must not point to a non-empty structure or array, whose
  empty encoding the decoder refuses. Then \<open>EncodeToBytes\<close> succeeds and \<open>DecodeBytes\<close> with the same type gives back
  the value up to nil and empty, as \<open>readBack\<close> says; it gives back exactly the value when it has no nil but in
  pointers tagged \<open>nil\<close> and no pointer so tagged to an empty value.\<close>

theorem decode_encode:
  assumes "typeOk t" "typed noTags t v" "length (encVal v) < 2 ^ 62" "length (encVal v) < n"
  shows "\<exists>b. EncodeToBytes v = Some (Inr b) \<and> DecodeBytes n b t = Some (Inr (readBack noTags t v)) \<and>
    (hasType noTags t v \<longrightarrow> readBack noTags t v = v)"
proof -
  note r = readBack_ok(1) [OF assms(2)]
  have "DecodeBytes n (encVal v) t = Some (Inr (readBack noTags t v))"
    using decode_hasType [OF assms(1) conjunct1 [OF r]] r assms(3,4) by simp
  moreover have "EncodeToBytes v = Some (Inr (encVal v))" using encode_ok(1) [of v] assms(3) typed_encodable(1) [OF assms(2)] by simp
  ultimately show ?thesis using hasType_readBack(1) by blast
qed

theorem decode_encode_witness:
  "DecodeBytes 20 [0xC8, 0x82, 4, 0, 0x80, 0xC3, 0x82, 1, 44]
     (StructT [(noTags, UintT 64), (\<lparr>nilOK = True, tail = False\<rparr>, PtrT ByteSliceT),
               (\<lparr>nilOK = False, tail = True\<rparr>, SliceT (StructT [(noTags, BigIntT)]))]) =
   Some (Inr (StructV [UintV 1024, NilPtrV ByteSliceT, ListV True [StructV [BigIntV (Some 300)]]])) \<and>
   DecodeBytes 20 [0xC3, 0x80, 0xC0, 0x80] (StructT [(noTags, BigIntT), (noTags, InterfaceT), (noTags, PtrT (UintT 64))]) =
   Some (Inr (StructV [BigIntV (Some 0), InterfaceV (Some (ListV False [])), PtrV (UintV 0)]))"
proof -
  let ?t = "StructT [(noTags, UintT 64), (\<lparr>nilOK = True, tail = False\<rparr>, PtrT ByteSliceT),
               (\<lparr>nilOK = False, tail = True\<rparr>, SliceT (StructT [(noTags, BigIntT)]))]"
  let ?v = "StructV [UintV 1024, NilPtrV ByteSliceT, ListV True [StructV [BigIntV (Some 300)]]]"
  have "nat_be 1024 = [4, 0]" "nat_be 300 = [1, 44]" by (simp_all add: nat_be.simps)
  then have e: "encVal ?v = [0xC8, 0x82, 4, 0, 0x80, 0xC3, 0x82, 1, 44]"
    by (simp add: encBytes_def encList_def refHead_def Bytes_def)
  have "EncodeToBytes ?v = Some (Inr (encVal ?v))" by (rule encode_ok(1)) (simp only: e, simp_all)
  moreover obtain b where "EncodeToBytes ?v = Some (Inr b)" "DecodeBytes 20 b ?t = Some (Inr ?v)"
    using decode_encode [of ?t ?v 20, unfolded e] by auto
  ultimately have 1: "DecodeBytes 20 [0xC8, 0x82, 4, 0, 0x80, 0xC3, 0x82, 1, 44] ?t = Some (Inr ?v)" unfolding e by simp
  let ?t2 = "StructT [(noTags, BigIntT), (noTags, InterfaceT), (noTags, PtrT (UintT 64))]"
  let ?v2 = "StructV [BigIntV None, InterfaceV None, NilPtrV (UintT 64)]"
  have e2: "encVal ?v2 = [0xC3, 0x80, 0xC0, 0x80]" by (simp add: encBytes_def encList_def refHead_def)
  have "EncodeToBytes ?v2 = Some (Inr (encVal ?v2))" by (rule encode_ok(1)) (simp only: e2, simp_all)
  moreover obtain b2 where "EncodeToBytes ?v2 = Some (Inr b2)" "DecodeBytes 20 b2 ?t2 = Some (Inr (readBack noTags ?t2 ?v2))"
    using decode_encode [of ?t2 ?v2 20, unfolded e2] by auto
  ultimately have "DecodeBytes 20 [0xC3, 0x80, 0xC0, 0x80] ?t2 = Some (Inr (readBack noTags ?t2 ?v2))" unfolding e2 by simp
  then show ?thesis using 1 by simp
qed

end
