(* ===== verification/RlpRaw.thy ===== *)
theory RlpRaw
  imports RlpRound
begin

text \<open>
  Splitting encoded values without decoding them (\<open>rlp/raw.go\<close>): \<open>Split\<close> takes the first value off a byte
  string exactly if the string starts with a canonical encoding.
\<close>

lemma or_push_add: "or (push_bit 8 (s :: u64)) (ucast (x :: byte)) = s * 256 + ucast x"
proof -
  have "and (push_bit 8 s) (ucast x) = 0"
    by (rule bit_word_eqI) (auto simp: bit_simps dest: bit_imp_le_length)
  then have "or (push_bit 8 s) (ucast x) = push_bit 8 s + ucast x" by (simp add: disjunctive_add_eq_or)
  then show ?thesis by (simp add: push_bit_eq_mult)
qed

lemma fold_be: "fold (\<lambda>x s. or (push_bit 8 s) (ucast x)) bs 0 = (of_nat (be_nat bs) :: u64)"
proof (induction bs rule: rev_induct)
  case (snoc b bs)
  then show ?case by (simp add: or_push_add)
qed simp

lemma readSize_spec:
  assumes "slen \<noteq> 0" "slen \<le> 8"
  shows "readSize b slen = Some (if length b < unat slen then Inl ioErrUnexpectedEOF
    else if be_nat (take (unat slen) b) < 56 \<or> hd b = 0 then Inl ErrCanonSize else Inr (of_nat (be_nat (take (unat slen) b))))"
proof (cases "length b < unat slen")
  case True
  then show ?thesis by (simp add: readSize_def)
next
  case False
  have l: "1 \<le> unat slen" "unat slen \<le> 8" using assms by (simp_all add: word_le_nat_alt unat_gt_0 Suc_le_eq)
  then have b: "b \<noteq> []" using False by auto
  have "sizeBytes b slen = of_nat (be_nat (take (unat slen) b))"
    using l by (simp add: sizeBytes_def fold_be word_le_nat_alt)
  moreover have "unat (of_nat (be_nat (take (unat slen) b)) :: u64) = be_nat (take (unat slen) b)"
    by (rule be_nat_u64) (use l in simp)
  ultimately show ?thesis using False b by (simp add: readSize_def index_def hd_conv_nth word_less_nat_alt)
qed

text \<open>The shape of the first value: its kind, header and content.\<close>

definition firstValue :: "Kind \<Rightarrow> bytes \<Rightarrow> bytes" where
  "firstValue k c = (if k = List then encList c else encBytes c)"

definition kindOf :: "bytes \<Rightarrow> Kind" where
  "kindOf c = (if length c = 1 \<and> c ! 0 < 128 then Byte else String)"

definition goodKind :: "Kind \<Rightarrow> bytes \<Rightarrow> bool" where
  "goodKind k c \<longleftrightarrow> k = List \<or> k = kindOf c"

lemma split_rest:
  assumes l: "length b < 2 ^ 63" "unat ts \<le> length b"
    and r: "readKind b = Some (if of_nat (length b) - ts < cs then Inl ErrValueTooLarge else Inr (k, ts, cs))"
  shows "Split b = Some (if length b - unat ts < unat cs then Inl ErrValueTooLarge
    else Inr (k, take (unat cs) (drop (unat ts) b), drop (unat ts + unat cs) b))"
proof -
  have "unat (of_nat (length b) :: u64) = length b" using l by (simp add: unat_of_nat)
  then have "unat (of_nat (length b) - ts) = length b - unat ts" using l(2) by (simp add: unat_sub word_le_nat_alt)
  then have less: "of_nat (length b) - ts < cs \<longleftrightarrow> length b - unat ts < unat cs" by (simp add: word_less_nat_alt)
  show ?thesis
  proof (cases "length b - unat ts < unat cs")
    case True
    then show ?thesis using r less by (simp add: Split_def)
  next
    case False
    then have "unat ts + unat cs \<le> length b" using l by simp
    moreover then have "unat (ts + cs) = unat ts + unat cs" using l(1) by (intro u64_add_unat) simp
    ultimately show ?thesis using r less False by (simp add: Split_def slice_def)
  qed
qed

lemma Split_byte:
  assumes "length (x # xs) < 2 ^ 63" "unat x < 128"
  shows "Split (x # xs) = Some (Inr (Byte, [x], xs))"
proof -
  have "x < 128" using assms(2) by (simp add: word_less_nat_alt)
  then have "readKind (x # xs) = Some (if of_nat (length (x # xs)) - 0 < (1 :: u64) then Inl ErrValueTooLarge else Inr (Byte, 0, 1))"
    by (simp add: readKind_def)
  from split_rest [OF assms(1) _ this] show ?thesis by simp
qed

lemma Split_short:
  assumes l: "length (x # xs) < 2 ^ 63" and k: "k = String \<and> c = (0x80 :: byte) \<or> k = List \<and> c = 0xC0" and x: "unat x = unat c + n" "n < 56"
  shows "Split (x # xs) = Some (if k = String \<and> n = 1 \<and> xs \<noteq> [] \<and> hd xs < 128 then Inl ErrCanonSize
    else if length xs < n then Inl ErrValueTooLarge else Inr (k, take n xs, drop n xs))"
proof -
  have u: "unat (x - c) = n" using x(1) byte_offset [of c x] by simp
  then have uu: "unat (ucast (x - c) :: u64) = n" by (simp add: unat_ucast_up)
  then have one: "(ucast (x - c) :: u64) = 1 \<longleftrightarrow> n = 1" using unat_eq_1_u64 [of "ucast (x - c)"] by simp
  show ?thesis
  proof (cases "k = String \<and> n = 1 \<and> xs \<noteq> [] \<and> hd xs < 128")
    case True
    then have "xs ! 0 < 128" "xs \<noteq> []" by (auto simp: hd_conv_nth)
    then have "readKind (x # xs) = Some (Inl ErrCanonSize)" using True k x one by (auto simp: readKind_def word_less_nat_alt Let_def)
    then show ?thesis using True by (simp add: Split_def)
  next
    case False
    then have n: "\<not> (k = String \<and> n = 1 \<and> xs \<noteq> [] \<and> xs ! 0 < 128)" by (auto simp: hd_conv_nth)
    have neg: "\<not> ((ucast (x - c) :: u64) = 1 \<and> 1 < length (x # xs) \<and> (x # xs) ! 1 < 128)" if "k = String"
      using n one that by auto
    have "readKind (x # xs) = Some (if of_nat (length (x # xs)) - 1 < (ucast (x - c) :: u64) then Inl ErrValueTooLarge else Inr (k, 1, ucast (x - c)))"
    proof (cases k)
      case String
      then have "c = 0x80" "\<not> x < 0x80" "x < 0xB8" using k x by (auto simp: word_less_nat_alt)
      then show ?thesis using neg [OF String] String
        by (simp only: readKind_def Let_def nth_Cons_0 if_not_P if_P bind.bind_lunit sum.case prod.case) simp
    next
      case List
      then have "c = 0xC0" "\<not> x < 0x80" "\<not> x < 0xB8" "\<not> x < 0xC0" "x < 0xF8" using k x by (auto simp: word_less_nat_alt)
      then show ?thesis using List
        by (simp only: readKind_def Let_def nth_Cons_0 if_not_P if_P bind.bind_lunit sum.case prod.case) simp
    qed (use k in simp)
    from split_rest [OF l _ this] show ?thesis using False uu by simp
  qed
qed

lemma Split_long:
  assumes l: "length (x # xs) < 2 ^ 63" and k: "k = String \<and> c = (0xB7 :: byte) \<or> k = List \<and> c = 0xF7" and x: "unat x = unat c + m" "1 \<le> m" "m \<le> 8"
  shows "Split (x # xs) = Some (if length xs < m then Inl ioErrUnexpectedEOF
    else if be_nat (take m xs) < 56 \<or> hd xs = 0 then Inl ErrCanonSize
    else if length xs - m < be_nat (take m xs) then Inl ErrValueTooLarge
    else Inr (k, take (be_nat (take m xs)) (drop m xs), drop (m + be_nat (take m xs)) xs))"
proof -
  have u: "unat (x - c) = m" using x(1) byte_offset [of c x] by simp
  have nz: "x - c \<noteq> 0" using u x(2) by (metis unat_0 not_one_le_zero)
  have le: "x - c \<le> 8" using u x(3) by (simp add: word_le_nat_alt)
  note rs = readSize_spec [OF nz le, of xs, unfolded u]
  have ts: "unat (ucast (x - c) + 1 :: u64) = m + 1" using u x(3) by (simp add: u64_add_unat unat_ucast_up)
  have rk: "readKind (x # xs) = (readSize xs (x - c) \<bind> (\<lambda>r. Some (case r of Inl err \<Rightarrow> Inl err | Inr n \<Rightarrow>
      if of_nat (length (x # xs)) - (ucast (x - c) + 1 :: u64) < n then Inl ErrValueTooLarge else Inr (k, ucast (x - c) + 1, n))))"
  proof (cases k)
    case String
    then have "c = 0xB7" "\<not> x < 0x80" "\<not> x < 0xB8" "x < 0xC0" using k x by (auto simp: word_less_nat_alt)
    then show ?thesis using String rs by (auto simp: readKind_def Let_def)
  next
    case List
    then have "c = 0xF7" "\<not> x < 0x80" "\<not> x < 0xB8" "\<not> x < 0xC0" "\<not> x < 0xF8" using k x by (auto simp: word_less_nat_alt)
    then show ?thesis using List rs by (auto simp: readKind_def Let_def)
  qed (use k in simp)
  show ?thesis
  proof (cases "length xs < m \<or> be_nat (take m xs) < 56 \<or> hd xs = 0")
    case True
    then have "readKind (x # xs) = Some (Inl (if length xs < m then ioErrUnexpectedEOF else ErrCanonSize))" unfolding rk rs by auto
    then show ?thesis using True by (auto simp: Split_def)
  next
    case False
    let ?n = "of_nat (be_nat (take m xs)) :: u64"
    have n: "unat ?n = be_nat (take m xs)" by (rule be_nat_u64) (use x(3) in simp)
    have "readKind (x # xs) = Some (if of_nat (length (x # xs)) - (ucast (x - c) + 1) < ?n then Inl ErrValueTooLarge else Inr (k, ucast (x - c) + 1, ?n))"
      unfolding rk rs using False by simp
    from split_rest [OF l _ this] show ?thesis using False n ts by simp
  qed
qed

lemma Split_Nil: "Split [] = Some (Inl ioErrUnexpectedEOF)"
  by (simp add: Split_def readKind_def)

lemma first_byte_cases:
  fixes x :: byte
  obtains "unat x < 128"
  | k c n where "k = String \<and> c = (0x80 :: byte) \<or> k = List \<and> c = 0xC0" "unat x = unat c + n" "n < 56"
  | k c m where "k = String \<and> c = (0xB7 :: byte) \<or> k = List \<and> c = 0xF7" "unat x = unat c + m" "1 \<le> m" "m \<le> 8"
proof -
  have "unat x < 256" by simp
  then consider "unat x < 128" | "unat x = 128 + (unat x - 128) \<and> unat x - 128 < 56" | "unat x = 192 + (unat x - 192) \<and> unat x - 192 < 56"
    | "unat x = 183 + (unat x - 183) \<and> 1 \<le> unat x - 183 \<and> unat x - 183 \<le> 8"
    | "unat x = 247 + (unat x - 247) \<and> 1 \<le> unat x - 247 \<and> unat x - 247 \<le> 8" by linarith
  then show thesis
    using that(1) that(2) [of String "0x80" "unat x - 128"] that(2) [of List "0xC0" "unat x - 192"]
      that(3) [of String "0xB7" "unat x - 183"] that(3) [of List "0xF7" "unat x - 247"] by cases auto
qed

lemma firstValue_short:
  assumes "k = String \<and> t = (0x80 :: byte) \<or> k = List \<and> t = 0xC0" "unat x = unat t + length c" "length c < 56" "goodKind k c"
  shows "firstValue k c = x # c"
proof -
  have "unat (t + of_nat (length c)) = unat x" using assms(1-3) unat_tag [of t "length c"] by auto
  then have x: "t + of_nat (length c) = x" by (simp add: word_unat_eq_iff)
  show ?thesis
  proof (cases "k = List")
    case True
    then show ?thesis using assms(1,3) x by (simp add: firstValue_def encList_def refHead_small)
  next
    case False
    then have "k = String" "\<not> (length c = 1 \<and> c ! 0 < 128)" using assms(1,4) by (auto simp: goodKind_def kindOf_def)
    then show ?thesis using assms(1,3) x by (auto simp: firstValue_def encBytes_head refHead_small)
  qed
qed

lemma firstValue_long:
  assumes "k = String \<and> t = (0xB7 :: byte) \<or> k = List \<and> t = 0xF7" "unat x = unat t + length bs" "length bs \<le> 8"
    "bs \<noteq> []" "hd bs \<noteq> 0" "be_nat bs = length c" "56 \<le> length c"
  shows "firstValue k c = x # bs @ c" "goodKind k c"
proof -
  have "unat (x - t) = length bs" using assms(2) byte_offset [of t x] by simp
  then have "refHead small t (be_nat bs) = x # bs" for small using assms(4-7) by (intro refHead_long) simp_all
  then show "firstValue k c = x # bs @ c" using assms(1,6,7) by (auto simp: firstValue_def encList_def encBytes_head)
  show "goodKind k c" using assms(1,7) by (auto simp: goodKind_def kindOf_def)
qed

lemma Split_total:
  assumes "length b < 2 ^ 63"
  shows "\<exists>r. Split b = Some r"
proof (cases b)
  case (Cons x xs)
  with assms have l: "length (x # xs) < 2 ^ 63" by simp
  show ?thesis unfolding Cons
    by (rule first_byte_cases [of x]) (use Split_byte [OF l] Split_short [OF l] Split_long [OF l] in auto)
qed (simp add: Split_Nil)

lemma Split_sound:
  assumes "length b < 2 ^ 63" "Split b = Some (Inr (k, c, rest))"
  shows "b = firstValue k c @ rest \<and> goodKind k c"
proof (cases b)
  case Nil
  then show ?thesis using assms(2) by (simp add: Split_Nil)
next
  case (Cons x xs)
  with assms have l: "length (x # xs) < 2 ^ 63" by simp
  note sp = assms(2) [unfolded Cons]
  show ?thesis
  proof (rule first_byte_cases [of x])
    assume "unat x < 128"
    then show ?thesis using Split_byte [OF l] sp Cons
      by (auto simp: firstValue_def goodKind_def kindOf_def encBytes_byte word_less_nat_alt)
  next
    fix k' t n assume k: "k' = String \<and> t = (0x80 :: byte) \<or> k' = List \<and> t = 0xC0" "unat x = unat t + n" "n < 56"
    from Split_short [OF l k] sp have r: "k = k'" "c = take n xs" "rest = drop n xs" "n \<le> length xs"
      "\<not> (k' = String \<and> n = 1 \<and> xs \<noteq> [] \<and> hd xs < 128)" by (auto split: if_splits)
    then have lc: "length c = n" by simp
    have "goodKind k c"
    proof (cases "n = 1")
      case True
      then have "c ! 0 = hd xs" "xs \<noteq> []" using r by (cases xs; auto)+
      then show ?thesis using k(1) r lc True by (auto simp: goodKind_def kindOf_def)
    qed (use k(1) r lc in \<open>auto simp: goodKind_def kindOf_def\<close>)
    then show ?thesis using firstValue_short [of k t x c] k r lc Cons by simp
  next
    fix k' t m assume k: "k' = String \<and> t = (0xB7 :: byte) \<or> k' = List \<and> t = 0xF7" "unat x = unat t + m" "1 \<le> m" "m \<le> 8"
    let ?bs = "take m xs"
    from Split_long [OF l k] sp have r: "k = k'" "c = take (be_nat ?bs) (drop m xs)" "rest = drop (m + be_nat ?bs) xs" "m \<le> length xs"
      "56 \<le> be_nat ?bs" "hd xs \<noteq> 0" "be_nat ?bs \<le> length xs - m" by (auto split: if_splits)
    have bs: "length ?bs = m" "?bs \<noteq> []" "hd ?bs \<noteq> 0" using r k(3) by (auto simp: hd_take)
    have lc: "length c = be_nat ?bs" using r by simp
    have "xs = ?bs @ c @ rest" using r by (simp add: drop_drop add.commute flip: append_assoc) (metis append_assoc append_take_drop_id drop_drop add.commute)
    then show ?thesis using firstValue_long [of k t x ?bs c] k r(1,5) bs lc Cons by auto
  qed
qed

lemma Split_firstValue:
  assumes l: "length (firstValue k c @ rest) < 2 ^ 63" and g: "goodKind k c"
  shows "Split (firstValue k c @ rest) = Some (Inr (k, c, rest))"
proof (cases "k = Byte")
  case True
  then obtain x where "c = [x]" "x < 128" using g by (auto simp: goodKind_def kindOf_def length_Suc_conv split: if_splits)
  then show ?thesis using True l Split_byte [of x rest] by (simp add: firstValue_def encBytes_byte word_less_nat_alt)
next
  case False
  then have k: "k = String \<or> k = List" by (cases k) auto
  have lc: "length c < 2 ^ 63" using l length_encList [of c] length_encBytes [of c] by (simp add: firstValue_def split: if_splits)
  show ?thesis
  proof (cases "length c < 56")
    case True
    let ?t = "if k = List then 0xC0 else 0x80 :: byte"
    let ?x = "?t + of_nat (length c)"
    have t: "k = String \<and> ?t = 0x80 \<or> k = List \<and> ?t = 0xC0" using k by auto
    have x: "unat ?x = unat ?t + length c" using True unat_tag [of ?t "length c"] by (auto split: if_splits)
    have f: "firstValue k c = ?x # c" by (rule firstValue_short [OF t x True g])
    have "\<not> (k = String \<and> length c = 1 \<and> c @ rest \<noteq> [] \<and> hd (c @ rest) < 128)"
      using g by (cases c) (auto simp: goodKind_def kindOf_def)
    then show ?thesis using Split_short [OF _ t x True, of "c @ rest"] l unfolding f by (simp del: append_is_Nil_conv)
  next
    case False
    let ?t = "if k = List then 0xF7 else 0xB7 :: byte"
    let ?bs = "nat_be (length c)"
    let ?x = "?t + of_nat (length ?bs)"
    have bs: "1 \<le> length ?bs" "length ?bs \<le> 8" using refHead_first(2) [of "length c"] lc False by auto
    have t: "k = String \<and> ?t = 0xB7 \<or> k = List \<and> ?t = 0xF7" using k by auto
    have x: "unat ?x = unat ?t + length ?bs" using bs unat_tag [of ?t "length ?bs"] by (auto split: if_splits)
    have "length c \<noteq> 0" using False by (cases c) simp_all
    then have ne: "?bs \<noteq> []" "hd ?bs \<noteq> 0" using nat_be_hd_nonzero [of "length c"] by simp_all
    have f: "firstValue k c = ?x # ?bs @ c" using False by (intro firstValue_long(1) [OF t x bs(2) ne]) simp_all
    then show ?thesis using Split_long [OF _ t x bs, of "?bs @ c @ rest"] l False ne by simp
  qed
qed

lemma goodKind_bytes [simp]: "goodKind (kindOf c) c" "goodKind List c"
  by (simp_all add: goodKind_def)

lemma firstValue_simps [simp]: "firstValue (kindOf c) c = encBytes c" "firstValue List c = encList c"
  by (simp_all add: firstValue_def kindOf_def)

lemma kindOf_List [simp]: "kindOf c \<noteq> List" "List \<noteq> kindOf c"
  by (simp_all add: kindOf_def)

lemma firstValue_nonempty [simp]: "firstValue k c \<noteq> []"
  by (auto simp: firstValue_def encList_def encBytes_def refHead_def)

lemma Split_encBytes: "length (encBytes c @ rest) < 2 ^ 63 \<Longrightarrow> Split (encBytes c @ rest) = Some (Inr (kindOf c, c, rest))"
  using Split_firstValue [of "kindOf c" c rest] by simp

lemma Split_encList: "length (encList c @ rest) < 2 ^ 63 \<Longrightarrow> Split (encList c @ rest) = Some (Inr (List, c, rest))"
  using Split_firstValue [of List c rest] by simp

lemma SplitString_enc: "length (encBytes c @ rest) < 2 ^ 63 \<Longrightarrow> SplitString (encBytes c @ rest) = Some (Inr (c, rest))"
  by (simp add: SplitString_def Split_encBytes)

lemma SplitList_enc: "length (encList c @ rest) < 2 ^ 63 \<Longrightarrow> SplitList (encList c @ rest) = Some (Inr (c, rest))"
  by (simp add: SplitList_def Split_encList)

text \<open>Counting values stops at the end of the input.\<close>

definition valuesOf :: "(Kind \<times> bytes) list \<Rightarrow> bytes" where
  "valuesOf vs = concat (map (\<lambda>(k, c). firstValue k c) vs)"

lemma valuesOf_simps [simp]: "valuesOf [] = []" "valuesOf ((k, c) # vs) = firstValue k c @ valuesOf vs"
  by (simp_all add: valuesOf_def)

lemma Split_readKind:
  assumes "Split b = Some (Inr (k, c, rest))"
  shows "\<exists>ts cs. readKind b = Some (Inr (k, ts, cs)) \<and> slice b (unat (ts + cs)) (length b) = Some rest"
proof (cases "readKind b")
  case None
  then show ?thesis using assms by (simp add: Split_def)
next
  case (Some r)
  then show ?thesis using assms by (cases r) (auto simp: Split_def bind_eq_Some_conv)
qed

lemma countValues_valuesOf:
  "length (valuesOf vs) < 2 ^ 63 \<Longrightarrow> list_all (\<lambda>(k, c). goodKind k c) vs \<Longrightarrow> length (valuesOf vs) \<le> n \<Longrightarrow>
   countValues n (valuesOf vs) i = Some (Inr (i + length vs))"
proof (induction vs arbitrary: n i)
  case Nil
  then show ?case by (cases n) simp_all
next
  case (Cons v vs)
  obtain k c where v: "v = (k, c)" by fastforce
  let ?b = "firstValue k c @ valuesOf vs"
  have sp: "Split ?b = Some (Inr (k, c, valuesOf vs))" using Split_firstValue [of k c "valuesOf vs"] Cons.prems v by simp
  obtain ts cs where r: "readKind ?b = Some (Inr (k, ts, cs))" "slice ?b (unat (ts + cs)) (length ?b) = Some (valuesOf vs)"
    using Split_readKind [OF sp] by blast
  have pos: "1 \<le> length (firstValue k c)" using firstValue_nonempty [of k c] by (cases "firstValue k c") simp_all
  have small: "length (firstValue k c) + length (valuesOf vs) \<le> n" using Cons.prems v by simp
  then obtain m where m: "n = Suc m" using pos by (cases n) linarith+
  have "countValues m (valuesOf vs) (i + 1) = Some (Inr (i + 1 + length vs))"
    using Cons.prems(1,2) v m pos small by (intro Cons.IH) (simp, simp, linarith)
  then show ?case using r v m by simp
qed

lemma CountValues_valuesOf:
  "length (valuesOf vs) < 2 ^ 63 \<Longrightarrow> list_all (\<lambda>(k, c). goodKind k c) vs \<Longrightarrow> CountValues (valuesOf vs) = Some (Inr (length vs))"
  by (simp add: CountValues_def countValues_valuesOf)

text \<open>C34. Splitting takes off exactly a canonical value: \<open>Split\<close> never panics, and it succeeds with a kind, a
  content and a rest if and only if the input is the canonical encoding of that content followed by
  the rest.\<close>

theorem split_canonical:
  assumes "length b < 2 ^ 63"
  shows "(\<exists>r. Split b = Some r) \<and> (\<forall>k c rest. Split b = Some (Inr (k, c, rest)) \<longleftrightarrow> b = firstValue k c @ rest \<and> goodKind k c)"
  using Split_total [OF assms] Split_sound [OF assms] Split_firstValue assms by blast

theorem split_canonical_witness: "Split [0x82, 4, 0, 0xC0] = Some (Inr (String, [4, 0], [0xC0]))"
proof -
  have "[0x82, 4, 0, 0xC0] = firstValue String [4, 0] @ [0xC0] \<and> goodKind String [4, 0]"
    by (simp add: firstValue_def goodKind_def kindOf_def encBytes_def refHead_def)
  then show ?thesis using split_canonical [of "[0x82, 4, 0, 0xC0]"] by simp
qed

end
