(* ===== verification/TrieCodec.thy ===== *)
theory TrieCodec
  imports RlpRaw
begin

text \<open>
  The three encodings of trie keys (\<open>trie/encoding.go\<close>): the key bytes, their nibbles with a terminator, and
  the compact form that is stored. The lemmas show that the conversions undo each other, that the
  terminated keys are prefix-free, and what \<open>prefixLen\<close> computes.
\<close>

section \<open>The conversions\<close>

definition hasTerm :: "bytes \<Rightarrow> bool" where
  "hasTerm s \<longleftrightarrow> s \<noteq> [] \<and> s ! (length s - 1) = 16"

text \<open>The bytes written by \<open>decodeNibbles\<close>; both callers pass a destination of exactly that length, and an
  odd number of nibbles panics.\<close>

fun decodeNibbles :: "bytes \<Rightarrow> bytes option" where
  "decodeNibbles [] = Some []"
| "decodeNibbles [x] = None"
| "decodeNibbles (x # y # ns) = do { bs \<leftarrow> decodeNibbles ns; Some (or (push_bit 4 x) y # bs) }"

definition hexToCompact :: "bytes \<Rightarrow> bytes option" where
  "hexToCompact hex =
     (let (terminator, hex) = (if hasTerm hex then (1, take (length hex - 1) hex) else (0 :: byte, hex));
          flag = push_bit 5 terminator
      in if odd (length hex) then do {
           x \<leftarrow> index hex 0;
           bs \<leftarrow> decodeNibbles (drop 1 hex);
           Some (or (or flag 0x10) x # bs) }
         else do { bs \<leftarrow> decodeNibbles hex; Some (flag # bs) })"

definition keybytesToHex :: "bytes \<Rightarrow> bytes" where
  "keybytesToHex s = concat (map (\<lambda>b. [b div 16, b mod 16]) s) @ [16]"

definition compactToHex :: "bytes \<Rightarrow> bytes option" where
  "compactToHex compact = do {
     let b1 = keybytesToHex compact;
     let base = take (length b1 - 1) b1;
     x \<leftarrow> index base 0;
     let base = (if 2 \<le> x then base @ [16] else base);
     slice base (unat (2 - and x 1)) (length base) }"

definition hexToKeybytes :: "bytes \<Rightarrow> bytes option" where
  "hexToKeybytes hex =
     (let hex = (if hasTerm hex then take (length hex - 1) hex else hex)
      in if odd (length hex) then None else decodeNibbles hex)"

fun prefixLen :: "bytes \<Rightarrow> bytes \<Rightarrow> nat" where
  "prefixLen (x # a) (y # b) = (if x = y then Suc (prefixLen a b) else 0)"
| "prefixLen _ _ = 0"

section \<open>Nibbles and terminated keys\<close>

definition nibs :: "bytes \<Rightarrow> bool" where
  "nibs ns \<longleftrightarrow> list_all (\<lambda>x. x < 16) ns"

definition terminated :: "bytes \<Rightarrow> bool" where
  "terminated k \<longleftrightarrow> k \<noteq> [] \<and> last k = 16 \<and> nibs (butlast k)"

lemma nibs_simps [simp]: "nibs []" "nibs (x # ns) \<longleftrightarrow> x < 16 \<and> nibs ns" "nibs (ns @ ms) \<longleftrightarrow> nibs ns \<and> nibs ms"
  by (simp_all add: nibs_def)

lemma hasTerm_last: "hasTerm s \<longleftrightarrow> s \<noteq> [] \<and> last s = 16"
  by (auto simp: hasTerm_def last_conv_nth)

lemma hasTerm_snoc [simp]: "hasTerm (ns @ [x]) \<longleftrightarrow> x = 16"
  by (simp add: hasTerm_last)

lemma not_hasTerm_Nil [simp]: "\<not> hasTerm []"
  by (simp add: hasTerm_def)

lemma nibs_last: "nibs ns \<Longrightarrow> ns \<noteq> [] \<Longrightarrow> last ns < 16"
  by (induction ns) auto

lemma nibs_not_hasTerm [simp]: "nibs ns \<Longrightarrow> \<not> hasTerm ns"
  using nibs_last by (fastforce simp: hasTerm_last)

lemma nibs_take [simp]: "nibs ns \<Longrightarrow> nibs (take n ns)"
  by (metis append_take_drop_id nibs_simps(3))

lemma nibs_drop [simp]: "nibs ns \<Longrightarrow> nibs (drop n ns)"
  by (metis append_take_drop_id nibs_simps(3))

lemma terminated_snoc [simp]: "terminated (ns @ [x]) \<longleftrightarrow> x = 16 \<and> nibs ns"
  by (auto simp: terminated_def)

lemma terminatedE:
  assumes "terminated k"
  obtains ns where "k = ns @ [16]" "nibs ns"
  using assms that [of "butlast k"] by (auto simp: terminated_def) (metis append_butlast_last_id)

lemma terminated_Cons: "terminated (x # k) \<longleftrightarrow> (x = 16 \<and> k = []) \<or> (x < 16 \<and> terminated k)"
  by (cases k) (auto simp: terminated_def)

lemma terminated_Nil [simp]: "\<not> terminated []"
  by (simp add: terminated_def)

lemma terminated_hasTerm [simp]: "terminated k \<Longrightarrow> hasTerm k"
  by (simp add: terminated_def hasTerm_last)

lemma terminated_append: "nibs p \<Longrightarrow> terminated (p @ k) \<longleftrightarrow> terminated k"
  by (induction p) (auto simp: terminated_Cons)

lemma terminated_prefix_free: "terminated (p @ q) \<Longrightarrow> terminated p \<Longrightarrow> q = []"
  by (induction p) (auto simp: terminated_Cons)

section \<open>Common prefixes\<close>

lemma prefixLen_le: "prefixLen a b \<le> length a" "prefixLen a b \<le> length b"
  by (induction a b rule: prefixLen.induct) auto

lemma prefixLen_take: "take (prefixLen a b) a = take (prefixLen a b) b"
  by (induction a b rule: prefixLen.induct) auto

lemma prefixLen_differ:
  "prefixLen a b < length a \<Longrightarrow> prefixLen a b < length b \<Longrightarrow> a ! prefixLen a b \<noteq> b ! prefixLen a b"
  by (induction a b rule: prefixLen.induct) (auto split: if_splits)

lemma prefixLen_append [simp]: "prefixLen (p @ a) p = length p"
  by (induction p) (cases a; simp)+

lemma prefixLen_all: "prefixLen a b = length b \<Longrightarrow> a = b @ drop (length b) a"
  using prefixLen_take [of a b] by (metis append_take_drop_id take_all order_refl)

section \<open>Round trips\<close>

lemma nibble_div: "(b :: byte) div 16 = drop_bit 4 b" and nibble_mod: "(b :: byte) mod 16 = take_bit 4 b"
  by (simp_all add: drop_bit_eq_div take_bit_eq_mod)

lemma nibble_bits: "(x :: byte) < 16 \<longleftrightarrow> take_bit 4 x = x"
proof -
  have "take_bit 4 x = x \<longleftrightarrow> unat x mod 16 = unat x" by (simp add: word_unat_eq_iff unat_mod take_bit_eq_mod)
  moreover have "unat x < 16 \<longleftrightarrow> unat x mod 16 = unat x" by (metis mod_less mod_less_divisor zero_less_numeral)
  ultimately show ?thesis by (simp add: word_less_nat_alt)
qed

lemma byte_nibbles [simp]: "or (push_bit 4 (b div 16)) (b mod 16) = (b :: byte)"
  unfolding nibble_div nibble_mod by (rule bit_word_eqI) (auto simp: bit_simps)

lemma nibbles_byte:
  assumes "x < 16" "y < 16"
  shows "or (push_bit 4 x) y div 16 = (x :: byte)" "or (push_bit 4 x) y mod 16 = y"
proof -
  have b: "bit x n \<Longrightarrow> n < 4" "bit y n \<Longrightarrow> n < 4" for n
    using assms unfolding nibble_bits by (metis bit_take_bit_iff)+
  show "or (push_bit 4 x) y div 16 = x" "or (push_bit 4 x) y mod 16 = y"
    unfolding nibble_div nibble_mod by (rule bit_word_eqI; use b in \<open>fastforce simp: bit_simps\<close>)+
qed

lemma nibble_bound [simp]: "(b :: byte) div 16 < 16" "(b :: byte) mod 16 < 16"
  using unat_byte_less [of b] by (simp_all add: word_less_nat_alt unat_div unat_mod less_mult_imp_div_less)

lemma keybytesToHex_terminated [simp]: "terminated (keybytesToHex s)"
  unfolding keybytesToHex_def terminated_snoc by (induction s) auto

lemma decodeNibbles_hex: "decodeNibbles (concat (map (\<lambda>b. [b div 16, b mod 16]) s)) = Some s"
  by (induction s) auto

lemma decodeNibbles_total: "even (length ns) \<Longrightarrow> \<exists>bs. decodeNibbles ns = Some bs \<and> length bs = length ns div 2"
  by (induction ns rule: decodeNibbles.induct) auto

lemma hex_decodeNibbles:
  "decodeNibbles ns = Some bs \<Longrightarrow> nibs ns \<Longrightarrow> concat (map (\<lambda>b. [b div 16, b mod 16]) bs) = ns"
  by (induction ns arbitrary: bs rule: decodeNibbles.induct) (auto simp: bind_eq_Some_conv nibbles_byte)

lemma hexToKeybytes_keybytesToHex: "hexToKeybytes (keybytesToHex s) = Some s"
proof -
  have "even (length (concat (map (\<lambda>b :: byte. [b div 16, b mod 16]) s)))" by (induction s) auto
  then show ?thesis by (simp add: hexToKeybytes_def keybytesToHex_def decodeNibbles_hex)
qed

lemma keybytesToHex_inj: "keybytesToHex s = keybytesToHex s' \<longleftrightarrow> s = s'"
  by (metis hexToKeybytes_keybytesToHex option.inject)

text \<open>A key that a node can hold: nibbles, with or without a terminator.\<close>

definition hexKey :: "bytes \<Rightarrow> bool" where
  "hexKey k \<longleftrightarrow> nibs k \<or> terminated k"

definition flagByte :: "bool \<Rightarrow> byte" where
  "flagByte t = (if t then 0x20 else 0)"

lemma hexToCompact_parts:
  assumes "nibs ns"
  shows "\<exists>bs c. hexToCompact (ns @ (if t then [16] else [])) = Some (c # bs) \<and> length bs = length ns div 2 \<and>
     compactToHex (c # bs) = Some (ns @ (if t then [16] else []))"
proof (cases "even (length ns)")
  case True
  then obtain bs where bs: "decodeNibbles ns = Some bs" "length bs = length ns div 2" using decodeNibbles_total by blast
  have "concat (map (\<lambda>b. [b div 16, b mod 16]) bs) = ns" using hex_decodeNibbles [OF bs(1) assms] .
  then have "compactToHex (flagByte t # bs) = Some (ns @ (if t then [16] else []))"
    by (simp add: compactToHex_def keybytesToHex_def index_def slice_def flagByte_def)
  moreover have "hexToCompact (ns @ (if t then [16] else [])) = Some (flagByte t # bs)"
    using True bs assms by (simp add: hexToCompact_def flagByte_def)
  ultimately show ?thesis using bs by blast
next
  case False
  then obtain x ms where ns: "ns = x # ms" "even (length ms)" by (cases ns) auto
  then obtain bs where bs: "decodeNibbles ms = Some bs" "length bs = length ms div 2" using decodeNibbles_total by blast
  let ?c = "or (or (flagByte t) 0x10) x"
  have x: "x < 16" "nibs ms" using assms ns by auto
  have d: "?c = or (push_bit 4 (if t then 3 else 1)) x" by (simp add: flagByte_def)
  have c: "?c div 16 = (if t then 3 else 1)" "?c mod 16 = x"
    unfolding d using x by (auto simp: nibbles_byte)
  have "concat (map (\<lambda>b. [b div 16, b mod 16]) bs) = ms" using hex_decodeNibbles [OF bs(1) x(2)] .
  then have "compactToHex (?c # bs) = Some (ns @ (if t then [16] else []))"
    using ns c by (cases t) (simp_all add: compactToHex_def keybytesToHex_def index_def slice_def word_le_nat_alt)
  moreover have "hexToCompact (ns @ (if t then [16] else [])) = Some (?c # bs)"
    using False bs assms ns hasTerm_snoc [of "x # ms" 16] by (simp add: hexToCompact_def flagByte_def index_def)
  ultimately show ?thesis using bs ns by auto
qed

lemma compact_roundtrip:
  assumes "hexKey k"
  shows "\<exists>c. hexToCompact k = Some c \<and> compactToHex c = Some k \<and> length c \<le> Suc (length k) \<and> c \<noteq> []"
proof -
  obtain ns t where k: "k = ns @ (if t then [16] else [])" "nibs ns"
  proof (cases "nibs k")
    case True
    then show ?thesis using that [of k False] by simp
  next
    case False
    then have "terminated k" using assms by (simp add: hexKey_def)
    then obtain ns where "k = ns @ [16]" "nibs ns" by (rule terminatedE)
    then show ?thesis using that [of ns True] by simp
  qed
  from hexToCompact_parts [OF k(2), of t] obtain bs c where
    "hexToCompact k = Some (c # bs)" "length bs = length ns div 2" "compactToHex (c # bs) = Some k" unfolding k(1) by blast
  then show ?thesis using k(1) by auto
qed

text \<open>C32. Keys survive their encodings: key bytes come back from their nibbles, and every nibble key that a
  node can hold, terminated or not, comes back from its compact form.\<close>

theorem key_encodings:
  assumes "hexKey h"
  shows "hexToKeybytes (keybytesToHex k) = Some k \<and> (\<exists>c. hexToCompact h = Some c \<and> compactToHex c = Some h)"
  using compact_roundtrip [OF assms] hexToKeybytes_keybytesToHex by blast

theorem key_encodings_witness:
  "hexKey [1, 2, 3, 16] \<and> (\<exists>c. hexToCompact [1, 2, 3, 16] = Some c \<and> compactToHex c = Some [1, 2, 3, 16])"
proof -
  have "hexKey [1, 2, 3, 16]" by (simp add: hexKey_def terminated_Cons)
  then show ?thesis using key_encodings [of "[1, 2, 3, 16]" "[]"] by simp
qed

end
