(* ===== verification/Trie.thy ===== *)
theory Trie
  imports TrieCodec "HOL-Library.AList"
begin

text \<open>
  The Merkle Patricia trie (\<open>trie/node.go\<close>, \<open>trie/database.go\<close>, \<open>trie/trie.go\<close>, \<open>trie/hasher.go\<close>,
  \<open>trie/proof.go\<close>): nodes and their decoding, the node database, lookups and updates that load nodes on
  demand, hashing and committing, and Merkle proofs.

  A nil interface is \<open>nilNode\<close>. Nodes are never changed in place by the sources except for fresh copies,
  so they are values here. The disk database is the function \<open>tdDisk\<close>; the hash function is a field of
  the \<open>hasher\<close>. Operations that follow hash references are \<open>partial_function\<close>s: besides a panic, \<open>None\<close>
  stands for a run that does not end, which a database with a cycle of hashes could cause.
\<close>

section \<open>Nodes\<close>

record nodeFlag =
  nfHash :: "bytes option"
  nfGen :: "16 word"
  nfDirty :: bool

datatype node =
    nilNode
  | fullNode "node list" nodeFlag
  | shortNode bytes node nodeFlag
  | hashNode bytes
  | valueNode bytes

definition flagCanUnload :: "nodeFlag \<Rightarrow> 16 word \<Rightarrow> 16 word \<Rightarrow> bool" where
  "flagCanUnload fl cachegen cachelimit \<longleftrightarrow> \<not> nfDirty fl \<and> cachelimit \<le> cachegen - nfGen fl"

fun canUnload :: "node \<Rightarrow> 16 word \<Rightarrow> 16 word \<Rightarrow> bool option" where
  "canUnload nilNode cachegen cachelimit = None"
| "canUnload (fullNode cs fl) cachegen cachelimit = Some (flagCanUnload fl cachegen cachelimit)"
| "canUnload (shortNode k v fl) cachegen cachelimit = Some (flagCanUnload fl cachegen cachelimit)"
| "canUnload _ cachegen cachelimit = Some False"

fun cache :: "node \<Rightarrow> (bytes option \<times> bool) option" where
  "cache nilNode = None"
| "cache (fullNode cs fl) = Some (nfHash fl, nfDirty fl)"
| "cache (shortNode k v fl) = Some (nfHash fl, nfDirty fl)"
| "cache _ = Some (None, True)"

text \<open>How \<open>rlp\<close> sees a node: the exported fields of a short node, the children array of a full node, and
  interface values.\<close>

fun nodeVal :: "node \<Rightarrow> rval" where
  "nodeVal nilNode = InterfaceV None"
| "nodeVal (valueNode v) = InterfaceV (Some (BytesV v))"
| "nodeVal (hashNode h) = InterfaceV (Some (BytesV h))"
| "nodeVal (shortNode k v fl) = InterfaceV (Some (PtrV (StructV [BytesV k, nodeVal v])))"
| "nodeVal (fullNode cs fl) = InterfaceV (Some (PtrV (ListV False (map nodeVal cs))))"

section \<open>Decoding nodes\<close>

datatype nodeContext = ctxShort | ctxFull | ctxVal | ctxIndex nat

datatype nodeError =
    errRlp rlpError
  | errText string
  | decodeErr nodeError "nodeContext list"

fun wrapError :: "nodeError \<Rightarrow> nodeContext \<Rightarrow> nodeError" where
  "wrapError (decodeErr what stack) ctx = decodeErr what (stack @ [ctx])"
| "wrapError err ctx = decodeErr err [ctx]"

type_synonym nodeResult = "(nodeError + node) option"

text \<open>The decoders take \<open>decodeNode\<close> for embedded nodes as an argument.\<close>

definition decodeRef :: "(bytes \<Rightarrow> nodeResult) \<Rightarrow> bytes \<Rightarrow> (nodeError + node \<times> bytes) option" where
  "decodeRef dec buf = do {
     r \<leftarrow> Split buf;
     case r of
       Inl err \<Rightarrow> Some (Inl (errRlp err))
     | Inr (kind, val, rest) \<Rightarrow>
         if kind = List then
           if 32 < length buf - length rest then Some (Inl (errText ''oversized embedded node''))
           else do {
             r \<leftarrow> dec buf;
             Some (case r of Inl err \<Rightarrow> Inl err | Inr n \<Rightarrow> Inr (n, rest)) }
         else if kind = String \<and> val = [] then Some (Inr (nilNode, rest))
         else if kind = String \<and> length val = 32 then Some (Inr (hashNode val, rest))
         else Some (Inl (errText ''invalid RLP string size'')) }"

definition decodeShort :: "(bytes \<Rightarrow> nodeResult) \<Rightarrow> bytes option \<Rightarrow> bytes \<Rightarrow> 16 word \<Rightarrow> nodeResult" where
  "decodeShort dec hash elems cachegen = do {
     r \<leftarrow> SplitString elems;
     case r of
       Inl err \<Rightarrow> Some (Inl (errRlp err))
     | Inr (kbuf, rest) \<Rightarrow> do {
         let flag = \<lparr>nfHash = hash, nfGen = cachegen, nfDirty = False\<rparr>;
         key \<leftarrow> compactToHex kbuf;
         if hasTerm key then do {
           r \<leftarrow> SplitString rest;
           Some (case r of
              Inl err \<Rightarrow> Inl (errText ''invalid value node'')
            | Inr (val, _) \<Rightarrow> Inr (shortNode key (valueNode val) flag)) }
         else do {
           r \<leftarrow> decodeRef dec rest;
           Some (case r of
              Inl err \<Rightarrow> Inl (wrapError err ctxVal)
            | Inr (n, _) \<Rightarrow> Inr (shortNode key n flag)) } } }"

text \<open>The loop of \<open>decodeFull\<close> over the first sixteen children; the fields are the number of children still
  to come, the index and the remaining input.\<close>

fun decodeChildren :: "(bytes \<Rightarrow> nodeResult) \<Rightarrow> nat \<Rightarrow> nat \<Rightarrow> bytes \<Rightarrow> (nodeError + node list \<times> bytes) option" where
  "decodeChildren dec 0 i elems = Some (Inr ([], elems))"
| "decodeChildren dec (Suc k) i elems = do {
     r \<leftarrow> decodeRef dec elems;
     case r of
       Inl err \<Rightarrow> Some (Inl (wrapError err (ctxIndex i)))
     | Inr (cld, rest) \<Rightarrow> do {
         r \<leftarrow> decodeChildren dec k (i + 1) rest;
         Some (case r of Inl err \<Rightarrow> Inl err | Inr (cs, rest) \<Rightarrow> Inr (cld # cs, rest)) } }"

definition decodeFull :: "(bytes \<Rightarrow> nodeResult) \<Rightarrow> bytes option \<Rightarrow> bytes \<Rightarrow> 16 word \<Rightarrow> nodeResult" where
  "decodeFull dec hash elems cachegen = do {
     r \<leftarrow> decodeChildren dec 16 0 elems;
     case r of
       Inl err \<Rightarrow> Some (Inl err)
     | Inr (cs, elems) \<Rightarrow> do {
         r \<leftarrow> SplitString elems;
         Some (case r of
            Inl err \<Rightarrow> Inl (errRlp err)
          | Inr (val, _) \<Rightarrow> Inr (fullNode (cs @ [if val \<noteq> [] then valueNode val else nilNode])
              \<lparr>nfHash = hash, nfGen = cachegen, nfDirty = False\<rparr>)) } }"

text \<open>An embedded node is shorter than the list that holds it, so the length of the input bounds the
  nesting.\<close>

fun decodeNodeN :: "nat \<Rightarrow> 16 word \<Rightarrow> bytes option \<Rightarrow> bytes \<Rightarrow> nodeResult" where
  "decodeNodeN 0 cachegen hash buf = None"
| "decodeNodeN (Suc n) cachegen hash buf =
     (if buf = [] then Some (Inl (errRlp ioErrUnexpectedEOF))
      else do {
        r \<leftarrow> SplitList buf;
        case r of
          Inl err \<Rightarrow> Some (Inl (errText ''decode error''))
        | Inr (elems, _) \<Rightarrow> do {
            r \<leftarrow> CountValues elems;
            let c = (case r of Inl _ \<Rightarrow> 0 | Inr c \<Rightarrow> c);
            if c = 2 then do {
              r \<leftarrow> decodeShort (decodeNodeN n cachegen None) hash elems cachegen;
              Some (case r of Inl err \<Rightarrow> Inl (wrapError err ctxShort) | Inr n \<Rightarrow> Inr n) }
            else if c = 17 then do {
              r \<leftarrow> decodeFull (decodeNodeN n cachegen None) hash elems cachegen;
              Some (case r of Inl err \<Rightarrow> Inl (wrapError err ctxFull) | Inr n \<Rightarrow> Inr n) }
            else Some (Inl (errText ''invalid number of list elements'')) } })"

definition decodeNode :: "bytes option \<Rightarrow> bytes \<Rightarrow> 16 word \<Rightarrow> nodeResult" where
  "decodeNode hash buf cachegen = decodeNodeN (Suc (length buf)) cachegen hash buf"

definition mustDecodeNode :: "bytes option \<Rightarrow> bytes \<Rightarrow> 16 word \<Rightarrow> node option" where
  "mustDecodeNode hash buf cachegen = do {
     r \<leftarrow> decodeNode hash buf cachegen;
     case r of Inl err \<Rightarrow> None | Inr n \<Rightarrow> Some n }"

section \<open>The node database\<close>

text \<open>The references of a node to its children are kept as a list of pairs; the sources iterate over them in
  an unspecified order.\<close>

record cachedNode =
  cnBlob :: "bytes option"
  cnParents :: int
  cnChildren :: "(hash \<times> int) list"

record trieDatabase =
  tdDisk :: "bytes \<Rightarrow> bytes option"
  tdNodes :: "hash \<rightharpoonup> cachedNode"

definition NewDatabase :: "(bytes \<Rightarrow> bytes option) \<Rightarrow> trieDatabase" where
  "NewDatabase diskdb = \<lparr>tdDisk = diskdb, tdNodes = [0 \<mapsto> \<lparr>cnBlob = None, cnParents = 0, cnChildren = []\<rparr>]\<rparr>"

definition dbInsert :: "trieDatabase \<Rightarrow> hash \<Rightarrow> bytes \<Rightarrow> trieDatabase" where
  "dbInsert db h b =
     (case tdNodes db h of
        Some _ \<Rightarrow> db
      | None \<Rightarrow> db\<lparr>tdNodes := (tdNodes db)(h \<mapsto> \<lparr>cnBlob = Some b, cnParents = 0, cnChildren = []\<rparr>)\<rparr>)"

definition dbNode :: "trieDatabase \<Rightarrow> hash \<Rightarrow> bytes option" where
  "dbNode db h = (case tdNodes db h of Some n \<Rightarrow> cnBlob n | None \<Rightarrow> tdDisk db (HashBytes h))"

definition childCount :: "cachedNode \<Rightarrow> hash \<Rightarrow> int" where
  "childCount n h = (case map_of (cnChildren n) h of Some c \<Rightarrow> c | None \<Rightarrow> 0)"

definition dbReference :: "trieDatabase \<Rightarrow> hash \<Rightarrow> hash \<Rightarrow> trieDatabase option" where
  "dbReference db child parent =
     (case tdNodes db child of
        None \<Rightarrow> Some db
      | Some node \<Rightarrow> do {
          p \<leftarrow> tdNodes db parent;
          if map_of (cnChildren p) child \<noteq> None \<and> parent \<noteq> 0 then Some db
          else do {
            let ns = (tdNodes db)(child \<mapsto> node\<lparr>cnParents := cnParents node + 1\<rparr>);
            p \<leftarrow> ns parent;
            Some (db\<lparr>tdNodes := ns(parent \<mapsto> p\<lparr>cnChildren := AList.update child (childCount p child + 1) (cnChildren p)\<rparr>)\<rparr>) } })"

section \<open>Lookups and updates\<close>

datatype trieError = MissingNodeError hash bytes

record Trie =
  tRoot :: node
  tOriginalRoot :: hash
  tCachegen :: "16 word"
  tCachelimit :: "16 word"

text \<open>The hash of an empty trie, a constant of the sources.\<close>

definition emptyRoot :: hash where
  "emptyRoot = 0x56e81f171bcc55a6ff8345e692c0f86e5b48e01b996cadc001622fb5e363b421"

definition SetCacheLimit :: "Trie \<Rightarrow> 16 word \<Rightarrow> Trie" where
  "SetCacheLimit t l = t\<lparr>tCachelimit := l\<rparr>"

definition newFlag :: "16 word \<Rightarrow> nodeFlag" where
  "newFlag cachegen = \<lparr>nfHash = None, nfGen = cachegen, nfDirty = True\<rparr>"

definition resolveHash :: "trieDatabase \<Rightarrow> 16 word \<Rightarrow> bytes \<Rightarrow> bytes \<Rightarrow> (trieError + node) option" where
  "resolveHash db cachegen n prefix =
     (case dbNode db (BytesToHash n) of
        None \<Rightarrow> Some (Inl (MissingNodeError (BytesToHash n) prefix))
      | Some enc \<Rightarrow> do { n \<leftarrow> mustDecodeNode (Some n) enc cachegen; Some (Inr n) })"

definition resolveNode :: "trieDatabase \<Rightarrow> 16 word \<Rightarrow> node \<Rightarrow> bytes \<Rightarrow> (trieError + node) option" where
  "resolveNode db cachegen n prefix =
     (case n of hashNode h \<Rightarrow> resolveHash db cachegen h prefix | _ \<Rightarrow> Some (Inr n))"

definition NewTrie :: "hash \<Rightarrow> trieDatabase \<Rightarrow> (trieError + Trie) option" where
  "NewTrie root db =
     (let trie = \<lparr>tRoot = nilNode, tOriginalRoot = root, tCachegen = 0, tCachelimit = 0\<rparr>
      in if root \<noteq> 0 \<and> root \<noteq> emptyRoot then do {
           r \<leftarrow> resolveHash db 0 (HashBytes root) [];
           Some (case r of Inl err \<Rightarrow> Inl err | Inr rootnode \<Rightarrow> Inr (trie\<lparr>tRoot := rootnode\<rparr>)) }
         else Some (Inr trie))"

partial_function (option) tryGet ::
    "trieDatabase \<Rightarrow> 16 word \<Rightarrow> node \<Rightarrow> bytes \<Rightarrow> nat \<Rightarrow> (trieError + bytes option \<times> node \<times> bool) option" where
  "tryGet db cachegen origNode key pos =
     (case origNode of
        nilNode \<Rightarrow> Some (Inr (None, nilNode, False))
      | valueNode v \<Rightarrow> Some (Inr (Some v, valueNode v, False))
      | shortNode k c fl \<Rightarrow>
          if length key - pos < length k \<or> slice key pos (pos + length k) \<noteq> Some k
          then Some (Inr (None, shortNode k c fl, False))
          else do {
            r \<leftarrow> tryGet db cachegen c key (pos + length k);
            Some (case r of
               Inl err \<Rightarrow> Inl err
             | Inr (value, newnode, didResolve) \<Rightarrow>
                 Inr (value, if didResolve then shortNode k newnode (fl\<lparr>nfGen := cachegen\<rparr>) else shortNode k c fl, didResolve)) }
      | fullNode cs fl \<Rightarrow> do {
          x \<leftarrow> index key pos;
          c \<leftarrow> index cs (unat x);
          r \<leftarrow> tryGet db cachegen c key (pos + 1);
          Some (case r of
             Inl err \<Rightarrow> Inl err
           | Inr (value, newnode, didResolve) \<Rightarrow>
               Inr (value, if didResolve then fullNode (cs[unat x := newnode]) (fl\<lparr>nfGen := cachegen\<rparr>) else fullNode cs fl, didResolve)) }
      | hashNode n \<Rightarrow> do {
          prefix \<leftarrow> slice key 0 pos;
          r \<leftarrow> resolveHash db cachegen n prefix;
          case r of
            Inl err \<Rightarrow> Some (Inl err)
          | Inr child \<Rightarrow> do {
              r \<leftarrow> tryGet db cachegen child key pos;
              Some (case r of Inl err \<Rightarrow> Inl err | Inr (value, newnode, _) \<Rightarrow> Inr (value, newnode, True)) } })"

definition TryGet :: "trieDatabase \<Rightarrow> Trie \<Rightarrow> bytes \<Rightarrow> ((trieError + bytes option) \<times> Trie) option" where
  "TryGet db t key = do {
     r \<leftarrow> tryGet db (tCachegen t) (tRoot t) (keybytesToHex key) 0;
     Some (case r of
        Inl err \<Rightarrow> (Inl err, t)
      | Inr (value, newroot, didResolve) \<Rightarrow> (Inr value, if didResolve then t\<lparr>tRoot := newroot\<rparr> else t)) }"

text \<open>The branch of \<open>insert\<close> where the keys differ; the two calls with a nil node are \<open>insertLeaf\<close>.\<close>

definition insertLeaf :: "16 word \<Rightarrow> bytes \<Rightarrow> node \<Rightarrow> node" where
  "insertLeaf cachegen key value = (if key = [] then value else shortNode key value (newFlag cachegen))"

definition branchOut :: "16 word \<Rightarrow> bytes \<Rightarrow> node \<Rightarrow> bytes \<Rightarrow> node \<Rightarrow> nat \<Rightarrow> node option" where
  "branchOut cachegen nKey nVal key value matchlen = do {
     x \<leftarrow> index nKey matchlen;
     kx \<leftarrow> slice nKey (matchlen + 1) (length nKey);
     y \<leftarrow> index key matchlen;
     ky \<leftarrow> slice key (matchlen + 1) (length key);
     _ \<leftarrow> index (replicate 17 nilNode) (unat x);
     _ \<leftarrow> index (replicate 17 nilNode) (unat y);
     let branch = fullNode ((replicate 17 nilNode)[unat x := insertLeaf cachegen kx nVal, unat y := insertLeaf cachegen ky value]) (newFlag cachegen);
     Some (if matchlen = 0 then branch else shortNode (take matchlen key) branch (newFlag cachegen)) }"

partial_function (option) trieInsert ::
    "trieDatabase \<Rightarrow> 16 word \<Rightarrow> node \<Rightarrow> bytes \<Rightarrow> bytes \<Rightarrow> node \<Rightarrow> (trieError + bool \<times> node) option" where
  "trieInsert db cachegen n prefix key value =
     (if key = [] then
        case n of
          valueNode v \<Rightarrow> (case value of valueNode w \<Rightarrow> Some (Inr (v \<noteq> w, value)) | _ \<Rightarrow> None)
        | _ \<Rightarrow> Some (Inr (True, value))
      else case n of
        shortNode k c fl \<Rightarrow>
          let matchlen = prefixLen key k
          in if matchlen = length k then do {
               r \<leftarrow> trieInsert db cachegen c (prefix @ take matchlen key) (drop matchlen key) value;
               Some (case r of
                  Inl err \<Rightarrow> Inl err
                | Inr (dirty, nn) \<Rightarrow> if \<not> dirty then Inr (False, n) else Inr (True, shortNode k nn (newFlag cachegen))) }
             else do { nn \<leftarrow> branchOut cachegen k c key value matchlen; Some (Inr (True, nn)) }
      | fullNode cs fl \<Rightarrow> do {
          c \<leftarrow> index cs (unat (hd key));
          r \<leftarrow> trieInsert db cachegen c (prefix @ [hd key]) (tl key) value;
          Some (case r of
             Inl err \<Rightarrow> Inl err
           | Inr (dirty, nn) \<Rightarrow>
               if \<not> dirty then Inr (False, n) else Inr (True, fullNode (cs[unat (hd key) := nn]) (newFlag cachegen))) }
      | nilNode \<Rightarrow> Some (Inr (True, shortNode key value (newFlag cachegen)))
      | hashNode h \<Rightarrow> do {
          r \<leftarrow> resolveHash db cachegen h prefix;
          case r of
            Inl err \<Rightarrow> Some (Inl err)
          | Inr rn \<Rightarrow> do {
              r \<leftarrow> trieInsert db cachegen rn prefix key value;
              Some (case r of
                 Inl err \<Rightarrow> Inl err
               | Inr (dirty, nn) \<Rightarrow> if \<not> dirty then Inr (False, rn) else Inr (True, nn)) } }
      | valueNode v \<Rightarrow> None)"

text \<open>The position of the only child that is left, as the loop of \<open>delete\<close> computes it: \<open>-1\<close> for none, \<open>-2\<close>
  for two or more.\<close>

fun lonelyChild :: "node list \<Rightarrow> nat \<Rightarrow> int \<Rightarrow> int" where
  "lonelyChild [] i pos = pos"
| "lonelyChild (c # cs) i pos =
     (if c \<noteq> nilNode then if pos = -1 then lonelyChild cs (i + 1) (int i) else -2
      else lonelyChild cs (i + 1) pos)"

text \<open>The end of \<open>delete\<close> on a full node whose child has been replaced.\<close>

definition reduceFull :: "trieDatabase \<Rightarrow> 16 word \<Rightarrow> bytes \<Rightarrow> node list \<Rightarrow> (trieError + bool \<times> node) option" where
  "reduceFull db cachegen prefix cs =
     (let pos = lonelyChild cs 0 (-1)
      in if 0 \<le> pos then do {
           c \<leftarrow> index cs (nat pos);
           let short = Some (Inr (True, shortNode [of_int pos] c (newFlag cachegen)));
           if pos \<noteq> 16 then do {
             r \<leftarrow> resolveNode db cachegen c prefix;
             case r of
               Inl err \<Rightarrow> Some (Inl err)
             | Inr (shortNode k v _) \<Rightarrow> Some (Inr (True, shortNode (of_int pos # k) v (newFlag cachegen)))
             | Inr _ \<Rightarrow> short }
           else short }
         else Some (Inr (True, fullNode cs (newFlag cachegen))))"

partial_function (option) trieDelete ::
    "trieDatabase \<Rightarrow> 16 word \<Rightarrow> node \<Rightarrow> bytes \<Rightarrow> bytes \<Rightarrow> (trieError + bool \<times> node) option" where
  "trieDelete db cachegen n prefix key =
     (case n of
        shortNode k c fl \<Rightarrow>
          let matchlen = prefixLen key k
          in if matchlen < length k then Some (Inr (False, n))
             else if matchlen = length key then Some (Inr (True, nilNode))
             else do {
               r \<leftarrow> trieDelete db cachegen c (prefix @ take (length k) key) (drop (length k) key);
               Some (case r of
                  Inl err \<Rightarrow> Inl err
                | Inr (dirty, child) \<Rightarrow>
                    if \<not> dirty then Inr (False, n)
                    else (case child of
                        shortNode k2 c2 _ \<Rightarrow> Inr (True, shortNode (k @ k2) c2 (newFlag cachegen))
                      | _ \<Rightarrow> Inr (True, shortNode k child (newFlag cachegen)))) }
      | fullNode cs fl \<Rightarrow> do {
          x \<leftarrow> index key 0;
          c \<leftarrow> index cs (unat x);
          r \<leftarrow> trieDelete db cachegen c (prefix @ [x]) (drop 1 key);
          case r of
            Inl err \<Rightarrow> Some (Inl err)
          | Inr (dirty, nn) \<Rightarrow>
              if \<not> dirty then Some (Inr (False, n)) else reduceFull db cachegen prefix (cs[unat x := nn]) }
      | valueNode v \<Rightarrow> Some (Inr (True, nilNode))
      | nilNode \<Rightarrow> Some (Inr (False, nilNode))
      | hashNode h \<Rightarrow> do {
          r \<leftarrow> resolveHash db cachegen h prefix;
          case r of
            Inl err \<Rightarrow> Some (Inl err)
          | Inr rn \<Rightarrow> do {
              r \<leftarrow> trieDelete db cachegen rn prefix key;
              Some (case r of
                 Inl err \<Rightarrow> Inl err
               | Inr (dirty, nn) \<Rightarrow> if \<not> dirty then Inr (False, rn) else Inr (True, nn)) } })"

text \<open>\<open>TryUpdate\<close> and \<open>TryDelete\<close> return the error and the trie.\<close>

definition setRoot :: "Trie \<Rightarrow> (trieError + bool \<times> node) option \<Rightarrow> (trieError option \<times> Trie) option" where
  "setRoot t r = do {
     r \<leftarrow> r;
     Some (case r of Inl err \<Rightarrow> (Some err, t) | Inr (_, n) \<Rightarrow> (None, t\<lparr>tRoot := n\<rparr>)) }"

definition TryDelete :: "trieDatabase \<Rightarrow> Trie \<Rightarrow> bytes \<Rightarrow> (trieError option \<times> Trie) option" where
  "TryDelete db t key = setRoot t (trieDelete db (tCachegen t) (tRoot t) [] (keybytesToHex key))"

definition TryUpdate :: "trieDatabase \<Rightarrow> Trie \<Rightarrow> bytes \<Rightarrow> bytes \<Rightarrow> (trieError option \<times> Trie) option" where
  "TryUpdate db t key value =
     setRoot t
       (if value \<noteq> [] then trieInsert db (tCachegen t) (tRoot t) [] (keybytesToHex key) (valueNode value)
        else trieDelete db (tCachegen t) (tRoot t) [] (keybytesToHex key))"

section \<open>Hashing\<close>

record hasher =
  hSha :: "bytes \<Rightarrow> hash"
  hCachegen :: "16 word"
  hCachelimit :: "16 word"
  hOnleaf :: "(bytes \<Rightarrow> hash \<Rightarrow> trieDatabase \<Rightarrow> trieDatabase option) option"

fun referenceAll :: "node list \<Rightarrow> hash \<Rightarrow> trieDatabase \<Rightarrow> trieDatabase option" where
  "referenceAll [] h db = Some db"
| "referenceAll (hashNode c # ns) h db = do { db \<leftarrow> dbReference db (BytesToHash c) h; referenceAll ns h db }"
| "referenceAll (_ # ns) h db = referenceAll ns h db"

fun leafAll :: "(bytes \<Rightarrow> hash \<Rightarrow> trieDatabase \<Rightarrow> trieDatabase option) \<Rightarrow> node list \<Rightarrow> hash \<Rightarrow> trieDatabase \<Rightarrow> trieDatabase option" where
  "leafAll onleaf [] h db = Some db"
| "leafAll onleaf (valueNode v # ns) h db = do { db \<leftarrow> onleaf v h db; leafAll onleaf ns h db }"
| "leafAll onleaf (_ # ns) h db = leafAll onleaf ns h db"

text \<open>The children that \<open>store\<close> looks at.\<close>

fun storeChildren :: "node \<Rightarrow> node list" where
  "storeChildren (shortNode k v fl) = [v]"
| "storeChildren (fullNode cs fl) = take 16 cs"
| "storeChildren _ = []"

definition storeNode :: "hasher \<Rightarrow> node \<Rightarrow> trieDatabase option \<Rightarrow> bool \<Rightarrow> (node \<times> trieDatabase option) option" where
  "storeNode h n db force =
     (case n of
        nilNode \<Rightarrow> Some (n, db)
      | hashNode _ \<Rightarrow> Some (n, db)
      | _ \<Rightarrow> do {
          r \<leftarrow> Encode (nodeVal n);
          case r of
            Inl err \<Rightarrow> None
          | Inr tmp \<Rightarrow>
              if length tmp < 32 \<and> \<not> force then Some (n, db)
              else do {
                (cached, _) \<leftarrow> cache n;
                let hash = (case cached of Some hash \<Rightarrow> hash | None \<Rightarrow> HashBytes (hSha h tmp));
                case db of
                  None \<Rightarrow> Some (hashNode hash, db)
                | Some d \<Rightarrow> do {
                    let key = BytesToHash hash;
                    d \<leftarrow> referenceAll (storeChildren n) key (dbInsert d key tmp);
                    d \<leftarrow> (case hOnleaf h of None \<Rightarrow> Some d | Some onleaf \<Rightarrow> leafAll onleaf (storeChildren n) key d);
                    Some (hashNode hash, Some d) } } })"

text \<open>The cached data that \<open>hash\<close> uses: the result if it can be returned at once.\<close>

definition useCache :: "hasher \<Rightarrow> node \<Rightarrow> bool \<Rightarrow> (node \<times> node) option option" where
  "useCache h n committing = do {
     (hash, dirty) \<leftarrow> cache n;
     unload \<leftarrow> canUnload n (hCachegen h) (hCachelimit h);
     Some (case hash of
        None \<Rightarrow> None
      | Some hash \<Rightarrow>
          if \<not> committing then Some (hashNode hash, n)
          else if unload then Some (hashNode hash, hashNode hash)
          else if \<not> dirty then Some (hashNode hash, n)
          else None) }"

text \<open>The flags that \<open>hash\<close> sets on the copy of the node.\<close>

fun setCached :: "node \<Rightarrow> node \<Rightarrow> bool \<Rightarrow> node" where
  "setCached (shortNode k v fl) hashed committing =
     shortNode k v (fl\<lparr>nfHash := (case hashed of hashNode h \<Rightarrow> Some h | _ \<Rightarrow> None), nfDirty := nfDirty fl \<and> \<not> committing\<rparr>)"
| "setCached (fullNode cs fl) hashed committing =
     fullNode cs (fl\<lparr>nfHash := (case hashed of hashNode h \<Rightarrow> Some h | _ \<Rightarrow> None), nfDirty := nfDirty fl \<and> \<not> committing\<rparr>)"
| "setCached n hashed committing = n"

text \<open>\<open>hashLoop\<close> is the loop of \<open>hashChildren\<close> over the children of a full node: the first sixteen are hashed,
  the last one is kept.\<close>

fun hashN :: "hasher \<Rightarrow> node \<Rightarrow> trieDatabase option \<Rightarrow> bool \<Rightarrow> (node \<times> node \<times> trieDatabase option) option"
  and hashChildren :: "hasher \<Rightarrow> node \<Rightarrow> trieDatabase option \<Rightarrow> (node \<times> node \<times> trieDatabase option) option"
  and hashLoop :: "hasher \<Rightarrow> nat \<Rightarrow> node list \<Rightarrow> trieDatabase option \<Rightarrow> (node list \<times> node list \<times> trieDatabase option) option" where
  "hashN h n db force = do {
     r \<leftarrow> useCache h n (db \<noteq> None);
     case r of
       Some (hashed, cached) \<Rightarrow> Some (hashed, cached, db)
     | None \<Rightarrow> do {
         (collapsed, cached, db) \<leftarrow> hashChildren h n db;
         (hashed, db) \<leftarrow> storeNode h collapsed db force;
         Some (hashed, setCached cached hashed (db \<noteq> None), db) } }"
| "hashChildren h (shortNode k v fl) db = do {
     ck \<leftarrow> hexToCompact k;
     case v of
       valueNode w \<Rightarrow> Some (shortNode ck v fl, shortNode k v fl, db)
     | _ \<Rightarrow> do {
         (cv, v, db) \<leftarrow> hashN h v db False;
         Some (shortNode ck (if cv = nilNode then valueNode [] else cv) fl, shortNode k v fl, db) } }"
| "hashChildren h (fullNode cs fl) db = do {
     (collapsed, cached, db) \<leftarrow> hashLoop h 16 cs db;
     Some (fullNode collapsed fl, fullNode cached fl, db) }"
| "hashChildren h n db = Some (n, n, db)"
| "hashLoop h i [] db = Some ([], [], db)"
| "hashLoop h i (c # cs) db =
     (if i = 0 then Some ((if c = nilNode then valueNode [] else c) # cs, c # cs, db)
      else if c = nilNode then do {
        (collapsed, cached, db) \<leftarrow> hashLoop h (i - 1) cs db;
        Some (valueNode [] # collapsed, c # cached, db) }
      else do {
        (cv, c, db) \<leftarrow> hashN h c db False;
        (collapsed, cached, db) \<leftarrow> hashLoop h (i - 1) cs db;
        Some (cv # collapsed, c # cached, db) })"

definition hashRoot :: "(bytes \<Rightarrow> hash) \<Rightarrow> Trie \<Rightarrow> trieDatabase option \<Rightarrow>
    (bytes \<Rightarrow> hash \<Rightarrow> trieDatabase \<Rightarrow> trieDatabase option) option \<Rightarrow> (node \<times> node \<times> trieDatabase option) option" where
  "hashRoot sha t db onleaf =
     (if tRoot t = nilNode then Some (hashNode (HashBytes emptyRoot), nilNode, db)
      else hashN \<lparr>hSha = sha, hCachegen = tCachegen t, hCachelimit = tCachelimit t, hOnleaf = onleaf\<rparr> (tRoot t) db True)"

definition asHash :: "node \<Rightarrow> hash option" where
  "asHash n = (case n of hashNode h \<Rightarrow> Some (BytesToHash h) | _ \<Rightarrow> None)"

definition trieHash :: "(bytes \<Rightarrow> hash) \<Rightarrow> Trie \<Rightarrow> (hash \<times> Trie) option" where
  "trieHash sha t = do {
     (hash, cached, _) \<leftarrow> hashRoot sha t None None;
     r \<leftarrow> asHash hash;
     Some (r, t\<lparr>tRoot := cached\<rparr>) }"

definition trieCommit :: "(bytes \<Rightarrow> hash) \<Rightarrow> Trie \<Rightarrow> trieDatabase \<Rightarrow>
    (bytes \<Rightarrow> hash \<Rightarrow> trieDatabase \<Rightarrow> trieDatabase option) option \<Rightarrow> (hash \<times> Trie \<times> trieDatabase) option" where
  "trieCommit sha t db onleaf = do {
     (hash, cached, d) \<leftarrow> hashRoot sha t (Some db) onleaf;
     r \<leftarrow> asHash hash;
     d \<leftarrow> d;
     Some (r, t\<lparr>tRoot := cached, tCachegen := tCachegen t + 1\<rparr>, d) }"

section \<open>Merkle proofs\<close>

partial_function (option) proveNodes :: "trieDatabase \<Rightarrow> 16 word \<Rightarrow> node \<Rightarrow> bytes \<Rightarrow> (trieError + node list) option" where
  "proveNodes db cachegen tn key =
     (if key = [] then Some (Inr [])
      else case tn of
        nilNode \<Rightarrow> Some (Inr [])
      | shortNode k c fl \<Rightarrow>
          if length key < length k \<or> take (length k) key \<noteq> k then Some (Inr [tn])
          else do {
            r \<leftarrow> proveNodes db cachegen c (drop (length k) key);
            Some (case r of Inl err \<Rightarrow> Inl err | Inr ns \<Rightarrow> Inr (tn # ns)) }
      | fullNode cs fl \<Rightarrow> do {
          c \<leftarrow> index cs (unat (hd key));
          r \<leftarrow> proveNodes db cachegen c (tl key);
          Some (case r of Inl err \<Rightarrow> Inl err | Inr ns \<Rightarrow> Inr (tn # ns)) }
      | hashNode h \<Rightarrow> do {
          r \<leftarrow> resolveHash db cachegen h [];
          case r of Inl err \<Rightarrow> Some (Inl err) | Inr tn \<Rightarrow> proveNodes db cachegen tn key }
      | valueNode v \<Rightarrow> None)"

fun proveStore :: "hasher \<Rightarrow> nat \<Rightarrow> nat \<Rightarrow> node list \<Rightarrow> (bytes \<rightharpoonup> bytes) \<Rightarrow> (bytes \<rightharpoonup> bytes) option" where
  "proveStore h i fromLevel [] proofDb = Some proofDb"
| "proveStore h i fromLevel (n # ns) proofDb = do {
     (n, _, _) \<leftarrow> hashChildren h n None;
     (hn, _) \<leftarrow> storeNode h n None False;
     let hash = (case hn of hashNode hash \<Rightarrow> Some hash | _ \<Rightarrow> None);
     if hash \<noteq> None \<or> i = 0 then
       if 0 < fromLevel then proveStore h (i + 1) (fromLevel - 1) ns proofDb
       else do {
         r \<leftarrow> EncodeToBytes (nodeVal n);
         let enc = (case r of Inl _ \<Rightarrow> [] | Inr enc \<Rightarrow> enc);
         proveStore h (i + 1) 0 ns (proofDb((case hash of Some hash \<Rightarrow> hash | None \<Rightarrow> HashBytes (hSha h enc)) \<mapsto> enc)) }
     else proveStore h (i + 1) fromLevel ns proofDb }"

definition Prove :: "(bytes \<Rightarrow> hash) \<Rightarrow> trieDatabase \<Rightarrow> Trie \<Rightarrow> bytes \<Rightarrow> nat \<Rightarrow> (bytes \<rightharpoonup> bytes) \<Rightarrow> (trieError + (bytes \<rightharpoonup> bytes)) option" where
  "Prove sha db t key fromLevel proofDb = do {
     r \<leftarrow> proveNodes db (tCachegen t) (tRoot t) (keybytesToHex key);
     case r of
       Inl err \<Rightarrow> Some (Inl err)
     | Inr ns \<Rightarrow> do {
         proofDb \<leftarrow> proveStore \<lparr>hSha = sha, hCachegen = 0, hCachelimit = 0, hOnleaf = None\<rparr> 0 fromLevel ns proofDb;
         Some (Inr proofDb) } }"

text \<open>\<open>get\<close> walks down a decoded node until it meets a hash, a value or nothing.\<close>

function proofGet :: "node \<Rightarrow> bytes \<Rightarrow> (bytes \<times> node) option" where
  "proofGet (shortNode k c fl) key =
     (if length key < length k \<or> take (length k) key \<noteq> k then Some ([], nilNode) else proofGet c (drop (length k) key))"
| "proofGet (fullNode cs fl) key =
     (case key of
        [] \<Rightarrow> None
      | x # key \<Rightarrow> if unat x < length cs then proofGet (cs ! unat x) key else None)"
| "proofGet (hashNode h) key = Some (key, hashNode h)"
| "proofGet nilNode key = Some (key, nilNode)"
| "proofGet (valueNode v) key = Some ([], valueNode v)"
  by pat_completeness auto

termination
proof (relation "measure (\<lambda>(n, _). size n)")
  fix cs :: "node list" and fl and x :: byte and key key' :: bytes
  assume "unat x < length cs"
  then have "cs ! unat x \<in> set cs" by simp
  then have "size (cs ! unat x) < size (fullNode cs fl)" by (auto dest: size_list_estimation' [OF _ order_refl, where f = size])
  then show "((cs ! unat x, key'), (fullNode cs fl, key)) \<in> measure (\<lambda>(n, _). size n)" by simp
qed simp_all

datatype proofError = errProofMissing nat hash | errBadProofNode nat nodeError

partial_function (option) verifyFrom ::
    "(bytes \<rightharpoonup> bytes) \<Rightarrow> hash \<Rightarrow> bytes \<Rightarrow> nat \<Rightarrow> (proofError + bytes option \<times> nat) option" where
  "verifyFrom proofDb wantHash key i =
     (case proofDb (HashBytes wantHash) of
        None \<Rightarrow> Some (Inl (errProofMissing i wantHash))
      | Some buf \<Rightarrow> do {
          r \<leftarrow> decodeNode (Some (HashBytes wantHash)) buf 0;
          case r of
            Inl err \<Rightarrow> Some (Inl (errBadProofNode i err))
          | Inr n \<Rightarrow> do {
              (keyrest, cld) \<leftarrow> proofGet n key;
              case cld of
                nilNode \<Rightarrow> Some (Inr (None, i))
              | hashNode h \<Rightarrow> verifyFrom proofDb (BytesToHash (copy_at (HashBytes wantHash) 0 h)) keyrest (i + 1)
              | valueNode v \<Rightarrow> Some (Inr (Some v, i + 1))
              | _ \<Rightarrow> verifyFrom proofDb wantHash key (i + 1) } })"

definition VerifyProof :: "hash \<Rightarrow> bytes \<Rightarrow> (bytes \<rightharpoonup> bytes) \<Rightarrow> (proofError + bytes option \<times> nat) option" where
  "VerifyProof rootHash key proofDb = verifyFrom proofDb rootHash (keybytesToHex key) 0"

end
