(* ===== verification/TrieMap.thy ===== *)
theory TrieMap
  imports TrieCodec
begin

text \<open>
  Tries as values: what a trie is once every hash reference has been followed. A well-formed trie has no
  node that could be merged with its only child, and its contents are a finite map from terminated
  keys to values. The contents determine the trie, which makes the root hash independent of the order
  of the updates.
\<close>

section \<open>Tries and their contents\<close>

datatype mpt = Empty | Leaf bytes | Ext bytes mpt | Branch "mpt list"

primrec mget :: "mpt \<Rightarrow> bytes \<Rightarrow> bytes option" where
  "mget Empty k = None"
| "mget (Leaf v) k = (if k = [] then Some v else None)"
| "mget (Ext p t) k = (if take (length p) k = p then mget t (drop (length p) k) else None)"
| "mget (Branch ts) k =
     (case k of [] \<Rightarrow> None | x # k \<Rightarrow> if unat x < length ts then (map mget ts ! unat x) k else None)"

lemma mget_Branch [simp]:
  "mget (Branch ts) [] = None"
  "mget (Branch ts) (x # k) = (if unat x < length ts then mget (ts ! unat x) k else None)"
  by simp_all

declare mget.simps(4) [simp del]

definition slot :: "mpt \<Rightarrow> bool" where
  "slot t \<longleftrightarrow> t = Empty \<or> (\<exists>v. v \<noteq> [] \<and> t = Leaf v)"

definition isBranch :: "mpt \<Rightarrow> bool" where
  "isBranch t \<longleftrightarrow> (\<exists>ts. t = Branch ts)"

function wfTrie :: "mpt \<Rightarrow> bool" where
  "wfTrie Empty \<longleftrightarrow> True"
| "wfTrie (Leaf v) \<longleftrightarrow> False"
| "wfTrie (Ext k t) \<longleftrightarrow>
     (terminated k \<and> slot t \<and> t \<noteq> Empty) \<or> (k \<noteq> [] \<and> nibs k \<and> isBranch t \<and> wfTrie t)"
| "wfTrie (Branch ts) \<longleftrightarrow>
     length ts = 17 \<and> (\<forall>t \<in> set (butlast ts). wfTrie t) \<and> slot (last ts) \<and> 2 \<le> length (filter (\<lambda>t. t \<noteq> Empty) ts)"
  by pat_completeness auto

termination
proof (relation "measure size")
  fix ts and t :: mpt
  assume "t \<in> set (butlast ts)"
  then have "t \<in> set ts" by (rule in_set_butlastD)
  then show "(t, Branch ts) \<in> measure size" by (auto dest: size_list_estimation' [OF _ order_refl, where f = size])
qed simp_all

text \<open>A trie below a key of which \<open>k\<close> is still to come.\<close>

definition below :: "bytes \<Rightarrow> mpt \<Rightarrow> bool" where
  "below k t \<longleftrightarrow> (if k = [] then slot t else wfTrie t)"

definition keyOk :: "bytes \<Rightarrow> bool" where
  "keyOk k \<longleftrightarrow> k = [] \<or> terminated k"

lemma keyOk_simps [simp]: "keyOk []" "terminated k \<Longrightarrow> keyOk k"
  by (simp_all add: keyOk_def)

lemma keyOk_tl: "terminated (x # k) \<Longrightarrow> keyOk k"
  by (auto simp: terminated_Cons keyOk_def)

lemma terminated_not_nibs: "terminated k \<Longrightarrow> \<not> nibs k"
  using nibs_not_hasTerm terminated_hasTerm by blast

lemma byte_16: "(x :: byte) < 16 \<longleftrightarrow> unat x < 16"
  by (simp add: word_less_nat_alt)

lemma unat_byte_of_nat [simp]: "i < 256 \<Longrightarrow> unat (of_nat i :: byte) = i"
  by (simp add: unsigned_of_nat take_bit_nat_eq_self)

lemma of_nat_byte_eq: "i < 256 \<Longrightarrow> j < 256 \<Longrightarrow> (of_nat i :: byte) = of_nat j \<longleftrightarrow> i = j"
  by (metis unat_byte_of_nat)

lemma unat_numeral_16: "unat (16 :: byte) = 16"
  by simp

lemma terminated_head: "terminated (x # k) \<Longrightarrow> unat x < 17"
  by (auto simp: terminated_Cons byte_16)

lemma slot_simps [simp]: "slot Empty" "slot (Leaf v) \<longleftrightarrow> v \<noteq> []" "\<not> slot (Ext k t)" "\<not> slot (Branch ts)"
  by (simp_all add: slot_def)

lemma isBranch_simps [simp]: "\<not> isBranch Empty" "\<not> isBranch (Leaf v)" "\<not> isBranch (Ext k t)" "isBranch (Branch ts)"
  by (simp_all add: isBranch_def)

lemma wf_child:
  assumes "wfTrie (Branch ts)" "i < 17"
  shows "if i = 16 then slot (ts ! i) else wfTrie (ts ! i)"
proof (cases "i = 16")
  case True
  have len: "length ts = 17" "slot (last ts)" using assms by simp_all
  then have "last ts = ts ! 16" by (subst last_conv_nth) auto
  then show ?thesis using True len by simp
next
  case False
  then have "i < length (butlast ts)" using assms by auto
  then have "ts ! i \<in> set (butlast ts)" by (metis nth_butlast nth_mem)
  then show ?thesis using False assms by auto
qed

lemma below_child:
  assumes "wfTrie (Branch ts)" "terminated (x # k)"
  shows "unat x < length ts" "below k (ts ! unat x)"
proof -
  have x: "unat x < 17" using terminated_head [OF assms(2)] .
  then show "unat x < length ts" using assms by simp
  show "below k (ts ! unat x)"
  proof (cases "x = 16")
    case True
    then show ?thesis using assms wf_child [OF assms(1), of 16] by (simp add: below_def terminated_Cons)
  next
    case False
    then have "x < 16" "terminated k" using assms(2) by (auto simp: terminated_Cons)
    then show ?thesis using wf_child [OF assms(1) x] by (auto simp: below_def byte_16)
  qed
qed

lemma below_Ext: "below k (Ext p t) \<Longrightarrow> k \<noteq> [] \<and> wfTrie (Ext p t)"
  by (simp add: below_def split: if_splits)

lemma below_Branch: "below k (Branch ts) \<Longrightarrow> k \<noteq> [] \<and> wfTrie (Branch ts)"
  by (simp add: below_def split: if_splits)

lemma below_Leaf: "below k (Leaf v) \<Longrightarrow> k = [] \<and> v \<noteq> []"
  by (simp add: below_def split: if_splits)

lemma below_Ext_child:
  assumes "wfTrie (Ext p t)" "terminated (p @ k)"
  shows "keyOk k \<and> below k t"
  using assms by (auto simp: below_def keyOk_def dest: terminated_prefix_free terminated_not_nibs simp: terminated_append)

text \<open>Only terminated keys have a value.\<close>

lemma mget_slot: "slot t \<Longrightarrow> mget t k \<noteq> None \<Longrightarrow> k = []"
  by (auto simp: slot_def split: if_splits)

lemma mget_terminated: "wfTrie t \<Longrightarrow> mget t k \<noteq> None \<Longrightarrow> terminated k"
proof (induction t arbitrary: k rule: wfTrie.induct)
  case (3 p t)
  then have p: "take (length p) k = p" and g: "mget t (drop (length p) k) \<noteq> None" by (auto split: if_splits)
  then have k: "k = p @ drop (length p) k" by (metis append_take_drop_id)
  show ?case
  proof (cases "terminated p")
    case True
    then have "drop (length p) k = []" using 3(2) g by (auto dest: mget_slot terminated_not_nibs)
    then show ?thesis using True k by simp
  next
    case False
    then show ?thesis using 3 g k by (metis terminated_append wfTrie.simps(3))
  qed
next
  case (4 ts)
  then obtain x k' where k: "k = x # k'" by (cases k) auto
  then have x: "unat x < 17" and g: "mget (ts ! unat x) k' \<noteq> None" using 4 by (auto split: if_splits)
  show ?case
  proof (cases "unat x = 16")
    case True
    then have "x = 16" by (metis unat_numeral_16 unsigned_word_eqI)
    then show ?thesis using wf_child [OF 4(2) x] g k by (auto dest: mget_slot simp: terminated_Cons)
  next
    case False
    then have "unat x < length (butlast ts)" using x 4(2) by auto
    then have "ts ! unat x \<in> set (butlast ts)" by (metis nth_butlast nth_mem)
    then have "terminated k'" using 4 g wf_child [OF 4(2) x] False by auto
    moreover have "x < 16" using x False by (simp add: word_less_nat_alt)
    ultimately show ?thesis using k by (simp add: terminated_Cons)
  qed
qed auto

section \<open>The contents determine the trie\<close>

lemma two_positions:
  "2 \<le> length (filter P xs) \<Longrightarrow> \<exists>i j. i < j \<and> j < length xs \<and> P (xs ! i) \<and> P (xs ! j)"
proof (induction xs)
  case (Cons x xs)
  show ?case
  proof (cases "2 \<le> length (filter P xs)")
    case True
    then obtain i j where "i < j" "j < length xs" "P (xs ! i)" "P (xs ! j)" using Cons by blast
    then show ?thesis by (intro exI [of _ "Suc i"] exI [of _ "Suc j"]) simp
  next
    case False
    then have "P x" "filter P xs \<noteq> []" using Cons.prems by (auto split: if_splits)
    then obtain j where "j < length xs" "P (xs ! j)" by (auto simp: filter_empty_conv in_set_conv_nth)
    then show ?thesis using \<open>P x\<close> by (intro exI [of _ 0] exI [of _ "Suc j"]) simp
  qed
qed simp

lemma nonempty_key: "wfTrie t \<Longrightarrow> t \<noteq> Empty \<Longrightarrow> \<exists>k. mget t k \<noteq> None"
proof (induction t rule: wfTrie.induct)
  case (3 p t)
  then have "\<exists>k. mget t k \<noteq> None" by (auto simp: slot_def isBranch_def split: if_splits)
  then obtain k where "mget t k \<noteq> None" by blast
  then show ?case by (intro exI [of _ "p @ k"]) simp
next
  case (4 ts)
  then obtain i where i: "i < 17" "ts ! i \<noteq> Empty" using two_positions [of "\<lambda>t. t \<noteq> Empty" ts] by auto
  have "\<exists>k. mget (ts ! i) k \<noteq> None"
  proof (cases "i = 16")
    case True
    then show ?thesis using wf_child [OF 4(2) i(1)] i by (auto simp: slot_def intro: exI [of _ "[]"])
  next
    case False
    then have "i < length (butlast ts)" using i 4(2) by auto
    then have "ts ! i \<in> set (butlast ts)" by (metis nth_butlast nth_mem)
    then show ?thesis using 4 i wf_child [OF 4(2) i(1)] False by auto
  qed
  then obtain k where "mget (ts ! i) k \<noteq> None" by blast
  then show ?case using i 4(2) by (intro exI [of _ "of_nat i # k"]) simp
qed auto

lemma child_nonempty:
  assumes "wfTrie (Branch ts)" "i < 17" "ts ! i \<noteq> Empty"
  shows "\<exists>k. mget (Branch ts) (of_nat i # k) \<noteq> None"
proof -
  have "\<exists>k. mget (ts ! i) k \<noteq> None"
  proof (cases "i = 16")
    case True
    then show ?thesis using wf_child [OF assms(1,2)] assms(3) by (auto simp: slot_def intro: exI [of _ "[]"])
  next
    case False
    then show ?thesis using wf_child [OF assms(1,2)] nonempty_key assms(3) by auto
  qed
  then show ?thesis using assms by auto
qed

text \<open>The keys of a branch do not share their first nibble.\<close>

lemma Branch_two:
  assumes "wfTrie (Branch ts)"
  shows "\<exists>x k y k'. x \<noteq> y \<and> mget (Branch ts) (x # k) \<noteq> None \<and> mget (Branch ts) (y # k') \<noteq> None"
proof -
  obtain i j where ij: "i < j" "j < 17" "ts ! i \<noteq> Empty" "ts ! j \<noteq> Empty"
    using assms two_positions [of "\<lambda>t. t \<noteq> Empty" ts] by auto
  have "(of_nat i :: byte) \<noteq> of_nat j" using ij by (simp add: of_nat_byte_eq)
  moreover have "\<exists>k. mget (Branch ts) (of_nat i # k) \<noteq> None" "\<exists>k. mget (Branch ts) (of_nat j # k) \<noteq> None"
    using ij child_nonempty [OF assms] by simp_all
  ultimately show ?thesis by blast
qed

lemma Ext_prefix: "mget (Ext p t) k \<noteq> None \<Longrightarrow> take (length p) k = p"
  by (auto split: if_splits)

text \<open>A common prefix of all keys of an extension of a branch is a prefix of the key of the extension.\<close>

lemma Ext_longest:
  assumes "wfTrie (Ext p t)" "isBranch t" "\<And>k. mget (Ext p t) k \<noteq> None \<Longrightarrow> take (length q) k = q"
  shows "take (length q) p = q"
proof (rule ccontr)
  assume neq: "take (length q) p \<noteq> q"
  obtain ts where t: "t = Branch ts" "wfTrie (Branch ts)" using assms(1,2) by (auto simp: isBranch_def)
  obtain x k y k' where xy: "x \<noteq> y" "mget t (x # k) \<noteq> None" "mget t (y # k') \<noteq> None" using Branch_two t by blast
  then have g: "mget (Ext p t) (p @ x # k) \<noteq> None" "mget (Ext p t) (p @ y # k') \<noteq> None" by simp_all
  have q: "take (length q) (p @ x # k) = q" "take (length q) (p @ y # k') = q" using assms(3) g by blast+
  then have "length p < length q" using neq by (metis append.right_neutral diff_is_0_eq not_less take0 take_append)
  then have "q ! length p = x" "q ! length p = y" using q by (metis nth_append_length nth_take)+
  then show False using xy by simp
qed

lemma leaf_key:
  assumes "wfTrie (Ext p t)" "terminated p"
  obtains v where "v \<noteq> []" "t = Leaf v" "\<forall>k. mget (Ext p t) k = (if k = p then Some v else None)"
proof -
  from assms obtain v where v: "v \<noteq> []" "t = Leaf v" by (auto simp: slot_def dest: terminated_not_nibs)
  have "mget (Ext p t) k = (if k = p then Some v else None)" for k
    using v(2) append_take_drop_id [of "length p" k] by (cases "take (length p) k = p") auto
  then show ?thesis using that v by blast
qed

lemma branch_key:
  assumes "wfTrie (Ext p t)" "\<not> terminated p"
  shows "p \<noteq> []" "nibs p" "isBranch t" "wfTrie t"
  using assms by auto

lemma Ext_Branch_two:
  assumes "wfTrie (Ext p t)" "\<not> terminated p"
  shows "\<exists>k k'. k \<noteq> k' \<and> mget (Ext p t) k \<noteq> None \<and> mget (Ext p t) k' \<noteq> None"
proof -
  obtain ts where "t = Branch ts" "wfTrie t" using branch_key [OF assms] by (auto simp: isBranch_def)
  then obtain x k y k' where xy: "x \<noteq> y" "mget t (x # k) \<noteq> None" "mget t (y # k') \<noteq> None" using Branch_two by blast
  then show ?thesis by (intro exI [of _ "p @ x # k"] exI [of _ "p @ y # k'"]) simp
qed

lemma Ext_not_Branch:
  assumes "wfTrie (Ext p t)" "wfTrie (Branch us)"
  shows "mget (Ext p t) \<noteq> mget (Branch us)"
proof
  assume eq: "mget (Ext p t) = mget (Branch us)"
  obtain x k y k' where xy: "x \<noteq> y" "mget (Ext p t) (x # k) \<noteq> None" "mget (Ext p t) (y # k') \<noteq> None"
    unfolding eq using Branch_two [OF assms(2)] by blast
  obtain z q where "p = z # q" using assms(1) by (cases p) auto
  then have "x = z" "y = z" using Ext_prefix [OF xy(2)] Ext_prefix [OF xy(3)] by simp_all
  then show False using xy by simp
qed

lemma slot_unique: "slot t \<Longrightarrow> slot u \<Longrightarrow> mget t [] = mget u [] \<Longrightarrow> t = u"
  by (auto simp: slot_def)

lemma Ext_unique_key:
  assumes "wfTrie (Ext p t)" "wfTrie (Ext q u)" "mget (Ext p t) = mget (Ext q u)"
  shows "p = q \<and> (terminated p \<longrightarrow> t = u)"
proof (cases "terminated p")
  case True
  from assms(1) True obtain v where v: "v \<noteq> []" "t = Leaf v" "\<forall>k. mget (Ext p t) k = (if k = p then Some v else None)" by (rule leaf_key)
  have "terminated q"
  proof (rule ccontr)
    assume "\<not> terminated q"
    then show False using Ext_Branch_two [OF assms(2)] v(3) unfolding assms(3) [symmetric] by metis
  qed
  with assms(2) obtain w where w: "w \<noteq> []" "u = Leaf w" "\<forall>k. mget (Ext q u) k = (if k = q then Some w else None)" by (rule leaf_key)
  have "(if q = p then Some v else None) = Some w" using v(3) w(3) unfolding assms(3) by metis
  then show ?thesis using v(2) w(2) by (simp split: if_splits)
next
  case False
  have "\<not> terminated q"
  proof
    assume "terminated q"
    with assms(2) obtain w where "w \<noteq> []" "u = Leaf w" "\<forall>k. mget (Ext q u) k = (if k = q then Some w else None)" by (rule leaf_key)
    then show False using Ext_Branch_two [OF assms(1) False] unfolding assms(3) by metis
  qed
  then have "take (length q) p = q" "take (length p) q = p"
    using Ext_longest [OF assms(1) branch_key(3) [OF assms(1) False]] Ext_longest [OF assms(2) branch_key(3) [OF assms(2)]]
      Ext_prefix assms(3) by metis+
  then show ?thesis using False by (metis append_take_drop_id take_all_iff nle_le)
qed

lemma Ext_contents: "mget (Ext p t) = mget (Ext p u) \<Longrightarrow> mget t k = mget u k"
  by (drule fun_cong [of _ _ "p @ k"]) simp

lemma Branch_contents: "mget (Branch ts) = mget (Branch us) \<Longrightarrow> i < length ts \<Longrightarrow> i < length us \<Longrightarrow> i < 17 \<Longrightarrow> mget (ts ! i) k = mget (us ! i) k"
  by (drule fun_cong [of _ _ "of_nat i # k"]) simp

lemma contents_unique:
  "wfTrie t \<Longrightarrow> wfTrie u \<Longrightarrow> mget t = mget u \<Longrightarrow> t = u"
proof (induction t arbitrary: u rule: wfTrie.induct)
  case 1
  then show ?case using nonempty_key [of u] by (metis mget.simps(1))
next
  case (3 p t)
  then have "u \<noteq> Empty" using nonempty_key [of "Ext p t"] by (metis mget.simps(1) mpt.distinct(3))
  moreover have "\<not> isBranch u" using Ext_not_Branch [OF 3(2)] 3(3,4) unfolding isBranch_def by blast
  ultimately obtain q r where u: "u = Ext q r" using 3(3) by (cases u) auto
  have q: "q = p" "terminated p \<longrightarrow> t = r" using Ext_unique_key 3 u by blast+
  show ?case
  proof (cases "terminated p")
    case True
    then show ?thesis using q u by simp
  next
    case False
    have "wfTrie t" "wfTrie r" using branch_key(4) 3 u q False by blast+
    moreover have "mget t = mget r" using Ext_contents 3(4) u q by blast
    ultimately show ?thesis using 3 u q by blast
  qed
next
  case (4 ts)
  then have "u \<noteq> Empty" using nonempty_key [of "Branch ts"] by (metis mget.simps(1) mpt.distinct(5))
  moreover have "u \<noteq> Ext q r" for q r using Ext_not_Branch 4 by metis
  ultimately obtain us where u: "u = Branch us" using 4(3) by (cases u) auto
  have "ts ! i = us ! i" if i: "i < 17" for i
  proof -
    have eq: "mget (ts ! i) = mget (us ! i)" using Branch_contents [of ts us i] 4 u i by fastforce
    show ?thesis
    proof (cases "i = 16")
      case True
      then show ?thesis using wf_child [of ts i] wf_child [of us i] 4 u i eq slot_unique by auto
    next
      case False
      then have "i < length (butlast ts)" using i 4(2) by auto
      then have "ts ! i \<in> set (butlast ts)" by (metis nth_butlast nth_mem)
      then show ?thesis using 4(1) wf_child [of ts i] wf_child [of us i] 4(2,3) u i False eq by auto
    qed
  qed
  then have "ts = us" using 4(2,3) u by (intro nth_equalityI) auto
  then show ?case using u by simp
qed simp

end
