(* ===== verification/TrieNode.thy ===== *)
theory TrieNode
  imports Trie TrieMap
begin

text \<open>
  How stored nodes represent tries: the encoding of a trie, the relation between a node with cached hashes
  and references into the database and the trie it stands for, and the decoding of stored nodes.
\<close>

section \<open>The encoding of a trie\<close>

definition isNode :: "mpt \<Rightarrow> bool" where
  "isNode t \<longleftrightarrow> (\<exists>k s. t = Ext k s) \<or> isBranch t"

lemma isNode_simps [simp]: "\<not> isNode Empty" "\<not> isNode (Leaf v)" "isNode (Ext k t)" "isNode (Branch ts)"
  by (simp_all add: isNode_def isBranch_def)

definition compact :: "bytes \<Rightarrow> bytes" where
  "compact k = (case hexToCompact k of Some c \<Rightarrow> c | None \<Rightarrow> [])"

text \<open>A node of 32 bytes or more is replaced by its hash inside its parent.\<close>

definition shrink :: "(bytes \<Rightarrow> hash) \<Rightarrow> mpt \<Rightarrow> bytes \<Rightarrow> bytes" where
  "shrink sha t e = (if isNode t \<and> 32 \<le> length e then encBytes (HashBytes (sha e)) else e)"

fun menc :: "(bytes \<Rightarrow> hash) \<Rightarrow> mpt \<Rightarrow> bytes" where
  "menc sha Empty = encBytes []"
| "menc sha (Leaf v) = encBytes v"
| "menc sha (Ext k t) = encList (encBytes (compact k) @ shrink sha t (menc sha t))"
| "menc sha (Branch ts) = encList (concat (map (\<lambda>t. shrink sha t (menc sha t)) ts))"

abbreviation mref :: "(bytes \<Rightarrow> hash) \<Rightarrow> mpt \<Rightarrow> bytes" where
  "mref sha t \<equiv> shrink sha t (menc sha t)"

definition nodeHash :: "(bytes \<Rightarrow> hash) \<Rightarrow> mpt \<Rightarrow> hash" where
  "nodeHash sha t = sha (menc sha t)"

text \<open>Keys and values below \<open>2 ^ 60\<close> bytes, so that no length overflows.\<close>

fun bounded :: "mpt \<Rightarrow> bool" where
  "bounded Empty \<longleftrightarrow> True"
| "bounded (Leaf v) \<longleftrightarrow> length v < 2 ^ 60"
| "bounded (Ext k t) \<longleftrightarrow> length k < 2 ^ 60 \<and> bounded t"
| "bounded (Branch ts) \<longleftrightarrow> (\<forall>t \<in> set ts. bounded t)"

lemma length_encBytes_le: "length b < 2 ^ 62 \<Longrightarrow> length (encBytes b) \<le> length b + 9"
  using nat_be_length_le [of "length b" 8] by (simp add: encBytes_def length_refHead)

lemma length_encList_le: "length b < 2 ^ 63 \<Longrightarrow> length (encList b) \<le> length b + 9"
  using nat_be_length_le [of "length b" 8] by (simp add: encList_def length_refHead)

lemma length_hash_ref [simp]: "length (encBytes (HashBytes h)) = 33"
  by (simp add: encBytes_def refHead_def length_HashBytes)

lemma length_mref_node: "isNode t \<Longrightarrow> length (mref sha t) \<le> 33"
  by (simp add: shrink_def)

lemma wf_slot_or_node: "wfTrie t \<Longrightarrow> t = Empty \<or> isNode t"
  by (cases t) auto

lemma slot_cases: "slot t \<Longrightarrow> (t = Empty \<Longrightarrow> P) \<Longrightarrow> (\<And>v. t = Leaf v \<Longrightarrow> v \<noteq> [] \<Longrightarrow> P) \<Longrightarrow> P"
  by (auto simp: slot_def)

lemma length_mref_slot: "slot t \<Longrightarrow> bounded t \<Longrightarrow> length (mref sha t) \<le> 2 ^ 60 + 9"
proof (elim slot_cases)
  fix v assume v: "t = Leaf v" "bounded t"
  then show ?thesis using length_encBytes_le [of v] by (simp add: shrink_def)
qed (simp add: shrink_def)

lemma length_mref_wf: "wfTrie t \<Longrightarrow> length (mref sha t) \<le> 33"
  using wf_slot_or_node [of t] length_mref_node [of t sha] by (auto simp: shrink_def)

lemma wf_hexKey: "wfTrie (Ext k t) \<Longrightarrow> hexKey k"
  by (auto simp: hexKey_def)

lemma compact_hex: "hexKey k \<Longrightarrow> hexToCompact k = Some (compact k) \<and> compactToHex (compact k) = Some k \<and> length (compact k) \<le> Suc (length k)"
  using compact_roundtrip [of k] by (auto simp: compact_def)

lemma length_concat_le: "(\<And>x. x \<in> set xs \<Longrightarrow> length (f x) \<le> n) \<Longrightarrow> length (concat (map f xs)) \<le> length xs * n"
proof (induction xs)
  case (Cons x xs)
  then have "length (f x) \<le> n" "length (concat (map f xs)) \<le> length xs * n" by simp_all
  then show ?case by simp
qed simp

lemma Branch_split: "length ts = 17 \<Longrightarrow> ts = butlast ts @ [last ts]"
  by (metis append_butlast_last_id list.size(3) zero_neq_numeral)

lemma concat_Branch:
  assumes "length ts = 17"
  shows "concat (map f ts) = concat (map f (butlast ts)) @ f (last ts)"
  by (subst Branch_split [OF assms]) simp

lemma length_menc:
  assumes "wfTrie t" "bounded t" "isNode t"
  shows "length (menc sha t) < 2 ^ 62"
proof (cases t)
  case (Ext k s)
  have k: "length (encBytes (compact k)) \<le> 2 ^ 60 + 10"
    using assms Ext compact_hex [OF wf_hexKey, of k s] length_encBytes_le [of "compact k"] by auto
  have s: "length (mref sha s) \<le> 2 ^ 60 + 9"
    using assms Ext length_mref_slot [of s sha] length_mref_wf [of s sha] by auto
  show ?thesis using Ext k s length_encList_le [of "encBytes (compact k) @ mref sha s"] by simp
next
  case (Branch ts)
  have "length (concat (map (mref sha) (butlast ts))) \<le> 16 * 33"
    using assms Branch length_concat_le [of "butlast ts" "mref sha" 33] length_mref_wf by auto
  moreover have "length (mref sha (last ts)) \<le> 2 ^ 60 + 9"
    using assms Branch by (intro length_mref_slot) (auto simp flip: length_greater_0_conv)
  moreover have "concat (map (mref sha) ts) = concat (map (mref sha) (butlast ts)) @ mref sha (last ts)"
    using assms(1) Branch by (intro concat_Branch) simp
  ultimately show ?thesis using Branch length_encList_le [of "concat (map (mref sha) ts)"] by simp
qed (use assms in simp_all)

section \<open>Nodes that stand for tries\<close>

text \<open>What a database holds of a trie: \<open>inDb\<close> the node itself under its hash, \<open>kidsStored\<close> every node below it
  that is not embedded in its parent.\<close>

definition inDb :: "(bytes \<Rightarrow> hash) \<Rightarrow> (hash \<Rightarrow> bytes option) \<Rightarrow> mpt \<Rightarrow> bool" where
  "inDb sha D t \<longleftrightarrow> D (nodeHash sha t) = Some (menc sha t)"

definition bigNode :: "(bytes \<Rightarrow> hash) \<Rightarrow> mpt \<Rightarrow> bool" where
  "bigNode sha t \<longleftrightarrow> isNode t \<and> 32 \<le> length (menc sha t)"

fun kidsStored :: "(bytes \<Rightarrow> hash) \<Rightarrow> (hash \<Rightarrow> bytes option) \<Rightarrow> mpt \<Rightarrow> bool" where
  "kidsStored sha D (Ext k t) \<longleftrightarrow> kidsStored sha D t \<and> (bigNode sha t \<longrightarrow> inDb sha D t)"
| "kidsStored sha D (Branch ts) \<longleftrightarrow> (\<forall>t \<in> set ts. kidsStored sha D t \<and> (bigNode sha t \<longrightarrow> inDb sha D t))"
| "kidsStored sha D _ \<longleftrightarrow> True"

definition stored :: "(bytes \<Rightarrow> hash) \<Rightarrow> (hash \<Rightarrow> bytes option) \<Rightarrow> mpt \<Rightarrow> bool" where
  "stored sha D t \<longleftrightarrow> kidsStored sha D t \<and> (bigNode sha t \<longrightarrow> inDb sha D t)"

text \<open>A cached hash is the hash of the trie; only the root may have one although it is small; a node that is
  not dirty is in the database with everything below it, or it is an embedded node.\<close>

definition cacheOk :: "(bytes \<Rightarrow> hash) \<Rightarrow> (hash \<Rightarrow> bytes option) \<Rightarrow> bool \<Rightarrow> nodeFlag \<Rightarrow> mpt \<Rightarrow> bool" where
  "cacheOk sha D force fl t \<longleftrightarrow>
     (case nfHash fl of
        None \<Rightarrow> nfDirty fl \<or> \<not> force \<and> \<not> bigNode sha t
      | Some h \<Rightarrow> h = HashBytes (nodeHash sha t) \<and> (force \<or> bigNode sha t) \<and>
          (nfDirty fl \<or> inDb sha D t \<and> kidsStored sha D t))"

inductive repr :: "(bytes \<Rightarrow> hash) \<Rightarrow> (hash \<Rightarrow> bytes option) \<Rightarrow> bool \<Rightarrow> node \<Rightarrow> mpt \<Rightarrow> bool" for sha D where
  reprNil: "repr sha D force nilNode Empty"
| reprVal: "repr sha D force (valueNode v) (Leaf v)"
| reprShort: "repr sha D False c t \<Longrightarrow> cacheOk sha D force fl (Ext k t) \<Longrightarrow> repr sha D force (shortNode k c fl) (Ext k t)"
| reprFull: "list_all2 (repr sha D False) cs ts \<Longrightarrow> cacheOk sha D force fl (Branch ts) \<Longrightarrow> repr sha D force (fullNode cs fl) (Branch ts)"
| reprHash: "isNode t \<Longrightarrow> force \<or> bigNode sha t \<Longrightarrow> inDb sha D t \<Longrightarrow> kidsStored sha D t \<Longrightarrow>
    repr sha D force (hashNode (HashBytes (nodeHash sha t))) t"

inductive_simps repr_nil [simp]: "repr sha D force nilNode t"
inductive_simps repr_value [simp]: "repr sha D force (valueNode v) t"
inductive_simps repr_short: "repr sha D force (shortNode k c fl) t"
inductive_simps repr_full: "repr sha D force (fullNode cs fl) t"
inductive_simps repr_hash: "repr sha D force (hashNode h) t"
inductive_simps repr_Empty [simp]: "repr sha D force n Empty"
inductive_simps repr_Leaf [simp]: "repr sha D force n (Leaf v)"

fun isHash :: "node \<Rightarrow> bool" where
  "isHash (hashNode h) \<longleftrightarrow> True"
| "isHash _ \<longleftrightarrow> False"

lemma repr_Ext:
  "repr sha D force n (Ext k t) \<Longrightarrow> \<not> isHash n \<Longrightarrow>
   \<exists>c fl. n = shortNode k c fl \<and> repr sha D False c t \<and> cacheOk sha D force fl (Ext k t)"
  by (cases n) (auto simp: repr_short repr_full)

lemma repr_Branch:
  "repr sha D force n (Branch ts) \<Longrightarrow> \<not> isHash n \<Longrightarrow>
   \<exists>cs fl. n = fullNode cs fl \<and> list_all2 (repr sha D False) cs ts \<and> cacheOk sha D force fl (Branch ts)"
  by (cases n) (auto simp: repr_short repr_full)

lemma cacheOk_new [simp]: "cacheOk sha D force (newFlag g) t"
  by (simp add: cacheOk_def newFlag_def)

section \<open>Decoding what was encoded\<close>

lemma encBytes_value: "\<exists>k c. encBytes v = firstValue k c \<and> goodKind k c"
  by (metis firstValue_simps(1) goodKind_bytes(1))

lemma mref_value:
  "slot t \<or> isNode t \<Longrightarrow> \<exists>k c. mref sha t = firstValue k c \<and> goodKind k c"
proof (elim disjE slot_cases)
  assume "isNode t"
  then obtain c where "menc sha t = encList c" by (cases t) auto
  then show ?thesis by (metis firstValue_simps goodKind_bytes shrink_def)
qed (simp_all add: shrink_def encBytes_value del: encBytes_Nil)

lemma decodeRef_Empty: "length (mref sha Empty @ rest) < 2 ^ 63 \<Longrightarrow> decodeRef dec (mref sha Empty @ rest) = Some (Inr (nilNode, rest))"
  using Split_encBytes [of "[]" rest] by (simp add: decodeRef_def shrink_def kindOf_def)

lemma decodeRef_big:
  assumes "bigNode sha t" "length (mref sha t @ rest) < 2 ^ 63"
  shows "decodeRef dec (mref sha t @ rest) = Some (Inr (hashNode (HashBytes (nodeHash sha t)), rest))"
proof -
  have m: "mref sha t = encBytes (HashBytes (nodeHash sha t))" using assms by (simp add: bigNode_def shrink_def nodeHash_def)
  have "kindOf (HashBytes (nodeHash sha t)) = String" by (simp add: kindOf_def length_HashBytes)
  then show ?thesis using assms Split_encBytes [of "HashBytes (nodeHash sha t)" rest]
    by (simp add: m decodeRef_def length_HashBytes flip: length_0_conv)
qed

lemma decodeRef_small:
  assumes "isNode t" "\<not> bigNode sha t" "length (mref sha t @ rest) < 2 ^ 63" "dec (menc sha t @ rest) = Some (Inr n)"
  shows "decodeRef dec (mref sha t @ rest) = Some (Inr (n, rest))"
proof -
  obtain c where c: "menc sha t = encList c" using assms(1) by (cases t) auto
  have m: "mref sha t = menc sha t" "length (menc sha t) \<le> 32" using assms by (simp_all add: bigNode_def shrink_def)
  show ?thesis using assms Split_encList [of c rest] m c by (simp add: decodeRef_def)
qed

text \<open>A child of a branch or an extension: nothing, a reference, or an embedded node.\<close>

lemma decodeRef_child:
  assumes "wfTrie t" "stored sha D t" "length (mref sha t @ rest) < 2 ^ 63"
    and dec: "isNode t \<Longrightarrow> \<not> bigNode sha t \<Longrightarrow> \<exists>n. dec (menc sha t @ rest) = Some (Inr n) \<and> repr sha D False n t"
  shows "\<exists>n. decodeRef dec (mref sha t @ rest) = Some (Inr (n, rest)) \<and> repr sha D False n t"
proof (cases "isNode t")
  case False
  then have "t = Empty" using wf_slot_or_node assms(1) by blast
  then show ?thesis using decodeRef_Empty assms(3) by (metis repr_Empty)
next
  case True
  show ?thesis
  proof (cases "bigNode sha t")
    case True
    then show ?thesis using decodeRef_big [OF True assms(3)] assms(2) \<open>isNode t\<close> by (auto simp: stored_def intro: reprHash)
  next
    case False
    then show ?thesis using decodeRef_small [OF True False assms(3)] dec [OF True False] by metis
  qed
qed

lemma decodeChildren_children:
  assumes "\<And>t. t \<in> set ts \<Longrightarrow> wfTrie t \<and> stored sha D t"
    and "\<And>t rest. t \<in> set ts \<Longrightarrow> isNode t \<Longrightarrow> \<not> bigNode sha t \<Longrightarrow> length (menc sha t @ rest) < 2 ^ 63 \<Longrightarrow>
      \<exists>n. dec (menc sha t @ rest) = Some (Inr n) \<and> repr sha D False n t"
    and "length (concat (map (mref sha) ts) @ rest) < 2 ^ 63"
  shows "\<exists>cs. decodeChildren dec (length ts) i (concat (map (mref sha) ts) @ rest) = Some (Inr (cs, rest)) \<and> list_all2 (repr sha D False) cs ts"
  using assms
proof (induction ts arbitrary: i)
  case (Cons t ts)
  let ?rest = "concat (map (mref sha) ts) @ rest"
  have "\<exists>n. decodeRef dec (mref sha t @ ?rest) = Some (Inr (n, ?rest)) \<and> repr sha D False n t"
  proof (rule decodeRef_child)
    assume t: "isNode t" "\<not> bigNode sha t"
    then have "menc sha t = mref sha t" by (simp add: bigNode_def shrink_def)
    then show "\<exists>n. dec (menc sha t @ ?rest) = Some (Inr n) \<and> repr sha D False n t"
      using Cons.prems(2,3) t by (intro Cons.prems(2)) simp_all
  qed (use Cons.prems in simp_all)
  then obtain n where n: "decodeRef dec (mref sha t @ ?rest) = Some (Inr (n, ?rest))" "repr sha D False n t" by blast
  obtain cs where "decodeChildren dec (length ts) (i + 1) ?rest = Some (Inr (cs, rest))" "list_all2 (repr sha D False) cs ts"
    using Cons.IH [of "i + 1"] Cons.prems by auto
  then show ?case using n by auto
qed simp

lemma CountValues_pieces:
  assumes "\<And>x. x \<in> set xs \<Longrightarrow> \<exists>k c. f x = firstValue k c \<and> goodKind k c" "length (concat (map f xs)) < 2 ^ 63"
  shows "CountValues (concat (map f xs)) = Some (Inr (length xs))"
proof -
  have "\<exists>vs. concat (map f xs) = valuesOf vs \<and> list_all (\<lambda>(k, c). goodKind k c) vs \<and> length vs = length xs"
    using assms(1)
  proof (induction xs)
    case (Cons x xs)
    then obtain vs where "concat (map f xs) = valuesOf vs" "list_all (\<lambda>(k, c). goodKind k c) vs" "length vs = length xs" by auto
    moreover obtain k c where "f x = firstValue k c" "goodKind k c" using Cons.prems by fastforce
    ultimately show ?case by (intro exI [of _ "(k, c) # vs"]) simp
  qed simp
  then show ?thesis using CountValues_valuesOf assms(2) by metis
qed

lemma decodeNodeN_list:
  assumes "length (encList c @ rest) < 2 ^ 63" "CountValues c = Some (Inr i)"
  shows "decodeNodeN (Suc m) g h (encList c @ rest) =
    (if i = 2 then decodeShort (decodeNodeN m g None) h c g \<bind> (\<lambda>r. Some (case r of Inl err \<Rightarrow> Inl (wrapError err ctxShort) | Inr n \<Rightarrow> Inr n))
     else if i = 17 then decodeFull (decodeNodeN m g None) h c g \<bind> (\<lambda>r. Some (case r of Inl err \<Rightarrow> Inl (wrapError err ctxFull) | Inr n \<Rightarrow> Inr n))
     else Some (Inl (errText ''invalid number of list elements'')))"
proof -
  have "encList c @ rest \<noteq> []" by (auto simp: encList_def refHead_def)
  then show ?thesis using SplitList_enc [OF assms(1)] assms(2) by (simp del: append_is_Nil_conv)
qed

lemma length_encList_gt: "length c < length (encList c)"
  by (simp add: encList_def length_refHead)

lemma decodeShort_leaf:
  assumes "terminated k" "length (encBytes (compact k) @ encBytes v) < 2 ^ 63"
  shows "decodeShort dec h (encBytes (compact k) @ encBytes v) g = Some (Inr (shortNode k (valueNode v) \<lparr>nfHash = h, nfGen = g, nfDirty = False\<rparr>))"
  using assms SplitString_enc [of "compact k" "encBytes v"] SplitString_enc [of v "[]"] compact_hex [of k]
  by (simp add: decodeShort_def hexKey_def)

lemma decodeShort_ext:
  assumes "nibs k" "length (encBytes (compact k) @ mref sha t) < 2 ^ 63" "decodeRef dec (mref sha t) = Some (Inr (n, rest))"
  shows "decodeShort dec h (encBytes (compact k) @ mref sha t) g = Some (Inr (shortNode k n \<lparr>nfHash = h, nfGen = g, nfDirty = False\<rparr>))"
  using assms SplitString_enc [of "compact k" "mref sha t"] compact_hex [of k]
  by (simp add: decodeShort_def hexKey_def)

lemma menc_piece_less: "x \<in> set xs \<Longrightarrow> length (f x) \<le> length (concat (map f xs))"
  by (induction xs) auto

lemma kidsStored_child: "kidsStored sha D (Branch ts) \<Longrightarrow> t \<in> set ts \<Longrightarrow> stored sha D t"
  by (simp add: stored_def)

definition trieOk :: "(bytes \<Rightarrow> hash) \<Rightarrow> (hash \<Rightarrow> bytes option) \<Rightarrow> mpt \<Rightarrow> bool" where
  "trieOk sha D t \<longleftrightarrow> wfTrie t \<and> bounded t \<and> kidsStored sha D t"

text \<open>\<open>decodeNode\<close> gives a node that stands for the trie, with the hash it is told to remember.\<close>

definition decodesTo :: "(bytes \<Rightarrow> hash) \<Rightarrow> (hash \<Rightarrow> bytes option) \<Rightarrow> 16 word \<Rightarrow> nat \<Rightarrow> mpt \<Rightarrow> bool" where
  "decodesTo sha D g m t \<longleftrightarrow> (\<forall>rest h force. length (menc sha t @ rest) < 2 ^ 63 \<longrightarrow>
     cacheOk sha D force \<lparr>nfHash = h, nfGen = g, nfDirty = False\<rparr> t \<longrightarrow>
     (\<exists>n. decodeNodeN m g h (menc sha t @ rest) = Some (Inr n) \<and> repr sha D force n t \<and> \<not> isHash n))"

lemma decodesTo_embedded:
  "decodesTo sha D g m t \<Longrightarrow> \<not> bigNode sha t \<Longrightarrow> length (menc sha t @ rest) < 2 ^ 63 \<Longrightarrow>
   \<exists>n. decodeNodeN m g None (menc sha t @ rest) = Some (Inr n) \<and> repr sha D False n t"
  unfolding decodesTo_def by (drule spec [of _ rest], drule spec [of _ None], drule spec [of _ False]) (auto simp: cacheOk_def)

lemma decodesTo_Ext:
  assumes "trieOk sha D (Ext k t)" and IH: "isBranch t \<Longrightarrow> \<not> bigNode sha t \<Longrightarrow> decodesTo sha D g m t"
  shows "decodesTo sha D g (Suc m) (Ext k t)"
  unfolding decodesTo_def
proof (intro allI impI)
  fix rest h force
  let ?c = "encBytes (compact k) @ mref sha t" and ?fl = "\<lparr>nfHash = h, nfGen = g, nfDirty = False\<rparr>"
  assume len: "length (menc sha (Ext k t) @ rest) < 2 ^ 63" and ok: "cacheOk sha D force ?fl (Ext k t)"
  have wf: "wfTrie (Ext k t)" "stored sha D t" using assms(1) by (simp_all add: trieOk_def stored_def)
  have len': "length ?c < 2 ^ 63" using len length_encList_gt [of ?c] by simp
  have "slot t \<or> isNode t" using wf(1) by (auto simp: isNode_def)
  from mref_value [OF this, of sha] encBytes_value [of "compact k"]
  have "CountValues (concat (map id [encBytes (compact k), mref sha t])) = Some (Inr 2)"
    by (subst CountValues_pieces) (use len' in auto)
  then have dn: "decodeNodeN (Suc m) g h (menc sha (Ext k t) @ rest) =
      decodeShort (decodeNodeN m g None) h ?c g \<bind> (\<lambda>r. Some (case r of Inl err \<Rightarrow> Inl (wrapError err ctxShort) | Inr n \<Rightarrow> Inr n))"
    using decodeNodeN_list [of ?c rest 2 m g h] len by simp
  show "\<exists>n. decodeNodeN (Suc m) g h (menc sha (Ext k t) @ rest) = Some (Inr n) \<and> repr sha D force n (Ext k t) \<and> \<not> isHash n"
  proof (cases "terminated k")
    case True
    with wf(1) obtain v where "v \<noteq> []" "t = Leaf v" by (rule leaf_key)
    then show ?thesis using dn decodeShort_leaf [OF True] len' ok by (auto simp: shrink_def intro: reprShort reprVal)
  next
    case False
    note b = branch_key [OF wf(1) False]
    have "\<exists>n. decodeRef (decodeNodeN m g None) (mref sha t @ []) = Some (Inr (n, [])) \<and> repr sha D False n t"
    proof (rule decodeRef_child [OF b(4) wf(2)])
      assume "\<not> bigNode sha t"
      then show "\<exists>n. decodeNodeN m g None (menc sha t @ []) = Some (Inr n) \<and> repr sha D False n t"
        using decodesTo_embedded [OF IH [OF b(3)], of "[]"] len' b(3) by (auto simp: bigNode_def shrink_def isNode_def)
    qed (use len' in simp)
    then obtain n where n: "decodeRef (decodeNodeN m g None) (mref sha t) = Some (Inr (n, []))" "repr sha D False n t" by auto
    then show ?thesis using dn decodeShort_ext [OF b(2) len' n(1)] ok by (auto intro: reprShort)
  qed
qed

lemma decodesTo_Branch:
  assumes "trieOk sha D (Branch ts)"
    and IH: "\<And>t. t \<in> set (butlast ts) \<Longrightarrow> isNode t \<Longrightarrow> \<not> bigNode sha t \<Longrightarrow> decodesTo sha D g m t"
  shows "decodesTo sha D g (Suc m) (Branch ts)"
  unfolding decodesTo_def
proof (intro allI impI)
  fix rest h force
  let ?c = "concat (map (mref sha) ts)" and ?fl = "\<lparr>nfHash = h, nfGen = g, nfDirty = False\<rparr>"
  assume len: "length (menc sha (Branch ts) @ rest) < 2 ^ 63" and ok: "cacheOk sha D force ?fl (Branch ts)"
  have wf: "length ts = 17" "\<And>t. t \<in> set (butlast ts) \<Longrightarrow> wfTrie t" "slot (last ts)" and st: "kidsStored sha D (Branch ts)"
    using assms(1) by (simp_all add: trieOk_def)
  have len': "length ?c < 2 ^ 63" using len length_encList_gt [of ?c] by simp
  have c: "?c = concat (map (mref sha) (butlast ts)) @ mref sha (last ts)" by (rule concat_Branch [OF wf(1)])
  have "slot t \<or> isNode t" if "t \<in> set ts" for t
  proof -
    have "t \<in> set (butlast ts @ [last ts])" using that Branch_split [OF wf(1)] by simp
    then show ?thesis using wf wf_slot_or_node [of t] by auto
  qed
  then have "CountValues ?c = Some (Inr 17)" using CountValues_pieces [of ts "mref sha", OF mref_value len'] wf(1) by simp
  then have dn: "decodeNodeN (Suc m) g h (menc sha (Branch ts) @ rest) =
      decodeFull (decodeNodeN m g None) h ?c g \<bind> (\<lambda>r. Some (case r of Inl err \<Rightarrow> Inl (wrapError err ctxFull) | Inr n \<Rightarrow> Inr n))"
    using decodeNodeN_list [of ?c rest 17 m g h] len by simp
  have "\<exists>cs. decodeChildren (decodeNodeN m g None) (length (butlast ts)) 0 (concat (map (mref sha) (butlast ts)) @ mref sha (last ts)) =
      Some (Inr (cs, mref sha (last ts))) \<and> list_all2 (repr sha D False) cs (butlast ts)"
  proof (rule decodeChildren_children)
    fix t assume t: "t \<in> set (butlast ts)"
    then show "wfTrie t \<and> stored sha D t" using wf(2) kidsStored_child [OF st in_set_butlastD] by blast
    fix rest assume "isNode t" "\<not> bigNode sha t" "length (menc sha t @ rest) < 2 ^ 63"
    then show "\<exists>n. decodeNodeN m g None (menc sha t @ rest) = Some (Inr n) \<and> repr sha D False n t"
      using decodesTo_embedded IH t by blast
  qed (use len' c in simp)
  then obtain cs where cs: "decodeChildren (decodeNodeN m g None) 16 0 ?c = Some (Inr (cs, mref sha (last ts)))"
    "list_all2 (repr sha D False) cs (butlast ts)" using c wf(1) by auto
  obtain v where v: "mref sha (last ts) = encBytes v" "repr sha D False (if v \<noteq> [] then valueNode v else nilNode) (last ts)"
    using wf(3) by (elim slot_cases) (auto simp: shrink_def simp del: encBytes_Nil)
  have "SplitString (encBytes v) = Some (Inr (v, []))" using SplitString_enc [of v "[]"] len' c v(1) by simp
  then have "decodeFull (decodeNodeN m g None) h ?c g = Some (Inr (fullNode (cs @ [if v \<noteq> [] then valueNode v else nilNode]) ?fl))"
    using cs v(1) by (simp add: decodeFull_def)
  moreover have "list_all2 (repr sha D False) (cs @ [if v \<noteq> [] then valueNode v else nilNode]) ts"
    using cs(2) v(2) by (subst Branch_split [OF wf(1)]) (intro list_all2_appendI; simp)
  ultimately show "\<exists>n. decodeNodeN (Suc m) g h (menc sha (Branch ts) @ rest) = Some (Inr n) \<and> repr sha D force n (Branch ts) \<and> \<not> isHash n"
    using dn ok by (auto intro: reprFull)
qed

lemma decodesTo_menc:
  "trieOk sha D t \<Longrightarrow> isNode t \<Longrightarrow> length (menc sha t) \<le> m \<Longrightarrow> decodesTo sha D g m t"
proof (induction t arbitrary: m rule: wfTrie.induct)
  case (3 k t)
  then obtain m' where m: "m = Suc m'" by (cases m) (auto simp: encList_def refHead_def)
  have "decodesTo sha D g m' t" if "isBranch t" "\<not> bigNode sha t"
  proof (rule "3.IH")
    show "trieOk sha D t" using 3 that by (auto simp: trieOk_def slot_def)
    have "length (mref sha t) < length (menc sha (Ext k t))" using length_encList_gt [of "encBytes (compact k) @ mref sha t"] by simp
    then show "length (menc sha t) \<le> m'" using 3 m that by (simp add: bigNode_def shrink_def isNode_def)
  qed (use that in \<open>simp add: isNode_def\<close>)
  then show ?case using m decodesTo_Ext 3(2) by blast
next
  case (4 ts)
  then obtain m' where m: "m = Suc m'" using length_encList_gt [of "concat (map (mref sha) ts)"] by (cases m) simp_all
  have "decodesTo sha D g m' t" if t: "t \<in> set (butlast ts)" "isNode t" "\<not> bigNode sha t" for t
  proof (rule "4.IH" [OF t(1) _ t(2)])
    have ts: "t \<in> set ts" using t(1) by (rule in_set_butlastD)
    then show "trieOk sha D t" using 4(2) t(1) by (auto simp: trieOk_def)
    have "length (mref sha t) \<le> length (concat (map (mref sha) ts))" using ts by (rule menc_piece_less)
    then have "length (mref sha t) < length (menc sha (Branch ts))" using length_encList_gt [of "concat (map (mref sha) ts)"] by simp
    then show "length (menc sha t) \<le> m'" using 4 m t by (simp add: bigNode_def shrink_def)
  qed
  then show ?case using m decodesTo_Branch 4(2) by blast
qed simp_all

lemma decodeNode_menc:
  assumes "trieOk sha D t" "isNode t" "cacheOk sha D force \<lparr>nfHash = h, nfGen = g, nfDirty = False\<rparr> t"
  obtains n where "decodeNode h (menc sha t) g = Some (Inr n)" "repr sha D force n t" "\<not> isHash n"
proof -
  have "length (menc sha t @ []) < 2 ^ 63" using length_menc [of t sha] assms by (simp add: trieOk_def)
  then have "\<exists>n. decodeNodeN (Suc (length (menc sha t))) g h (menc sha t @ []) = Some (Inr n) \<and> repr sha D force n t \<and> \<not> isHash n"
    using decodesTo_menc [OF assms(1,2), of "Suc (length (menc sha t))" g] assms(3) unfolding decodesTo_def by fastforce
  then show ?thesis using that by (auto simp: decodeNode_def)
qed

end
