(* ===== verification/TrieOps.thy ===== *)
theory TrieOps
  imports TrieNode
begin

text \<open>
  Lookups and updates of a trie: they follow hash references into the database, never fail on a trie whose
  nodes are there, and act on the contents like the operations of a map.
\<close>

lemmas bind_simps = bind.bind_lunit sum.case prod.case

abbreviation reprDb :: "(bytes \<Rightarrow> hash) \<Rightarrow> trieDatabase \<Rightarrow> bool \<Rightarrow> node \<Rightarrow> mpt \<Rightarrow> bool" where
  "reprDb sha db \<equiv> repr sha (dbNode db)"

lemma resolveHash_repr:
  assumes "reprDb sha db force (hashNode h) t" "wfTrie t" "bounded t"
  obtains n where "resolveHash db g h p = Some (Inr n)" "reprDb sha db force n t" "\<not> isHash n"
proof -
  from assms(1) have h: "isNode t" "h = HashBytes (nodeHash sha t)" "force \<or> bigNode sha t" "inDb sha (dbNode db) t" "kidsStored sha (dbNode db) t"
    by (auto simp: repr_hash)
  have "trieOk sha (dbNode db) t" "cacheOk sha (dbNode db) force \<lparr>nfHash = Some h, nfGen = g, nfDirty = False\<rparr> t"
    using assms h by (simp_all add: trieOk_def cacheOk_def)
  then obtain n where "decodeNode (Some h) (menc sha t) g = Some (Inr n)" "reprDb sha db force n t" "\<not> isHash n"
    using decodeNode_menc h(1) by blast
  then show ?thesis using that h(2,4) by (simp add: resolveHash_def mustDecodeNode_def inDb_def)
qed

section \<open>Lookups\<close>

definition getGood :: "(bytes \<Rightarrow> hash) \<Rightarrow> trieDatabase \<Rightarrow> 16 word \<Rightarrow> bool \<Rightarrow> node \<Rightarrow> mpt \<Rightarrow> bytes \<Rightarrow> bytes \<Rightarrow> bool" where
  "getGood sha db g force n t p k \<longleftrightarrow> (\<exists>n' b. tryGet db g n (p @ k) (length p) = Some (Inr (mget t k, n', b)) \<and>
     reprDb sha db force n' t \<and> (\<not> b \<longrightarrow> n' = n))"

lemma getGood_hash:
  assumes "reprDb sha db force n t" "wfTrie t" "bounded t"
    and good: "\<And>n. reprDb sha db force n t \<Longrightarrow> \<not> isHash n \<Longrightarrow> getGood sha db g force n t p k"
  shows "getGood sha db g force n t p k"
proof (cases "isHash n")
  case True
  then obtain h where n: "n = hashNode h" by (cases n) auto
  from assms(1-3) obtain c where c: "resolveHash db g h p = Some (Inr c)" "reprDb sha db force c t" "\<not> isHash c"
    unfolding n by (rule resolveHash_repr)
  from good [OF c(2,3)] obtain n' b where "tryGet db g c (p @ k) (length p) = Some (Inr (mget t k, n', b))" "reprDb sha db force n' t"
    unfolding getGood_def by blast
  then show ?thesis using c(1) by (auto simp: getGood_def n tryGet.simps [of _ _ "hashNode h"] slice_def)
qed (use assms in blast)

lemma cacheOk_gen: "cacheOk sha D force (fl\<lparr>nfGen := g\<rparr>) t \<longleftrightarrow> cacheOk sha D force fl t"
  by (simp add: cacheOk_def split: option.splits)

lemma tryGet_good:
  "reprDb sha db force n t \<Longrightarrow> keyOk k \<Longrightarrow> below k t \<Longrightarrow> bounded t \<Longrightarrow> getGood sha db g force n t p k"
proof (induction t arbitrary: n p k force)
  case Empty
  then show ?case by (auto simp: getGood_def tryGet.simps)
next
  case (Leaf v)
  then show ?case by (auto simp: getGood_def tryGet.simps dest: below_Leaf)
next
  case (Ext q t)
  note wf = below_Ext [OF Ext.prems(3)]
  show ?case
  proof (rule getGood_hash [OF Ext.prems(1) _ Ext.prems(4)])
    fix n assume "reprDb sha db force n (Ext q t)" "\<not> isHash n"
    from repr_Ext [OF this] obtain c fl where n: "n = shortNode q c fl" "reprDb sha db False c t" "cacheOk sha (dbNode db) force fl (Ext q t)" by blast
    show "getGood sha db g force n (Ext q t) p k"
    proof (cases "take (length q) k = q")
      case False
      then have "length (p @ k) - length p < length q \<or> slice (p @ k) (length p) (length p + length q) \<noteq> Some q"
        by (auto simp: slice_def)
      then show ?thesis using n False by (auto simp: getGood_def tryGet.simps [of _ _ "shortNode q c fl"] intro: reprShort)
    next
      case True
      then have k: "k = q @ drop (length q) k" by (metis append_take_drop_id)
      then have "keyOk (drop (length q) k) \<and> below (drop (length q) k) t"
        using wf Ext.prems(2) below_Ext_child [of q t "drop (length q) k"] by (simp add: keyOk_def)
      with Ext.IH [OF n(2), of "drop (length q) k" "p @ q"] Ext.prems(4) k
      obtain n' b where r: "tryGet db g c (p @ k) (length p + length q) = Some (Inr (mget t (drop (length q) k), n', b))"
        "reprDb sha db False n' t" "\<not> b \<longrightarrow> n' = c" by (auto simp: getGood_def)
      have sl: "slice (p @ k) (length p) (length p + length q) = Some q" "length q \<le> length k"
        using True k by (auto simp: slice_def) (metis length_append le_add1)+
      then show ?thesis using n r True
        by (auto simp: getGood_def tryGet.simps [of _ _ "shortNode q c fl"] cacheOk_gen intro: reprShort)
    qed
  qed (use wf in blast)
next
  case (Branch ts)
  note wf = below_Branch [OF Branch.prems(3)]
  show ?case
  proof (rule getGood_hash [OF Branch.prems(1) _ Branch.prems(4)])
    fix n assume "reprDb sha db force n (Branch ts)" "\<not> isHash n"
    from repr_Branch [OF this] obtain cs fl where n: "n = fullNode cs fl" "list_all2 (reprDb sha db False) cs ts"
      "cacheOk sha (dbNode db) force fl (Branch ts)" by blast
    obtain x k' where k: "k = x # k'" using wf by (cases k) auto
    then have t: "terminated (x # k')" using Branch.prems(2) by (simp add: keyOk_def)
    note ch = below_child [OF conjunct2 [OF wf] t]
    have len: "length cs = length ts" using n(2) by (rule list_all2_lengthD)
    have rc: "reprDb sha db False (cs ! unat x) (ts ! unat x)" using n(2) ch(1) len by (simp add: list_all2_nthD)
    have "getGood sha db g False (cs ! unat x) (ts ! unat x) (p @ [x]) k'"
      using Branch.IH [OF nth_mem [OF ch(1)] rc keyOk_tl [OF t] ch(2)] Branch.prems(4) ch(1) by simp
    then obtain n' b where r: "tryGet db g (cs ! unat x) (p @ k) (Suc (length p)) = Some (Inr (mget (ts ! unat x) k', n', b))"
      "reprDb sha db False n' (ts ! unat x)" "\<not> b \<longrightarrow> n' = cs ! unat x" unfolding k by (auto simp: getGood_def)
    have "list_all2 (reprDb sha db False) (cs[unat x := n']) (ts[unat x := ts ! unat x])"
      using n(2) r(2) by (rule list_all2_update_cong)
    then show "getGood sha db g force n (Branch ts) p k"
      using n r ch(1) len k by (auto simp: getGood_def tryGet.simps [of _ _ "fullNode cs fl"] index_def cacheOk_gen intro: reprFull)
  qed (use wf in blast)
qed

section \<open>Contents after an update\<close>

lemma unat_eq_16: "unat (x :: byte) = 16 \<longleftrightarrow> x = 16" "16 = unat x \<longleftrightarrow> x = 16"
  by (auto simp: word_unat_eq_iff)

lemma mget_Ext_upd: "mget t' = (mget t)(k := w) \<Longrightarrow> mget (Ext q t') = (mget (Ext q t))(q @ k := w)"
proof
  fix k'
  assume "mget t' = (mget t)(k := w)"
  then show "mget (Ext q t') k' = ((mget (Ext q t))(q @ k := w)) k'"
    using append_take_drop_id [of "length q" k'] by (cases "take (length q) k' = q") auto
qed

lemma mget_Branch_upd:
  assumes "unat x < length ts" "mget t' = (mget (ts ! unat x))(k := w)"
  shows "mget (Branch (ts[unat x := t'])) = (mget (Branch ts))(x # k := w)"
proof
  fix k'
  show "mget (Branch (ts[unat x := t'])) k' = ((mget (Branch ts))(x # k := w)) k'"
  proof (cases k')
    case (Cons y k'')
    show ?thesis
    proof (cases "y = x")
      case False
      then have "unat y \<noteq> unat x" by (metis unsigned_word_eqI)
      then show ?thesis using Cons False by simp
    qed (use assms Cons in auto)
  qed simp
qed

lemma mget_Ext_Ext: "mget (Ext p (Ext q t)) = mget (Ext (p @ q) t)"
proof
  fix k
  have "take (length p + length q) k = p @ q \<longleftrightarrow> take (length p) k = p \<and> take (length q) (drop (length p) k) = q"
  proof (cases "length k < length p")
    case True
    then have "length (take (length p + length q) k) < length (p @ q)" "take (length p) k \<noteq> p" by auto
    then show ?thesis by (metis less_irrefl)
  next
    case False
    then show ?thesis by (simp add: take_add append_eq_append_conv)
  qed
  then show "mget (Ext p (Ext q t)) k = mget (Ext (p @ q) t) k" by (auto simp: add.commute)
qed

lemma mget_Ext_Nil [simp]: "mget (Ext [] t) = mget t"
  by (rule ext) simp

lemma wf_Branch_nth:
  "wfTrie (Branch ts) \<longleftrightarrow> length ts = 17 \<and> (\<forall>i < 16. wfTrie (ts ! i)) \<and> slot (ts ! 16) \<and> 2 \<le> card {i. i < 17 \<and> ts ! i \<noteq> Empty}"
proof (cases "length ts = 17")
  case True
  then have "last ts = ts ! 16" by (subst last_conv_nth) auto
  moreover have "(\<forall>t \<in> set (butlast ts). wfTrie t) \<longleftrightarrow> (\<forall>i < 16. wfTrie (ts ! i))"
    using True by (auto simp: all_set_conv_all_nth nth_butlast)
  ultimately show ?thesis using True by (simp add: length_filter_conv_card)
qed simp

lemma wf_Branch_update:
  assumes "wfTrie (Branch ts)" "terminated (x # k)" "below k t'" "t' \<noteq> Empty"
  shows "wfTrie (Branch (ts[unat x := t']))"
proof -
  have len: "length ts = 17" using assms(1) by simp
  have x: "unat x < 17" using terminated_head [OF assms(2)] .
  have t': "if x = 16 then slot t' else x < 16 \<and> wfTrie t'" using assms(2,3) by (auto simp: terminated_Cons below_def split: if_splits)
  have n: "ts[unat x := t'] ! i = (if i = unat x then t' else ts ! i)" if "i < 17" for i
    using that len by (simp add: nth_list_update)
  have "{i. i < 17 \<and> ts ! i \<noteq> Empty} \<subseteq> {i. i < 17 \<and> ts[unat x := t'] ! i \<noteq> Empty}"
    using assms(4) by (auto simp: n split: if_splits)
  then have "card {i. i < 17 \<and> ts ! i \<noteq> Empty} \<le> card {i. i < 17 \<and> ts[unat x := t'] ! i \<noteq> Empty}" by (intro card_mono) auto
  then have "2 \<le> card {i. i < 17 \<and> ts[unat x := t'] ! i \<noteq> Empty}" using assms(1) unfolding wf_Branch_nth by linarith
  moreover have "\<forall>i<16. wfTrie (ts[unat x := t'] ! i)" "slot (ts[unat x := t'] ! 16)"
    using assms(1) t' unfolding wf_Branch_nth by (auto simp: n byte_16 unat_eq_16 split: if_splits)
  ultimately show ?thesis using len unfolding wf_Branch_nth by simp
qed

lemma wf_two:
  fixes x y :: byte
  assumes "x \<noteq> y" "unat x < 17" "unat y < 17" "a \<noteq> Empty" "b \<noteq> Empty"
    and "if x = 16 then slot a else wfTrie a" "if y = 16 then slot b else wfTrie b"
  shows "wfTrie (Branch ((replicate 17 Empty)[unat x := a, unat y := b]))" (is "wfTrie (Branch ?ts)")
proof -
  have xy: "unat x \<noteq> unat y" using assms(1) by (metis unsigned_word_eqI)
  have n: "?ts ! i = (if i = unat y then b else if i = unat x then a else Empty)" if "i < 17" for i
    using that by (auto simp: nth_list_update)
  have "{unat x, unat y} \<subseteq> {i. i < 17 \<and> ?ts ! i \<noteq> Empty}" using assms xy by (auto simp: n)
  then have "card {unat x, unat y} \<le> card {i. i < 17 \<and> ?ts ! i \<noteq> Empty}" by (intro card_mono) auto
  then have c: "2 \<le> card {i. i < 17 \<and> ?ts ! i \<noteq> Empty}" using xy by simp
  have "\<forall>i<16. wfTrie (?ts ! i)" "slot (?ts ! 16)" using assms by (auto simp: n unat_eq_16 split: if_splits)
  then show ?thesis using c unfolding wf_Branch_nth by simp
qed

section \<open>Insertion\<close>

text \<open>A trie below a key that may be exhausted.\<close>

definition leafTrie :: "bytes \<Rightarrow> mpt \<Rightarrow> mpt" where
  "leafTrie k t = (if k = [] then t else Ext k t)"

lemma mget_leafTrie [simp]: "mget (leafTrie k t) = mget (Ext k t)"
  by (simp add: leafTrie_def)

lemma repr_leaf: "repr sha D False c t \<Longrightarrow> repr sha D False (insertLeaf g k c) (leafTrie k t)"
  by (simp add: insertLeaf_def leafTrie_def reprShort)

text \<open>What is left of a well-formed extension after its first nibbles.\<close>

lemma leafTrie_wf:
  assumes "wfTrie (Ext (x # k) t)"
  shows "unat x < 17" "if x = 16 then slot (leafTrie k t) else wfTrie (leafTrie k t)" "leafTrie k t \<noteq> Empty"
  using assms by (auto simp: leafTrie_def terminated_Cons byte_16 split: if_splits)

lemma Ext_drop_wf:
  assumes "wfTrie (Ext q t)" "m < length q"
  shows "wfTrie (Ext (q ! m # drop (Suc m) q) t)"
proof -
  have q: "q = take m q @ q ! m # drop (Suc m) q" using assms(2) by (rule id_take_nth_drop)
  show ?thesis
  proof (cases "terminated q")
    case True
    moreover have "nibs (take m q)"
      using True assms(2) by (metis butlast_snoc nibs_take take_butlast terminatedE)
    ultimately have "terminated (q ! m # drop (Suc m) q)" using q terminated_append by metis
    then show ?thesis using assms(1) True by (auto dest: terminated_not_nibs)
  next
    case False
    then have "nibs (take m q @ q ! m # drop (Suc m) q)" "isBranch t" "wfTrie t" using assms(1) q by auto
    then show ?thesis by (auto simp only: nibs_simps wfTrie.simps)
  qed
qed

lemma mget_two:
  fixes x y :: byte
  assumes "unat x < 17" "unat y < 17"
  shows "mget (Branch ((replicate 17 Empty)[unat x := a, unat y := b])) (z # r) =
    (if z = y then mget b r else if z = x then mget a r else None)"
proof -
  have "unat z = unat y \<longleftrightarrow> z = y" "unat z = unat x \<longleftrightarrow> z = x" by (simp_all add: word_unat_eq_iff)
  then show ?thesis using assms by (auto simp: nth_list_update)
qed

lemma mget_branchOut:
  assumes "unat x < 17" "unat y < 17" "y \<noteq> x"
  shows "mget (Branch ((replicate 17 Empty)[unat x := leafTrie q t, unat y := leafTrie k (Leaf v)])) = (mget (Ext (x # q) t))(y # k \<mapsto> v)"
proof
  fix k'
  show "mget (Branch ((replicate 17 Empty)[unat x := leafTrie q t, unat y := leafTrie k (Leaf v)])) k' = ((mget (Ext (x # q) t))(y # k \<mapsto> v)) k'"
  proof (cases k')
    case (Cons z r)
    have "mget (Ext k (Leaf v)) r = (if r = k then Some v else None)"
      using append_take_drop_id [of "length k" r] by auto
    then show ?thesis unfolding Cons mget_two [OF assms(1,2)] mget_leafTrie using assms(3) by auto
  qed simp
qed

lemma bounded_two: "bounded a \<Longrightarrow> bounded b \<Longrightarrow> bounded (Branch ((replicate 17 Empty)[i := a, j := b]))"
  by (auto dest!: subsetD [OF set_update_subset_insert])

lemma bounded_leafTrie: "length k < 2 ^ 60 \<Longrightarrow> bounded t \<Longrightarrow> bounded (leafTrie k t)"
  by (simp add: leafTrie_def)

lemma branchOut_good:
  assumes c: "repr sha D False c t" and wf: "wfTrie (Ext q t)" and k: "terminated k" and v: "v \<noteq> []" and m: "prefixLen k q < length q"
  shows "\<exists>n' t'. branchOut g q c k (valueNode v) (prefixLen k q) = Some n' \<and> repr sha D force n' t' \<and> wfTrie t' \<and> t' \<noteq> Empty \<and>
     (bounded (Ext q t) \<longrightarrow> length v < 2 ^ 60 \<longrightarrow> length k < 2 ^ 60 \<longrightarrow> bounded t') \<and> mget t' = (mget (Ext q t))(k \<mapsto> v)"
proof -
  let ?m = "prefixLen k q"
  let ?x = "q ! ?m" and ?y = "k ! ?m" and ?a = "leafTrie (drop (Suc ?m) q) t" and ?b = "leafTrie (drop (Suc ?m) k) (Leaf v)"
  have pre: "take ?m k = take ?m q" by (rule prefixLen_take)
  have mk: "?m < length k"
  proof (rule ccontr)
    assume "\<not> ?m < length k"
    then have "take (length k) q = k" using prefixLen_le [of k q] pre by simp
    then have "q = k @ drop (length k) q" by (metis append_take_drop_id)
    moreover have "\<not> nibs q" using calculation k terminated_not_nibs nibs_simps(3) by metis
    then have "terminated q" using wf by auto
    ultimately have "drop (length k) q = []" using terminated_prefix_free k by metis
    then show False using m \<open>\<not> ?m < length k\<close> by simp
  qed
  have xy: "?y \<noteq> ?x" using prefixLen_differ mk m by blast
  have dq: "drop ?m q = ?x # drop (Suc ?m) q" "drop ?m k = ?y # drop (Suc ?m) k" using m mk by (simp_all add: Cons_nth_drop_Suc)
  note wa = leafTrie_wf [OF Ext_drop_wf [OF wf m]]
  have "wfTrie (Ext k (Leaf v))" using k v by simp
  note wb = leafTrie_wf [OF Ext_drop_wf [OF this mk]]
  let ?ts = "(replicate 17 Empty)[unat ?x := ?a, unat ?y := ?b]"
  let ?cs = "(replicate 17 nilNode)[unat ?x := insertLeaf g (drop (Suc ?m) q) c, unat ?y := insertLeaf g (drop (Suc ?m) k) (valueNode v)]"
  have wfB: "wfTrie (Branch ?ts)" using wa wb xy by (intro wf_two) auto
  have "repr sha D force (fullNode ?cs (newFlag g)) (Branch ?ts)" for force
    using repr_leaf [OF c] by (intro reprFull list_all2_update_cong) (simp_all add: repr_leaf list_all2_conv_all_nth)
  note rB = this
  have g0: "mget (Branch ?ts) = (mget (Ext (drop ?m q) t))(drop ?m k \<mapsto> v)" unfolding dq using wa(1) wb(1) xy by (rule mget_branchOut)
  have gB: "mget (Ext (take ?m k) (Branch ?ts)) = (mget (Ext q t))(k \<mapsto> v)"
  proof -
    have "mget (Ext (take ?m k) (Ext (drop ?m q) t)) = mget (Ext q t)" unfolding pre by (simp add: mget_Ext_Ext)
    then show ?thesis using mget_Ext_upd [OF g0, of "take ?m k"] by (simp only: append_take_drop_id)
  qed
  have bd: "bounded (Branch ?ts)" if "bounded (Ext q t)" "length v < 2 ^ 60" "length k < 2 ^ 60"
    using that by (intro bounded_two bounded_leafTrie) (simp_all add: less_imp_diff_less)
  have bo: "branchOut g q c k (valueNode v) ?m = Some (if ?m = 0 then fullNode ?cs (newFlag g) else shortNode (take ?m k) (fullNode ?cs (newFlag g)) (newFlag g))"
    using m mk wa(1) wb(1) by (simp add: branchOut_def index_def slice_def)
  show ?thesis
  proof (cases "?m = 0")
    case True
    then show ?thesis using bo rB wfB gB bd by (intro exI [of _ "fullNode ?cs (newFlag g)"] exI [of _ "Branch ?ts"]) simp
  next
    case False
    have "nibs (take ?m k)" using k mk by (metis butlast_snoc nibs_take take_butlast terminatedE)
    moreover have "take ?m k \<noteq> []" using False mk by auto
    ultimately have "wfTrie (Ext (take ?m k) (Branch ?ts))" using wfB unfolding wfTrie.simps(3) by simp
    then show ?thesis using False bo rB gB bd
      by (intro exI [of _ "shortNode (take ?m k) (fullNode ?cs (newFlag g)) (newFlag g)"] exI [of _ "Ext (take ?m k) (Branch ?ts)"])
        (simp add: reprShort min_less_iff_disj del: wfTrie.simps)
  qed
qed

definition insertGood :: "(bytes \<Rightarrow> hash) \<Rightarrow> trieDatabase \<Rightarrow> 16 word \<Rightarrow> bool \<Rightarrow> node \<Rightarrow> mpt \<Rightarrow> bytes \<Rightarrow> bytes \<Rightarrow> bytes \<Rightarrow> bool" where
  "insertGood sha db g force n t p k v \<longleftrightarrow> (\<exists>b n' t'. trieInsert db g n p k (valueNode v) = Some (Inr (b, n')) \<and>
     reprDb sha db force n' t' \<and> below k t' \<and> bounded t' \<and> t' \<noteq> Empty \<and> mget t' = (mget t)(k \<mapsto> v) \<and>
     (isBranch t \<longrightarrow> isBranch t') \<and> (\<not> b \<longrightarrow> t' = t))"

lemma insertGoodI:
  "trieInsert db g n p k (valueNode v) = Some (Inr (b, n')) \<Longrightarrow> reprDb sha db force n' t' \<Longrightarrow> below k t' \<Longrightarrow> bounded t' \<Longrightarrow> t' \<noteq> Empty \<Longrightarrow>
   mget t' = (mget t)(k \<mapsto> v) \<Longrightarrow> (isBranch t \<Longrightarrow> isBranch t') \<Longrightarrow> (\<not> b \<Longrightarrow> t' = t) \<Longrightarrow> insertGood sha db g force n t p k v"
  unfolding insertGood_def by blast

lemma insertGood_hash:
  assumes "reprDb sha db force n t" "wfTrie t" "bounded t" "k \<noteq> []"
    and good: "\<And>n. reprDb sha db force n t \<Longrightarrow> \<not> isHash n \<Longrightarrow> insertGood sha db g force n t p k v"
  shows "insertGood sha db g force n t p k v"
proof (cases "isHash n")
  case True
  then obtain h where n: "n = hashNode h" by (cases n) auto
  from assms(1-3) obtain c where c: "resolveHash db g h p = Some (Inr c)" "reprDb sha db force c t" "\<not> isHash c"
    unfolding n by (rule resolveHash_repr)
  from good [OF c(2,3)] obtain b n' t' where r: "trieInsert db g c p k (valueNode v) = Some (Inr (b, n'))" "reprDb sha db force n' t'"
    "below k t'" "bounded t'" "t' \<noteq> Empty" "mget t' = (mget t)(k \<mapsto> v)" "isBranch t \<longrightarrow> isBranch t'" "\<not> b \<longrightarrow> t' = t"
    unfolding insertGood_def by blast
  have "trieInsert db g n p k (valueNode v) = Some (Inr (b, if b then n' else c))"
    using r(1) c(1) assms(4) by (simp add: n trieInsert.simps [of _ _ "hashNode h"])
  moreover have "reprDb sha db force (if b then n' else c) t'" using r(2,8) c(2) by auto
  ultimately show ?thesis using r(3-8) unfolding insertGood_def by blast
qed (use assms in blast)

lemma insertGood_Ext:
  assumes c: "reprDb sha db False c t" "cacheOk sha (dbNode db) force fl (Ext q t)" and wf: "wfTrie (Ext q t)" and k: "terminated k"
    and bd: "bounded (Ext q t)" "length v < 2 ^ 60" "length k < 2 ^ 60" "v \<noteq> []"
    and IH: "\<And>p k. keyOk k \<Longrightarrow> below k t \<Longrightarrow> length k < 2 ^ 60 \<Longrightarrow> insertGood sha db g False c t p k v"
  shows "insertGood sha db g force (shortNode q c fl) (Ext q t) p k v"
proof (cases "prefixLen k q = length q")
  case False
  then have m: "prefixLen k q < length q" using prefixLen_le [of k q] by simp
  from branchOut_good [OF c(1) wf k bd(4) m, of g force] bd obtain n' t' where
    r: "branchOut g q c k (valueNode v) (prefixLen k q) = Some n'" "reprDb sha db force n' t'" "wfTrie t'" "t' \<noteq> Empty" "bounded t'"
      "mget t' = (mget (Ext q t))(k \<mapsto> v)" by blast
  moreover have "k \<noteq> []" using k by auto
  ultimately show ?thesis using False by (intro insertGoodI [where b = True and n' = n' and t' = t'])
      (simp_all add: trieInsert.simps [of _ _ "shortNode q c fl"] Let_def below_def)
next
  case True
  let ?r = "drop (length q) k"
  have kq: "k = q @ ?r" using prefixLen_all [OF True] .
  have ch: "keyOk ?r \<and> below ?r t" using below_Ext_child [OF wf, of ?r] k kq by simp
  then have "insertGood sha db g False c t (p @ take (length q) k) ?r v" using IH bd(3) by simp
  then obtain b n' t' where r: "trieInsert db g c (p @ take (length q) k) ?r (valueNode v) = Some (Inr (b, n'))" "reprDb sha db False n' t'"
    "below ?r t'" "bounded t'" "t' \<noteq> Empty" "mget t' = (mget t)(?r \<mapsto> v)" "isBranch t \<longrightarrow> isBranch t'" "\<not> b \<longrightarrow> t' = t"
    unfolding insertGood_def by blast
  have "k \<noteq> []" using k by auto
  then have "trieInsert db g (shortNode q c fl) p k (valueNode v) = Some (Inr (b, if b then shortNode q n' (newFlag g) else shortNode q c fl))"
    using r(1) True by (simp add: trieInsert.simps [of _ _ "shortNode q c fl"] Let_def)
  moreover have "reprDb sha db force (if b then shortNode q n' (newFlag g) else shortNode q c fl) (Ext q t')"
    using r(2,8) c by (auto intro: reprShort)
  moreover have "wfTrie (Ext q t')"
  proof (cases "terminated q")
    case True
    then have "?r = []" using kq k terminated_prefix_free by metis
    then show ?thesis using True r(3,5) by (simp add: below_def)
  next
    case False
    note b = branch_key [OF wf False]
    have "?r \<noteq> []" using kq k False by (metis append_Nil2)
    then show ?thesis using b r(3,7) by (simp add: below_def)
  qed
  moreover have "mget (Ext q t') = (mget (Ext q t))(k \<mapsto> v)" using mget_Ext_upd [OF r(6), of q] kq by simp
  ultimately show ?thesis using r(4,8) bd(1) \<open>k \<noteq> []\<close> by (intro insertGoodI [where t' = "Ext q t'"]) (auto simp: below_def simp del: wfTrie.simps mget.simps)
qed

lemma trieInsert_Nil:
  assumes "slot t" "v \<noteq> []" "length v < 2 ^ 60" "reprDb sha db force n t"
  shows "insertGood sha db g force n t p [] v"
proof -
  have "\<exists>b. trieInsert db g n p [] (valueNode v) = Some (Inr (b, valueNode v)) \<and> (\<not> b \<longrightarrow> t = Leaf v)"
    using assms(1,4) by (elim slot_cases) (auto simp: trieInsert.simps [of _ _ _ _ "[]"])
  then obtain b where b: "trieInsert db g n p [] (valueNode v) = Some (Inr (b, valueNode v))" "\<not> b \<longrightarrow> t = Leaf v" by blast
  have "mget (Leaf v) = (mget t)([] \<mapsto> v)" "\<not> isBranch t" using assms(1) by (auto elim!: slot_cases)
  then show ?thesis using assms b by (intro insertGoodI [where t' = "Leaf v"]) (auto simp: below_def)
qed

lemma insertGood_Branch:
  assumes cs: "list_all2 (reprDb sha db False) cs ts" "cacheOk sha (dbNode db) force fl (Branch ts)" and wf: "wfTrie (Branch ts)"
    and k: "terminated (x # k)" and bd: "bounded (Branch ts)"
    and IH: "insertGood sha db g False (cs ! unat x) (ts ! unat x) (p @ [x]) k v"
  shows "insertGood sha db g force (fullNode cs fl) (Branch ts) p (x # k) v"
proof -
  note ch = below_child [OF wf k]
  have len: "length cs = length ts" using cs(1) by (rule list_all2_lengthD)
  from IH obtain b n' t' where r: "trieInsert db g (cs ! unat x) (p @ [x]) k (valueNode v) = Some (Inr (b, n'))" "reprDb sha db False n' t'"
    "below k t'" "bounded t'" "t' \<noteq> Empty" "mget t' = (mget (ts ! unat x))(k \<mapsto> v)" "\<not> b \<longrightarrow> t' = ts ! unat x"
    unfolding insertGood_def by blast
  have "trieInsert db g (fullNode cs fl) p (x # k) (valueNode v) = Some (Inr (b, if b then fullNode (cs[unat x := n']) (newFlag g) else fullNode cs fl))"
    using r(1) ch(1) len by (simp add: trieInsert.simps [of _ _ "fullNode cs fl"] index_def)
  moreover have "list_all2 (reprDb sha db False) (cs[unat x := n']) (ts[unat x := t'])" using cs(1) r(2) by (rule list_all2_update_cong)
  then have "reprDb sha db force (if b then fullNode (cs[unat x := n']) (newFlag g) else fullNode cs fl) (Branch (ts[unat x := t']))"
    using r(7) cs by (auto intro: reprFull)
  moreover have "wfTrie (Branch (ts[unat x := t']))" using wf_Branch_update [OF wf k r(3,5)] .
  moreover have "mget (Branch (ts[unat x := t'])) = (mget (Branch ts))(x # k \<mapsto> v)" using mget_Branch_upd [OF ch(1) r(6)] .
  moreover have "bounded (Branch (ts[unat x := t']))" using bd r(4) by (auto dest!: subsetD [OF set_update_subset_insert])
  ultimately show ?thesis using r(7) by (intro insertGoodI [where t' = "Branch (ts[unat x := t'])"]) (auto simp: below_def simp del: wfTrie.simps)
qed

lemma trieInsert_good:
  "reprDb sha db force n t \<Longrightarrow> keyOk k \<Longrightarrow> below k t \<Longrightarrow> bounded t \<Longrightarrow> v \<noteq> [] \<Longrightarrow> length v < 2 ^ 60 \<Longrightarrow> length k < 2 ^ 60 \<Longrightarrow>
   insertGood sha db g force n t p k v"
proof (induction t arbitrary: n p k force)
  case Empty
  show ?case
  proof (cases k)
    case Nil
    then show ?thesis using Empty trieInsert_Nil [of Empty] by simp
  next
    case Cons
    then have "terminated k" using Empty by (simp add: keyOk_def)
    moreover have "mget (Ext k (Leaf v)) = (mget Empty)(k \<mapsto> v)" using mget_Ext_upd [of "Leaf v" Empty "[]" "Some v" k] by auto
    ultimately show ?thesis using Empty Cons
      by (intro insertGoodI [where t' = "Ext k (Leaf v)"]) (auto simp: trieInsert.simps below_def intro: reprShort reprVal)
  qed
next
  case (Leaf w)
  then show ?case using trieInsert_Nil [of "Leaf w"] below_Leaf [of k w] by simp
next
  case (Ext q t)
  note wf = below_Ext [OF Ext.prems(3)]
  then have k: "terminated k" using Ext.prems(2) by (simp add: keyOk_def)
  show ?case
  proof (rule insertGood_hash [OF Ext.prems(1) _ Ext.prems(4)])
    fix n assume "reprDb sha db force n (Ext q t)" "\<not> isHash n"
    from repr_Ext [OF this] obtain c fl where n: "n = shortNode q c fl" "reprDb sha db False c t" "cacheOk sha (dbNode db) force fl (Ext q t)" by blast
    show "insertGood sha db g force n (Ext q t) p k v"
      unfolding n(1) using wf k Ext.prems Ext.IH [OF n(2)] by (intro insertGood_Ext [OF n(2,3)]) simp_all
  qed (use wf in blast)+
next
  case (Branch ts)
  note wf = below_Branch [OF Branch.prems(3)]
  then obtain x k' where k: "k = x # k'" by (cases k) auto
  then have tk: "terminated (x # k')" using Branch.prems(2) by (simp add: keyOk_def)
  note ch = below_child [OF conjunct2 [OF wf] tk]
  show ?case
  proof (rule insertGood_hash [OF Branch.prems(1) _ Branch.prems(4)])
    fix n assume "reprDb sha db force n (Branch ts)" "\<not> isHash n"
    from repr_Branch [OF this] obtain cs fl where n: "n = fullNode cs fl" "list_all2 (reprDb sha db False) cs ts"
      "cacheOk sha (dbNode db) force fl (Branch ts)" by blast
    have "reprDb sha db False (cs ! unat x) (ts ! unat x)" using n(2) ch(1) list_all2_lengthD [OF n(2)] by (simp add: list_all2_nthD)
    then have "insertGood sha db g False (cs ! unat x) (ts ! unat x) (p @ [x]) k' v"
      using Branch.IH [OF nth_mem [OF ch(1)] _ keyOk_tl [OF tk] ch(2)] Branch.prems k ch(1) by simp
    then show "insertGood sha db g force n (Branch ts) p k v"
      unfolding n(1) k using wf Branch.prems(4) by (intro insertGood_Branch [OF n(2,3) _ tk]) simp_all
  qed (use wf in blast)+
qed

end
