(* ===== verification/TrieDelete.thy ===== *)
theory TrieDelete
  imports TrieOps
begin

text \<open>
  Deletion from a trie: it removes the key and brings the trie back into its minimal form, loading the last
  remaining child of a branch if it has to. Together with lookups and insertions it makes the trie a map.
\<close>

section \<open>Deletion\<close>

lemma lonelyChild_found: "0 \<le> pos \<Longrightarrow> lonelyChild cs i pos = (if \<forall>c \<in> set cs. c = nilNode then pos else -2)"
  by (induction cs arbitrary: i) auto

lemma lonelyChild_cases:
  obtains "lonelyChild cs i (-1) = -1" "\<And>j. j < length cs \<Longrightarrow> cs ! j = nilNode"
  | j where "lonelyChild cs i (-1) = int (i + j)" "j < length cs" "cs ! j \<noteq> nilNode" "\<And>l. l < length cs \<Longrightarrow> l \<noteq> j \<Longrightarrow> cs ! l = nilNode"
  | j l where "lonelyChild cs i (-1) = -2" "j < l" "l < length cs" "cs ! j \<noteq> nilNode" "cs ! l \<noteq> nilNode"
proof (induction cs arbitrary: i thesis)
  case Nil
  then show ?case by simp
next
  case (Cons c cs)
  show ?case
  proof (cases "c = nilNode")
    case True
    show ?thesis
    proof (rule Cons.IH [of "Suc i"])
      assume "lonelyChild cs (Suc i) (-1) = -1" "\<And>j. j < length cs \<Longrightarrow> cs ! j = nilNode"
      then show ?thesis using True Cons.prems(1) by (simp add: nth_Cons split: nat.splits)
    next
      fix j assume "lonelyChild cs (Suc i) (-1) = int (Suc i + j)" "j < length cs" "cs ! j \<noteq> nilNode" "\<And>l. l < length cs \<Longrightarrow> l \<noteq> j \<Longrightarrow> cs ! l = nilNode"
      then show ?thesis using True Cons.prems(2) [of "Suc j"] by (simp add: nth_Cons split: nat.splits)
    next
      fix j l assume "lonelyChild cs (Suc i) (-1) = -2" "j < l" "l < length cs" "cs ! j \<noteq> nilNode" "cs ! l \<noteq> nilNode"
      then show ?thesis using True Cons.prems(3) [of "Suc j" "Suc l"] by simp
    qed
  next
    case False
    show ?thesis
    proof (cases "\<forall>c \<in> set cs. c = nilNode")
      case True
      then show ?thesis using False Cons.prems(2) [of 0] by (simp add: lonelyChild_found nth_Cons split: nat.splits)
    next
      case f: False
      then obtain l where "l < length cs" "cs ! l \<noteq> nilNode" by (auto simp: in_set_conv_nth)
      then show ?thesis using False f Cons.prems(3) [of 0 "Suc l"] by (simp add: lonelyChild_found)
    qed
  qed
qed

lemma repr_nil_iff: "repr sha D force n t \<Longrightarrow> n = nilNode \<longleftrightarrow> t = Empty"
  by (auto elim: repr.cases)

lemma mget_single:
  assumes "length ts = 17" "j < 17" "\<And>l. l < 17 \<Longrightarrow> l \<noteq> j \<Longrightarrow> ts ! l = Empty"
  shows "mget (Branch ts) = mget (Ext [of_nat j] (ts ! j))"
proof
  fix k
  show "mget (Branch ts) k = mget (Ext [of_nat j] (ts ! j)) k"
  proof (cases k)
    case (Cons x k')
    have "unat x = j \<longleftrightarrow> x = of_nat j" using assms(2) by (simp add: word_unat_eq_iff)
    then show ?thesis using Cons assms by auto
  qed simp
qed

lemma wf_Ext_Cons:
  "wfTrie (Ext k t) \<Longrightarrow> j < 16 \<Longrightarrow> wfTrie (Ext (of_nat j # k) t)"
  by (auto simp: terminated_Cons byte_16)

lemma wf_Ext_append: "wfTrie (Ext k t) \<Longrightarrow> nibs q \<Longrightarrow> wfTrie (Ext (q @ k) t)"
  by (auto simp: terminated_append)

lemma wf_Branch_set:
  assumes "wfTrie (Branch ts)" "terminated (x # k)" "below k t'" and two: "2 \<le> card {i. i < 17 \<and> ts[unat x := t'] ! i \<noteq> Empty}"
  shows "wfTrie (Branch (ts[unat x := t']))"
proof -
  have len: "length ts = 17" using assms(1) by simp
  have x: "unat x < 17" using terminated_head [OF assms(2)] .
  have t': "if x = 16 then slot t' else x < 16 \<and> wfTrie t'" using assms(2,3) by (auto simp: terminated_Cons below_def split: if_splits)
  have n: "ts[unat x := t'] ! i = (if i = unat x then t' else ts ! i)" if "i < 17" for i
    using that len by (simp add: nth_list_update)
  have "\<forall>i<16. wfTrie (ts[unat x := t'] ! i)" "slot (ts[unat x := t'] ! 16)"
    using assms(1) t' unfolding wf_Branch_nth by (auto simp: n byte_16 unat_eq_16 split: if_splits)
  then show ?thesis using len two unfolding wf_Branch_nth by simp
qed

definition deleteGood :: "(bytes \<Rightarrow> hash) \<Rightarrow> trieDatabase \<Rightarrow> bool \<Rightarrow> mpt \<Rightarrow> bytes \<Rightarrow> (trieError + bool \<times> node) option \<Rightarrow> bool" where
  "deleteGood sha db force t k r \<longleftrightarrow> (\<exists>b n' t'. r = Some (Inr (b, n')) \<and>
     reprDb sha db force n' t' \<and> below k t' \<and> mget t' = (mget t)(k := None) \<and>
     (isBranch t \<longrightarrow> t' \<noteq> Empty) \<and> (\<not> b \<longrightarrow> t' = t) \<and> (b \<longrightarrow> \<not> isHash n'))"

lemma deleteGoodI:
  "r = Some (Inr (b, n')) \<Longrightarrow> reprDb sha db force n' t' \<Longrightarrow> below k t' \<Longrightarrow> mget t' = (mget t)(k := None) \<Longrightarrow>
   (isBranch t \<Longrightarrow> t' \<noteq> Empty) \<Longrightarrow> (\<not> b \<Longrightarrow> t' = t) \<Longrightarrow> (b \<Longrightarrow> \<not> isHash n') \<Longrightarrow> deleteGood sha db force t k r"
  unfolding deleteGood_def by blast

lemma deleteGood_hash:
  assumes "reprDb sha db force n t" "wfTrie t" "bounded t"
    and good: "\<And>n. reprDb sha db force n t \<Longrightarrow> \<not> isHash n \<Longrightarrow> deleteGood sha db force t k (trieDelete db g n p k)"
  shows "deleteGood sha db force t k (trieDelete db g n p k)"
proof (cases "isHash n")
  case True
  then obtain h where n: "n = hashNode h" by (cases n) auto
  from assms(1-3) obtain c where c: "resolveHash db g h p = Some (Inr c)" "reprDb sha db force c t" "\<not> isHash c"
    unfolding n by (rule resolveHash_repr)
  from good [OF c(2,3)] obtain b n' t' where r: "trieDelete db g c p k = Some (Inr (b, n'))" "reprDb sha db force n' t'" "below k t'"
    "mget t' = (mget t)(k := None)" "isBranch t \<longrightarrow> t' \<noteq> Empty" "\<not> b \<longrightarrow> t' = t" "b \<longrightarrow> \<not> isHash n'"
    unfolding deleteGood_def by blast
  have "trieDelete db g n p k = Some (Inr (b, if b then n' else c))"
    using r(1) c(1) by (simp add: n trieDelete.simps [of _ _ "hashNode h"])
  moreover have "reprDb sha db force (if b then n' else c) t'" using r(2,6) c(2) by auto
  moreover have "b \<longrightarrow> \<not> isHash (if b then n' else c)" using r(7) by simp
  ultimately show ?thesis using r(3-6) unfolding deleteGood_def by blast
qed (use assms in blast)

lemma resolveNode_repr:
  assumes "reprDb sha db False c t" "wfTrie t" "isHash c \<Longrightarrow> bounded t"
  obtains rn where "resolveNode db g c p = Some (Inr rn)" "reprDb sha db False rn t" "\<not> isHash rn"
proof (cases "isHash c")
  case True
  then obtain h where n: "c = hashNode h" by (cases c) auto
  from assms(1,2) assms(3) [OF True] obtain rn where "resolveHash db g h p = Some (Inr rn)" "reprDb sha db False rn t" "\<not> isHash rn"
    unfolding n by (rule resolveHash_repr)
  then show ?thesis using that n by (simp add: resolveNode_def)
next
  case False
  then show ?thesis using that [of c] assms(1) by (cases c) (simp_all add: resolveNode_def)
qed

text \<open>A branch with one child left becomes an extension.\<close>

lemma reduceFull_single:
  assumes "length cs = 17" "list_all2 (reprDb sha db False) cs ts" "j < 17" "lonelyChild cs 0 (-1) = int j" "ts ! j \<noteq> Empty"
    and wf: "if j = 16 then slot (ts ! j) else wfTrie (ts ! j)" and bd: "isHash (cs ! j) \<Longrightarrow> bounded (ts ! j)"
  shows "\<exists>n' t'. reduceFull db g p cs = Some (Inr (True, n')) \<and> reprDb sha db force n' t' \<and> wfTrie t' \<and> t' \<noteq> Empty \<and>
    mget t' = mget (Ext [of_nat j] (ts ! j)) \<and> \<not> isHash n'"
proof -
  have c: "reprDb sha db False (cs ! j) (ts ! j)" using assms(1-3) by (simp add: list_all2_nthD)
  have one: "reprDb sha db force (shortNode [of_nat j] (cs ! j) (newFlag g)) (Ext [of_nat j] (ts ! j))" using c by (auto intro: reprShort)
  show ?thesis
  proof (cases "j = 16")
    case True
    then show ?thesis using assms(1,4,5) wf one
      by (intro exI [of _ "shortNode [of_nat j] (cs ! j) (newFlag g)"] exI [of _ "Ext [of_nat j] (ts ! j)"])
        (simp add: reduceFull_def index_def terminated_Cons)
  next
    case False
    then have wj: "wfTrie (ts ! j)" "j < 16" using wf assms(3) by simp_all
    obtain rn where rn: "resolveNode db g (cs ! j) p = Some (Inr rn)" "reprDb sha db False rn (ts ! j)" "\<not> isHash rn"
      by (rule resolveNode_repr [OF c wj(1) bd])
    from wf_slot_or_node [OF wj(1)] assms(5) consider k2 t2 where "ts ! j = Ext k2 t2" | us where "ts ! j = Branch us" by (cases "ts ! j") auto
    then show ?thesis
    proof cases
      case 1
      obtain c2 fl2 where r: "rn = shortNode k2 c2 fl2" "reprDb sha db False c2 t2" using repr_Ext [OF rn(2) [unfolded 1] rn(3)] by blast
      have "wfTrie (Ext (of_nat j # k2) t2)" using wf_Ext_Cons wj 1 by simp
      moreover have "mget (Ext (of_nat j # k2) t2) = mget (Ext [of_nat j] (ts ! j))" unfolding 1 mget_Ext_Ext by simp
      ultimately show ?thesis using assms(1,3,4) False rn(1) r
        by (intro exI [of _ "shortNode (of_nat j # k2) c2 (newFlag g)"] exI [of _ "Ext (of_nat j # k2) t2"])
          (simp add: reduceFull_def index_def reprShort del: wfTrie.simps)
    next
      case 2
      obtain cs2 fl2 where r: "rn = fullNode cs2 fl2" using repr_Branch [OF rn(2) [unfolded 2] rn(3)] by blast
      have "wfTrie (Ext [of_nat j] (ts ! j))" using wj 2 by (simp add: byte_16)
      then show ?thesis using assms(1,3,4) False rn(1) r one
        by (intro exI [of _ "shortNode [of_nat j] (cs ! j) (newFlag g)"] exI [of _ "Ext [of_nat j] (ts ! j)"])
          (simp add: reduceFull_def index_def del: wfTrie.simps)
    qed
  qed
qed

lemma deleteGood_Branch:
  assumes cs: "list_all2 (reprDb sha db False) cs ts" "cacheOk sha (dbNode db) force fl (Branch ts)" and wf: "wfTrie (Branch ts)"
    and k: "terminated (x # k)" and bd: "bounded (Branch ts)"
    and IH: "deleteGood sha db False (ts ! unat x) k (trieDelete db g (cs ! unat x) (p @ [x]) k)"
  shows "deleteGood sha db force (Branch ts) (x # k) (trieDelete db g (fullNode cs fl) p (x # k))"
proof -
  note ch = below_child [OF wf k]
  have len: "length cs = 17" "length ts = 17" using list_all2_lengthD [OF cs(1)] wf by simp_all
  from IH obtain b n' t' where r: "trieDelete db g (cs ! unat x) (p @ [x]) k = Some (Inr (b, n'))" "reprDb sha db False n' t'"
    "below k t'" "mget t' = (mget (ts ! unat x))(k := None)" "\<not> b \<longrightarrow> t' = ts ! unat x" "b \<longrightarrow> \<not> isHash n'"
    unfolding deleteGood_def by blast
  let ?cs = "cs[unat x := n']" and ?ts = "ts[unat x := t']"
  have m: "mget (Branch ?ts) = (mget (Branch ts))(x # k := None)" using mget_Branch_upd [OF ch(1) r(4)] .
  have step: "trieDelete db g (fullNode cs fl) p (x # k) = (if b then reduceFull db g p ?cs else Some (Inr (False, fullNode cs fl)))"
    using r(1) ch(1) len by (simp add: trieDelete.simps [of _ _ "fullNode cs fl"] index_def)
  show ?thesis
  proof (cases b)
    case False
    then show ?thesis using step r(5) m cs wf
      by (intro deleteGoodI [where b = False and n' = "fullNode cs fl" and t' = "Branch ts"])
        (auto simp: below_def simp del: wfTrie.simps intro: reprFull)
  next
    case b: True
    have rs: "list_all2 (reprDb sha db False) ?cs ?ts" using cs(1) r(2) by (rule list_all2_update_cong)
    have nil: "?cs ! i = nilNode \<longleftrightarrow> ?ts ! i = Empty" if "i < 17" for i
      by (rule repr_nil_iff [OF list_all2_nthD [OF rs]]) (use that len in simp)
    have wft: "if i = 16 then slot (?ts ! i) else wfTrie (?ts ! i)" if "i < 17" for i
      using wf_child [OF wf that] r(3) k that len by (auto simp: nth_list_update terminated_Cons below_def byte_16 unat_eq_16 split: if_splits)
    show ?thesis
    proof (rule lonelyChild_cases [of ?cs 0])
      assume all: "\<And>j. j < length ?cs \<Longrightarrow> ?cs ! j = nilNode"
      obtain i j where ij: "i < j" "j < 17" "ts ! i \<noteq> Empty" "ts ! j \<noteq> Empty" using wf two_positions [of "\<lambda>t. t \<noteq> Empty" ts] by auto
      then have "?ts ! i \<noteq> Empty \<or> ?ts ! j \<noteq> Empty" by (cases "i = unat x") auto
      then show ?thesis using all nil ij len by auto
    next
      fix j assume j: "lonelyChild ?cs 0 (- 1) = int (0 + j)" "j < length ?cs" "?cs ! j \<noteq> nilNode" "\<And>l. l < length ?cs \<Longrightarrow> l \<noteq> j \<Longrightarrow> ?cs ! l = nilNode"
      have bj: "bounded (?ts ! j)" if "isHash (?cs ! j)"
      proof -
        have "j \<noteq> unat x" using that b r(6) len j(2) by auto
        then show ?thesis using bd len j(2) by auto
      qed
      have one: "mget (Branch ?ts) = mget (Ext [of_nat j] (?ts ! j))" using j len nil by (intro mget_single) auto
      have l: "length ?cs = 17" "j < 17" "lonelyChild ?cs 0 (- 1) = int j" "?ts ! j \<noteq> Empty" using j len nil by auto
      from reduceFull_single [OF l(1) rs l(2-4) wft [OF l(2)] bj, of g p force]
      obtain n2 t2 where "reduceFull db g p ?cs = Some (Inr (True, n2))" "reprDb sha db force n2 t2" "wfTrie t2" "t2 \<noteq> Empty"
        "mget t2 = mget (Branch ?ts)" "\<not> isHash n2" unfolding one by blast
      then show ?thesis using step b m by (intro deleteGoodI [where b = True and n' = n2 and t' = t2]) (simp_all add: below_def)
    next
      fix j l assume j: "lonelyChild ?cs 0 (- 1) = - 2" "j < l" "l < length ?cs" "?cs ! j \<noteq> nilNode" "?cs ! l \<noteq> nilNode"
      then have "{j, l} \<subseteq> {i. i < 17 \<and> ?ts ! i \<noteq> Empty}" using nil len by auto
      then have "card {j, l} \<le> card {i. i < 17 \<and> ?ts ! i \<noteq> Empty}" by (intro card_mono) auto
      then have "wfTrie (Branch ?ts)" using j(2) by (intro wf_Branch_set [OF wf k r(3)]) simp
      then show ?thesis using step b m rs j(1)
        by (intro deleteGoodI [where b = True and n' = "fullNode ?cs (newFlag g)" and t' = "Branch ?ts"])
          (simp_all add: reduceFull_def below_def reprFull del: wfTrie.simps)
    qed
  qed
qed

lemma deleteGood_Ext:
  assumes c: "reprDb sha db False c t" "cacheOk sha (dbNode db) force fl (Ext q t)" and wf: "wfTrie (Ext q t)" and k: "terminated k"
    and IH: "\<And>p k. keyOk k \<Longrightarrow> below k t \<Longrightarrow> deleteGood sha db False t k (trieDelete db g c p k)"
  shows "deleteGood sha db force (Ext q t) k (trieDelete db g (shortNode q c fl) p k)"
proof -
  let ?r = "drop (length q) k"
  have n: "reprDb sha db force (shortNode q c fl) (Ext q t)" using c by (rule reprShort)
  have kn: "k \<noteq> []" using k by auto
  consider "prefixLen k q < length q" | "k = q" | "prefixLen k q = length q" "k = q @ ?r" "?r \<noteq> []"
    using prefixLen_le [of k q] prefixLen_all [of k q] by fastforce
  then show ?thesis
  proof cases
    case 1
    then have "take (length q) k \<noteq> q" by (metis append_take_drop_id less_irrefl prefixLen_append)
    then have "(mget (Ext q t))(k := None) = mget (Ext q t)" by auto
    then show ?thesis using 1 n wf kn
      by (intro deleteGoodI [where b = False and n' = "shortNode q c fl" and t' = "Ext q t"])
        (simp_all add: trieDelete.simps [of _ _ "shortNode q c fl"] below_def del: wfTrie.simps mget.simps)
  next
    case 2
    then have "terminated q" using k by simp
    from wf this obtain v where "v \<noteq> []" "t = Leaf v" "\<forall>k. mget (Ext q t) k = (if k = q then Some v else None)" by (rule leaf_key)
    then have "mget Empty = (mget (Ext q t))(k := None)" using 2 by auto
    moreover have "prefixLen k q = length q" using prefixLen_append [of q "[]"] 2 by simp
    ultimately show ?thesis using 2 kn
      by (intro deleteGoodI [where b = True and n' = nilNode and t' = Empty])
        (simp_all add: trieDelete.simps [of _ _ "shortNode q c fl"] below_def del: mget.simps(3))
  next
    case 3
    have nt: "\<not> terminated q" using 3 k terminated_prefix_free by metis
    note br = branch_key [OF wf nt]
    have ch: "keyOk ?r \<and> below ?r t" using below_Ext_child [OF wf, of ?r] k 3(2) by simp
    from IH [OF conjunct1 [OF ch] conjunct2 [OF ch], of "p @ take (length q) k"] obtain b n' t' where
      r: "trieDelete db g c (p @ take (length q) k) ?r = Some (Inr (b, n'))" "reprDb sha db False n' t'" "below ?r t'"
        "mget t' = (mget t)(?r := None)" "t' \<noteq> Empty" "\<not> b \<longrightarrow> t' = t" "b \<longrightarrow> \<not> isHash n'"
      unfolding deleteGood_def using br(3) by blast
    have m: "mget (Ext q t') = (mget (Ext q t))(k := None)" using mget_Ext_upd [OF r(4), of q] 3(2) by simp
    have wt: "wfTrie t'" using r(3) 3(3) by (simp add: below_def)
    have len: "length q \<noteq> length k" using 3 by auto
    show ?thesis
    proof (cases b)
      case False
      then show ?thesis using r(1,6) m n wf kn 3 len
        by (intro deleteGoodI [where b = False and n' = "shortNode q c fl" and t' = "Ext q t"])
          (simp_all add: trieDelete.simps [of _ _ "shortNode q c fl"] below_def Let_def del: wfTrie.simps mget.simps)
    next
      case b: True
      then have nh: "\<not> isHash n'" using r(7) by simp
      from wf_slot_or_node [OF wt] r(5) consider k2 t2 where "t' = Ext k2 t2" | us where "t' = Branch us" by (cases t') auto
      then show ?thesis
      proof cases
        case 1
        from repr_Ext [OF r(2) [unfolded 1] nh] obtain c2 fl2 where n2: "n' = shortNode k2 c2 fl2" "reprDb sha db False c2 t2" by blast
        have "wfTrie (Ext (q @ k2) t2)" using wf_Ext_append wt br(2) 1 by blast
        moreover have "mget (Ext (q @ k2) t2) = (mget (Ext q t))(k := None)" using m unfolding 1 mget_Ext_Ext .
        ultimately show ?thesis using r(1) b n2 kn 3 len
          by (intro deleteGoodI [where b = True and n' = "shortNode (q @ k2) c2 (newFlag g)" and t' = "Ext (q @ k2) t2"])
            (simp_all add: trieDelete.simps [of _ _ "shortNode q c fl"] below_def Let_def reprShort del: wfTrie.simps mget.simps)
      next
        case 2
        from repr_Branch [OF r(2) [unfolded 2] nh] obtain cs2 fl2 where n2: "n' = fullNode cs2 fl2" by blast
        have "wfTrie (Ext q t')" using br 2 wt by (simp del: wfTrie.simps(4))
        then show ?thesis using r(1,2) b n2 kn 3 len m
          by (intro deleteGoodI [where b = True and n' = "shortNode q n' (newFlag g)" and t' = "Ext q t'"])
            (simp_all add: trieDelete.simps [of _ _ "shortNode q c fl"] below_def Let_def reprShort del: wfTrie.simps mget.simps)
      qed
    qed
  qed
qed

lemma trieDelete_good:
  "reprDb sha db force n t \<Longrightarrow> keyOk k \<Longrightarrow> below k t \<Longrightarrow> bounded t \<Longrightarrow> deleteGood sha db force t k (trieDelete db g n p k)"
proof (induction t arbitrary: n p k force)
  case Empty
  then show ?case by (intro deleteGoodI [where b = False and n' = nilNode and t' = Empty]) (auto simp: trieDelete.simps)
next
  case (Leaf v)
  then show ?case using below_Leaf [OF Leaf(3)]
    by (intro deleteGoodI [where b = True and n' = nilNode and t' = Empty]) (auto simp: trieDelete.simps below_def)
next
  case (Ext q t)
  note wf = below_Ext [OF Ext.prems(3)]
  then have k: "terminated k" using Ext.prems(2) by (simp add: keyOk_def)
  show ?case
  proof (rule deleteGood_hash [OF Ext.prems(1) _ Ext.prems(4)])
    fix n assume "reprDb sha db force n (Ext q t)" "\<not> isHash n"
    from repr_Ext [OF this] obtain c fl where n: "n = shortNode q c fl" "reprDb sha db False c t" "cacheOk sha (dbNode db) force fl (Ext q t)" by blast
    show "deleteGood sha db force (Ext q t) k (trieDelete db g n p k)"
      unfolding n(1) using wf k Ext.prems Ext.IH [OF n(2)] by (intro deleteGood_Ext [OF n(2,3)]) simp_all
  qed (use wf in blast)
next
  case (Branch ts)
  note wf = below_Branch [OF Branch.prems(3)]
  then obtain x k' where k: "k = x # k'" by (cases k) auto
  then have tk: "terminated (x # k')" using Branch.prems(2) by (simp add: keyOk_def)
  note ch = below_child [OF conjunct2 [OF wf] tk]
  show ?case
  proof (rule deleteGood_hash [OF Branch.prems(1) _ Branch.prems(4)])
    fix n assume "reprDb sha db force n (Branch ts)" "\<not> isHash n"
    from repr_Branch [OF this] obtain cs fl where n: "n = fullNode cs fl" "list_all2 (reprDb sha db False) cs ts"
      "cacheOk sha (dbNode db) force fl (Branch ts)" by blast
    have "reprDb sha db False (cs ! unat x) (ts ! unat x)" using n(2) ch(1) list_all2_lengthD [OF n(2)] by (simp add: list_all2_nthD)
    then have "deleteGood sha db False (ts ! unat x) k' (trieDelete db g (cs ! unat x) (p @ [x]) k')"
      using Branch.IH [OF nth_mem [OF ch(1)] _ keyOk_tl [OF tk] ch(2)] Branch.prems k ch(1) by simp
    then show "deleteGood sha db force (Branch ts) k (trieDelete db g n p k)"
      unfolding n(1) k using wf Branch.prems(4) by (intro deleteGood_Branch [OF n(2,3) _ tk]) simp_all
  qed (use wf in blast)
qed

end
