(* ===== verification/Simulation.thy ===== *)
theory Simulation
  imports Prelude
begin

text \<open>
  Stateful components against their specifications: a step function that may panic, run on a list of
  operations, and the interface under which every run of it gives the results of the specification.
\<close>

fun runSteps :: "('o \<Rightarrow> 's \<Rightarrow> ('r \<times> 's) option) \<Rightarrow> 'o list \<Rightarrow> 's \<Rightarrow> ('r list \<times> 's) option" where
  "runSteps step [] s = Some ([], s)"
| "runSteps step (op # ops) s = do {
     (r, s) \<leftarrow> step op s;
     (rs, s) \<leftarrow> runSteps step ops s;
     Some (r # rs, s) }"

fun runSpec :: "('o \<Rightarrow> 'm \<Rightarrow> 'r \<times> 'm) \<Rightarrow> 'o list \<Rightarrow> 'm \<Rightarrow> 'r list \<times> 'm" where
  "runSpec spec [] m = ([], m)"
| "runSpec spec (op # ops) m =
     (let (r, m) = spec op m; (rs, m) = runSpec spec ops m in (r # rs, m))"

locale simulation =
  fixes ok :: "'s \<Rightarrow> 'm \<Rightarrow> bool"
    and step :: "'o \<Rightarrow> 's \<Rightarrow> ('r \<times> 's) option"
    and spec :: "'o \<Rightarrow> 'm \<Rightarrow> 'r \<times> 'm"
    and legal :: "'o \<Rightarrow> bool"
  assumes sim: "ok s m \<Longrightarrow> legal op \<Longrightarrow> \<exists>s'. step op s = Some (fst (spec op m), s') \<and> ok s' (snd (spec op m))"
begin

lemma run_simulates:
  "ok s m \<Longrightarrow> list_all legal ops \<Longrightarrow>
   \<exists>s'. runSteps step ops s = Some (fst (runSpec spec ops m), s') \<and> ok s' (snd (runSpec spec ops m))"
proof (induction ops arbitrary: s m)
  case (Cons op ops)
  then obtain s1 where s1: "step op s = Some (fst (spec op m), s1)" "ok s1 (snd (spec op m))" using sim [of s m op] by auto
  from Cons.IH [OF s1(2)] Cons.prems obtain s2 where
    "runSteps step ops s1 = Some (fst (runSpec spec ops (snd (spec op m))), s2)" "ok s2 (snd (runSpec spec ops (snd (spec op m))))" by auto
  then show ?case using s1 by (simp add: Let_def case_prod_unfold)
qed simp

end

end
