(* ===== verification/TrieProps.thy ===== *)
theory TrieProps
  imports TrieDelete Simulation
begin

text \<open>
  The trie as a map from byte strings to byte strings: whatever mixture of lookups, updates and deletions is
  run on it, and however much of it still has to be loaded from the database, it answers like the map.
\<close>

section \<open>A trie that stands for a map\<close>

definition contents :: "mpt \<Rightarrow> (bytes \<rightharpoonup> bytes) \<Rightarrow> bool" where
  "contents t m \<longleftrightarrow> (\<forall>k. mget t (keybytesToHex k) = m k) \<and> (\<forall>k. mget t k \<noteq> None \<longrightarrow> k \<in> range keybytesToHex)"

text \<open>Keys below \<open>2 ^ 58\<close> bytes and values below \<open>2 ^ 60\<close> bytes.\<close>

definition smallMap :: "(bytes \<rightharpoonup> bytes) \<Rightarrow> bool" where
  "smallMap m \<longleftrightarrow> (\<forall>k v. m k = Some v \<longrightarrow> length k < 2 ^ 58 \<and> length v < 2 ^ 60)"

definition holds :: "(bytes \<Rightarrow> hash) \<Rightarrow> trieDatabase \<Rightarrow> Trie \<Rightarrow> (bytes \<rightharpoonup> bytes) \<Rightarrow> bool" where
  "holds sha db t m \<longleftrightarrow> (\<exists>u. reprDb sha db True (tRoot t) u \<and> wfTrie u \<and> contents u m) \<and> smallMap m"

lemma length_keybytesToHex: "length (keybytesToHex k) = 2 * length k + 1"
  unfolding keybytesToHex_def by (induction k) auto

lemma below_hex [simp]: "below (keybytesToHex k) t \<longleftrightarrow> wfTrie t"
  by (simp add: below_def keybytesToHex_def)

lemma bounded_contents:
  "wfTrie t \<Longrightarrow> (\<And>k v. mget t k = Some v \<Longrightarrow> length k < 2 ^ 60 \<and> length v < 2 ^ 60) \<Longrightarrow> bounded t"
proof (induction t rule: wfTrie.induct)
  case (3 p t)
  obtain k where k: "mget (Ext p t) k \<noteq> None" using nonempty_key [OF 3(2)] by auto
  then have "length k < 2 ^ 60" "take (length p) k = p" using 3(3) Ext_prefix by blast+
  then have p: "length p < 2 ^ 60" by (metis le_less_trans length_take min.cobounded1)
  have sub: "length k < 2 ^ 60 \<and> length v < 2 ^ 60" if "mget t k = Some v" for k v using 3(3) [of "p @ k" v] that by simp
  have "bounded t"
  proof (cases "terminated p")
    case True
    with 3(2) obtain v where "v \<noteq> []" "t = Leaf v" "\<forall>k. mget (Ext p t) k = (if k = p then Some v else None)" by (rule leaf_key)
    then show ?thesis using sub [of "[]" v] by simp
  next
    case False
    then show ?thesis using 3(1) sub branch_key(4) [OF 3(2) False] by blast
  qed
  then show ?case using p by simp
next
  case (4 ts)
  have "bounded (ts ! i)" if i: "i < 17" for i
  proof -
    have sub: "length k < 2 ^ 60 \<and> length v < 2 ^ 60" if "mget (ts ! i) k = Some v" for k v
      using 4(3) [of "of_nat i # k" v] that i 4(2) by simp
    show ?thesis
    proof (cases "i = 16")
      case True
      then have "slot (ts ! i)" using wf_child [OF 4(2) i] by simp
      then show ?thesis using sub [of "[]"] by (elim slot_cases) simp_all
    next
      case False
      then have "i < length (butlast ts)" using i 4(2) by auto
      then have "ts ! i \<in> set (butlast ts)" by (metis nth_butlast nth_mem)
      then show ?thesis using 4(1) sub wf_child [OF 4(2) i] False by auto
    qed
  qed
  then show ?case using 4(2) by (auto simp: in_set_conv_nth)
qed auto

lemma contents_bounded:
  assumes "wfTrie t" "contents t m" "smallMap m"
  shows "bounded t"
proof (rule bounded_contents [OF assms(1)])
  fix k v assume "mget t k = Some v"
  moreover then obtain kb where "k = keybytesToHex kb" using assms(2) by (auto simp: contents_def)
  ultimately have "m kb = Some v" "length k = 2 * length kb + 1" using assms(2) by (auto simp: contents_def length_keybytesToHex)
  then show "length k < 2 ^ 60 \<and> length v < 2 ^ 60" using assms(3) by (fastforce simp: smallMap_def)
qed

lemma contents_upd:
  assumes "contents t m" "mget t' = (mget t)(keybytesToHex k := w)"
  shows "contents t' (m(k := w))"
  using assms by (auto simp: contents_def keybytesToHex_inj)

lemma smallMap_upd: "smallMap m \<Longrightarrow> length k < 2 ^ 58 \<Longrightarrow> length v < 2 ^ 60 \<Longrightarrow> smallMap (m(k \<mapsto> v))"
  by (simp add: smallMap_def)

lemma smallMap_del: "smallMap m \<Longrightarrow> smallMap (m(k := None))"
  by (simp add: smallMap_def)

lemma holdsE:
  assumes "holds sha db t m"
  obtains u where "reprDb sha db True (tRoot t) u" "wfTrie u" "contents u m" "bounded u" "smallMap m"
    "below (keybytesToHex k) u" "mget u (keybytesToHex k) = m k"
proof -
  obtain u where u: "reprDb sha db True (tRoot t) u" "wfTrie u" "contents u m" "smallMap m" using assms by (auto simp: holds_def)
  then show ?thesis using that [of u] contents_bounded by (auto simp: contents_def)
qed

section \<open>The operations\<close>

lemma TryGet_holds:
  assumes "holds sha db t m"
  shows "\<exists>t'. TryGet db t k = Some (Inr (m k), t') \<and> holds sha db t' m"
proof -
  from assms obtain u where u: "reprDb sha db True (tRoot t) u" "wfTrie u" "contents u m" "bounded u" "smallMap m"
    "below (keybytesToHex k) u" "mget u (keybytesToHex k) = m k" by (rule holdsE)
  from tryGet_good [OF u(1) _ u(6,4), of "tCachegen t" "[]"] obtain n' b where
    "tryGet db (tCachegen t) (tRoot t) (keybytesToHex k) 0 = Some (Inr (m k, n', b))" "reprDb sha db True n' u" "\<not> b \<longrightarrow> n' = tRoot t"
    using u(7) by (auto simp: getGood_def)
  then show ?thesis using u assms by (auto simp: TryGet_def holds_def)
qed

lemma TryDelete_holds:
  assumes "holds sha db t m"
  shows "\<exists>t'. TryDelete db t k = Some (None, t') \<and> holds sha db t' (m(k := None))"
proof -
  from assms obtain u where u: "reprDb sha db True (tRoot t) u" "wfTrie u" "contents u m" "bounded u" "smallMap m"
    "below (keybytesToHex k) u" "mget u (keybytesToHex k) = m k" by (rule holdsE)
  from trieDelete_good [OF u(1) _ u(6,4), of "tCachegen t" "[]"] obtain b n' t' where
    "trieDelete db (tCachegen t) (tRoot t) [] (keybytesToHex k) = Some (Inr (b, n'))" "reprDb sha db True n' t'"
    "wfTrie t'" "mget t' = (mget u)(keybytesToHex k := None)"
    by (auto simp: deleteGood_def)
  then show ?thesis using u contents_upd smallMap_del by (fastforce simp: TryDelete_def setRoot_def holds_def)
qed

lemma TryUpdate_holds:
  assumes "holds sha db t m" "length k < 2 ^ 58" "length v < 2 ^ 60"
  shows "\<exists>t'. TryUpdate db t k v = Some (None, t') \<and> holds sha db t' (m(k := if v = [] then None else Some v))"
proof (cases "v = []")
  case True
  then show ?thesis using TryDelete_holds [OF assms(1), of k] by (simp add: TryUpdate_def TryDelete_def)
next
  case False
  from assms(1) obtain u where u: "reprDb sha db True (tRoot t) u" "wfTrie u" "contents u m" "bounded u" "smallMap m"
    "below (keybytesToHex k) u" "mget u (keybytesToHex k) = m k" by (rule holdsE)
  have "length (keybytesToHex k) < 2 ^ 60" using assms(2) by (simp add: length_keybytesToHex)
  with trieInsert_good [OF u(1) _ u(6,4) False assms(3), of "tCachegen t" "[]"] obtain b n' t' where
    "trieInsert db (tCachegen t) (tRoot t) [] (keybytesToHex k) (valueNode v) = Some (Inr (b, n'))" "reprDb sha db True n' t'"
    "wfTrie t'" "mget t' = (mget u)(keybytesToHex k \<mapsto> v)"
    by (auto simp: insertGood_def)
  then show ?thesis using False u assms contents_upd smallMap_upd by (fastforce simp: TryUpdate_def setRoot_def holds_def)
qed

section \<open>Runs\<close>

datatype trieOp = GetOp bytes | UpdateOp bytes bytes | DeleteOp bytes

fun trieStep :: "trieDatabase \<Rightarrow> trieOp \<Rightarrow> Trie \<Rightarrow> ((trieError + bytes option) \<times> Trie) option" where
  "trieStep db (GetOp k) t = TryGet db t k"
| "trieStep db (UpdateOp k v) t = do {
     (err, t) \<leftarrow> TryUpdate db t k v;
     Some (case err of Some err \<Rightarrow> Inl err | None \<Rightarrow> Inr None, t) }"
| "trieStep db (DeleteOp k) t = do {
     (err, t) \<leftarrow> TryDelete db t k;
     Some (case err of Some err \<Rightarrow> Inl err | None \<Rightarrow> Inr None, t) }"

fun mapStep :: "trieOp \<Rightarrow> (bytes \<rightharpoonup> bytes) \<Rightarrow> (trieError + bytes option) \<times> (bytes \<rightharpoonup> bytes)" where
  "mapStep (GetOp k) m = (Inr (m k), m)"
| "mapStep (UpdateOp k v) m = (Inr None, m(k := if v = [] then None else Some v))"
| "mapStep (DeleteOp k) m = (Inr None, m(k := None))"

fun smallOp :: "trieOp \<Rightarrow> bool" where
  "smallOp (UpdateOp k v) \<longleftrightarrow> length k < 2 ^ 58 \<and> length v < 2 ^ 60"
| "smallOp _ \<longleftrightarrow> True"

interpretation triemap: simulation "holds sha db" "trieStep db" mapStep smallOp for sha db
proof
  fix t m op
  assume h: "holds sha db t m" "smallOp op"
  show "\<exists>t'. trieStep db op t = Some (fst (mapStep op m), t') \<and> holds sha db t' (snd (mapStep op m))"
  proof (cases op)
    case (GetOp k)
    then show ?thesis using TryGet_holds [OF h(1), of k] by simp
  next
    case (UpdateOp k v)
    then obtain t' where "TryUpdate db t k v = Some (None, t')" "holds sha db t' (m(k := if v = [] then None else Some v))"
      using TryUpdate_holds [OF h(1), of k v] h(2) by auto
    then show ?thesis using UpdateOp by simp
  next
    case (DeleteOp k)
    then obtain t' where "TryDelete db t k = Some (None, t')" "holds sha db t' (m(k := None))"
      using TryDelete_holds [OF h(1), of k] by auto
    then show ?thesis using DeleteOp by simp
  qed
qed

lemma holds_empty: "holds sha db \<lparr>tRoot = nilNode, tOriginalRoot = r, tCachegen = g, tCachelimit = l\<rparr> Map.empty"
  by (auto simp: holds_def contents_def smallMap_def intro!: exI [of _ Empty])

text \<open>C6. A trie is a map: any run of lookups, updates and deletions on a trie that stands for a map ends,
  without a panic or a missing node, answers every lookup with the value of the map, and leaves a trie
  that stands for the updated map. An update with an empty value deletes.\<close>

theorem trie_refines_map:
  assumes "holds sha db t m" "list_all smallOp ops"
  shows "\<exists>t'. runSteps (trieStep db) ops t = Some (fst (runSpec mapStep ops m), t') \<and> holds sha db t' (snd (runSpec mapStep ops m))"
  using assms by (rule triemap.run_simulates)

theorem trie_refines_map_witness:
  "\<exists>t'. runSteps (trieStep (NewDatabase Map.empty)) [UpdateOp [1] [2], UpdateOp [1, 3] [4], DeleteOp [1], GetOp [1], GetOp [1, 3]]
     \<lparr>tRoot = nilNode, tOriginalRoot = 0, tCachegen = 0, tCachelimit = 0\<rparr> =
   Some ([Inr None, Inr None, Inr None, Inr None, Inr (Some [4])], t')"
proof -
  let ?ops = "[UpdateOp [1] [2], UpdateOp [1, 3] [4], DeleteOp [1], GetOp [1], GetOp [1, 3]]"
  have h: "holds sha (NewDatabase Map.empty) \<lparr>tRoot = nilNode, tOriginalRoot = 0, tCachegen = 0, tCachelimit = 0\<rparr> Map.empty" for sha
    by (rule holds_empty)
  have ops: "list_all smallOp ?ops" by simp
  have spec: "fst (runSpec mapStep ?ops Map.empty) = [Inr None, Inr None, Inr None, Inr None, Inr (Some [4])]" by simp
  show ?thesis using trie_refines_map [OF h ops] unfolding spec by blast
qed

end
