(* ===== verification/TrieHash.thy ===== *)
theory TrieHash
  imports TrieProps
begin

text \<open>
  Hashing and committing a trie: the hash of a trie depends on its contents only, cached hashes are right, and
  a commit stores every node so that the trie can be opened again at its root hash.
\<close>

section \<open>Databases\<close>

definition sameBlobs :: "trieDatabase \<Rightarrow> trieDatabase \<Rightarrow> bool" where
  "sameBlobs d d' \<longleftrightarrow> tdDisk d' = tdDisk d \<and> (\<forall>x. map_option cnBlob (tdNodes d' x) = map_option cnBlob (tdNodes d x))"

lemma sameBlobs_refl [simp]: "sameBlobs d d"
  by (simp add: sameBlobs_def)

lemma sameBlobs_trans: "sameBlobs d d' \<Longrightarrow> sameBlobs d' d'' \<Longrightarrow> sameBlobs d d''"
  by (simp add: sameBlobs_def)

lemma sameBlobs_known: "sameBlobs d d' \<Longrightarrow> tdNodes d' x = None \<longleftrightarrow> tdNodes d x = None"
  by (metis option.map_disc_iff sameBlobs_def)

lemma dbNode_alt: "dbNode d x = (case map_option cnBlob (tdNodes d x) of Some b \<Rightarrow> b | None \<Rightarrow> tdDisk d (HashBytes x))"
  by (simp add: dbNode_def split: option.splits)

lemma sameBlobs_dbNode:
  assumes "sameBlobs d d'"
  shows "dbNode d' = dbNode d"
proof
  fix x
  have "map_option cnBlob (tdNodes d' x) = map_option cnBlob (tdNodes d x)" "tdDisk d' = tdDisk d" using assms by (simp_all add: sameBlobs_def)
  then show "dbNode d' x = dbNode d x" by (simp only: dbNode_alt)
qed

text \<open>The database does not hold other data under the hash of \<open>e\<close>.\<close>

definition agrees :: "(bytes \<Rightarrow> hash) \<Rightarrow> trieDatabase \<Rightarrow> bytes \<Rightarrow> bool" where
  "agrees sha d e \<longleftrightarrow> (\<forall>b. map_option cnBlob (tdNodes d (sha e)) = Some b \<longrightarrow> b = Some e) \<and>
     (\<forall>b. tdDisk d (HashBytes (sha e)) = Some b \<longrightarrow> b = e)"

lemma sameBlobs_agrees: "sameBlobs d d' \<Longrightarrow> agrees sha d' e \<longleftrightarrow> agrees sha d e"
  by (simp add: agrees_def sameBlobs_def)

lemma dbInsert_known [simp]: "tdNodes (dbInsert d x e) x \<noteq> None"
  by (simp add: dbInsert_def split: option.splits)

lemma dbInsert_same: "agrees sha d e \<Longrightarrow> dbNode (dbInsert d (sha e) e) (sha e) = Some e"
  by (auto simp: dbInsert_def dbNode_def agrees_def split: option.splits)

lemma dbInsert_grows:
  assumes "agrees sha d e" "dbNode d x = Some b"
  shows "dbNode (dbInsert d (sha e) e) x = Some b"
proof (cases "x = sha e")
  case True
  have "b = e" using assms unfolding True by (auto simp: agrees_def dbNode_def split: option.splits)
  then show ?thesis using True dbInsert_same [OF assms(1)] by simp
next
  case False
  then show ?thesis using assms(2) by (simp add: dbInsert_def dbNode_def split: option.splits)
qed

lemma dbInsert_agrees:
  "agrees sha d e' \<Longrightarrow> (sha e = sha e' \<Longrightarrow> e = e') \<Longrightarrow> agrees sha (dbInsert d (sha e) e) e'"
  by (auto simp: dbInsert_def agrees_def split: option.splits)

lemma dbReference_blobs:
  assumes "tdNodes d parent \<noteq> None"
  shows "\<exists>d'. dbReference d child parent = Some d' \<and> sameBlobs d d'"
  using assms by (auto simp: dbReference_def sameBlobs_def split: option.splits)

definition leafOk :: "(bytes \<Rightarrow> hash \<Rightarrow> trieDatabase \<Rightarrow> trieDatabase option) option \<Rightarrow> bool" where
  "leafOk onleaf \<longleftrightarrow> (\<forall>f v x d. onleaf = Some f \<longrightarrow> tdNodes d x \<noteq> None \<longrightarrow> (\<exists>d'. f v x d = Some d' \<and> sameBlobs d d'))"

lemma referenceAll_blobs: "tdNodes d x \<noteq> None \<Longrightarrow> \<exists>d'. referenceAll ns x d = Some d' \<and> sameBlobs d d'"
proof (induction ns x d rule: referenceAll.induct)
  case (2 c ns x d)
  obtain d1 where d1: "dbReference d (BytesToHash c) x = Some d1" "sameBlobs d d1" using dbReference_blobs [OF 2(2)] by blast
  have "tdNodes d1 x \<noteq> None" using sameBlobs_known [OF d1(2)] 2(2) by simp
  then obtain d2 where "referenceAll ns x d1 = Some d2" "sameBlobs d1 d2" using 2(1) [OF d1(1)] by blast
  then show ?case using d1 sameBlobs_trans by auto
qed auto

lemma leafAll_blobs: "leafOk (Some f) \<Longrightarrow> tdNodes d x \<noteq> None \<Longrightarrow> \<exists>d'. leafAll f ns x d = Some d' \<and> sameBlobs d d'"
proof (induction f ns x d rule: leafAll.induct)
  case (2 f v ns x d)
  obtain d1 where d1: "f v x d = Some d1" "sameBlobs d d1" using 2(2,3) unfolding leafOk_def by blast
  have "tdNodes d1 x \<noteq> None" using sameBlobs_known [OF d1(2)] 2(3) by simp
  then obtain d2 where "leafAll f ns x d1 = Some d2" "sameBlobs d1 d2" using 2(1) [OF d1(1) 2(2)] by blast
  then show ?case using d1 sameBlobs_trans by auto
qed auto

section \<open>Storing a node\<close>

lemma encodables_nodeVal: "(\<And>c. c \<in> set cs \<Longrightarrow> encodable (nodeVal c)) \<Longrightarrow> encodables (map nodeVal cs)"
  by (induction cs) auto

lemma encodable_nodeVal [simp]: "encodable (nodeVal n)"
  by (induction n) (auto intro: encodables_nodeVal)

lemma encVals_nodeVal: "encVals (map nodeVal cs) = concat (map (\<lambda>c. encVal (nodeVal c)) cs)"
  by (induction cs) auto

lemma encode_nodeVal:
  "length (encVal (nodeVal n)) < 2 ^ 62 \<Longrightarrow> EncodeToBytes (nodeVal n) = Some (Inr (encVal (nodeVal n))) \<and> Encode (nodeVal n) = Some (Inr (encVal (nodeVal n)))"
  using encode_ok [of "nodeVal n"] by simp

text \<open>Looking up nodes while hashing: without a database the view is a fixed one.\<close>

definition viewOf :: "(hash \<Rightarrow> bytes option) \<Rightarrow> trieDatabase option \<Rightarrow> hash \<Rightarrow> bytes option" where
  "viewOf D db = (case db of None \<Rightarrow> D | Some d \<Rightarrow> dbNode d)"

definition safeDb :: "(bytes \<Rightarrow> hash) \<Rightarrow> bytes set \<Rightarrow> trieDatabase option \<Rightarrow> bool" where
  "safeDb sha E db \<longleftrightarrow> (\<forall>d. db = Some d \<longrightarrow> inj_on sha E \<and> (\<forall>e \<in> E. agrees sha d e))"

definition growsTo :: "(bytes \<Rightarrow> hash) \<Rightarrow> bytes set \<Rightarrow> (hash \<Rightarrow> bytes option) \<Rightarrow> trieDatabase option \<Rightarrow> trieDatabase option \<Rightarrow> bool" where
  "growsTo sha E D db db' \<longleftrightarrow> (db' = None \<longleftrightarrow> db = None) \<and> safeDb sha E db' \<and>
     (\<forall>x b. viewOf D db x = Some b \<longrightarrow> viewOf D db' x = Some b)"

lemma growsTo_refl: "safeDb sha E db \<Longrightarrow> growsTo sha E D db db"
  by (simp add: growsTo_def)

lemma growsTo_trans: "growsTo sha E D db db' \<Longrightarrow> growsTo sha E D db' db'' \<Longrightarrow> growsTo sha E D db db''"
  by (simp add: growsTo_def)

lemma growsTo_safe: "growsTo sha E D db db' \<Longrightarrow> safeDb sha E db'"
  by (simp add: growsTo_def)

definition markedHash :: "(bytes \<Rightarrow> hash) \<Rightarrow> mpt \<Rightarrow> node" where
  "markedHash sha t = hashNode (HashBytes (nodeHash sha t))"

lemma insert_store:
  assumes "safeDb sha E (Some d)" "e \<in> E" "leafOk onleaf"
  shows "\<exists>d1 d2. referenceAll ns (sha e) (dbInsert d (sha e) e) = Some d1 \<and>
     (case onleaf of None \<Rightarrow> Some d1 | Some f \<Rightarrow> leafAll f ns (sha e) d1) = Some d2 \<and>
     growsTo sha E D (Some d) (Some d2) \<and> dbNode d2 (sha e) = Some e"
proof -
  let ?d = "dbInsert d (sha e) e"
  have ag: "agrees sha d e" using assms by (simp add: safeDb_def)
  obtain d1 where d1: "referenceAll ns (sha e) ?d = Some d1" "sameBlobs ?d d1" using referenceAll_blobs [OF dbInsert_known] by blast
  have k: "tdNodes d1 (sha e) \<noteq> None" using sameBlobs_known [OF d1(2)] by simp
  have "\<exists>d2. (case onleaf of None \<Rightarrow> Some d1 | Some f \<Rightarrow> leafAll f ns (sha e) d1) = Some d2 \<and> sameBlobs d1 d2"
    using leafAll_blobs [OF _ k] assms(3) by (cases onleaf) auto
  then obtain d2 where d2: "(case onleaf of None \<Rightarrow> Some d1 | Some f \<Rightarrow> leafAll f ns (sha e) d1) = Some d2" "sameBlobs d1 d2" by blast
  have s: "sameBlobs ?d d2" using d1(2) d2(2) by (rule sameBlobs_trans)
  have "agrees sha ?d e'" if "e' \<in> E" for e'
    using assms that by (intro dbInsert_agrees) (auto simp: safeDb_def dest: inj_onD)
  then have "safeDb sha E (Some d2)" using assms(1) sameBlobs_agrees [OF s] by (simp add: safeDb_def)
  then have "growsTo sha E D (Some d) (Some d2)" using dbInsert_grows [OF ag] sameBlobs_dbNode [OF s] by (simp add: growsTo_def viewOf_def)
  moreover have "dbNode d2 (sha e) = Some e" using dbInsert_same [OF ag] sameBlobs_dbNode [OF s] by simp
  ultimately show ?thesis using d1 d2 by blast
qed

text \<open>A collapsed node that encodes a trie.\<close>

definition collapsedOk :: "(bytes \<Rightarrow> hash) \<Rightarrow> node \<Rightarrow> mpt \<Rightarrow> bool" where
  "collapsedOk sha n t \<longleftrightarrow> encVal (nodeVal n) = menc sha t \<and> length (menc sha t) < 2 ^ 62 \<and> isNode t \<and>
     (\<exists>hs. (\<exists>d. cache n = Some (hs, d)) \<and> (hs = None \<or> hs = Some (HashBytes (nodeHash sha t)))) \<and> \<not> isHash n"

lemma storeNode_alt:
  "n \<noteq> nilNode \<Longrightarrow> \<not> isHash n \<Longrightarrow> storeNode h n db force = do {
     r \<leftarrow> Encode (nodeVal n);
     case r of
       Inl err \<Rightarrow> None
     | Inr tmp \<Rightarrow>
         if length tmp < 32 \<and> \<not> force then Some (n, db)
         else do {
           (cached, _) \<leftarrow> cache n;
           let hash = (case cached of Some hash \<Rightarrow> hash | None \<Rightarrow> HashBytes (hSha h tmp));
           case db of
             None \<Rightarrow> Some (hashNode hash, db)
           | Some d \<Rightarrow> do {
               let key = BytesToHash hash;
               d \<leftarrow> referenceAll (storeChildren n) key (dbInsert d key tmp);
               d \<leftarrow> (case hOnleaf h of None \<Rightarrow> Some d | Some onleaf \<Rightarrow> leafAll onleaf (storeChildren n) key d);
               Some (hashNode hash, Some d) } } }"
  by (cases n) (clarsimp simp: storeNode_def)+

lemma storeNode_good:
  assumes c: "collapsedOk sha n t" and db: "safeDb sha E db" "menc sha t \<in> E" and h: "hSha h = sha" "leafOk (hOnleaf h)"
  shows "\<exists>db'. storeNode h n db force = Some (if force \<or> bigNode sha t then markedHash sha t else n, db') \<and> growsTo sha E D db db' \<and>
    (db \<noteq> None \<longrightarrow> force \<or> bigNode sha t \<longrightarrow> inDb sha (viewOf D db') t)"
proof -
  obtain hs d0 where hs: "cache n = Some (hs, d0)" "hs = None \<or> hs = Some (HashBytes (nodeHash sha t))" using c by (auto simp: collapsedOk_def)
  have enc: "Encode (nodeVal n) = Some (Inr (menc sha t))" using encode_nodeVal [of n] c by (simp add: collapsedOk_def)
  have key: "(case hs of Some hash \<Rightarrow> hash | None \<Rightarrow> HashBytes (hSha h (menc sha t))) = HashBytes (nodeHash sha t)"
    using hs(2) h(1) by (auto simp: nodeHash_def)
  have shape: "n \<noteq> nilNode" "\<not> isHash n" using hs(1) c by (auto simp: collapsedOk_def)
  have big: "length (menc sha t) < 32 \<and> \<not> force \<longleftrightarrow> \<not> (force \<or> bigNode sha t)" using c by (auto simp: bigNode_def collapsedOk_def)
  have st: "storeNode h n db force = (if \<not> (force \<or> bigNode sha t) then Some (n, db)
     else (case db of None \<Rightarrow> Some (markedHash sha t, db)
       | Some d \<Rightarrow> referenceAll (storeChildren n) (nodeHash sha t) (dbInsert d (nodeHash sha t) (menc sha t)) \<bind>
           (\<lambda>d. (case hOnleaf h of None \<Rightarrow> Some d | Some onleaf \<Rightarrow> leafAll onleaf (storeChildren n) (nodeHash sha t) d) \<bind>
             (\<lambda>d. Some (markedHash sha t, Some d)))))"
    by (cases db; cases "hOnleaf h") (simp_all add: storeNode_alt [OF shape] enc hs(1) key big Let_def markedHash_def)
  show ?thesis
  proof (cases "(force \<or> bigNode sha t) \<and> db \<noteq> None")
    case False
    then show ?thesis using st growsTo_refl [OF db(1)] by auto
  next
    case True
    then obtain d where d: "db = Some d" by blast
    from insert_store [OF db(1) [unfolded d] db(2) h(2), of "storeChildren n" D] obtain d1 d2 where
      "referenceAll (storeChildren n) (nodeHash sha t) (dbInsert d (nodeHash sha t) (menc sha t)) = Some d1"
      "(case hOnleaf h of None \<Rightarrow> Some d1 | Some f \<Rightarrow> leafAll f (storeChildren n) (nodeHash sha t) d1) = Some d2"
      "growsTo sha E D (Some d) (Some d2)" "dbNode d2 (nodeHash sha t) = Some (menc sha t)"
      unfolding nodeHash_def by blast
    then show ?thesis using st True d by (auto simp: inDb_def viewOf_def)
  qed
qed

section \<open>A growing database keeps what nodes stand for\<close>

definition keeps :: "(hash \<Rightarrow> bytes option) \<Rightarrow> (hash \<Rightarrow> bytes option) \<Rightarrow> bool" where
  "keeps D D' \<longleftrightarrow> (\<forall>x b. D x = Some b \<longrightarrow> D' x = Some b)"

lemma growsTo_keeps: "growsTo sha E D db db' \<Longrightarrow> keeps (viewOf D db) (viewOf D db')"
  by (simp add: growsTo_def keeps_def)

lemma keeps_refl [simp]: "keeps D D"
  by (simp add: keeps_def)

lemma inDb_mono: "inDb sha D t \<Longrightarrow> keeps D D' \<Longrightarrow> inDb sha D' t"
  by (simp add: inDb_def keeps_def)

lemma kidsStored_mono: "kidsStored sha D t \<Longrightarrow> keeps D D' \<Longrightarrow> kidsStored sha D' t"
  by (induction t) (auto intro: inDb_mono)

lemma cacheOk_mono: "cacheOk sha D force fl t \<Longrightarrow> keeps D D' \<Longrightarrow> cacheOk sha D' force fl t"
  by (auto simp: cacheOk_def intro: inDb_mono kidsStored_mono split: option.splits)

lemma repr_mono: "repr sha D force n t \<Longrightarrow> keeps D D' \<Longrightarrow> repr sha D' force n t"
proof (induction rule: repr.induct)
  case (reprFull cs ts force fl)
  have "list_all2 (repr sha D' False) cs ts" using reprFull(1,3) by (auto elim: list_all2_mono)
  then show ?case using reprFull by (auto intro: repr.reprFull cacheOk_mono)
qed (auto intro: repr.intros cacheOk_mono inDb_mono kidsStored_mono)

lemma repr_all_mono: "list_all2 (repr sha D force) cs ts \<Longrightarrow> keeps D D' \<Longrightarrow> list_all2 (repr sha D' force) cs ts"
  by (auto elim!: list_all2_mono intro: repr_mono)

section \<open>Hashing\<close>

text \<open>The encodings of the nodes of a trie.\<close>

fun nodeEncs :: "(bytes \<Rightarrow> hash) \<Rightarrow> mpt \<Rightarrow> bytes set" where
  "nodeEncs sha (Ext k t) = {menc sha (Ext k t)} \<union> nodeEncs sha t"
| "nodeEncs sha (Branch ts) = {menc sha (Branch ts)} \<union> (\<Union>t \<in> set ts. nodeEncs sha t)"
| "nodeEncs sha _ = {}"

lemma nodeEncs_self: "isNode t \<Longrightarrow> menc sha t \<in> nodeEncs sha t"
  by (cases t) auto

definition hasherOk :: "(bytes \<Rightarrow> hash) \<Rightarrow> hasher \<Rightarrow> bool" where
  "hasherOk sha h \<longleftrightarrow> hSha h = sha \<and> leafOk (hOnleaf h)"

definition hashedOk :: "(bytes \<Rightarrow> hash) \<Rightarrow> bytes set \<Rightarrow> (hash \<Rightarrow> bytes option) \<Rightarrow> trieDatabase option \<Rightarrow> bool \<Rightarrow> mpt \<Rightarrow>
    (node \<times> node \<times> trieDatabase option) option \<Rightarrow> bool" where
  "hashedOk sha E D db force t r \<longleftrightarrow> (\<exists>hn n' db'. r = Some (hn, n', db') \<and> growsTo sha E D db db' \<and> repr sha (viewOf D db') force n' t \<and>
     (if force \<or> bigNode sha t then hn = markedHash sha t else encVal (nodeVal hn) = menc sha t \<and> hn \<noteq> nilNode) \<and>
     (db \<noteq> None \<longrightarrow> kidsStored sha (viewOf D db') t \<and> (force \<or> bigNode sha t \<longrightarrow> inDb sha (viewOf D db') t)))"

text \<open>What \<open>hashChildren\<close> has to deliver.\<close>

definition childrenOk :: "(bytes \<Rightarrow> hash) \<Rightarrow> bytes set \<Rightarrow> (hash \<Rightarrow> bytes option) \<Rightarrow> trieDatabase option \<Rightarrow> nodeFlag \<Rightarrow> mpt \<Rightarrow>
    (node \<times> node \<times> trieDatabase option) option \<Rightarrow> bool" where
  "childrenOk sha E D db fl t r \<longleftrightarrow> (\<exists>c n' db'. r = Some (c, n', db') \<and> growsTo sha E D db db' \<and> collapsedOk sha c t \<and>
     ((\<exists>k v s. n' = shortNode k v fl \<and> t = Ext k s \<and> repr sha (viewOf D db') False v s) \<or>
      (\<exists>cs ts. n' = fullNode cs fl \<and> t = Branch ts \<and> list_all2 (repr sha (viewOf D db') False) cs ts)) \<and>
     (db \<noteq> None \<longrightarrow> kidsStored sha (viewOf D db') t))"

lemma hash_cached:
  assumes "repr sha (viewOf D db) force n t" "safeDb sha E db" "cache n = Some (Some hs, dirty)" "useCache h n (db \<noteq> None) = Some (Some (hn, n'))"
  shows "hashedOk sha E D db force t (Some (hn, n', db))"
proof -
  obtain fl where fl: "cacheOk sha (viewOf D db) force fl t" "nfHash fl = Some hs" "isNode t" "canUnload n g l = Some (flagCanUnload fl g l)" "nfDirty fl = dirty" for g l
    using assms(1,3) by (cases n) (auto simp: repr_short repr_full)
  then have c: "hs = HashBytes (nodeHash sha t)" "force \<or> bigNode sha t" "\<not> dirty \<Longrightarrow> inDb sha (viewOf D db) t \<and> kidsStored sha (viewOf D db) t"
    by (auto simp: cacheOk_def)
  have u: "hn = hashNode hs" "n' = n \<or> n' = hashNode hs \<and> \<not> dirty" "db \<noteq> None \<Longrightarrow> \<not> dirty"
    using assms(3,4) fl(2,4,5) by (auto simp: useCache_def flagCanUnload_def split: if_splits)
  have "repr sha (viewOf D db) force n' t" using u(2) assms(1) c fl(3) by (auto intro: reprHash)
  then show ?thesis using c u growsTo_refl [OF assms(2)] by (auto simp: hashedOk_def markedHash_def)
qed

lemma cacheOk_hash: "cacheOk sha D force fl t \<Longrightarrow> nfHash fl = None \<or> nfHash fl = Some (HashBytes (nodeHash sha t))"
  by (auto simp: cacheOk_def split: option.splits)

lemma hash_compute:
  assumes db: "safeDb sha E db" "menc sha t \<in> E" and h: "hasherOk sha h"
    and fl: "cacheOk sha (viewOf D db) force fl t" "cache n = Some (nfHash fl, nfDirty fl)" "useCache h n (db \<noteq> None) = Some None"
    and ch: "childrenOk sha E D db fl t (hashChildren h n db)"
  shows "hashedOk sha E D db force t (hashN h n db force)"
proof -
  from ch obtain c n1 db1 where c: "hashChildren h n db = Some (c, n1, db1)" "growsTo sha E D db db1" "collapsedOk sha c t"
    and n1: "(\<exists>k v s. n1 = shortNode k v fl \<and> t = Ext k s \<and> repr sha (viewOf D db1) False v s) \<or>
      (\<exists>cs ts. n1 = fullNode cs fl \<and> t = Branch ts \<and> list_all2 (repr sha (viewOf D db1) False) cs ts)"
    and kids: "db \<noteq> None \<longrightarrow> kidsStored sha (viewOf D db1) t" unfolding childrenOk_def by blast
  let ?hn = "if force \<or> bigNode sha t then markedHash sha t else c"
  from storeNode_good [OF c(3) growsTo_safe [OF c(2)] db(2), of h force D] h obtain db2 where
    st: "storeNode h c db1 force = Some (?hn, db2)" "growsTo sha E D db1 db2" "db1 \<noteq> None \<longrightarrow> force \<or> bigNode sha t \<longrightarrow> inDb sha (viewOf D db2) t"
    by (auto simp: hasherOk_def)
  have g: "growsTo sha E D db db2" using c(2) st(2) by (rule growsTo_trans)
  have none: "db1 = None \<longleftrightarrow> db = None" "db2 = None \<longleftrightarrow> db = None" using c(2) g by (simp_all add: growsTo_def)
  note k12 = growsTo_keeps [OF st(2)]
  have kids2: "db \<noteq> None \<longrightarrow> kidsStored sha (viewOf D db2) t" using kids kidsStored_mono k12 by blast
  let ?fl = "fl\<lparr>nfHash := if force \<or> bigNode sha t then Some (HashBytes (nodeHash sha t)) else None, nfDirty := nfDirty fl \<and> db = None\<rparr>"
  have clean: "nfDirty fl" if "db = None" "force \<or> bigNode sha t"
    using fl that by (auto simp: useCache_def cacheOk_def bind_eq_Some_conv split: option.splits)
  have ok: "cacheOk sha (viewOf D db2) force ?fl t" using clean kids2 st(3) none by (auto simp: cacheOk_def)
  have sc: "setCached n1 ?hn (db2 \<noteq> None) = (case n1 of shortNode k v _ \<Rightarrow> shortNode k v ?fl | fullNode cs _ \<Rightarrow> fullNode cs ?fl | m \<Rightarrow> m)"
    using n1 none c(3) by (cases c) (auto simp: markedHash_def collapsedOk_def)
  have r: "repr sha (viewOf D db2) force (setCached n1 ?hn (db2 \<noteq> None)) t"
  proof -
    from n1 consider (short) k v s where "n1 = shortNode k v fl" "t = Ext k s" "repr sha (viewOf D db1) False v s"
      | (full) cs ts where "n1 = fullNode cs fl" "t = Branch ts" "list_all2 (repr sha (viewOf D db1) False) cs ts" by blast
    then show ?thesis
    proof cases
      case short
      from reprShort [OF repr_mono [OF short(3) k12] ok [unfolded short(2)]] show ?thesis unfolding sc unfolding short(1) short(2) node.case .
    next
      case full
      from reprFull [OF repr_all_mono [OF full(3) k12] ok [unfolded full(2)]] show ?thesis unfolding sc unfolding full(1) full(2) node.case .
    qed
  qed
  have "hashN h n db force = Some (?hn, setCached n1 ?hn (db2 \<noteq> None), db2)" using fl(3) c(1) st(1) by simp
  then show ?thesis using g r kids2 st(3) none c(3) unfolding hashedOk_def collapsedOk_def by auto
qed

lemma hashedOk_child:
  assumes "hashedOk sha E D db False t (Some (hn, n', db'))" "isNode t"
  shows "growsTo sha E D db db'" "repr sha (viewOf D db') False n' t" "encVal (nodeVal hn) = mref sha t" "hn \<noteq> nilNode"
    "db \<noteq> None \<longrightarrow> stored sha (viewOf D db') t"
  using assms by (auto simp: hashedOk_def markedHash_def stored_def shrink_def bigNode_def nodeHash_def split: if_splits)

lemma bigNode_simps [simp]: "\<not> bigNode sha Empty" "\<not> bigNode sha (Leaf v)"
  by (simp_all add: bigNode_def)

definition sized :: "mpt \<Rightarrow> bool" where
  "sized t \<longleftrightarrow> wfTrie t \<and> bounded t"

lemma childrenOk_Ext:
  assumes db: "safeDb sha E db" and sz: "sized (Ext k t)" and r: "repr sha (viewOf D db) False v t"
    and fl: "cacheOk sha (viewOf D db) force fl (Ext k t)"
    and IH: "isBranch t \<Longrightarrow> hashedOk sha E D db False t (hashN h v db False)"
  shows "childrenOk sha E D db fl (Ext k t) (hashChildren h (shortNode k v fl) db)"
proof -
  have wf: "wfTrie (Ext k t)" "bounded (Ext k t)" using sz by (simp_all add: sized_def)
  have ck: "hexToCompact k = Some (compact k)" using compact_hex [OF wf_hexKey [OF wf(1)]] by simp
  have len: "length (menc sha (Ext k t)) < 2 ^ 62" using length_menc [OF wf] by simp
  have col: "collapsedOk sha (shortNode (compact k) cv fl) (Ext k t)" if "encVal (nodeVal cv) = mref sha t" for cv
    using that len cacheOk_hash [OF fl] by (simp add: collapsedOk_def)
  show ?thesis
  proof (cases "terminated k")
    case True
    from wf(1) True obtain w where w: "t = Leaf w" by (rule leaf_key)
    then have "v = valueNode w" using r by simp
    then show ?thesis using ck col [of v] w growsTo_refl [OF db]
      by (auto simp: childrenOk_def shrink_def intro!: exI [of _ "shortNode (compact k) v fl"])
  next
    case False
    note b = branch_key [OF wf(1) False]
    then have nd: "isNode t" by (simp add: isNode_def)
    obtain hn n' db' where h: "hashN h v db False = Some (hn, n', db')" using IH [OF b(3)] by (auto simp: hashedOk_def)
    note c = hashedOk_child [OF IH [OF b(3), unfolded h] nd]
    have "v \<noteq> valueNode w" for w using r b(3) by auto
    then have "hashChildren h (shortNode k v fl) db = Some (shortNode (compact k) hn fl, shortNode k n' fl, db')"
      using ck h c(4) by (cases v) auto
    then show ?thesis using col [OF c(3)] c by (auto simp: childrenOk_def stored_def)
  qed
qed

lemma hashLoop_good:
  assumes "safeDb sha E db" "list_all2 (repr sha (viewOf D db) False) cs ts"
    and "\<And>t. t \<in> set ts \<Longrightarrow> sized t"
    and "\<And>n t db. t \<in> set ts \<Longrightarrow> isNode t \<Longrightarrow> safeDb sha E db \<Longrightarrow> repr sha (viewOf D db) False n t \<Longrightarrow> hashedOk sha E D db False t (hashN h n db False)"
  shows "\<exists>cc cs' db'. hashLoop h (length cs) (cs @ [z]) db = Some (cc @ [if z = nilNode then valueNode [] else z], cs' @ [z], db') \<and>
    growsTo sha E D db db' \<and> list_all2 (repr sha (viewOf D db') False) cs' ts \<and> map (\<lambda>c. encVal (nodeVal c)) cc = map (mref sha) ts \<and>
    (db \<noteq> None \<longrightarrow> (\<forall>t \<in> set ts. stored sha (viewOf D db') t))"
  using assms
proof (induction cs arbitrary: ts db)
  case Nil
  then show ?case by (auto intro: growsTo_refl)
next
  case (Cons c cs)
  from Cons.prems(2) obtain t ts' where ts: "ts = t # ts'" "repr sha (viewOf D db) False c t" "list_all2 (repr sha (viewOf D db) False) cs ts'"
    by (cases ts) auto
  show ?case
  proof (cases "c = nilNode")
    case True
    then have t: "t = Empty" using ts(2) by simp
    from Cons.IH [OF Cons.prems(1) ts(3)] Cons.prems(3,4) ts(1) obtain cc cs' db' where
      r: "hashLoop h (length cs) (cs @ [z]) db = Some (cc @ [if z = nilNode then valueNode [] else z], cs' @ [z], db')" "growsTo sha E D db db'"
        "list_all2 (repr sha (viewOf D db') False) cs' ts'" "map (\<lambda>c. encVal (nodeVal c)) cc = map (mref sha) ts'"
        "db \<noteq> None \<longrightarrow> (\<forall>t \<in> set ts'. stored sha (viewOf D db') t)" by auto
    then show ?thesis using True t ts(1)
      by (intro exI [of _ "valueNode [] # cc"] exI [of _ "c # cs'"] exI [of _ db'])
        (auto simp: shrink_def stored_def bigNode_def simp del: encBytes_Nil)
  next
    case False
    then have nd: "isNode t" using ts wf_slot_or_node [of t] Cons.prems(3) by (auto simp: sized_def)
    have hk: "hashedOk sha E D db False t (hashN h c db False)" using Cons.prems(1,4) ts nd by simp
    then obtain hn n' db1 where h: "hashN h c db False = Some (hn, n', db1)" by (auto simp: hashedOk_def)
    note ch = hashedOk_child [OF hk [unfolded h] nd]
    have l2: "list_all2 (repr sha (viewOf D db1) False) cs ts'" using repr_all_mono [OF ts(3) growsTo_keeps [OF ch(1)]] .
    from Cons.IH [OF growsTo_safe [OF ch(1)] l2] Cons.prems(3,4) ts(1) obtain cc cs' db' where
      r: "hashLoop h (length cs) (cs @ [z]) db1 = Some (cc @ [if z = nilNode then valueNode [] else z], cs' @ [z], db')" "growsTo sha E D db1 db'"
        "list_all2 (repr sha (viewOf D db') False) cs' ts'" "map (\<lambda>c. encVal (nodeVal c)) cc = map (mref sha) ts'"
        "db1 \<noteq> None \<longrightarrow> (\<forall>t \<in> set ts'. stored sha (viewOf D db') t)" by auto
    note k = growsTo_keeps [OF r(2)]
    have "stored sha (viewOf D db') t" if "db \<noteq> None"
      using ch(5) that kidsStored_mono [OF _ k] inDb_mono [OF _ k] by (auto simp: stored_def)
    moreover have "db1 = None \<longleftrightarrow> db = None" using ch(1) by (simp add: growsTo_def)
    moreover have "hashLoop h (length (c # cs)) ((c # cs) @ [z]) db = Some (hn # cc @ [if z = nilNode then valueNode [] else z], n' # cs' @ [z], db')"
      using h r(1) False by simp
    ultimately show ?thesis using ts(1) r ch(3) growsTo_trans [OF ch(1) r(2)] repr_mono [OF ch(2) k]
      by (intro exI [of _ "hn # cc"] exI [of _ "n' # cs'"] exI [of _ db']) auto
  qed
qed

lemma list_all2_snoc: "list_all2 P (xs @ [x]) (ys @ [y]) \<Longrightarrow> list_all2 P xs ys \<and> P x y"
proof -
  assume l: "list_all2 P (xs @ [x]) (ys @ [y])"
  then have "length xs = length ys" by (auto dest: list_all2_lengthD)
  then show ?thesis using l by (simp add: list_all2_append)
qed

lemma kidsStored_snoc: "(\<forall>t \<in> set ts. stored sha D t) \<Longrightarrow> stored sha D u \<Longrightarrow> kidsStored sha D (Branch (ts @ [u]))"
  by (auto simp: stored_def)

lemma childrenOk_Branch:
  assumes db: "safeDb sha E db" and sz: "sized (Branch ts)" and r: "list_all2 (repr sha (viewOf D db) False) cs ts"
    and fl: "cacheOk sha (viewOf D db) force fl (Branch ts)"
    and IH: "\<And>n t db. t \<in> set (butlast ts) \<Longrightarrow> isNode t \<Longrightarrow> safeDb sha E db \<Longrightarrow> repr sha (viewOf D db) False n t \<Longrightarrow> hashedOk sha E D db False t (hashN h n db False)"
  shows "childrenOk sha E D db fl (Branch ts) (hashChildren h (fullNode cs fl) db)"
proof -
  have wf: "wfTrie (Branch ts)" "bounded (Branch ts)" "length ts = 17" "slot (last ts)" using sz by (simp_all add: sized_def)
  have lc: "length cs = 17" using list_all2_lengthD [OF r] wf(3) by simp
  have len: "length (menc sha (Branch ts)) < 2 ^ 62" using length_menc [OF wf(1,2)] by simp
  let ?cs = "butlast cs" and ?ts = "butlast ts" and ?z = "last cs" and ?u = "last ts"
  have spl: "cs = ?cs @ [?z]" "ts = ?ts @ [?u]" using lc wf(3) by (metis append_butlast_last_id list.size(3) zero_neq_numeral)+
  then have r2: "list_all2 (repr sha (viewOf D db) False) ?cs ?ts" "repr sha (viewOf D db) False ?z ?u"
    using r by (metis list_all2_snoc)+
  have sk: "sized t" if "t \<in> set ?ts" for t using that wf in_set_butlastD [OF that] by (auto simp: sized_def)
  from hashLoop_good [OF db r2(1) sk IH, of ?z] obtain cc cs' db' where
    h: "hashLoop h (length ?cs) (?cs @ [?z]) db = Some (cc @ [if ?z = nilNode then valueNode [] else ?z], cs' @ [?z], db')" "growsTo sha E D db db'"
      "list_all2 (repr sha (viewOf D db') False) cs' ?ts" "map (\<lambda>c. encVal (nodeVal c)) cc = map (mref sha) ?ts"
      "db \<noteq> None \<longrightarrow> (\<forall>t \<in> set ?ts. stored sha (viewOf D db') t)" by blast
  have z: "encVal (nodeVal (if ?z = nilNode then valueNode [] else ?z)) = mref sha ?u" "stored sha (viewOf D db') ?u"
    using wf(4) r2(2) by (auto elim!: slot_cases simp: shrink_def stored_def simp del: encBytes_Nil)
  have l2: "list_all2 (repr sha (viewOf D db') False) (cs' @ [?z]) ts"
    using h(3) repr_mono [OF r2(2) growsTo_keeps [OF h(2)]] by (subst spl(2)) (simp add: list_all2_appendI)
  have "concat (map (\<lambda>c. encVal (nodeVal c)) (cc @ [if ?z = nilNode then valueNode [] else ?z])) = concat (map (mref sha) ts)"
    by (simp only: concat_Branch [OF wf(3)] map_append concat_append list.map concat.simps append_Nil2 h(4) z(1))
  then have "collapsedOk sha (fullNode (cc @ [if ?z = nilNode then valueNode [] else ?z]) fl) (Branch ts)"
    using len cacheOk_hash [OF fl] by (simp add: collapsedOk_def encVals_nodeVal del: map_append concat_append)
  moreover have "db \<noteq> None \<longrightarrow> kidsStored sha (viewOf D db') (Branch ts)"
    using h(5) z(2) spl(2) by (metis kidsStored_snoc)
  moreover have "hashChildren h (fullNode cs fl) db = Some (fullNode (cc @ [if ?z = nilNode then valueNode [] else ?z]) fl, fullNode (cs' @ [?z]) fl, db')"
    using h(1) spl(1) lc by simp
  ultimately show ?thesis using h(2) l2 by (auto simp: childrenOk_def)
qed

lemma hash_hash: "hashN h (hashNode x) db force = Some (hashNode x, hashNode x, db)"
  by (simp add: useCache_def storeNode_def)

fun flagsOf :: "node \<Rightarrow> nodeFlag option" where
  "flagsOf (shortNode k v fl) = Some fl"
| "flagsOf (fullNode cs fl) = Some fl"
| "flagsOf _ = None"

lemma hashN_step:
  assumes r: "repr sha (viewOf D db) force n t" "isNode t" and db: "safeDb sha E db" "menc sha t \<in> E" and h: "hasherOk sha h"
    and ch: "\<And>fl. flagsOf n = Some fl \<Longrightarrow> cacheOk sha (viewOf D db) force fl t \<Longrightarrow> childrenOk sha E D db fl t (hashChildren h n db)"
  shows "hashedOk sha E D db force t (hashN h n db force)"
proof (cases "isHash n")
  case True
  then obtain x where x: "n = hashNode x" by (cases n) auto
  have "repr sha (viewOf D db) force (hashNode x) t" using r(1) x by simp
  then show ?thesis unfolding x hash_hash using growsTo_refl [OF db(1)] by (auto simp: hashedOk_def repr_hash markedHash_def)
next
  case False
  then obtain fl where fl: "flagsOf n = Some fl" "cache n = Some (nfHash fl, nfDirty fl)" "cacheOk sha (viewOf D db) force fl t"
    "\<And>g l. canUnload n g l = Some (flagCanUnload fl g l)"
    using r by (cases n) (auto simp: repr_short repr_full)
  have "\<exists>u. useCache h n (db \<noteq> None) = Some u" using fl(2,4) by (simp add: useCache_def)
  then consider (compute) "useCache h n (db \<noteq> None) = Some None" | (cached) hn n' where "useCache h n (db \<noteq> None) = Some (Some (hn, n'))"
    by (metis not_None_eq surj_pair)
  then show ?thesis
  proof cases
    case compute
    then show ?thesis using hash_compute [OF db h fl(3,2)] ch [OF fl(1,3)] by blast
  next
    case cached
    have "\<exists>hs. nfHash fl = Some hs" using cached fl(2,4) by (auto simp: useCache_def split: option.splits)
    then show ?thesis using hash_cached [OF r(1) db(1) _ cached] fl(2) cached by auto
  qed
qed

lemma hashN_good:
  "repr sha (viewOf D db) force n t \<Longrightarrow> isNode t \<Longrightarrow> sized t \<Longrightarrow> nodeEncs sha t \<subseteq> E \<Longrightarrow> safeDb sha E db \<Longrightarrow> hasherOk sha h \<Longrightarrow>
   hashedOk sha E D db force t (hashN h n db force)"
proof (induction t arbitrary: n db force)
  case (Ext k t)
  show ?case
  proof (rule hashN_step [OF Ext.prems(1,2,5) _ Ext.prems(6)])
    fix fl assume fl: "flagsOf n = Some fl" "cacheOk sha (viewOf D db) force fl (Ext k t)"
    then obtain c where n: "n = shortNode k c fl" "repr sha (viewOf D db) False c t"
      using Ext.prems(1) by (cases n) (auto simp: repr_short repr_full)
    have "hashedOk sha E D db False t (hashN h c db False)" if b: "isBranch t"
      using Ext.prems b n(2) by (intro Ext.IH) (auto simp: isNode_def sized_def isBranch_def slot_def)
    then show "childrenOk sha E D db fl (Ext k t) (hashChildren h n db)" unfolding n(1) using Ext.prems n fl(2) by (intro childrenOk_Ext) auto
  qed (use Ext.prems(4) in auto)
next
  case (Branch ts)
  show ?case
  proof (rule hashN_step [OF Branch.prems(1,2,5) _ Branch.prems(6)])
    fix fl assume fl: "flagsOf n = Some fl" "cacheOk sha (viewOf D db) force fl (Branch ts)"
    then obtain cs where n: "n = fullNode cs fl" "list_all2 (repr sha (viewOf D db) False) cs ts"
      using Branch.prems(1) by (cases n) (auto simp: repr_short repr_full)
    have "hashedOk sha E D db False t (hashN h c db False)"
      if b: "t \<in> set (butlast ts)" "isNode t" "safeDb sha E db" "repr sha (viewOf D db) False c t" for c t db
      using Branch.prems(3,4,6) b in_set_butlastD [OF b(1)] by (intro Branch.IH) (auto simp: sized_def)
    then show "childrenOk sha E D db fl (Branch ts) (hashChildren h n db)"
      unfolding n(1) by (intro childrenOk_Branch [OF Branch.prems(5,3) n(2) fl(2)]) blast
  qed (use Branch.prems(4) in auto)
qed simp_all

section \<open>Root hashes\<close>

definition rootHash :: "(bytes \<Rightarrow> hash) \<Rightarrow> mpt \<Rightarrow> hash" where
  "rootHash sha t = (if t = Empty then emptyRoot else nodeHash sha t)"

lemma contents_eq:
  assumes "wfTrie t" "wfTrie u" "contents t m" "contents u m"
  shows "t = u"
proof (rule contents_unique [OF assms(1,2)])
  show "mget t = mget u"
  proof
    fix k
    show "mget t k = mget u k"
    proof (cases "k \<in> range keybytesToHex")
      case True
      then show ?thesis using assms(3,4) by (auto simp: contents_def)
    next
      case False
      then have "mget t k = None" "mget u k = None" using assms(3,4) by (auto simp: contents_def)
      then show ?thesis by simp
    qed
  qed
qed

lemma hashRoot_good:
  assumes u: "repr sha (viewOf D db) True (tRoot t) u" "wfTrie u" "bounded u" and db: "safeDb sha (nodeEncs sha u) db" and leaf: "leafOk onleaf"
  shows "\<exists>n db'. hashRoot sha t db onleaf = Some (hashNode (HashBytes (rootHash sha u)), n, db') \<and> growsTo sha (nodeEncs sha u) D db db' \<and>
    repr sha (viewOf D db') True n u \<and> (db \<noteq> None \<longrightarrow> u \<noteq> Empty \<longrightarrow> kidsStored sha (viewOf D db') u \<and> inDb sha (viewOf D db') u)"
proof (cases "u = Empty")
  case True
  then show ?thesis using u growsTo_refl [OF db] by (simp add: hashRoot_def rootHash_def)
next
  case False
  then have nd: "isNode u" "tRoot t \<noteq> nilNode" using wf_slot_or_node [OF u(2)] u(1) by auto
  let ?h = "\<lparr>hSha = sha, hCachegen = tCachegen t, hCachelimit = tCachelimit t, hOnleaf = onleaf\<rparr>"
  have "hashedOk sha (nodeEncs sha u) D db True u (hashN ?h (tRoot t) db True)"
    using u nd db leaf by (intro hashN_good) (simp_all add: sized_def hasherOk_def)
  then show ?thesis using nd(2) False unfolding hashedOk_def hashRoot_def rootHash_def markedHash_def by auto
qed

lemma trieHash_holds:
  assumes "holds sha db t m"
  obtains u t' where "wfTrie u" "contents u m" "trieHash sha t = Some (rootHash sha u, t')" "holds sha db t' m"
proof -
  from assms obtain u where u: "reprDb sha db True (tRoot t) u" "wfTrie u" "contents u m" "bounded u" "smallMap m" by (rule holdsE)
  have v: "viewOf (dbNode db) None = dbNode db" by (simp add: viewOf_def)
  from hashRoot_good [of sha "dbNode db" None t u None] u obtain n db' where
    "hashRoot sha t None None = Some (hashNode (HashBytes (rootHash sha u)), n, db')" "growsTo sha (nodeEncs sha u) (dbNode db) None db'"
    "repr sha (viewOf (dbNode db) db') True n u" by (auto simp: v safeDb_def leafOk_def)
  moreover then have "db' = None" by (simp add: growsTo_def)
  ultimately show ?thesis using that [of u "t\<lparr>tRoot := n\<rparr>"] u by (auto simp: trieHash_def asHash_def holds_def v)
qed

text \<open>C12. The root hash is a function of the contents: two tries that stand for the same map, over whatever
  databases, with whatever nodes loaded, cached or still dirty, and however they were built, have the
  same root hash. Computing it does not change what they stand for.\<close>

theorem root_hash_canonical:
  assumes "holds sha db t m" "holds sha db' t' m"
  shows "\<exists>h u u'. trieHash sha t = Some (h, u) \<and> trieHash sha t' = Some (h, u') \<and> holds sha db u m \<and> holds sha db' u' m"
proof -
  from assms(1) obtain a u where a: "wfTrie a" "contents a m" "trieHash sha t = Some (rootHash sha a, u)" "holds sha db u m"
    by (rule trieHash_holds)
  from assms(2) obtain b u' where b: "wfTrie b" "contents b m" "trieHash sha t' = Some (rootHash sha b, u')" "holds sha db' u' m"
    by (rule trieHash_holds)
  have "a = b" using contents_eq a b by blast
  then show ?thesis using a b by blast
qed

theorem root_hash_canonical_witness:
  "\<exists>r1 r2 t1 t2 h u1 u2. runSteps (trieStep (NewDatabase Map.empty)) [UpdateOp [1] [2], UpdateOp [1, 3] [4]]
       \<lparr>tRoot = nilNode, tOriginalRoot = 0, tCachegen = 0, tCachelimit = 0\<rparr> = Some (r1, t1) \<and>
     runSteps (trieStep (NewDatabase Map.empty)) [UpdateOp [1, 3] [4], UpdateOp [5] [6], UpdateOp [1] [2], DeleteOp [5]]
       \<lparr>tRoot = nilNode, tOriginalRoot = 0, tCachegen = 0, tCachelimit = 0\<rparr> = Some (r2, t2) \<and>
     trieHash (\<lambda>e. of_nat (length e)) t1 = Some (h, u1) \<and> trieHash (\<lambda>e. of_nat (length e)) t2 = Some (h, u2)"
proof -
  let ?db = "NewDatabase Map.empty" and ?sha = "\<lambda>e :: bytes. of_nat (length e) :: hash"
  let ?t = "\<lparr>tRoot = nilNode, tOriginalRoot = 0, tCachegen = 0, tCachelimit = 0\<rparr>"
  let ?a = "[UpdateOp [1] [2], UpdateOp [1, 3] [4]]" and ?b = "[UpdateOp [1, 3] [4], UpdateOp [5] [6], UpdateOp [1] [2], DeleteOp [5]]"
  have h: "holds ?sha ?db ?t Map.empty" by (rule holds_empty)
  have ok: "list_all smallOp ?a" "list_all smallOp ?b" by simp_all
  have m: "snd (runSpec mapStep ?b Map.empty) = snd (runSpec mapStep ?a Map.empty)" by (auto simp: fun_eq_iff)
  obtain t1 where t1: "runSteps (trieStep ?db) ?a ?t = Some (fst (runSpec mapStep ?a Map.empty), t1)"
    "holds ?sha ?db t1 (snd (runSpec mapStep ?a Map.empty))" using triemap.run_simulates [OF h ok(1)] by blast
  obtain t2 where t2: "runSteps (trieStep ?db) ?b ?t = Some (fst (runSpec mapStep ?b Map.empty), t2)"
    "holds ?sha ?db t2 (snd (runSpec mapStep ?a Map.empty))" using triemap.run_simulates [OF h ok(2)] unfolding m by blast
  show ?thesis using t1(1) t2(1) root_hash_canonical [OF t1(2) t2(2)] by blast
qed

section \<open>Committing\<close>

text \<open>No two nodes of the trie have the same hash, none has the hash of other data in the database, and the root
  does not have one of the two hashes that stand for the empty trie.\<close>

definition noClash :: "(bytes \<Rightarrow> hash) \<Rightarrow> trieDatabase \<Rightarrow> (bytes \<rightharpoonup> bytes) \<Rightarrow> bool" where
  "noClash sha db m \<longleftrightarrow> (\<forall>u. wfTrie u \<and> contents u m \<longrightarrow>
     inj_on sha (nodeEncs sha u) \<and> (\<forall>e \<in> nodeEncs sha u. agrees sha db e) \<and> (u \<noteq> Empty \<longrightarrow> nodeHash sha u \<notin> {0, emptyRoot}))"

lemma NewTrie_stored:
  assumes "wfTrie u" "bounded u" "u \<noteq> Empty \<longrightarrow> kidsStored sha (dbNode db) u \<and> inDb sha (dbNode db) u \<and> nodeHash sha u \<notin> {0, emptyRoot}"
  shows "\<exists>t. NewTrie (rootHash sha u) db = Some (Inr t) \<and> reprDb sha db True (tRoot t) u"
proof (cases "u = Empty")
  case True
  then show ?thesis by (simp add: NewTrie_def rootHash_def)
next
  case False
  have "isNode u" using False wf_slot_or_node [OF assms(1)] by simp
  then have "reprDb sha db True (hashNode (HashBytes (nodeHash sha u))) u" using False assms(3) by (intro reprHash) simp_all
  from this assms(1,2) obtain n where "resolveHash db 0 (HashBytes (nodeHash sha u)) [] = Some (Inr n)" "reprDb sha db True n u" by (rule resolveHash_repr)
  then show ?thesis using False assms(3) by (simp add: NewTrie_def rootHash_def)
qed

text \<open>C13. A committed trie can be opened again: \<open>Commit\<close> returns the root hash, loses nothing that the database
  held, keeps the trie usable, and \<open>New\<close> at that hash gives a trie that stands for the same map.\<close>

theorem commit_reopen:
  assumes "holds sha db t m" "noClash sha db m" "leafOk onleaf"
  shows "\<exists>h t' db' v. trieCommit sha t db onleaf = Some (h, t', db') \<and> trieHash sha t = Some (h, v) \<and> holds sha db' t' m \<and>
    (\<forall>x b. dbNode db x = Some b \<longrightarrow> dbNode db' x = Some b) \<and> (\<exists>t2. NewTrie h db' = Some (Inr t2) \<and> holds sha db' t2 m)"
proof -
  from assms(1) obtain u where u: "reprDb sha db True (tRoot t) u" "wfTrie u" "contents u m" "bounded u" "smallMap m" by (rule holdsE)
  from assms(1) obtain a v where "wfTrie a" "contents a m" "trieHash sha t = Some (rootHash sha a, v)" by (rule trieHash_holds)
  then have hv: "trieHash sha t = Some (rootHash sha u, v)" using contents_eq u by blast
  have "safeDb sha (nodeEncs sha u) (Some db)" using assms(2) u by (simp add: safeDb_def noClash_def)
  with hashRoot_good [of sha "dbNode db" "Some db" t u onleaf] u assms(3) obtain n dbo where
    h: "hashRoot sha t (Some db) onleaf = Some (hashNode (HashBytes (rootHash sha u)), n, dbo)" "growsTo sha (nodeEncs sha u) (dbNode db) (Some db) dbo"
      "repr sha (viewOf (dbNode db) dbo) True n u" "u \<noteq> Empty \<longrightarrow> kidsStored sha (viewOf (dbNode db) dbo) u \<and> inDb sha (viewOf (dbNode db) dbo) u"
    by (auto simp: viewOf_def)
  then obtain db' where db': "dbo = Some db'" by (auto simp: growsTo_def)
  obtain t2 where t2: "NewTrie (rootHash sha u) db' = Some (Inr t2)" "reprDb sha db' True (tRoot t2) u"
    using NewTrie_stored [of u sha db'] u h(4) assms(2) by (auto simp: db' viewOf_def noClash_def)
  have "trieCommit sha t db onleaf = Some (rootHash sha u, t\<lparr>tRoot := n, tCachegen := tCachegen t + 1\<rparr>, db')"
    using h(1) by (simp add: trieCommit_def asHash_def db')
  then show ?thesis using hv h(2,3) t2 u by (fastforce simp: holds_def db' viewOf_def growsTo_def)
qed

definition oneLeaf :: Trie where
  "oneLeaf = \<lparr>tRoot = shortNode [0, 1, 16] (valueNode [2]) (newFlag 0), tOriginalRoot = 0, tCachegen = 0, tCachelimit = 0\<rparr>"

lemma oneLeaf_contents: "contents (Ext [0, 1, 16] (Leaf [2])) [[1] \<mapsto> [2]]"
proof -
  have k: "keybytesToHex [1] = [0, 1, 16]" by (simp add: keybytesToHex_def)
  have wf: "wfTrie (Ext [0, 1, 16] (Leaf [2]))" and t: "terminated [0, 1, 16]" by (simp_all add: terminated_Cons)
  from wf t obtain v where v: "v \<noteq> []" "Leaf [2] = Leaf v" "\<forall>k. mget (Ext [0, 1, 16] (Leaf [2])) k = (if k = [0, 1, 16] then Some v else None)" by (rule leaf_key)
  then have "mget (Ext [0, 1, 16] (Leaf [2])) x = (if x = keybytesToHex [1] then Some [2] else None)" for x by (simp add: k del: mget.simps)
  then show ?thesis by (auto simp: contents_def keybytesToHex_inj simp del: mget.simps split: if_splits)
qed

lemma oneLeaf_holds: "holds sha db oneLeaf [[1] \<mapsto> [2]]"
proof -
  have "reprDb sha db True (tRoot oneLeaf) (Ext [0, 1, 16] (Leaf [2]))" by (auto simp: oneLeaf_def intro: reprShort reprVal)
  moreover have "wfTrie (Ext [0, 1, 16] (Leaf [2]))" by (simp add: terminated_Cons)
  ultimately show ?thesis using oneLeaf_contents by (auto simp: holds_def smallMap_def)
qed

theorem commit_reopen_witness:
  "\<exists>h t' db' t2. trieCommit (\<lambda>_. 1) oneLeaf (NewDatabase Map.empty) None = Some (h, t', db') \<and> NewTrie h db' = Some (Inr t2)"
proof -
  have "noClash (\<lambda>_. 1) (NewDatabase Map.empty) [[1] \<mapsto> [2]]"
    unfolding noClash_def
  proof (intro allI impI, elim conjE)
    fix u assume u': "wfTrie u" "contents u [[1] \<mapsto> [2]]"
    have "wfTrie (Ext [0, 1, 16] (Leaf [2]))" by (simp add: terminated_Cons)
    then have u: "u = Ext [0, 1, 16] (Leaf [2])" using contents_eq u' oneLeaf_contents by blast
    show "inj_on (\<lambda>_. 1) (nodeEncs (\<lambda>_. 1) u) \<and> (\<forall>e \<in> nodeEncs (\<lambda>_. 1) u. agrees (\<lambda>_. 1) (NewDatabase Map.empty) e) \<and>
      (u \<noteq> Empty \<longrightarrow> nodeHash (\<lambda>_. 1) u \<notin> {0, emptyRoot})"
      unfolding u by (simp add: agrees_def NewDatabase_def nodeHash_def emptyRoot_def)
  qed
  then show ?thesis using commit_reopen [OF oneLeaf_holds, of "\<lambda>_. 1" "NewDatabase Map.empty" None] by (fastforce simp: leafOk_def)
qed

end
