(* ===== verification/LightNodes.thy ===== *)
theory LightNodes
  imports BigInt
begin

text \<open>
  The node sets and node lists of light clients (\<open>light/nodeset.go\<close>): how the trie nodes of a peer's answer
  are put under their hashes before a Merkle proof is verified. Locks have no effect on values; nil and empty
  slices are the same.
\<close>

section \<open>Node sets\<close>

record NodeSet =
  nsNodes :: "bytes \<rightharpoonup> bytes"
  nsOrder :: "bytes list"
  nsDataSize :: int

type_synonym NodeList = "bytes list"

datatype nodeSetError = errNotFound

definition NewNodeSet :: NodeSet where
  "NewNodeSet = \<lparr>nsNodes = Map.empty, nsOrder = [], nsDataSize = 0\<rparr>"

definition nsPut :: "NodeSet \<Rightarrow> bytes \<Rightarrow> bytes \<Rightarrow> NodeSet" where
  "nsPut db key value =
     (case nsNodes db key of
        Some _ \<Rightarrow> db
      | None \<Rightarrow> \<lparr>nsNodes = (nsNodes db)(key \<mapsto> value), nsOrder = nsOrder db @ [key], nsDataSize = nsDataSize db + int (length value)\<rparr>)"

definition nsGet :: "NodeSet \<Rightarrow> bytes \<Rightarrow> nodeSetError + bytes" where
  "nsGet db key = (case nsNodes db key of Some entry \<Rightarrow> Inr entry | None \<Rightarrow> Inl errNotFound)"

definition nsHas :: "NodeSet \<Rightarrow> bytes \<Rightarrow> bool" where
  "nsHas db key = (case nsGet db key of Inl _ \<Rightarrow> False | Inr _ \<Rightarrow> True)"

definition KeyCount :: "NodeSet \<Rightarrow> nat" where
  "KeyCount db = card (dom (nsNodes db))"

definition nsToList :: "NodeSet \<Rightarrow> NodeList" where
  "nsToList db = map (\<lambda>key. case nsNodes db key of Some value \<Rightarrow> value | None \<Rightarrow> []) (nsOrder db)"

section \<open>Node lists\<close>

fun nlStore :: "(bytes \<Rightarrow> hash) \<Rightarrow> NodeList \<Rightarrow> NodeSet \<Rightarrow> NodeSet" where
  "nlStore sha [] db = db"
| "nlStore sha (node # ns) db = nlStore sha ns (nsPut db (HashBytes (sha node)) node)"

definition nlNodeSet :: "(bytes \<Rightarrow> hash) \<Rightarrow> NodeList \<Rightarrow> NodeSet" where
  "nlNodeSet sha n = nlStore sha n NewNodeSet"

definition nlPut :: "NodeList \<Rightarrow> bytes \<Rightarrow> bytes \<Rightarrow> NodeList" where
  "nlPut n key value = n @ [value]"

definition nlDataSize :: "NodeList \<Rightarrow> int" where
  "nlDataSize n = fold (\<lambda>node size. size + int (length node)) n 0"

section \<open>Sets stay consistent\<close>

text \<open>The order lists every key once, the size is the sum of the sizes, and every node is under its hash.\<close>

definition setOk :: "(bytes \<Rightarrow> hash) \<Rightarrow> NodeSet \<Rightarrow> bool" where
  "setOk sha db \<longleftrightarrow> distinct (nsOrder db) \<and> dom (nsNodes db) = set (nsOrder db) \<and> nsDataSize db = nlDataSize (nsToList db) \<and>
     (\<forall>k b. nsNodes db k = Some b \<longrightarrow> k = HashBytes (sha b))"

lemma nlDataSize_snoc [simp]: "nlDataSize (n @ [b]) = nlDataSize n + int (length b)"
  by (simp add: nlDataSize_def)

lemma setOk_fresh: "setOk sha db \<Longrightarrow> nsNodes db k = None \<longleftrightarrow> k \<notin> set (nsOrder db)"
  unfolding setOk_def by (metis domIff)

lemma nsToList_put: "setOk sha db \<Longrightarrow> nsNodes db k = None \<Longrightarrow> nsToList (nsPut db k b) = nsToList db @ [b]"
  using setOk_fresh [of sha db k] by (auto simp: nsToList_def nsPut_def intro!: map_cong)

lemma nsPut_ok: "setOk sha db \<Longrightarrow> setOk sha (nsPut db (HashBytes (sha b)) b)"
proof (cases "nsNodes db (HashBytes (sha b))")
  case None
  assume ok: "setOk sha db"
  then have "HashBytes (sha b) \<notin> set (nsOrder db)" using None setOk_fresh by blast
  then show ?thesis using ok None nsToList_put [OF ok None, of b] by (auto simp: setOk_def nsPut_def)
qed (simp add: nsPut_def)

lemma nlStore_ok: "setOk sha db \<Longrightarrow> setOk sha (nlStore sha n db)"
  by (induction sha n db rule: nlStore.induct) (simp_all add: nsPut_ok)

lemma NewNodeSet_ok [simp]: "setOk sha NewNodeSet"
  by (simp add: setOk_def NewNodeSet_def nsToList_def nlDataSize_def)

lemma nlNodeSet_ok: "setOk sha (nlNodeSet sha n)"
  by (simp add: nlNodeSet_def nlStore_ok)

lemma nsPut_nodes: "nsNodes (nsPut db k b) x = (if nsNodes db x = None \<and> x = k then Some b else nsNodes db x)"
  by (auto simp: nsPut_def split: option.splits)

lemma nlStore_nodes: "nsNodes (nlStore sha n db) x = (case nsNodes db x of Some b \<Rightarrow> Some b | None \<Rightarrow> find (\<lambda>b. HashBytes (sha b) = x) n)"
  by (induction sha n db rule: nlStore.induct) (auto simp: nsPut_nodes split: option.splits)

text \<open>A set holds, under each hash, the first node of the list that has it.\<close>

lemma nlNodeSet_nodes: "nsNodes (nlNodeSet sha n) x = find (\<lambda>b. HashBytes (sha b) = x) n"
  by (simp add: nlNodeSet_def nlStore_nodes NewNodeSet_def)

lemma nlStore_order:
  "distinct (map (HashBytes \<circ> sha) n) \<Longrightarrow> (\<And>b. b \<in> set n \<Longrightarrow> nsNodes db (HashBytes (sha b)) = None) \<Longrightarrow>
   nsOrder (nlStore sha n db) = nsOrder db @ map (HashBytes \<circ> sha) n"
proof (induction sha n db rule: nlStore.induct)
  case (2 sha b n db)
  have "nsOrder (nsPut db (HashBytes (sha b)) b) = nsOrder db @ [HashBytes (sha b)]" using 2(3) by (simp add: nsPut_def)
  moreover have "nsNodes (nsPut db (HashBytes (sha b)) b) (HashBytes (sha c)) = None" if "c \<in> set n" for c
  proof -
    have "HashBytes (sha b) \<notin> (HashBytes \<circ> sha) ` set n" using 2(2) by simp
    then have "HashBytes (sha c) \<noteq> HashBytes (sha b)" using that by (metis comp_apply imageI)
    then show ?thesis using 2(3) that by (simp add: nsPut_nodes)
  qed
  ultimately show ?case using 2 by simp
qed simp

lemma nsToList_hashes:
  assumes "setOk sha db"
  shows "map (HashBytes \<circ> sha) (nsToList db) = nsOrder db"
proof (rule nth_equalityI)
  fix i assume "i < length (map (HashBytes \<circ> sha) (nsToList db))"
  then have i: "i < length (nsOrder db)" by (simp add: nsToList_def)
  then obtain b where b: "nsNodes db (nsOrder db ! i) = Some b" using setOk_fresh [OF assms] by fastforce
  then have "nsOrder db ! i = HashBytes (sha b)" using assms unfolding setOk_def by blast
  then show "map (HashBytes \<circ> sha) (nsToList db) ! i = nsOrder db ! i" using i b by (simp add: nsToList_def)
qed (simp add: nsToList_def)

lemma find_unique: "b \<in> set l \<Longrightarrow> P b \<Longrightarrow> (\<And>c. c \<in> set l \<Longrightarrow> P c \<Longrightarrow> c = b) \<Longrightarrow> find P l = Some b"
proof (induction l)
  case (Cons a l)
  show ?case
  proof (cases "P a")
    case True
    then have "a = b" using Cons.prems(3) [of a] by simp
    then show ?thesis using True by simp
  next
    case False
    then have "b \<in> set l" using Cons.prems(1,2) by auto
    then have "find P l = Some b" using Cons.prems(2) by (rule Cons.IH) (rule Cons.prems(3), simp)
    then show ?thesis using False by simp
  qed
qed simp

lemma nsToList_find:
  assumes "setOk sha db"
  shows "find (\<lambda>b. HashBytes (sha b) = x) (nsToList db) = nsNodes db x"
proof (cases "nsNodes db x")
  case None
  have "HashBytes (sha b) \<noteq> x" if "b \<in> set (nsToList db)" for b
  proof -
    have "HashBytes (sha b) \<in> set (map (HashBytes \<circ> sha) (nsToList db))" using that by simp
    then show ?thesis unfolding nsToList_hashes [OF assms] using None setOk_fresh [OF assms] by blast
  qed
  then show ?thesis using None by (simp add: find_None_iff)
next
  case (Some b)
  then have x: "x \<in> set (nsOrder db)" "x = HashBytes (sha b)" using setOk_fresh [OF assms, of x] assms unfolding setOk_def by (blast, blast)
  then have b: "b \<in> set (nsToList db)" using Some by (auto simp: nsToList_def intro!: image_eqI [of _ _ x])
  have u: "c = b" if c: "c \<in> set (nsToList db)" "HashBytes (sha c) = x" for c
  proof -
    obtain k where k: "k \<in> set (nsOrder db)" "c = (case nsNodes db k of Some v \<Rightarrow> v | None \<Rightarrow> [])" using c(1) unfolding nsToList_def set_map by blast
    then obtain d where "nsNodes db k = Some d" using setOk_fresh [OF assms, of k] by auto
    then have "nsNodes db k = Some c" using k(2) by simp
    then have "k = x" using assms c(2) unfolding setOk_def by metis
    then show ?thesis using \<open>nsNodes db k = Some c\<close> Some by simp
  qed
  have "find (\<lambda>b. HashBytes (sha b) = x) (nsToList db) = Some b"
    using b x(2) [symmetric] by (rule find_unique) (rule u)
  then show ?thesis using Some by simp
qed

text \<open>C35. Node sets and node lists convert into each other: turning a set made from any list into a list and back
  gives the same set, nodes, order and size; the set counts every distinct hash once and its size is the size
  of that list.\<close>

theorem nodeset_roundtrip:
  "nlNodeSet sha (nsToList (nlNodeSet sha n)) = nlNodeSet sha n \<and>
   KeyCount (nlNodeSet sha n) = card ((HashBytes \<circ> sha) ` set n) \<and> nsDataSize (nlNodeSet sha n) = nlDataSize (nsToList (nlNodeSet sha n))"
proof -
  let ?s = "nlNodeSet sha n" and ?l = "nsToList (nlNodeSet sha n)"
  have ok: "setOk sha ?s" by (rule nlNodeSet_ok)
  have nodes: "nsNodes (nlNodeSet sha ?l) = nsNodes ?s" by (rule ext) (simp add: nlNodeSet_nodes [of sha ?l] nsToList_find [OF ok])
  have "nsOrder (nlNodeSet sha ?l) = map (HashBytes \<circ> sha) ?l"
    unfolding nlNodeSet_def [of sha ?l] using ok nsToList_hashes [OF ok]
    by (subst nlStore_order) (simp_all add: setOk_def NewNodeSet_def)
  then have ord: "nsOrder (nlNodeSet sha ?l) = nsOrder ?s" using nsToList_hashes [OF ok] by simp
  have "nsToList (nlNodeSet sha ?l) = ?l" by (simp add: nsToList_def [of "nlNodeSet sha ?l"] nodes ord) (simp add: nsToList_def)
  then have size: "nsDataSize (nlNodeSet sha ?l) = nsDataSize ?s" using ok nlNodeSet_ok [of sha ?l] by (simp add: setOk_def)
  have "dom (nsNodes ?s) = (HashBytes \<circ> sha) ` set n" unfolding nlNodeSet_nodes dom_def by (auto simp: find_None_iff)
  then show ?thesis using nodes ord size ok by (auto simp: KeyCount_def setOk_def)
qed

end
