(* ===== verification/TrieProof.thy ===== *)
theory TrieProof
  imports TrieHash LightNodes
begin

text \<open>
  Merkle proofs: a list of nodes that a peer sends, put under their hashes, passes verification only with the value
  of the map behind the root hash, unless the hash function has a collision; the proofs made by \<open>Prove\<close> pass.
  Verification itself does not look at the hashes of the nodes.
\<close>

section \<open>Walking down a decoded node\<close>

text \<open>The nodes of a trie.\<close>

fun subtries :: "mpt \<Rightarrow> mpt set" where
  "subtries (Ext k t) = {Ext k t} \<union> subtries t"
| "subtries (Branch ts) = {Branch ts} \<union> (\<Union>t \<in> set ts. subtries t)"
| "subtries _ = {}"

lemma nodeEncs_subtries: "nodeEncs sha t = menc sha ` subtries t"
  by (induction t) auto

text \<open>The nodes on the way to a key.\<close>

primrec onPath :: "mpt \<Rightarrow> bytes \<Rightarrow> mpt list" where
  "onPath Empty k = []"
| "onPath (Leaf v) k = []"
| "onPath (Ext q t) k = Ext q t # (if take (length q) k = q then onPath t (drop (length q) k) else [])"
| "onPath (Branch ts) k = Branch ts # (case k of [] \<Rightarrow> [] | x # k \<Rightarrow> if unat x < length ts then (map onPath ts ! unat x) k else [])"

lemma onPath_Branch [simp]: "onPath (Branch ts) (x # k) = Branch ts # (if unat x < length ts then onPath (ts ! unat x) k else [])"
  by simp

declare onPath.simps(4) [simp del]

text \<open>Where \<open>get\<close> stops: at nothing, at a value, or at a reference to a smaller trie.\<close>

definition stops :: "(bytes \<Rightarrow> hash) \<Rightarrow> bool \<Rightarrow> mpt \<Rightarrow> bytes \<Rightarrow> bytes \<times> node \<Rightarrow> bool" where
  "stops sha atOnce t k r \<longleftrightarrow> (case r of (rest, cld) \<Rightarrow>
     (cld = nilNode \<and> mget t k = None) \<or> (\<exists>v. cld = valueNode v \<and> mget t k = Some v) \<or>
     (\<exists>s. cld = hashNode (HashBytes (nodeHash sha s)) \<and> s \<in> subtries t \<and> bigNode sha s \<and> terminated rest \<and> wfTrie s \<and>
       mget t k = mget s rest \<and> s \<in> set (onPath t k) \<and> set (onPath s rest) \<subseteq> set (onPath t k) \<and> length rest + (if atOnce then 0 else 1) \<le> length k))"

lemma stops_up:
  assumes "stops sha b t' k' r" "mget t k = mget t' k'" "subtries t' \<subseteq> subtries t" "set (onPath t' k') \<subseteq> set (onPath t k)" "length k' < length k"
  shows "stops sha False t k r"
proof -
  obtain rest cld where r: "r = (rest, cld)" by fastforce
  from assms(1) consider "cld = nilNode" "mget t' k' = None" | v where "cld = valueNode v" "mget t' k' = Some v"
    | s where "cld = hashNode (HashBytes (nodeHash sha s))" "s \<in> subtries t'" "bigNode sha s" "terminated rest" "wfTrie s" "mget t' k' = mget s rest"
      "s \<in> set (onPath t' k')" "set (onPath s rest) \<subseteq> set (onPath t' k')" "length rest \<le> length k'"
    by (auto simp: stops_def r split: if_splits)
  then show ?thesis
  proof cases
    case 3
    then show ?thesis using assms(2-5) by (auto simp: stops_def r intro!: exI [of _ s])
  qed (use assms(2) in \<open>simp_all add: stops_def r\<close>)
qed

lemma proofGet_stops:
  "repr sha D force n t \<Longrightarrow> keyOk k \<Longrightarrow> below k t \<Longrightarrow> \<not> force \<or> \<not> isHash n \<Longrightarrow> \<exists>r. proofGet n k = Some r \<and> stops sha (isHash n) t k r"
proof (induction t arbitrary: n k force)
  case Empty
  then show ?case by (simp add: stops_def)
next
  case (Leaf v)
  then show ?case using below_Leaf [OF Leaf(3)] by (simp add: stops_def)
next
  case (Ext q t)
  note wf = below_Ext [OF Ext.prems(3)]
  then have tk: "terminated k" using Ext.prems(2) by (simp add: keyOk_def)
  show ?case
  proof (cases "isHash n")
    case True
    then obtain h where "n = hashNode h" "\<not> force" using Ext.prems(4) by (cases n) auto
    then show ?thesis using Ext.prems(1) wf tk by (auto simp: repr_hash stops_def simp del: wfTrie.simps mget.simps)
  next
    case False
    from repr_Ext [OF Ext.prems(1) False] obtain c fl where n: "n = shortNode q c fl" "repr sha D False c t" by blast
    show ?thesis
    proof (cases "take (length q) k = q")
      case nt: False
      then show ?thesis unfolding n by (auto simp: stops_def)
    next
      case tq: True
      then have k: "k = q @ drop (length q) k" by (metis append_take_drop_id)
      then have ch: "keyOk (drop (length q) k) \<and> below (drop (length q) k) t"
        using wf tk below_Ext_child [of q t "drop (length q) k"] by simp
      from Ext.IH [OF n(2) conjunct1 [OF ch] conjunct2 [OF ch]] obtain r where
        r: "proofGet c (drop (length q) k) = Some r" "stops sha (isHash c) t (drop (length q) k) r" by blast
      have "\<not> length k < length q" using k by (metis length_append not_add_less1)
      then have "proofGet n k = Some r" using n(1) tq r(1) by simp
      moreover have "0 < length q" using wf by auto
      then have "length (drop (length q) k) < length k" using \<open>\<not> length k < length q\<close> unfolding length_drop by linarith
      then have "stops sha False (Ext q t) k r" using tq by (intro stops_up [OF r(2)]) auto
      then have "stops sha (isHash n) (Ext q t) k r" using n(1) by simp
      ultimately show ?thesis by blast
    qed
  qed
next
  case (Branch ts)
  note wf = below_Branch [OF Branch.prems(3)]
  then obtain x k' where k: "k = x # k'" by (cases k) auto
  then have tk: "terminated (x # k')" using Branch.prems(2) by (simp add: keyOk_def)
  note ch = below_child [OF conjunct2 [OF wf] tk]
  show ?case
  proof (cases "isHash n")
    case True
    then obtain h where "n = hashNode h" "\<not> force" using Branch.prems(4) by (cases n) auto
    then show ?thesis using Branch.prems(1) wf tk k by (auto simp: repr_hash stops_def simp del: wfTrie.simps mget_Branch intro!: exI [of _ "Branch ts"])
  next
    case False
    from repr_Branch [OF Branch.prems(1) False] obtain cs fl where n: "n = fullNode cs fl" "list_all2 (repr sha D False) cs ts" by blast
    have len: "length cs = length ts" using n(2) by (rule list_all2_lengthD)
    have "repr sha D False (cs ! unat x) (ts ! unat x)" using n(2) ch(1) len by (simp add: list_all2_nthD)
    from Branch.IH [OF nth_mem [OF ch(1)] this keyOk_tl [OF tk] ch(2)] obtain r where
      r: "proofGet (cs ! unat x) k' = Some r" "stops sha (isHash (cs ! unat x)) (ts ! unat x) k' r" by blast
    have "proofGet n k = Some r" using n(1) k r(1) ch(1) len by simp
    moreover have "subtries (ts ! unat x) \<subseteq> subtries (Branch ts)" using ch(1) by (auto intro!: bexI [of _ "ts ! unat x"])
    then have "stops sha False (Branch ts) k r" using ch(1) k by (intro stops_up [OF r(2)]) auto
    then have "stops sha (isHash n) (Branch ts) k r" using n(1) by simp
    ultimately show ?thesis by blast
  qed
qed

section \<open>Sound proofs\<close>

text \<open>The nodes of a trie, found by their hashes.\<close>

definition nodeStore :: "(bytes \<Rightarrow> hash) \<Rightarrow> mpt \<Rightarrow> hash \<Rightarrow> bytes option" where
  "nodeStore sha t x = (if x \<in> sha ` nodeEncs sha t then Some (inv_into (nodeEncs sha t) sha x) else None)"

lemma nodeStore_inDb: "inj_on sha (nodeEncs sha t) \<Longrightarrow> s \<in> subtries t \<Longrightarrow> inDb sha (nodeStore sha t) s"
  by (auto simp: inDb_def nodeStore_def nodeHash_def nodeEncs_subtries inv_into_f_f)

lemma subtries_self: "isNode t \<Longrightarrow> t \<in> subtries t"
  by (cases t) auto

lemma subtries_trans: "s \<in> subtries t \<Longrightarrow> subtries s \<subseteq> subtries t"
  by (induction t) auto

lemma subtries_bounded: "s \<in> subtries t \<Longrightarrow> bounded t \<Longrightarrow> bounded s"
  by (induction t) auto

lemma subtries_node: "s \<in> subtries t \<Longrightarrow> isNode s"
  by (induction t) auto

lemma kidsStored_subtries: "(\<And>u. u \<in> subtries s \<Longrightarrow> inDb sha D u) \<Longrightarrow> kidsStored sha D s"
proof (induction s)
  case (Ext k t)
  then show ?case using subtries_self [of t] by (auto simp: bigNode_def)
next
  case (Branch ts)
  have sub: "inDb sha D u" if "t \<in> set ts" "u \<in> subtries t" for t u using Branch.prems that by auto
  show ?case unfolding kidsStored.simps
  proof (intro ballI conjI impI)
    fix t assume t: "t \<in> set ts"
    show "kidsStored sha D t" using Branch.IH [OF t] sub [OF t] by blast
    assume "bigNode sha t"
    then show "inDb sha D t" using sub [OF t] subtries_self [of t] by (simp add: bigNode_def)
  qed
qed simp_all

text \<open>The proof holds nothing but nodes of the trie under the hashes of its nodes.\<close>

definition honest :: "(bytes \<Rightarrow> hash) \<Rightarrow> (bytes \<rightharpoonup> bytes) \<Rightarrow> mpt \<Rightarrow> bool" where
  "honest sha P t \<longleftrightarrow> inj_on sha (nodeEncs sha t) \<and> (\<forall>e \<in> nodeEncs sha t. \<forall>b. P (HashBytes (sha e)) = Some b \<longrightarrow> b = e)"

lemma copy_hash [simp]: "copy_at (HashBytes x) 0 (HashBytes y) = HashBytes y"
  by (simp add: copy_at_def length_HashBytes)

lemma verify_step:
  assumes "honest sha P t" "bounded t" "s \<in> subtries t" "wfTrie s" "terminated k" "P (HashBytes (nodeHash sha s)) \<noteq> None"
  obtains n rest cld where "P (HashBytes (nodeHash sha s)) = Some (menc sha s)" "decodeNode (Some (HashBytes (nodeHash sha s))) (menc sha s) 0 = Some (Inr n)"
    "proofGet n k = Some (rest, cld)" "stops sha False s k (rest, cld)"
proof -
  let ?D = "nodeStore sha t"
  have inj: "inj_on sha (nodeEncs sha t)" using assms(1) by (simp add: honest_def)
  have nd: "isNode s" using subtries_node [OF assms(3)] .
  have st: "inDb sha ?D u" if "u \<in> subtries s" for u using nodeStore_inDb [OF inj] that subtries_trans [OF assms(3)] by blast
  have "trieOk sha ?D s" using assms(4) subtries_bounded [OF assms(3,2)] kidsStored_subtries st by (simp add: trieOk_def)
  moreover have "cacheOk sha ?D True \<lparr>nfHash = Some (HashBytes (nodeHash sha s)), nfGen = 0, nfDirty = False\<rparr> s"
    using st subtries_self [OF nd] kidsStored_subtries st by (simp add: cacheOk_def)
  ultimately obtain n where n: "decodeNode (Some (HashBytes (nodeHash sha s))) (menc sha s) 0 = Some (Inr n)" "repr sha ?D True n s" "\<not> isHash n"
    using decodeNode_menc nd by blast
  have "below k s" "keyOk k" using assms(4,5) by (auto simp: below_def)
  from proofGet_stops [OF n(2) this(2,1)] n(3) obtain r where r: "proofGet n k = Some r" "stops sha False s k r" by auto
  have "menc sha s \<in> nodeEncs sha t" using assms(3) by (auto simp: nodeEncs_subtries)
  then have "P (HashBytes (nodeHash sha s)) = Some (menc sha s)" using assms(1,6) by (auto simp: honest_def nodeHash_def)
  then show ?thesis using that n(1) r by (cases r) blast
qed

lemma verifyFrom_sound:
  assumes "honest sha P t" "bounded t" "s \<in> subtries t" "wfTrie s" "terminated k"
  shows "\<exists>r. verifyFrom P (nodeHash sha s) k i = Some r \<and> (\<forall>v j. r = Inr (v, j) \<longrightarrow> v = mget s k)"
  using assms(3-)
proof (induction "length k" arbitrary: s k i rule: less_induct)
  case less
  show ?case
  proof (cases "P (HashBytes (nodeHash sha s)) = None")
    case True
    then show ?thesis by (simp add: verifyFrom.simps)
  next
    case False
    from assms(1,2) less.prems False obtain n rest cld where
      r: "P (HashBytes (nodeHash sha s)) = Some (menc sha s)" "decodeNode (Some (HashBytes (nodeHash sha s))) (menc sha s) 0 = Some (Inr n)"
        "proofGet n k = Some (rest, cld)" "stops sha False s k (rest, cld)" by (rule verify_step)
    from r(4) consider "cld = nilNode" "mget s k = None" | v where "cld = valueNode v" "mget s k = Some v"
      | u where "cld = hashNode (HashBytes (nodeHash sha u))" "u \<in> subtries s" "terminated rest" "wfTrie u" "mget s k = mget u rest" "length rest < length k"
      by (auto simp: stops_def)
    then show ?thesis
    proof cases
      case 1
      then show ?thesis using r(1-3) by (subst verifyFrom.simps) simp
    next
      case 2
      then show ?thesis using r(1-3) by (subst verifyFrom.simps) simp
    next
      case 3
      have "u \<in> subtries t" using 3(2) subtries_trans [OF less.prems(1)] by blast
      from less.hyps [OF 3(6) this 3(4,3)] show ?thesis using r(1-3) 3(1,5) by (subst verifyFrom.simps) simp
    qed
  qed
qed

section \<open>Complete proofs\<close>

definition inProof :: "(bytes \<Rightarrow> hash) \<Rightarrow> (bytes \<rightharpoonup> bytes) \<Rightarrow> mpt \<Rightarrow> bool" where
  "inProof sha P s \<longleftrightarrow> P (HashBytes (nodeHash sha s)) = Some (menc sha s)"

lemma verifyFrom_complete:
  assumes "honest sha P t" "bounded t" "s \<in> subtries t" "wfTrie s" "terminated k" "inProof sha P s"
    "\<And>u. u \<in> set (onPath s k) \<Longrightarrow> bigNode sha u \<Longrightarrow> inProof sha P u"
  shows "\<exists>j. verifyFrom P (nodeHash sha s) k i = Some (Inr (mget s k, j))"
  using assms(3-)
proof (induction "length k" arbitrary: s k i rule: less_induct)
  case less
  have "P (HashBytes (nodeHash sha s)) \<noteq> None" using less.prems(4) by (simp add: inProof_def)
  with assms(1,2) less.prems(1-3) obtain n rest cld where
    r: "P (HashBytes (nodeHash sha s)) = Some (menc sha s)" "decodeNode (Some (HashBytes (nodeHash sha s))) (menc sha s) 0 = Some (Inr n)"
      "proofGet n k = Some (rest, cld)" "stops sha False s k (rest, cld)" by (rule verify_step)
  from r(4) consider "cld = nilNode" "mget s k = None" | v where "cld = valueNode v" "mget s k = Some v"
    | u where "cld = hashNode (HashBytes (nodeHash sha u))" "u \<in> subtries s" "terminated rest" "wfTrie u" "mget s k = mget u rest" "length rest < length k"
      "bigNode sha u" "u \<in> set (onPath s k)" "set (onPath u rest) \<subseteq> set (onPath s k)"
    by (auto simp: stops_def)
  then show ?case
  proof cases
    case 1
    then show ?thesis using r(1-3) by (subst verifyFrom.simps) simp
  next
    case 2
    then show ?thesis using r(1-3) by (subst verifyFrom.simps) simp
  next
    case 3
    have "u \<in> subtries t" using 3(2) subtries_trans [OF less.prems(1)] by blast
    from less.hyps [OF 3(6) this 3(4,3)] less.prems(5) 3(7-9) have "\<exists>j. verifyFrom P (nodeHash sha u) rest (i + 1) = Some (Inr (mget u rest, j))" by blast
    then show ?thesis using r(1-3) 3(1,5) by (subst verifyFrom.simps) simp
  qed
qed

text \<open>The nodes that \<open>Prove\<close> collects.\<close>

definition pathNode :: "(bytes \<Rightarrow> hash) \<Rightarrow> trieDatabase \<Rightarrow> node \<Rightarrow> mpt \<Rightarrow> bool" where
  "pathNode sha db n s \<longleftrightarrow> (\<exists>force. reprDb sha db force n s) \<and> \<not> isHash n \<and> sized s \<and> isNode s"

definition proveGood :: "(bytes \<Rightarrow> hash) \<Rightarrow> trieDatabase \<Rightarrow> mpt \<Rightarrow> bytes \<Rightarrow> (trieError + node list) option \<Rightarrow> bool" where
  "proveGood sha db t k r \<longleftrightarrow> (\<exists>ns. r = Some (Inr ns) \<and> list_all2 (pathNode sha db) ns (onPath t k))"

lemma proveGood_hash:
  assumes "reprDb sha db force n t" "wfTrie t" "bounded t" "k \<noteq> []"
    and good: "\<And>n. reprDb sha db force n t \<Longrightarrow> \<not> isHash n \<Longrightarrow> proveGood sha db t k (proveNodes db g n k)"
  shows "proveGood sha db t k (proveNodes db g n k)"
proof (cases "isHash n")
  case True
  then obtain h where n: "n = hashNode h" by (cases n) auto
  from assms(1-3) obtain c where c: "resolveHash db g h [] = Some (Inr c)" "reprDb sha db force c t" "\<not> isHash c"
    unfolding n by (rule resolveHash_repr)
  have "proveNodes db g n k = proveNodes db g c k" unfolding n using c(1) assms(4) by (subst proveNodes.simps) simp
  then show ?thesis using good [OF c(2,3)] by simp
qed (use assms in blast)

lemma proveNodes_good:
  "reprDb sha db force n t \<Longrightarrow> keyOk k \<Longrightarrow> below k t \<Longrightarrow> bounded t \<Longrightarrow> proveGood sha db t k (proveNodes db g n k)"
proof (induction t arbitrary: n k force)
  case Empty
  then show ?case by (simp add: proveGood_def proveNodes.simps)
next
  case (Leaf v)
  then show ?case using below_Leaf [OF Leaf(3)] by (simp add: proveGood_def proveNodes.simps)
next
  case (Ext q t)
  note wf = below_Ext [OF Ext.prems(3)]
  then have tk: "terminated k" using Ext.prems(2) by (simp add: keyOk_def)
  show ?case
  proof (rule proveGood_hash [OF Ext.prems(1) _ Ext.prems(4)])
    fix n assume n0: "reprDb sha db force n (Ext q t)" "\<not> isHash n"
    from repr_Ext [OF this] obtain c fl where n: "n = shortNode q c fl" "reprDb sha db False c t" by blast
    have pn: "pathNode sha db n (Ext q t)" using n0 wf Ext.prems(4) unfolding pathNode_def sized_def by auto
    show "proveGood sha db (Ext q t) k (proveNodes db g n k)"
    proof (cases "take (length q) k = q")
      case False
      then have "proveNodes db g n k = Some (Inr [n])" unfolding n using wf by (subst proveNodes.simps) simp
      then show ?thesis using pn False by (simp add: proveGood_def)
    next
      case True
      then have k: "k = q @ drop (length q) k" by (metis append_take_drop_id)
      then have ch: "keyOk (drop (length q) k) \<and> below (drop (length q) k) t"
        using wf tk below_Ext_child [of q t "drop (length q) k"] by simp
      from Ext.IH [OF n(2) conjunct1 [OF ch] conjunct2 [OF ch]] Ext.prems(4) obtain ns where
        ns: "proveNodes db g c (drop (length q) k) = Some (Inr ns)" "list_all2 (pathNode sha db) ns (onPath t (drop (length q) k))"
        by (auto simp: proveGood_def)
      have "\<not> length k < length q" using k by (metis length_append not_add_less1)
      then have "proveNodes db g n k = Some (Inr (n # ns))" unfolding n using wf ns(1) True by (subst proveNodes.simps) simp
      then show ?thesis using ns(2) pn True by (simp add: proveGood_def)
    qed
  qed (use wf in blast)+
next
  case (Branch ts)
  note wf = below_Branch [OF Branch.prems(3)]
  then obtain x k' where k: "k = x # k'" by (cases k) auto
  then have tk: "terminated (x # k')" using Branch.prems(2) by (simp add: keyOk_def)
  note ch = below_child [OF conjunct2 [OF wf] tk]
  show ?case
  proof (rule proveGood_hash [OF Branch.prems(1) _ Branch.prems(4)])
    fix n assume n0: "reprDb sha db force n (Branch ts)" "\<not> isHash n"
    from repr_Branch [OF this] obtain cs fl where n: "n = fullNode cs fl" "list_all2 (reprDb sha db False) cs ts" by blast
    have pn: "pathNode sha db n (Branch ts)" using n0 wf Branch.prems(4) unfolding pathNode_def sized_def by auto
    have len: "length cs = length ts" using n(2) by (rule list_all2_lengthD)
    have "reprDb sha db False (cs ! unat x) (ts ! unat x)" using n(2) ch(1) len by (simp add: list_all2_nthD)
    from Branch.IH [OF nth_mem [OF ch(1)] this keyOk_tl [OF tk] ch(2)] Branch.prems(4) ch(1) obtain ns where
      ns: "proveNodes db g (cs ! unat x) k' = Some (Inr ns)" "list_all2 (pathNode sha db) ns (onPath (ts ! unat x) k')"
      by (auto simp: proveGood_def)
    have "proveNodes db g n k = Some (Inr (n # ns))" unfolding n k using ns(1) ch(1) len by (subst proveNodes.simps) (simp add: index_def)
    then show "proveGood sha db (Branch ts) k (proveNodes db g n k)" using ns(2) pn ch(1) k by (simp add: proveGood_def)
  qed (use wf in blast)+
qed

lemma hashChildren_good:
  assumes "pathNode sha db n s" "hasherOk sha h"
  obtains c n' where "hashChildren h n None = Some (c, n', None)" "collapsedOk sha c s"
proof -
  let ?D = "dbNode db" and ?E = "nodeEncs sha s"
  from assms(1) obtain force where r: "repr sha (viewOf ?D None) force n s" "\<not> isHash n" "sized s" "isNode s" by (auto simp: pathNode_def viewOf_def)
  have db: "safeDb sha ?E None" by (simp add: safeDb_def)
  have "\<exists>fl. childrenOk sha ?E ?D None fl s (hashChildren h n None)"
  proof (cases s)
    case (Ext k t)
    from r obtain c fl where n: "n = shortNode k c fl" "repr sha (viewOf ?D None) False c t" "cacheOk sha (viewOf ?D None) force fl s"
      unfolding Ext by (cases n) (auto simp: repr_short repr_full)
    have "hashedOk sha ?E ?D None False t (hashN h c None False)" if b: "isBranch t"
      using r b n(2) assms(2) db unfolding Ext by (intro hashN_good) (auto simp: isNode_def sized_def isBranch_def slot_def safeDb_def)
    then have "childrenOk sha ?E ?D None fl s (hashChildren h n None)" unfolding n(1) Ext using r(3) n(2,3) Ext by (intro childrenOk_Ext) (auto simp: safeDb_def)
    then show ?thesis ..
  next
    case (Branch ts)
    from r obtain cs fl where n: "n = fullNode cs fl" "list_all2 (repr sha (viewOf ?D None) False) cs ts" "cacheOk sha (viewOf ?D None) force fl s"
      unfolding Branch by (cases n) (auto simp: repr_short repr_full)
    have "hashedOk sha ?E ?D db' False t (hashN h c db' False)"
      if b: "t \<in> set (butlast ts)" "isNode t" "safeDb sha ?E db'" "repr sha (viewOf ?D db') False c t" for c t db'
      using r(3) b assms(2) in_set_butlastD [OF b(1)] unfolding Branch by (intro hashN_good) (auto simp: sized_def)
    then have "childrenOk sha ?E ?D None fl (Branch ts) (hashChildren h n None)"
      unfolding n(1) using r(3) n(2,3) db Branch by (intro childrenOk_Branch) auto
    then show ?thesis unfolding Branch ..
  qed (use r(4) in auto)
  then obtain c n' db' where c: "hashChildren h n None = Some (c, n', db')" "growsTo sha ?E ?D None db'" "collapsedOk sha c s"
    unfolding childrenOk_def by blast
  have "db' = None" using c(2) by (simp add: growsTo_def)
  then show ?thesis using that c by blast
qed

lemma onPath_subtries: "set (onPath t k) \<subseteq> subtries t"
proof (induction t arbitrary: k)
  case (Branch ts)
  then have "set (onPath (ts ! i) k) \<subseteq> subtries (Branch ts)" if "i < length ts" for i k using that nth_mem by fastforce
  then show ?case by (cases k) (auto simp: onPath.simps(4) simp del: subtries.simps, auto)
qed auto

lemma onPath_self: "isNode t \<Longrightarrow> \<exists>ss. onPath t k = t # ss"
  by (cases t) (auto simp: onPath.simps)

lemma inProof_put:
  assumes "inj_on sha (nodeEncs sha t)" "s \<in> subtries t" "u \<in> subtries t"
  shows "inProof sha P s \<or> s = u \<Longrightarrow> inProof sha (P(HashBytes (nodeHash sha u) \<mapsto> menc sha u)) s"
    "honest sha P t \<Longrightarrow> honest sha (P(HashBytes (nodeHash sha u) \<mapsto> menc sha u)) t"
  using assms by (auto simp: inProof_def honest_def nodeHash_def nodeEncs_subtries dest: inj_onD)

definition storeGood :: "(bytes \<Rightarrow> hash) \<Rightarrow> mpt \<Rightarrow> nat \<Rightarrow> mpt list \<Rightarrow> (bytes \<rightharpoonup> bytes) \<Rightarrow> (bytes \<rightharpoonup> bytes) option \<Rightarrow> bool" where
  "storeGood sha t i ss P r \<longleftrightarrow> (\<exists>P'. r = Some P' \<and> honest sha P' t \<and> (\<forall>s \<in> subtries t. inProof sha P s \<longrightarrow> inProof sha P' s) \<and>
     (\<forall>s \<in> set ss. bigNode sha s \<longrightarrow> inProof sha P' s) \<and> (\<forall>s ss'. i = 0 \<and> ss = s # ss' \<longrightarrow> inProof sha P' s))"

lemma proveStore_good:
  "list_all2 (pathNode sha db) ns ss \<Longrightarrow> set ss \<subseteq> subtries t \<Longrightarrow> honest sha P t \<Longrightarrow> hasherOk sha h \<Longrightarrow>
   storeGood sha t i ss P (proveStore h i 0 ns P)"
proof (induction ns arbitrary: ss P i)
  case Nil
  then show ?case by (simp add: storeGood_def)
next
  case (Cons n ns)
  from Cons.prems(1) obtain s ss' where ss: "ss = s # ss'" "pathNode sha db n s" "list_all2 (pathNode sha db) ns ss'" by (cases ss) auto
  have inj: "inj_on sha (nodeEncs sha t)" using Cons.prems(3) by (simp add: honest_def)
  have s: "s \<in> subtries t" "set ss' \<subseteq> subtries t" using Cons.prems(2) ss(1) by auto
  from ss(2) Cons.prems(4) obtain c n' where c: "hashChildren h n None = Some (c, n', None)" "collapsedOk sha c s" by (rule hashChildren_good)
  have "safeDb sha {menc sha s} None" by (simp add: safeDb_def)
  from storeNode_good [OF c(2) this, of h False "\<lambda>_. None"] Cons.prems(4) have
    st: "storeNode h c None False = Some (if bigNode sha s then markedHash sha s else c, None)" by (auto simp: hasherOk_def growsTo_def)
  have enc: "EncodeToBytes (nodeVal c) = Some (Inr (menc sha s))" using encode_nodeVal [of c] c(2) by (simp add: collapsedOk_def)
  have nh: "c \<noteq> hashNode x" for x using c(2) by (auto simp: collapsedOk_def)
  let ?P = "P(HashBytes (nodeHash sha s) \<mapsto> menc sha s)"
  have put: "proveStore h i 0 (n # ns) P = proveStore h (i + 1) 0 ns (if bigNode sha s \<or> i = 0 then ?P else P)"
    using c(1) st enc nh Cons.prems(4) by (cases c) (auto simp: markedHash_def nodeHash_def hasherOk_def Let_def)
  show ?case
  proof (cases "bigNode sha s \<or> i = 0")
    case True
    from Cons.IH [OF ss(3) s(2) inProof_put(2) [OF inj s(1) s(1) Cons.prems(3)] Cons.prems(4), of "i + 1"] obtain P' where
      P': "proveStore h (i + 1) 0 ns ?P = Some P'" "honest sha P' t" "\<forall>u \<in> subtries t. inProof sha ?P u \<longrightarrow> inProof sha P' u"
        "\<forall>u \<in> set ss'. bigNode sha u \<longrightarrow> inProof sha P' u" unfolding storeGood_def by blast
    have "inProof sha P' u" if "u \<in> subtries t" "inProof sha P u \<or> u = s" for u
      using P'(3) inProof_put(1) [OF inj that(1) s(1) that(2)] that(1) by blast
    then show ?thesis unfolding put storeGood_def ss(1) using True P' s(1) by auto
  next
    case False
    then show ?thesis using Cons.IH [OF ss(3) s(2) Cons.prems(3,4), of "i + 1"] unfolding put storeGood_def ss(1) by auto
  qed
qed

section \<open>Proofs of one leaf\<close>

lemma decode_leaf:
  assumes "terminated k" "length (encList (encBytes (compact k) @ encBytes v)) < 2 ^ 63"
  shows "decodeNode h (encList (encBytes (compact k) @ encBytes v)) g = Some (Inr (shortNode k (valueNode v) \<lparr>nfHash = h, nfGen = g, nfDirty = False\<rparr>))"
proof -
  let ?c = "encBytes (compact k) @ encBytes v"
  have len: "length ?c < 2 ^ 63" using assms(2) length_encList_gt [of ?c] by simp
  then have "CountValues ?c = Some (Inr 2)"
    using CountValues_valuesOf [of "[(kindOf (compact k), compact k), (kindOf v, v)]"] by simp
  then show ?thesis using decodeNodeN_list [of ?c "[]" 2] assms(2) decodeShort_leaf [OF assms(1) len] by (simp add: decodeNode_def)
qed

lemma leaf_proof:
  assumes "P (HashBytes root) = Some (encList (encBytes (compact k) @ encBytes v))"
    and "terminated k" "terminated key" "length (encList (encBytes (compact k) @ encBytes v)) < 2 ^ 63"
  shows "verifyFrom P root key i = Some (Inr (if key = k then (Some v, i + 1) else (None, i)))"
proof -
  have "key = k" if "take (length k) key = k"
    using terminated_prefix_free [of k "drop (length k) key"] assms(2,3) that by (metis append_Nil2 append_take_drop_id)
  then have "proofGet (shortNode k (valueNode v) fl) key = Some ([], if key = k then valueNode v else nilNode)" for fl by auto
  then show ?thesis using assms(1) decode_leaf [OF assms(2,4)] by (subst verifyFrom.simps) simp
qed

section \<open>Merkle proofs of a trie\<close>

text \<open>The proof holds no data with the hash of a node of the trie but that node, and no two nodes have the same hash.\<close>

definition noForgery :: "(bytes \<Rightarrow> hash) \<Rightarrow> (bytes \<rightharpoonup> bytes) \<Rightarrow> (bytes \<rightharpoonup> bytes) \<Rightarrow> bool" where
  "noForgery sha P m \<longleftrightarrow> (\<forall>u. wfTrie u \<and> contents u m \<longrightarrow> honest sha P u)"

lemma proof_trie:
  assumes "holds sha db T m" "m \<noteq> Map.empty" "noForgery sha P m"
  obtains u T' where "reprDb sha db True (tRoot T) u" "wfTrie u" "contents u m" "bounded u" "isNode u" "honest sha P u"
    "trieHash sha T = Some (nodeHash sha u, T')"
proof -
  from assms(1) obtain u where u: "reprDb sha db True (tRoot T) u" "wfTrie u" "contents u m" "bounded u" "smallMap m" by (rule holdsE)
  from assms(1) obtain a T' where a: "wfTrie a" "contents a m" "trieHash sha T = Some (rootHash sha a, T')" by (rule trieHash_holds)
  have "a = u" using contents_eq a u by blast
  moreover have "u \<noteq> Empty" using u(3) assms(2) by (auto simp: contents_def fun_eq_iff)
  moreover then have "isNode u" using wf_slot_or_node [OF u(2)] by simp
  ultimately show ?thesis using that [of u T'] u a assms(3) by (auto simp: rootHash_def noForgery_def)
qed

lemma contents_get: "contents u m \<Longrightarrow> mget u (keybytesToHex key) = m key"
  by (simp add: contents_def)

lemma oneLeaf_noForgery:
  assumes "\<And>b. P (HashBytes 1) = Some b \<Longrightarrow> b = menc (\<lambda>_. 1) (Ext [0, 1, 16] (Leaf [2]))"
  shows "noForgery (\<lambda>_. 1) P [[1] \<mapsto> [2]]"
  unfolding noForgery_def
proof (intro allI impI, elim conjE)
  fix u assume u': "wfTrie u" "contents u [[1] \<mapsto> [2]]"
  have "wfTrie (Ext [0, 1, 16] (Leaf [2]))" by (simp add: terminated_Cons)
  then have u: "u = Ext [0, 1, 16] (Leaf [2])" using contents_eq u' oneLeaf_contents by blast
  show "honest (\<lambda>_. 1) P u" unfolding u honest_def nodeEncs.simps using assms by auto
qed

text \<open>The proof that a peer sends, put under its hashes by \<open>NodeList.NodeSet\<close>.\<close>

definition proofReader :: "NodeSet \<Rightarrow> bytes \<rightharpoonup> bytes" where
  "proofReader db key = (case nsGet db key of Inl _ \<Rightarrow> None | Inr buf \<Rightarrow> Some buf)"

text \<open>A collision of the hash function: a node of the trie for \<open>m\<close> and another byte string, a node of that trie
  or one that the peer sent, have the same hash.\<close>

definition collision :: "(bytes \<Rightarrow> hash) \<Rightarrow> (bytes \<rightharpoonup> bytes) \<Rightarrow> NodeList \<Rightarrow> bool" where
  "collision sha m nodes \<longleftrightarrow> (\<exists>u e e'. wfTrie u \<and> contents u m \<and> e \<in> nodeEncs sha u \<and> e' \<in> nodeEncs sha u \<union> set nodes \<and>
     e' \<noteq> e \<and> sha e' = sha e)"

lemma proofReader_nodeSet:
  "proofReader (nlNodeSet sha l) (HashBytes x) = Some b \<Longrightarrow> b \<in> set l \<and> sha b = x"
  by (auto simp: proofReader_def nsGet_def nlNodeSet_nodes find_Some_iff split: option.splits)

lemma noForgery_nodeSet:
  assumes "\<not> collision sha m l"
  shows "noForgery sha (proofReader (nlNodeSet sha l)) m"
  unfolding noForgery_def honest_def inj_on_def using assms proofReader_nodeSet [of sha l] unfolding collision_def by blast

text \<open>C14. What a light client accepts is right, or the hash function is broken. Take the root hash of a trie
  that stands for a non-empty map, any list of byte strings that a peer sends as a proof, put under their
  hashes by \<open>NodeList.NodeSet\<close>, and any key. Either one of the byte strings or nodes collides with
  another node of the trie under the hash function, or \<open>VerifyProof\<close> returns without panicking and, when it
  returns no error, the value it returns is the one that the map has at the key, nothing when
  the key is absent.\<close>

theorem proof_sound:
  assumes "holds sha db T m" "m \<noteq> Map.empty" "trieHash sha T = Some (h, T')"
  shows "collision sha m nodes \<or>
    (\<exists>r. VerifyProof h key (proofReader (nlNodeSet sha nodes)) = Some r \<and> (\<forall>v n. r = Inr (v, n) \<longrightarrow> v = m key))"
proof (rule disjCI)
  let ?P = "proofReader (nlNodeSet sha nodes)"
  assume "\<not> (\<exists>r. VerifyProof h key ?P = Some r \<and> (\<forall>v n. r = Inr (v, n) \<longrightarrow> v = m key))"
  moreover have "\<exists>r. VerifyProof h key ?P = Some r \<and> (\<forall>v n. r = Inr (v, n) \<longrightarrow> v = m key)" if c: "\<not> collision sha m nodes"
  proof -
    from assms(1,2) noForgery_nodeSet [OF c] obtain u T'' where u: "reprDb sha db True (tRoot T) u" "wfTrie u" "contents u m"
      "bounded u" "isNode u" "honest sha ?P u" "trieHash sha T = Some (nodeHash sha u, T'')" by (rule proof_trie)
    then have h: "h = nodeHash sha u" using assms(3) by simp
    show ?thesis
      using verifyFrom_sound [OF u(6,4) subtries_self [OF u(5)] u(2) keybytesToHex_terminated, of key 0] contents_get [OF u(3), of key]
      by (simp add: VerifyProof_def h)
  qed
  ultimately show "collision sha m nodes" by blast
qed

lemma oneLeaf_noCollision: "\<not> collision (\<lambda>_. 1) [[1] \<mapsto> [2]] [menc (\<lambda>_. 1) (Ext [0, 1, 16] (Leaf [2]))]"
proof
  assume "collision (\<lambda>_. 1) [[1] \<mapsto> [2]] [menc (\<lambda>_. 1) (Ext [0, 1, 16] (Leaf [2]))]"
  then obtain u e e' where u: "wfTrie u" "contents u [[1] \<mapsto> [2]]" "e \<in> nodeEncs (\<lambda>_. 1) u"
    "e' \<in> nodeEncs (\<lambda>_. 1) u \<union> {menc (\<lambda>_. 1) (Ext [0, 1, 16] (Leaf [2]))}" "e' \<noteq> e" unfolding collision_def list.set by blast
  have "wfTrie (Ext [0, 1, 16] (Leaf [2]))" by (simp add: terminated_Cons)
  then have ue: "u = Ext [0, 1, 16] (Leaf [2])" using contents_eq u oneLeaf_contents by blast
  show False using u(3-5) unfolding ue nodeEncs.simps by blast
qed

theorem proof_sound_witness:
  "\<exists>h T'. trieHash (\<lambda>_. 1) oneLeaf = Some (h, T') \<and>
     VerifyProof h [1] (proofReader (nlNodeSet (\<lambda>_. 1) [menc (\<lambda>_. 1) (Ext [0, 1, 16] (Leaf [2]))])) = Some (Inr (Some [2], 1)) \<and>
     (\<exists>r. VerifyProof h [7] (proofReader (nlNodeSet (\<lambda>_. 1) [menc (\<lambda>_. 1) (Ext [0, 1, 16] (Leaf [2]))])) = Some r \<and>
       (\<forall>v n. r = Inr (v, n) \<longrightarrow> v = None))"
proof -
  let ?m = "[[1] \<mapsto> [2]] :: bytes \<rightharpoonup> bytes" and ?t = "Ext [0, 1, 16] (Leaf [2])"
  let ?l = "[menc (\<lambda>_. 1) ?t]"
  let ?P = "proofReader (nlNodeSet (\<lambda>_. 1) ?l)"
  have h: "holds (\<lambda>_. 1) (NewDatabase Map.empty) oneLeaf ?m" by (rule oneLeaf_holds)
  then obtain u T' where u: "wfTrie u" "contents u ?m" "trieHash (\<lambda>_. 1) oneLeaf = Some (rootHash (\<lambda>_. 1) u, T')" by (rule trieHash_holds)
  have wf: "wfTrie ?t" "terminated [0, 1, 16]" by (simp_all add: terminated_Cons)
  then have "u = ?t" using contents_eq u(1,2) oneLeaf_contents by blast
  then have r: "rootHash (\<lambda>_. 1) u = 1" by (simp add: rootHash_def nodeHash_def)
  have "?m \<noteq> Map.empty" by simp
  from proof_sound [OF h this u(3) [unfolded r], where nodes = ?l] oneLeaf_noCollision
  have ok: "\<exists>r. VerifyProof 1 key ?P = Some r \<and> (\<forall>v n. r = Inr (v, n) \<longrightarrow> v = ?m key)" for key by blast
  have e: "menc (\<lambda>_. 1) ?t = encList (encBytes (compact [0, 1, 16]) @ encBytes [2])" by (simp add: shrink_def)
  have "?P (HashBytes 1) = Some (encList (encBytes (compact [0, 1, 16]) @ encBytes [2]))"
    unfolding e by (simp add: proofReader_def nsGet_def nlNodeSet_nodes)
  moreover have "length (encList (encBytes (compact [0, 1, 16]) @ encBytes [2])) < 2 ^ 63"
    using length_menc [OF wf(1), of "\<lambda>_. 1"] unfolding e by simp
  ultimately have "verifyFrom ?P 1 [0, 1, 16] 0 = Some (Inr (Some [2], 1))"
    using leaf_proof [OF _ wf(2,2), of ?P 1 "[2]" 0] by simp
  then have "VerifyProof 1 [1] ?P = Some (Inr (Some [2], 1))" by (simp add: VerifyProof_def keybytesToHex_def)
  then show ?thesis using u(3) r ok [of "[7]"] by auto
qed

text \<open>C15. The proofs that \<open>Prove\<close> makes are complete: on a trie that stands for a non-empty map, and
  starting from a database that has no other data under the hashes of its nodes, it succeeds for every key, present or absent, and \<open>VerifyProof\<close> on its output and the root hash of the trie returns
  the value that the map has at the key.\<close>

theorem proof_complete:
  assumes "holds sha db T m" "m \<noteq> Map.empty" "noForgery sha P m"
  shows "\<exists>P' h T' n. Prove sha db T key 0 P = Some (Inr P') \<and> trieHash sha T = Some (h, T') \<and> VerifyProof h key P' = Some (Inr (m key, n))"
proof -
  from assms obtain u T' where u: "reprDb sha db True (tRoot T) u" "wfTrie u" "contents u m" "bounded u" "isNode u" "honest sha P u"
    "trieHash sha T = Some (nodeHash sha u, T')" by (rule proof_trie)
  let ?k = "keybytesToHex key" and ?h = "\<lparr>hSha = sha, hCachegen = 0, hCachelimit = 0, hOnleaf = None\<rparr>"
  have tk: "terminated ?k" by (rule keybytesToHex_terminated)
  have "keyOk ?k" "below ?k u" using tk u(2) by auto
  from proveNodes_good [OF u(1) this u(4), of "tCachegen T"] obtain ns where
    ns: "proveNodes db (tCachegen T) (tRoot T) ?k = Some (Inr ns)" "list_all2 (pathNode sha db) ns (onPath u ?k)" by (auto simp: proveGood_def)
  have "hasherOk sha ?h" by (simp add: hasherOk_def leafOk_def)
  from proveStore_good [OF ns(2) onPath_subtries u(6) this, of 0] onPath_self [OF u(5), of ?k] obtain P' where
    P': "proveStore ?h 0 0 ns P = Some P'" "honest sha P' u" "\<forall>s \<in> set (onPath u ?k). bigNode sha s \<longrightarrow> inProof sha P' s" "inProof sha P' u"
    by (auto simp: storeGood_def)
  from verifyFrom_complete [OF P'(2) u(4) subtries_self [OF u(5)] u(2) tk P'(4)] P'(3) obtain j where
    "verifyFrom P' (nodeHash sha u) ?k 0 = Some (Inr (mget u ?k, j))" by blast
  then show ?thesis using u(7) ns(1) P'(1) contents_get [OF u(3), of key] by (simp add: Prove_def VerifyProof_def)
qed

theorem proof_complete_witness:
  "\<exists>P' h T' n. Prove (\<lambda>_. 1) (NewDatabase Map.empty) oneLeaf [1] 0 Map.empty = Some (Inr P') \<and> trieHash (\<lambda>_. 1) oneLeaf = Some (h, T') \<and>
     VerifyProof h [1] P' = Some (Inr (Some [2], n))"
proof -
  let ?m = "[[1] \<mapsto> [2]] :: bytes \<rightharpoonup> bytes"
  have nf: "noForgery (\<lambda>_. 1) Map.empty ?m" by (rule oneLeaf_noForgery) simp
  have h: "holds (\<lambda>_. 1) (NewDatabase Map.empty) oneLeaf ?m" by (rule oneLeaf_holds)
  have "?m \<noteq> Map.empty" by simp
  from proof_complete [OF h this nf, of "[1]"] show ?thesis by simp
qed

text \<open>C36. \<open>VerifyProof\<close> does not check the nodes it reads against their hashes. For every root hash, key and
  value, a database that holds under the root hash the node of a single leaf with that key and value passes as a
  proof of the value: the guarantee rests on the database having every node under its own hash, which the
  function neither checks nor asks for in its comment.\<close>

theorem proof_unchecked:
  assumes "hexToCompact (keybytesToHex key) = Some c" "length (encList (encBytes c @ encBytes v)) < 2 ^ 63"
  shows "VerifyProof root key [HashBytes root \<mapsto> encList (encBytes c @ encBytes v)] = Some (Inr (Some v, 1))"
proof -
  have "c = compact (keybytesToHex key)" using assms(1) by (simp add: compact_def)
  then show ?thesis using leaf_proof [of _ root "keybytesToHex key" v "keybytesToHex key" 0] assms(2) by (simp add: VerifyProof_def)
qed

theorem proof_unchecked_witness:
  "VerifyProof 7 [1] [HashBytes 7 \<mapsto> [0xC4, 0x82, 0x20, 1, 42]] = Some (Inr (Some [42], 1))"
proof -
  have c: "hexToCompact (keybytesToHex [1]) = Some [0x20, 1]" by code_simp
  have e: "encList (encBytes [0x20, 1] @ encBytes [42]) = [0xC4, 0x82, 0x20, 1, 42]" by code_simp
  show ?thesis using proof_unchecked [OF c, of "[42]" 7] unfolding e by simp
qed

section \<open>Nodes that cannot be decoded\<close>

lemma decodeShort_empty: "length (encBytes [] @ rest) < 2 ^ 63 \<Longrightarrow> decodeShort dec h (encBytes [] @ rest) g = None"
  using SplitString_enc [of "[]" rest] by (simp add: decodeShort_def compactToHex_def keybytesToHex_def index_def del: encBytes_Nil)

text \<open>C37. A two-item node whose compact key is the empty string makes the decoder panic instead of returning an
  error, whatever its value is and whatever follows it, and so does the verification of a proof that holds
  such a node at the hash it looks for: \<open>compactToHex\<close> reads the first nibble of an empty key.\<close>

theorem empty_key_panics:
  assumes "length (encList (encBytes [] @ encBytes v) @ rest) < 2 ^ 63" "P (HashBytes root) = Some (encList (encBytes [] @ encBytes v) @ rest)"
  shows "decodeNode h (encList (encBytes [] @ encBytes v) @ rest) g = None \<and> VerifyProof root key P = None"
proof -
  let ?c = "encBytes [] @ encBytes v"
  have len: "length ?c < 2 ^ 63" using assms(1) length_encList_gt [of ?c] by simp
  then have "CountValues ?c = Some (Inr 2)"
    using CountValues_valuesOf [of "[(kindOf [], []), (kindOf v, v)]"] by (simp del: encBytes_Nil)
  then have d: "decodeNode h (encList ?c @ rest) g = None" for h g
    using decodeNodeN_list [OF assms(1)] decodeShort_empty [OF len] by (simp add: decodeNode_def del: encBytes_Nil)
  then show ?thesis unfolding VerifyProof_def by (subst verifyFrom.simps) (simp add: assms(2) del: encBytes_Nil)
qed

theorem empty_key_panics_witness:
  "decodeNode None [0xC2, 0x80, 5] 0 = None \<and> VerifyProof 7 [1, 2] [HashBytes 7 \<mapsto> [0xC2, 0x80, 5]] = None"
proof -
  have e: "encList (encBytes [] @ encBytes [5]) @ [] = [0xC2, 0x80, 5]" by code_simp
  show ?thesis using empty_key_panics [of "[5]" "[]" "[HashBytes 7 \<mapsto> [0xC2, 0x80, 5]]" 7 None 0 "[1, 2]"] unfolding e by simp
qed

end
