(* ===== verification/Spec2Isabelle.thy ===== *)
theory Spec2Isabelle
  imports Snapshots VMArith VMProps TransitionProps TrieProof
begin

text \<open>
  A verification development for the consensus core of the node: the journalled state database, the virtual
  machine that runs on it, the state transition that drives the machine, the encoding of data, and the Merkle
  Patricia trie with its proofs. All paths below are relative to the source tree.

  \<^bold>\<open>The program and its parts.\<close> A message (\<open>core/state_transition.go\<close>) buys gas from the gas pool of its block
  (\<open>core/gaspool.go\<close>) and is executed by the virtual machine (\<open>core/vm\<close>), whose entry points \<open>Call\<close>, \<open>CallCode\<close>,
  \<open>DelegateCall\<close>, \<open>StaticCall\<close> and \<open>Create\<close> start frames of the interpreter loop. The machine reads and writes accounts through
  the state database (\<open>core/state\<close>), takes a snapshot before every frame and goes back to it when the frame
  fails. Accounts and storage live in Merkle Patricia tries (\<open>trie\<close>), whose nodes are written in the recursive
  length prefix format (\<open>rlp\<close>) into a node database; light clients check answers of their peers with Merkle
  proofs (\<open>trie/proof.go\<close>, \<open>light/nodeset.go\<close>).

  \<^bold>\<open>Conventions.\<close> A Go panic is \<open>None\<close>; so is exhausted fuel and a \<open>partial_function\<close> that does not return. An \<open>error\<close> result
  is an option or the left side of a sum. \<open>uint64\<close> is a 64-bit word with wrap-around, \<open>*big.Int\<close> is \<open>int\<close>, hashes
  and addresses are 256-bit and 160-bit words, byte slices are lists of 8-bit words, nil and empty slices are
  the same. State is passed explicitly as records. Functions of packages outside of the model (Keccak and the
  other hash functions, key recovery, curve arithmetic) are parameters; what a theorem needs of them is
  a named hypothesis and has an instance in the witness of the theorem.

  \<^bold>\<open>Shared theories.\<close>
  \<^item> Prelude: bytes, slices, big-endian numbers, the lemma collections and 64-bit lemmas.
  \<^item> BigInt: \<open>math/big\<close> as far as the code uses it, \<open>common/math/big.go\<close>, \<open>common/math/integer.go\<close>, \<open>common/bytes.go\<close>
    and \<open>common/types.go\<close>.
  \<^item> Params: \<open>params/protocol_params.go\<close>, \<open>params/gas_table.go\<close> and the fork rules of \<open>params/config.go\<close>.
  \<^item> Simulation: the locale \<open>simulation\<close>, under which every run of a component gives the results of its
    specification; the trie interprets it.

  \<^bold>\<open>State database\<close> (\<open>core/state/statedb.go\<close>, \<open>state_object.go\<close>, \<open>journal.go\<close>).
  \<^item> StateDB: the records \<open>statedb\<close>, \<open>stateObject\<close>, \<open>journal\<close> and every query and update, \<open>Snapshot\<close>, \<open>RevertToSnapshot\<close>,
    \<open>Finalise\<close> and \<open>Copy\<close>, named as in the code.
  \<^item> World: the abstract specification, a \<open>world\<close> of accounts, refund, logs and preimages, the abstraction
    \<open>view\<close> and the invariant \<open>dbInv\<close>.
  \<^item> Journal: every update refines its specification, every journal entry undoes its update.
  \<^item> Snapshots: the locale \<open>snapshot_store\<close>, its interpretation on the database, and the properties of runs: revert
    restores, runs refine the world, reads return it.

  \<^bold>\<open>Virtual machine\<close> (\<open>core/vm\<close>).
  \<^item> VMData: stack, memory, contracts and jump destination analysis (\<open>stack.go\<close>, \<open>memory.go\<close>, \<open>contract.go\<close>,
    \<open>analysis.go\<close>, \<open>common.go\<close>). Precompiles: \<open>contracts.go\<close>. EVMState: \<open>Context\<close>, \<open>Config\<close>, \<open>EVM\<close> and the
    transfer functions of \<open>core/evm.go\<close>. VMGas: \<open>gas.go\<close>, \<open>gas_table.go\<close>. Instructions: \<open>instructions.go\<close>, one
    definition per function. JumpTable: \<open>opcodes.go\<close>, \<open>jump_table.go\<close>. Interpreter: \<open>interpreter.go\<close>, \<open>evm.go\<close>.
  \<^item> VMFacts, VMArith, VMProps: facts on the data structures; the arithmetic instructions equal the operations on
    256-bit words; memory fee, memory round trip and jump destinations.
  \<^item> PrecompileFacts, EVMInv, EVMOps, EVMGas, EVMMem, EVMCalls, EVMCallOps, EVMTable, EVMFuel: the invariants of frames and
    worlds, and that every instruction, cost function, precompiled contract, entry point and table entry keeps them.
  \<^item> EVMSafe: the interpreter as a whole. Every frame returns, gas and money are not created, failed calls change
    nothing, static calls change nothing observable, creations deploy the returned code.

  \<^bold>\<open>Messages.\<close> Transition: \<open>core/state_transition.go\<close>, \<open>core/gaspool.go\<close>, \<open>core/error.go\<close>. TransitionProps: applying a
  message returns, balances the books, and changes nothing when the message is refused.

  \<^bold>\<open>Encoding\<close> (\<open>rlp\<close>).
  \<^item> Rlp: types, values, the encoding buffer (\<open>encode.go\<close>) and the splitter (\<open>raw.go\<close>). RlpStream: the stream
    and the decoders (\<open>decode.go\<close>) on a byte slice.
  \<^item> RlpEncode: the buffer gives the recursive definition of the format. RlpDecode, RlpProps: decoding returns and
    accepts only canonical input. RlpRound: encoded values decode to themselves, up to nil and empty. RlpRaw: splitting.

  \<^bold>\<open>Merkle Patricia trie\<close> (\<open>trie\<close>).
  \<^item> TrieCodec: \<open>encoding.go\<close>. Trie: \<open>node.go\<close>, \<open>trie.go\<close>, \<open>hasher.go\<close>, \<open>proof.go\<close>, \<open>errors.go\<close> and the
    insertion, lookup and reference counting of \<open>database.go\<close>. LightNodes: \<open>light/nodeset.go\<close>.
  \<^item> TrieMap: tries as values; a well-formed trie is determined by its contents. TrieNode: which nodes, loaded or
    not and with which cached hashes, stand for which trie. TrieOps, TrieDelete, TrieProps: lookups, updates and
    deletes refine a map. TrieHash: the root hash depends on the contents only, and a committed trie can be opened
    again. TrieProof: verification of proofs is sound up to a hash collision, and complete.

  \<^bold>\<open>Fuel and bounds.\<close> The interpreter loop takes a fuel that each iteration and each nested call uses up. Every
  instruction costs gas, and a callee gets less than its caller was charged, so a fuel above the gas of the
  frame is enough (\<open>interpreter_returns\<close>) and any larger fuel gives the same result (\<open>fuel_irrelevant\<close>). Frames have
  at most \<open>2^60\<close> gas and inputs of at most \<open>2^41\<close> bytes; below these the fee of every memory that a frame can pay
  for does not wrap. \<open>DecodeBytes\<close> takes a fuel for lists and interfaces; one more than the length of the input
  is enough (\<open>decode_returns\<close>), since every element uses up input. Inputs are below \<open>2^62\<close> bytes, so that sizes do not wrap. \<open>decodeNode\<close>
  takes its fuel from the length of the node. The walks through the trie are partial functions, and the
  theorems show that they return on the tries they are about.

  \<^bold>\<open>Not modelled, and why.\<close>
  \<^item> State database: \<open>Commit\<close> to disk, the iterator and the memoized database errors; tries are finite maps there, and
    their root is a parameter. Lists of \<open>dirties\<close> are visited in a given order, since Go leaves it open.
  \<^item> Virtual machine: tracing, custom jump tables, opcode names, and the integer pool, which has no effect on values.
  \<^item> Encoding: recursive types, types with their own encoder or decoder (the trie's full node apart),
    readers other than byte slices, and the reflection cache.
  \<^item> Trie: printing, cache counters, iterators, synchronisation and the secure trie; of the node database the
    removal of references, writing to disk and preimages. Of the node sets the copy into another database.
  \<^item> Block chain, transaction pool, mining, networking, key storage, consoles and tools: they are driven by
    goroutines, channels, sockets, files and user input, around the parts above.
\<close>

end
